(* ===== verification/Prelude.thy ===== *)
theory Prelude
  imports
    Main
    "HOL-Library.AList"
    "HOL-Library.Char_ord"
    "HOL-Library.List_Lexorder"
    "HOL-Library.Product_Lexorder"
    "HOL-Library.Multiset"
begin

section \<open>Shared vocabulary of the development\<close>

text \<open>
  What every component of the router's Go services relies on: Go maps, \<open>sort.Slice\<close>, the
  64-bit arithmetic of \<open>time.Duration\<close>, the clock, and the contract of a comparison function
  (locale \<open>key_sort\<close>), whose lemmas every component that sorts reuses.

  A Go map is an association list with distinct keys. Its order stands for the order in which
  one \<open>range\<close> loop happens to visit the entries, which Go leaves open; the theorems about
  loops over maps therefore say that the result does not depend on it.
\<close>

named_theorems gomap \<open>rewrite rules for Go maps\<close>
named_theorems step_defs \<open>unfolding rules for the operations of a component\<close>

subsection \<open>Types\<close>

type_synonym ('k, 'v) gomap = "('k \<times> 'v) list"

text \<open>A \<open>time.Time\<close> as Unix nanoseconds and a \<open>time.Duration\<close> as nanoseconds.\<close>

type_synonym time = int
type_synonym duration = int

abbreviation Millisecond :: duration where "Millisecond \<equiv> 1000000"
abbreviation Second :: duration where "Second \<equiv> 1000000000"

text \<open>\<open>time.Time{}\<close> is the first of January of year 1; \<open>IsZero\<close> tests for it.\<close>

definition zero_time :: time where
  "zero_time = - 62135596800 * Second"

definition IsZero :: "time \<Rightarrow> bool" where
  "IsZero t \<longleftrightarrow> t = zero_time"

definition UnixMilli :: "time \<Rightarrow> int" where
  "UnixMilli t = t div Millisecond"

text \<open>Two's complement wrap-around of \<open>int64\<close> (and of \<open>time.Duration\<close>).\<close>

definition wrap64 :: "int \<Rightarrow> int" where
  "wrap64 x = (x + 2 ^ 63) mod 2 ^ 64 - 2 ^ 63"

definition in_int64 :: "int \<Rightarrow> bool" where
  "in_int64 x \<longleftrightarrow> - (2 ^ 63) \<le> x \<and> x < 2 ^ 63"

lemma wrap64_in_int64 [simp]: "in_int64 (wrap64 x)"
proof -
  have "0 \<le> (x + 2 ^ 63) mod 2 ^ 64" "(x + 2 ^ 63) mod 2 ^ 64 < (2::int) ^ 64"
    by (rule pos_mod_sign, simp, rule pos_mod_bound, simp)
  then show ?thesis by (simp add: wrap64_def in_int64_def)
qed

lemma wrap64_id: "in_int64 x \<Longrightarrow> wrap64 x = x"
  by (simp add: wrap64_def in_int64_def)

subsection \<open>Go maps\<close>

definition mget :: "('k, 'v) gomap \<Rightarrow> 'k \<Rightarrow> 'v option" where
  "mget m k = map_of m k"

definition mput :: "'k \<Rightarrow> 'v \<Rightarrow> ('k, 'v) gomap \<Rightarrow> ('k, 'v) gomap" where
  "mput k v m = AList.update k v m"

definition mdel :: "'k \<Rightarrow> ('k, 'v) gomap \<Rightarrow> ('k, 'v) gomap" where
  "mdel k m = filter (\<lambda>(k', _). k' \<noteq> k) m"

text \<open>Deleting, while ranging, every entry that fails a test of key and value.\<close>

definition mkeep :: "('k \<Rightarrow> 'v \<Rightarrow> bool) \<Rightarrow> ('k, 'v) gomap \<Rightarrow> ('k, 'v) gomap" where
  "mkeep p m = filter (\<lambda>(k, v). p k v) m"

definition mvals :: "('k, 'v) gomap \<Rightarrow> 'v list" where
  "mvals m = map snd m"

definition mkeys :: "('k, 'v) gomap \<Rightarrow> 'k list" where
  "mkeys m = map fst m"

definition mhas :: "('k, 'v) gomap \<Rightarrow> 'k \<Rightarrow> bool" where
  "mhas m k \<longleftrightarrow> mget m k \<noteq> None"

definition wf_map :: "('k, 'v) gomap \<Rightarrow> bool" where
  "wf_map m \<longleftrightarrow> distinct (map fst m)"

text \<open>Two representations of the same Go map.\<close>

definition same_map :: "('k, 'v) gomap \<Rightarrow> ('k, 'v) gomap \<Rightarrow> bool" where
  "same_map m m' \<longleftrightarrow> wf_map m \<and> wf_map m' \<and> mget m = mget m'"

lemma mget_Nil [simp]: "mget [] k = None"
  by (simp add: mget_def)

lemma mget_Cons: "mget ((k', v) # m) k = (if k = k' then Some v else mget m k)"
  by (simp add: mget_def)

lemma wf_map_Nil [simp]: "wf_map []"
  by (simp add: wf_map_def)

lemma mget_mput [gomap]: "mget (mput k v m) k' = (if k' = k then Some v else mget m k')"
  by (simp add: mget_def mput_def update_conv')

lemma wf_mput [simp]: "wf_map m \<Longrightarrow> wf_map (mput k v m)"
  by (simp add: wf_map_def mput_def distinct_update)

lemma mget_mdel [gomap]: "mget (mdel k m) k' = (if k' = k then None else mget m k')"
  by (induction m) (auto simp: mget_def mdel_def)

lemma wf_filter: "wf_map m \<Longrightarrow> wf_map (filter p m)"
  by (induction m) (auto simp: wf_map_def)

lemma wf_mdel [simp]: "wf_map m \<Longrightarrow> wf_map (mdel k m)"
  by (simp add: mdel_def wf_filter)

lemma wf_mkeep [simp]: "wf_map m \<Longrightarrow> wf_map (mkeep p m)"
  by (simp add: mkeep_def wf_filter)

lemma mget_mkeep [gomap]:
  "wf_map m \<Longrightarrow> mget (mkeep p m) k =
     (case mget m k of None \<Rightarrow> None | Some v \<Rightarrow> if p k v then Some v else None)"
  by (induction m) (auto simp: mget_def mkeep_def wf_map_def map_of_eq_None_iff split: option.splits)

lemma mget_in_set: "wf_map m \<Longrightarrow> mget m k = Some v \<longleftrightarrow> (k, v) \<in> set m"
  by (simp add: mget_def wf_map_def)

lemma mget_None: "mget m k = None \<longleftrightarrow> k \<notin> set (mkeys m)"
  by (simp add: mget_def mkeys_def map_of_eq_None_iff)

lemma mget_SomeD: "mget m k = Some v \<Longrightarrow> (k, v) \<in> set m"
  by (simp add: mget_def map_of_SomeD)

lemma mvals_iff: "wf_map m \<Longrightarrow> v \<in> set (mvals m) \<longleftrightarrow> (\<exists>k. mget m k = Some v)"
  by (force simp: mvals_def mget_in_set)

lemma same_map_set: "same_map m m' \<Longrightarrow> set m = set m'"
  by (metis same_map_def mget_in_set set_eqI surj_pair)

lemma same_map_mset:
  assumes "same_map m m'"
  shows "mset m = mset m'"
proof -
  have "distinct m" "distinct m'"
    using assms by (auto simp: same_map_def wf_map_def distinct_map)
  then show ?thesis
    using same_map_set [OF assms] by (simp add: set_eq_iff_mset_eq_distinct)
qed

lemma mset_same_map: "wf_map m \<Longrightarrow> mset m = mset m' \<Longrightarrow> same_map m m'"
proof -
  assume wf: "wf_map m" and eq: "mset m = mset m'"
  have "mset (map fst m) = mset (map fst m')" using eq by simp
  then have "wf_map m'" using wf unfolding wf_map_def by (metis mset_eq_imp_distinct_iff)
  moreover have "set m = set m'" using eq by (metis set_mset_mset)
  moreover from calculation have "map_of m = map_of m'"
    using wf by (simp add: wf_map_def map_of_inject_set)
  ultimately show "same_map m m'"
    using wf by (simp add: same_map_def mget_def fun_eq_iff)
qed

lemma same_map_vals: "same_map m m' \<Longrightarrow> mset (mvals m) = mset (mvals m')"
  by (simp add: mvals_def same_map_mset)

lemma same_map_filter: "same_map m m' \<Longrightarrow> mset (filter p m) = mset (filter p m')"
  by (simp add: same_map_mset)

lemma same_map_refl: "wf_map m \<Longrightarrow> same_map m m"
  by (simp add: same_map_def)

lemma filter_none: "(\<And>x. x \<in> set xs \<Longrightarrow> \<not> p x) \<Longrightarrow> filter p xs = []"
  by (induction xs) auto

lemma at_most_one_entry:
  assumes "wf_map m" and "\<And>k' v. (k', v) \<in> set m \<Longrightarrow> p v \<Longrightarrow> k' = k"
  shows "length (filter p (mvals m)) \<le> 1"
  using assms
proof (induction m)
  case Nil
  then show ?case by (simp add: mvals_def)
next
  case (Cons kv m)
  have tail: "wf_map m" and fresh: "fst kv \<notin> fst ` set m"
    using Cons.prems(1) by (simp_all add: wf_map_def)
  show ?case
  proof (cases "p (snd kv)")
    case True
    then have "fst kv = k" using Cons.prems(2) [of "fst kv" "snd kv"] by simp
    have "\<not> p v" if "v \<in> set (mvals m)" for v
    proof
      assume "p v"
      obtain k' where k': "(k', v) \<in> set m" using \<open>v \<in> set (mvals m)\<close> by (auto simp: mvals_def)
      then have "k' = k" using Cons.prems(2) [of k' v] \<open>p v\<close> by simp
      then show False using k' fresh \<open>fst kv = k\<close> by (metis fst_conv imageI)
    qed
    then show ?thesis using filter_none [of "mvals m" p] by (simp add: mvals_def)
  next
    case False
    have "length (filter p (mvals m)) \<le> 1"
      by (rule Cons.IH [OF tail]) (use Cons.prems(2) in auto)
    then show ?thesis using False by (simp add: mvals_def)
  qed
qed

lemma find_only:
  assumes "c \<in> set xs" and "p c" and only: "\<forall>x \<in> set xs. p x \<longrightarrow> x = c"
  shows "find p xs = Some c"
proof (cases "find p xs")
  case None
  then show ?thesis using assms(1,2) by (simp add: find_None_iff)
next
  case (Some y)
  then have "y \<in> set xs \<and> p y" by (auto simp: find_Some_iff)
  then show ?thesis using Some only by simp
qed

lemma two_elems: "x \<in> set L \<Longrightarrow> y \<in> set L \<Longrightarrow> x \<noteq> y \<Longrightarrow> 1 < length L"
  by (cases L; cases "tl L") auto

lemma count_vals:
  assumes "wf_map m"
  shows "length (filter p (mvals m)) = card {k. \<exists>v. mget m k = Some v \<and> p v}"
proof -
  have "inj_on fst (set (filter (\<lambda>kv. p (snd kv)) m))"
    using assms by (auto simp: wf_map_def distinct_map inj_on_def)
  moreover have "distinct (filter (\<lambda>kv. p (snd kv)) m)"
    using assms by (simp add: wf_map_def distinct_map)
  ultimately have "length (filter (\<lambda>kv. p (snd kv)) m) = card (fst ` set (filter (\<lambda>kv. p (snd kv)) m))"
    by (metis card_image distinct_card)
  moreover have "fst ` set (filter (\<lambda>kv. p (snd kv)) m) = {k. \<exists>v. mget m k = Some v \<and> p v}"
    using assms by (force simp: mget_in_set)
  ultimately show ?thesis by (simp add: mvals_def filter_map comp_def)
qed

text \<open>Filling a map entry by entry.\<close>

definition mputs :: "('k \<times> 'v) list \<Rightarrow> ('k, 'v) gomap \<Rightarrow> ('k, 'v) gomap" where
  "mputs kvs m = foldl (\<lambda>m (k, v). mput k v m) m kvs"

lemma mputs_simps [simp]: "mputs [] m = m" "mputs ((k, v) # kvs) m = mputs kvs (mput k v m)"
  by (simp_all add: mputs_def)

lemma wf_mputs: "wf_map m \<Longrightarrow> wf_map (mputs kvs m)"
  by (induction kvs arbitrary: m) auto

lemma mget_mputs:
  "wf_map kvs \<Longrightarrow> mget (mputs kvs m) k = (case mget kvs k of None \<Rightarrow> mget m k | Some v \<Rightarrow> Some v)"
proof (induction kvs arbitrary: m)
  case (Cons kv kvs)
  obtain k' v where kv: "kv = (k', v)" by (cases kv)
  then have "wf_map kvs" "mget kvs k' = None"
    using Cons.prems by (auto simp: wf_map_def mget_None mkeys_def)
  then show ?case using Cons.IH [of "mput k' v m"]
    by (auto simp: kv mget_Cons mget_mput split: option.splits)
qed simp

lemma mputs_append: "mputs (xs @ ys) m = mputs ys (mputs xs m)"
  by (induction xs arbitrary: m) auto

lemma mget_mputs_origin:
  "mget (mputs kvs m) k = Some v \<Longrightarrow> (k, v) \<in> set kvs \<or> mget m k = Some v"
proof (induction kvs arbitrary: m)
  case (Cons kv kvs)
  then show ?case by (cases kv) (fastforce simp: mget_mput split: if_splits)
qed simp

lemma mputs_origin: "mget (mputs kvs []) k = Some v \<Longrightarrow> (k, v) \<in> set kvs"
  using mget_mputs_origin [of kvs "[]" k v] by simp

lemma mget_mputs_consistent:
  assumes "\<And>k v. (k, v) \<in> set kvs \<Longrightarrow> f k = Some v" "mget m k = None \<or> mget m k = f k"
  shows "mget (mputs kvs m) k = (if k \<in> fst ` set kvs then f k else mget m k)"
  using assms
proof (induction kvs arbitrary: m)
  case (Cons kv kvs)
  obtain a b where ab: "kv = (a, b)" by (cases kv)
  have "mget (mput a b m) k = None \<or> mget (mput a b m) k = f k"
    using Cons.prems(2) Cons.prems(1) [of a b] by (auto simp: ab mget_mput)
  from Cons.IH [OF Cons.prems(1) this] show ?case
    using Cons.prems(1) [of a b] by (auto simp: ab mget_mput)
qed simp

lemma mget_mputs_same:
  assumes "\<And>k v. (k, v) \<in> set kvs \<Longrightarrow> f k = Some v" "\<And>v. f k = Some v \<Longrightarrow> (k, v) \<in> set kvs"
  shows "mget (mputs kvs []) k = f k"
  using mget_mputs_consistent [of kvs f "[]" k] assms by (cases "f k") force+

subsection \<open>sort.Slice\<close>

text \<open>
  \<open>sort.Slice\<close> takes the comparison as a function. The model inserts from the right and puts
  an element before those it is not greater than, which is the result \<open>sort.SliceStable\<close>
  promises and one of the results \<open>sort.Slice\<close> may give.
\<close>

fun insert_by :: "('a \<Rightarrow> 'a \<Rightarrow> bool) \<Rightarrow> 'a \<Rightarrow> 'a list \<Rightarrow> 'a list" where
  "insert_by lt x [] = [x]"
| "insert_by lt x (y # ys) = (if lt y x then y # insert_by lt x ys else x # y # ys)"

definition sort_by :: "('a \<Rightarrow> 'a \<Rightarrow> bool) \<Rightarrow> 'a list \<Rightarrow> 'a list" where
  "sort_by lt xs = foldr (insert_by lt) xs []"

lemma mset_insert_by [simp]: "mset (insert_by lt x ys) = add_mset x (mset ys)"
  by (induction ys) auto

lemma mset_sort_by [simp]: "mset (sort_by lt xs) = mset xs"
  by (induction xs) (auto simp: sort_by_def)

lemma set_sort_by [simp]: "set (sort_by lt xs) = set xs"
  by (metis mset_sort_by set_mset_mset)

lemma length_sort_by [simp]: "length (sort_by lt xs) = length xs"
  by (metis mset_sort_by size_mset)

lemma map_insert_by:
  "map g (insert_by (\<lambda>a b. lt (g a) (g b)) x ys) = insert_by lt (g x) (map g ys)"
  by (induction ys) auto

lemma map_sort_by: "map g (sort_by (\<lambda>a b. lt (g a) (g b)) xs) = sort_by lt (map g xs)"
  by (induction xs) (simp_all add: sort_by_def map_insert_by)

lemma sorted_take_drop:
  fixes f :: "'a \<Rightarrow> 'k::linorder"
  assumes "sorted (map f xs)" and "a \<in> set (take n xs)" and "b \<in> set (drop n xs)"
  shows "f a \<le> f b"
proof -
  have "sorted (map f (take n xs) @ map f (drop n xs))"
    using assms(1) by (simp flip: map_append)
  then show ?thesis using assms(2,3) by (simp add: sorted_append)
qed

text \<open>
  The contract of a comparison function: it orders by a key. Everything a client needs of the
  sort follows, in particular that the order in which a map was visited cannot be seen in the
  result when the keys differ.
\<close>

locale key_sort =
  fixes lt :: "'a \<Rightarrow> 'a \<Rightarrow> bool" and key :: "'a \<Rightarrow> 'k::linorder"
  assumes lt_key: "lt a b \<longleftrightarrow> key a < key b"
begin

lemma insert_by_insort: "insert_by lt x ys = insort_key key x ys"
  by (induction ys) (auto simp: lt_key)

lemma sort_by_sort_key: "sort_by lt xs = sort_key key xs"
  by (simp add: sort_by_def sort_key_def insert_by_insort [abs_def])

lemma sorted_sort_by: "sorted (map key (sort_by lt xs))"
  by (simp add: sort_by_sort_key)

lemma sort_by_is_unique:
  assumes "mset xs = mset ys" and "inj_on key (set xs)" and "sorted (map key ys)"
  shows "sort_by lt xs = ys"
  using assms by (simp add: sort_by_sort_key sort_key_inj_key_eq)

lemma sort_by_deterministic:
  assumes "mset xs = mset ys" and "inj_on key (set xs)"
  shows "sort_by lt xs = sort_by lt ys"
  using assms by (intro sort_by_is_unique) (simp_all add: sorted_sort_by)

lemma sort_by_map_vals:
  assumes "same_map m m'" and "inj_on key (set (mvals m))"
  shows "sort_by lt (mvals m) = sort_by lt (mvals m')"
  using assms by (intro sort_by_deterministic same_map_vals)

end

end
