(* ===== verification/GoStrings.thy ===== *)
theory GoStrings
  imports Prelude
begin

section \<open>The string functions the services use\<close>

text \<open>
  Go strings are byte sequences, here lists of \<open>char\<close>. The functions model \<open>strconv.Itoa\<close>,
  \<open>strconv.Atoi\<close>, \<open>strings.TrimSpace\<close>, \<open>Cut\<close>, \<open>CutPrefix\<close>, \<open>Split\<close> (by one byte) and
  \<open>Join\<close>, with the round trips the wire formats rest on.
\<close>

subsection \<open>Decimal numbers\<close>

definition digit_char :: "nat \<Rightarrow> char" where
  "digit_char d = char_of (48 + d)"

definition is_digit :: "char \<Rightarrow> bool" where
  "is_digit c \<longleftrightarrow> 48 \<le> (of_char c :: nat) \<and> (of_char c :: nat) \<le> 57"

definition digit_val :: "char \<Rightarrow> nat" where
  "digit_val c = of_char c - 48"

fun nat_digits :: "nat \<Rightarrow> string" where
  "nat_digits n =
     (if n < 10 then [digit_char n] else nat_digits (n div 10) @ [digit_char (n mod 10)])"

declare nat_digits.simps [simp del]

definition Itoa :: "int \<Rightarrow> string" where
  "Itoa i = (if i < 0 then CHR ''-'' # nat_digits (nat (- i)) else nat_digits (nat i))"

fun parse_digits :: "nat \<Rightarrow> string \<Rightarrow> nat option" where
  "parse_digits acc [] = Some acc"
| "parse_digits acc (c # cs) =
     (if is_digit c then parse_digits (10 * acc + digit_val c) cs else None)"

text \<open>Both the syntax error and the range error of \<open>Atoi\<close> are \<open>None\<close>.\<close>

definition Atoi :: "string \<Rightarrow> int option" where
  "Atoi s =
     (let neg = (take 1 s = ''-'');
          ds = (if take 1 s = ''-'' \<or> take 1 s = ''+'' then drop 1 s else s)
      in if ds = [] then None
         else case parse_digits 0 ds of
           None \<Rightarrow> None
         | Some n \<Rightarrow>
             (let v = (if neg then - int n else int n) in if in_int64 v then Some v else None))"

lemma of_digit_char [simp]: "d < 10 \<Longrightarrow> (of_char (digit_char d) :: nat) = 48 + d"
  by (simp add: digit_char_def)

lemma is_digit_digit_char [simp]: "d < 10 \<Longrightarrow> is_digit (digit_char d)"
  by (simp add: is_digit_def)

lemma digit_val_digit_char [simp]: "d < 10 \<Longrightarrow> digit_val (digit_char d) = d"
  by (simp add: digit_val_def)

lemma parse_digits_snoc:
  "parse_digits acc (cs @ [c]) =
     (case parse_digits acc cs of
        None \<Rightarrow> None
      | Some n \<Rightarrow> if is_digit c then Some (10 * n + digit_val c) else None)"
  by (induction acc cs rule: parse_digits.induct) auto

lemma parse_nat_digits [simp]: "parse_digits 0 (nat_digits n) = Some n"
proof (induction n rule: nat_digits.induct)
  case (1 n)
  show ?case
  proof (cases "n < 10")
    case True
    then show ?thesis by (subst nat_digits.simps) simp
  next
    case False
    with 1 have "parse_digits 0 (nat_digits (n div 10)) = Some (n div 10)" by simp
    with False show ?thesis by (subst nat_digits.simps) (simp add: parse_digits_snoc)
  qed
qed

lemma nat_digits_digits: "c \<in> set (nat_digits n) \<Longrightarrow> is_digit c"
proof (induction n rule: nat_digits.induct)
  case (1 n)
  then show ?case
    by (cases "n < 10") (auto simp: nat_digits.simps [of n])
qed

lemma nat_digits_nonempty [simp]: "nat_digits n \<noteq> []"
  by (subst nat_digits.simps) simp

lemma nat_digits_first:
  assumes "\<not> is_digit c"
  shows "take 1 (nat_digits n) \<noteq> [c]"
proof
  assume "take 1 (nat_digits n) = [c]"
  then have "c \<in> set (nat_digits n)"
    by (metis in_set_takeD list.set_intros(1))
  then show False using nat_digits_digits assms by blast
qed

lemma Atoi_Itoa:
  assumes "in_int64 i" and "0 \<le> i"
  shows "Atoi (Itoa i) = Some i"
proof -
  have minus: "take 1 (nat_digits (nat i)) \<noteq> ''-''" and plus: "take 1 (nat_digits (nat i)) \<noteq> ''+''"
    by (rule nat_digits_first, simp add: is_digit_def)+
  show ?thesis
    using assms minus plus by (simp add: Atoi_def Itoa_def)
qed

lemma Itoa_digits: "0 \<le> i \<Longrightarrow> c \<in> set (Itoa i) \<Longrightarrow> is_digit c"
  by (simp add: Itoa_def nat_digits_digits)

lemma Itoa_inj:
  assumes "0 \<le> i" and "0 \<le> j" and "Itoa i = Itoa j"
  shows "i = j"
proof -
  have "nat_digits (nat i) = nat_digits (nat j)"
    using assms by (simp add: Itoa_def)
  then have "Some (nat i) = Some (nat j)"
    by (metis parse_nat_digits)
  then show ?thesis using assms by simp
qed

subsection \<open>Cutting and joining\<close>

text \<open>\<open>strings.Cut(s, "c")\<close> for a one-byte separator.\<close>

fun Cut :: "char \<Rightarrow> string \<Rightarrow> (string \<times> string) option" where
  "Cut c [] = None"
| "Cut c (x # xs) =
     (if x = c then Some ([], xs) else map_option (\<lambda>(a, b). (x # a, b)) (Cut c xs))"

lemma Cut_append: "c \<notin> set k \<Longrightarrow> Cut c (k @ c # v) = Some (k, v)"
  by (induction k) auto

definition CutPrefix :: "string \<Rightarrow> string \<Rightarrow> string option" where
  "CutPrefix s p = (if take (length p) s = p then Some (drop (length p) s) else None)"

lemma CutPrefix_append [simp]: "CutPrefix (p @ v) p = Some v"
  by (simp add: CutPrefix_def)

text \<open>\<open>strings.Split(s, "c")\<close> and \<open>strings.Join(xs, "c")\<close>.\<close>

fun Split :: "char \<Rightarrow> string \<Rightarrow> string list" where
  "Split c [] = [[]]"
| "Split c (x # xs) =
     (if x = c then [] # Split c xs
      else case Split c xs of [] \<Rightarrow> [[x]] | p # ps \<Rightarrow> (x # p) # ps)"

fun Join :: "char \<Rightarrow> string list \<Rightarrow> string" where
  "Join c [] = []"
| "Join c [x] = x"
| "Join c (x # y # ys) = x @ c # Join c (y # ys)"

lemma Split_nonempty [simp]: "Split c s \<noteq> []"
  by (induction s) (auto split: list.splits)

lemma Split_clean: "c \<notin> set x \<Longrightarrow> Split c x = [x]"
  by (induction x) auto

lemma Split_append: "c \<notin> set x \<Longrightarrow> Split c (x @ c # s) = x # Split c s"
  by (induction x) auto

lemma Split_Join:
  assumes "xs \<noteq> []" and "\<forall>x \<in> set xs. c \<notin> set x"
  shows "Split c (Join c xs) = xs"
  using assms by (induction c xs rule: Join.induct) (auto simp: Split_clean Split_append)

subsection \<open>Trimming\<close>

text \<open>The UTF-8 encodings of the code points \<open>unicode.IsSpace\<close> accepts.\<close>

definition spaces :: "string list" where
  "spaces =
     [[CHR 0x09], [CHR 0x0A], [CHR 0x0B], [CHR 0x0C], [CHR 0x0D], [CHR 0x20],
      [CHR 0xC2, CHR 0x85], [CHR 0xC2, CHR 0xA0], [CHR 0xE1, CHR 0x9A, CHR 0x80],
      [CHR 0xE2, CHR 0x80, CHR 0x80], [CHR 0xE2, CHR 0x80, CHR 0x81],
      [CHR 0xE2, CHR 0x80, CHR 0x82], [CHR 0xE2, CHR 0x80, CHR 0x83],
      [CHR 0xE2, CHR 0x80, CHR 0x84], [CHR 0xE2, CHR 0x80, CHR 0x85],
      [CHR 0xE2, CHR 0x80, CHR 0x86], [CHR 0xE2, CHR 0x80, CHR 0x87],
      [CHR 0xE2, CHR 0x80, CHR 0x88], [CHR 0xE2, CHR 0x80, CHR 0x89],
      [CHR 0xE2, CHR 0x80, CHR 0x8A], [CHR 0xE2, CHR 0x80, CHR 0xA8],
      [CHR 0xE2, CHR 0x80, CHR 0xA9], [CHR 0xE2, CHR 0x80, CHR 0xAF],
      [CHR 0xE2, CHR 0x81, CHR 0x9F], [CHR 0xE3, CHR 0x80, CHR 0x80]]"

definition space_len :: "string list \<Rightarrow> string \<Rightarrow> nat" where
  "space_len ws s = (case find (\<lambda>w. take (length w) s = w) ws of None \<Rightarrow> 0 | Some w \<Rightarrow> length w)"

function trim_with :: "string list \<Rightarrow> string \<Rightarrow> string" where
  "trim_with ws s =
     (if s = [] \<or> space_len ws s = 0 then s else trim_with ws (drop (space_len ws s) s))"
  by pat_completeness auto
termination
  by (relation "measure (\<lambda>(ws, s). length s)") auto

declare trim_with.simps [simp del]

definition TrimSpace :: "string \<Rightarrow> string" where
  "TrimSpace s = rev (trim_with (map rev spaces) (rev (trim_with spaces s)))"

text \<open>A printable ASCII character; strings of them come back from \<open>TrimSpace\<close> unchanged.\<close>

definition graphic :: "char \<Rightarrow> bool" where
  "graphic c \<longleftrightarrow> 0x21 \<le> (of_char c :: nat) \<and> (of_char c :: nat) \<le> 0x7E"

lemma spaces_not_graphic: "list_all (list_ex (\<lambda>c. \<not> graphic c)) spaces"
  by code_simp

lemma graphic_no_space:
  assumes "\<forall>c \<in> set s. graphic c"
  shows "space_len spaces s = 0" and "space_len (map rev spaces) s = 0"
proof -
  have none: "find (\<lambda>w. take (length w) s = w) ws = None"
    if "\<forall>w \<in> set ws. \<exists>c \<in> set w. \<not> graphic c" for ws
  proof -
    have "take (length w) s \<noteq> w" if "w \<in> set ws" for w
    proof
      assume eq: "take (length w) s = w"
      obtain c where "c \<in> set w" "\<not> graphic c"
        using \<open>\<forall>w \<in> set ws. \<exists>c \<in> set w. \<not> graphic c\<close> \<open>w \<in> set ws\<close> by blast
      then show False using assms eq by (metis in_set_takeD)
    qed
    then show ?thesis by (simp add: find_None_iff)
  qed
  have sp: "\<forall>w \<in> set spaces. \<exists>c \<in> set w. \<not> graphic c"
    using spaces_not_graphic by (simp add: list_all_iff list_ex_iff)
  then have "\<forall>w \<in> set (map rev spaces). \<exists>c \<in> set w. \<not> graphic c" by simp
  then show "space_len spaces s = 0" and "space_len (map rev spaces) s = 0"
    using none [OF sp] none [of "map rev spaces"] by (simp_all add: space_len_def)
qed

lemma TrimSpace_graphic:
  assumes "\<forall>c \<in> set s. graphic c"
  shows "TrimSpace s = s"
proof -
  have "trim_with spaces s = s"
    using graphic_no_space(1) [OF assms] by (subst trim_with.simps) simp
  moreover have "trim_with (map rev spaces) (rev s) = rev s"
    using graphic_no_space(2) [of "rev s"] assms by (subst trim_with.simps) simp
  ultimately show ?thesis by (simp add: TrimSpace_def)
qed

subsection \<open>Letter case and substrings\<close>

definition fold_char :: "char \<Rightarrow> char" where
  "fold_char c = (let n = (of_char c :: nat) in if 65 \<le> n \<and> n \<le> 90 then char_of (n + 32) else c)"

text \<open>
  \<open>strings.ToLower\<close>: besides the ASCII letters only the Kelvin sign and the dotted capital I map
  to ASCII; the services compare the result with ASCII
  patterns only, which other letters never match, whatever they map to.
\<close>

fun ToLower :: "string \<Rightarrow> string" where
  "ToLower [] = []"
| "ToLower (c # cs) =
     (if c = CHR 0xE2 \<and> take 2 cs = [CHR 0x84, CHR 0xAA] then CHR ''k'' # ToLower (drop 2 cs)
      else if c = CHR 0xC4 \<and> take 1 cs = [CHR 0xB0] then CHR ''i'' # ToLower (drop 1 cs)
      else fold_char c # ToLower cs)"

definition HasPrefix :: "string \<Rightarrow> string \<Rightarrow> bool" where
  "HasPrefix s p \<longleftrightarrow> take (length p) s = p"

fun StrContains :: "string \<Rightarrow> string \<Rightarrow> bool" where
  "StrContains [] p = (p = [])"
| "StrContains (c # cs) p = (HasPrefix (c # cs) p \<or> StrContains cs p)"

end
