(* ===== verification/GoNet.thy ===== *)
theory GoNet
  imports GoStrings
begin

unbundle bit_operations_syntax

section \<open>The part of package net the services use\<close>

text \<open>
  An address is its list of bytes, four or sixteen of them; \<open>net.ParseIP\<close> gives sixteen. The
  parsers follow \<open>netip.ParseAddr\<close>: dotted decimal without leading zeros, and groups of
  hexadecimal digits with at most one ellipsis and an optional dotted tail. \<open>ParseIP\<close> refuses a
  zone.
\<close>

type_synonym IP = "nat list"

subsection \<open>Parsing\<close>

fun parseIPv4Fields :: "string \<Rightarrow> nat list \<Rightarrow> nat \<Rightarrow> nat \<Rightarrow> nat list option" where
  "parseIPv4Fields [] fields val digLen =
     (if length fields < 3 then None else Some (fields @ [val]))"
| "parseIPv4Fields (c # cs) fields val digLen =
     (if is_digit c then
        (if digLen = 1 \<and> val = 0 then None
         else let val = val * 10 + digit_val c in
              if val > 255 then None else parseIPv4Fields cs fields val (digLen + 1))
      else if c = CHR ''.'' then
        (if digLen = 0 \<or> cs = [] \<or> length fields = 3 then None
         else parseIPv4Fields cs (fields @ [val]) 0 0)
      else None)"

definition hex_val :: "char \<Rightarrow> nat option" where
  "hex_val c =
     (let n = (of_char c :: nat) in
      if 48 \<le> n \<and> n \<le> 57 then Some (n - 48)
      else if 97 \<le> n \<and> n \<le> 102 then Some (n - 87)
      else if 65 \<le> n \<and> n \<le> 70 then Some (n - 55)
      else None)"

text \<open>One group: its value, the number of digits and the rest; more than four digits fail.\<close>

fun hex_group :: "string \<Rightarrow> nat \<Rightarrow> nat \<Rightarrow> (nat \<times> nat \<times> string) option" where
  "hex_group [] acc off = Some (acc, off, [])"
| "hex_group (c # cs) acc off =
     (case hex_val c of
        None \<Rightarrow> Some (acc, off, c # cs)
      | Some d \<Rightarrow> if off > 3 then None else hex_group cs (acc * 16 + d) (off + 1))"

text \<open>
  The loop over the groups, \<open>n\<close> of them left to fill: the bytes read, where the ellipsis is, and
  what is left of the input.
\<close>

fun v6_groups :: "nat \<Rightarrow> nat list \<Rightarrow> nat option \<Rightarrow> string \<Rightarrow> (nat list \<times> nat option \<times> string) option" where
  "v6_groups 0 ip ellipsis s = Some (ip, ellipsis, s)"
| "v6_groups (Suc n) ip ellipsis s =
     (case hex_group s 0 0 of
        None \<Rightarrow> None
      | Some (acc, off, rest) \<Rightarrow>
          if off = 0 then None
          else if take 1 rest = ''.'' then
            (if ellipsis = None \<and> length ip \<noteq> 12 then None
             else if length ip + 4 > 16 then None
             else case parseIPv4Fields s [] 0 0 of
               None \<Rightarrow> None
             | Some v4 \<Rightarrow> Some (ip @ v4, ellipsis, []))
          else let ip = ip @ [acc div 256, acc mod 256] in
            (case rest of
               [] \<Rightarrow> Some (ip, ellipsis, [])
             | c # s' \<Rightarrow>
                 if c \<noteq> CHR '':'' \<or> s' = [] then None
                 else if hd s' = CHR '':'' then
                   (if ellipsis \<noteq> None then None
                    else if tl s' = [] then Some (ip, Some (length ip), [])
                    else v6_groups n ip (Some (length ip)) (tl s'))
                 else v6_groups n ip ellipsis s'))"

definition parseIPv6 :: "string \<Rightarrow> IP option" where
  "parseIPv6 s =
     (let lead = (take 2 s = ''::'') in
      if s = ''::'' then Some (replicate 16 0)
      else case v6_groups 8 [] (if lead then Some 0 else None) (if lead then drop 2 s else s) of
        None \<Rightarrow> None
      | Some (ip, ellipsis, rest) \<Rightarrow>
          if rest \<noteq> [] then None
          else if length ip < 16 then
            (case ellipsis of
               None \<Rightarrow> None
             | Some e \<Rightarrow> Some (take e ip @ replicate (16 - length ip) 0 @ drop e ip))
          else if ellipsis \<noteq> None then None
          else Some ip)"

definition v4_prefix :: "nat list" where
  "v4_prefix = replicate 10 0 @ [255, 255]"

definition ParseIP :: "string \<Rightarrow> IP option" where
  "ParseIP s =
     (case find (\<lambda>c. c = CHR ''.'' \<or> c = CHR '':'' \<or> c = CHR ''%'') s of
        None \<Rightarrow> None
      | Some c \<Rightarrow>
          if c = CHR ''.'' then map_option (\<lambda>b. v4_prefix @ b) (parseIPv4Fields s [] 0 0)
          else if c = CHR '':'' then (if CHR ''%'' \<in> set s then None else parseIPv6 s)
          else None)"

subsection \<open>Classes of addresses\<close>

definition To4 :: "IP \<Rightarrow> IP option" where
  "To4 ip =
     (if length ip = 4 then Some ip
      else if length ip = 16 \<and> take 12 ip = v4_prefix then Some (drop 12 ip)
      else None)"

definition IsLoopback :: "IP \<Rightarrow> bool" where
  "IsLoopback ip = (case To4 ip of Some b \<Rightarrow> b ! 0 = 127 | None \<Rightarrow> ip = replicate 15 0 @ [1])"

definition IsLinkLocalUnicast :: "IP \<Rightarrow> bool" where
  "IsLinkLocalUnicast ip =
     (case To4 ip of
        Some b \<Rightarrow> b ! 0 = 169 \<and> b ! 1 = 254
      | None \<Rightarrow> length ip = 16 \<and> ip ! 0 = 0xfe \<and> ip ! 1 AND 0xc0 = 0x80)"

definition IsPrivate :: "IP \<Rightarrow> bool" where
  "IsPrivate ip =
     (case To4 ip of
        Some b \<Rightarrow> b ! 0 = 10 \<or> b ! 0 = 172 \<and> b ! 1 AND 0xf0 = 16 \<or> b ! 0 = 192 \<and> b ! 1 = 168
      | None \<Rightarrow> length ip = 16 \<and> ip ! 0 AND 0xfe = 0xfc)"

subsection \<open>Printing, masks and host:port\<close>

text \<open>\<open>String\<close> of a four-byte address.\<close>

definition v4_String :: "IP \<Rightarrow> string" where
  "v4_String b = Join (CHR ''.'') (map (\<lambda>n. Itoa (int n)) b)"

text \<open>\<open>net.CIDRMask(ones, 32)\<close>, \<open>nil\<close> outside the range.\<close>

definition CIDRMask32 :: "int \<Rightarrow> nat list option" where
  "CIDRMask32 ones =
     (if ones < 0 \<or> ones > 32 then None
      else Some (map (\<lambda>i. if ones \<ge> 8 * (i + 1) then 255
                          else if ones \<le> 8 * i then 0
                          else 256 - 2 ^ nat (8 - (ones - 8 * i))) [0, 1, 2, 3]))"

text \<open>\<open>IPNet{ip4.Mask(m), m}.Contains(peer)\<close> for four-byte addresses; a \<open>nil\<close> mask contains nothing.\<close>

definition Contains4 :: "IP \<Rightarrow> nat list option \<Rightarrow> IP \<Rightarrow> bool" where
  "Contains4 ip cidr peer =
     (case cidr of
        None \<Rightarrow> False
      | Some m \<Rightarrow> list_all (\<lambda>i. (ip ! i AND m ! i) AND m ! i = peer ! i AND m ! i) [0, 1, 2, 3])"

definition JoinHostPort :: "string \<Rightarrow> string \<Rightarrow> string" where
  "JoinHostPort host port =
     (if CHR '':'' \<in> set host then ''['' @ host @ '']:'' @ port else host @ '':'' @ port)"

subsection \<open>Lengths and round trip\<close>

lemma parseIPv4Fields_length:
  "parseIPv4Fields s fields val digLen = Some b \<Longrightarrow> length fields \<le> 3 \<Longrightarrow> length b = 4"
  by (induction s fields val digLen rule: parseIPv4Fields.induct) (auto simp: Let_def split: if_splits)

lemma parseIPv4Fields_bytes:
  "parseIPv4Fields s fields val digLen = Some b \<Longrightarrow> \<forall>x \<in> set fields. x \<le> 255 \<Longrightarrow> val \<le> 255 \<Longrightarrow> \<forall>x \<in> set b. x \<le> 255"
  by (induction s fields val digLen rule: parseIPv4Fields.induct) (auto simp: Let_def split: if_splits)

lemma To4_length: "To4 ip = Some b \<Longrightarrow> length b = 4"
  by (auto simp: To4_def split: if_splits)

lemma To4_four: "length b = 4 \<Longrightarrow> To4 b = Some b"
  by (simp add: To4_def)

lemma To4_mapped: "length b = 4 \<Longrightarrow> To4 (v4_prefix @ b) = Some b"
  by (simp add: To4_def v4_prefix_def)

text \<open>Reading one octet of at most three digits, with no leading zero.\<close>

lemma nat_digits_small: "n < 10 \<Longrightarrow> nat_digits n = [digit_char n]"
  by (subst nat_digits.simps) simp

lemma parse_octet:
  assumes "n \<le> 255"
  shows "\<exists>d > 0. parseIPv4Fields (nat_digits n @ s) fields 0 0 = parseIPv4Fields s fields n d"
proof -
  consider "n < 10" | "10 \<le> n \<and> n < 100" | "100 \<le> n" by linarith
  then show ?thesis
  proof cases
    case 1
    then show ?thesis by (auto simp: nat_digits_small Let_def)
  next
    case 2
    then have "n div 10 < 10" by (simp add: div_less_iff_less_mult)
    then have "nat_digits n = [digit_char (n div 10), digit_char (n mod 10)]"
      using 2 by (subst nat_digits.simps) (simp add: nat_digits_small)
    then show ?thesis using 2 assms \<open>n div 10 < 10\<close> by (auto simp: Let_def div_mult_mod_eq)
  next
    case 3
    have "n div 10 div 10 < 10" using assms by simp
    then have "nat_digits n = [digit_char (n div 10 div 10), digit_char (n div 10 mod 10), digit_char (n mod 10)]"
      using 3 by (subst nat_digits.simps) (simp add: nat_digits.simps [of "n div 10"] nat_digits_small)
    moreover have "n div 10 div 10 * 10 + n div 10 mod 10 = n div 10" by simp
    ultimately show ?thesis using 3 assms \<open>n div 10 div 10 < 10\<close>
      by (auto simp: Let_def div_mult_mod_eq)
  qed
qed

lemma dot_not_digit [simp]: "\<not> is_digit (CHR ''.'')"
  by (simp add: is_digit_def)

lemma parse_octet_dot:
  assumes "n \<le> 255" and "length fields < 3"
  shows "parseIPv4Fields (nat_digits n @ CHR ''.'' # nat_digits m @ s) fields 0 0 =
    parseIPv4Fields (nat_digits m @ s) (fields @ [n]) 0 0"
proof -
  obtain d where "0 < d" and
    "parseIPv4Fields (nat_digits n @ CHR ''.'' # nat_digits m @ s) fields 0 0 =
     parseIPv4Fields (CHR ''.'' # nat_digits m @ s) fields n d"
    using parse_octet [OF assms(1)] by blast
  then show ?thesis using assms(2) by simp
qed

lemma ParseIP_v4_String:
  assumes "length b = 4" and "\<forall>x \<in> set b. x \<le> 255"
  shows "ParseIP (v4_String b) = Some (v4_prefix @ b)"
proof -
  obtain w x y z where b: "b = [w, x, y, z]"
    using assms(1) by (auto simp: length_Suc_conv eval_nat_numeral)
  have s: "v4_String b = nat_digits w @ CHR ''.'' # nat_digits x @ CHR ''.'' # nat_digits y @ CHR ''.'' # nat_digits z"
    by (simp add: b v4_String_def Itoa_def)
  have last: "parseIPv4Fields (nat_digits z) [w, x, y] 0 0 = Some [w, x, y, z]"
    using parse_octet [of z "[]" "[w, x, y]"] assms(2) by (auto simp: b)
  have fields: "parseIPv4Fields (v4_String b) [] 0 0 = Some b"
    using assms(2) last parse_octet_dot [of y "[w, x]" z "[]"]
    unfolding s by (simp add: b parse_octet_dot)
  have "c \<noteq> CHR '':'' \<and> c \<noteq> CHR ''%''" if "c \<in> set (v4_String b)" for c
  proof -
    have "is_digit c \<or> c = CHR ''.''"
      using that Itoa_digits [of "int _" c] by (auto simp: s Itoa_def)
    then show ?thesis by (auto simp: is_digit_def)
  qed
  moreover have "CHR ''.'' \<in> set (v4_String b)" by (simp add: s)
  ultimately have "find (\<lambda>c. c = CHR ''.'' \<or> c = CHR '':'' \<or> c = CHR ''%'') (v4_String b) = Some (CHR ''.'')"
    by (intro find_only) auto
  then show ?thesis by (simp add: ParseIP_def fields)
qed

subsection \<open>The characters of an address literal\<close>

definition ip_char :: "char \<Rightarrow> bool" where
  "ip_char c \<longleftrightarrow> c = CHR ''.'' \<or> c = CHR '':'' \<or> hex_val c \<noteq> None"

lemma digit_ip_char: "is_digit c \<Longrightarrow> ip_char c"
  by (simp add: ip_char_def hex_val_def is_digit_def Let_def)

lemma ip_char_graphic: "ip_char c \<Longrightarrow> graphic c \<and> c \<noteq> CHR '',''"
proof -
  assume "ip_char c"
  then consider "c = CHR ''.''" | "c = CHR '':''" | "hex_val c \<noteq> None" by (auto simp: ip_char_def)
  then show ?thesis
  proof cases
    case 3
    then have "48 \<le> (of_char c :: nat)" "(of_char c :: nat) \<le> 102"
      by (auto simp: hex_val_def Let_def split: if_splits)
    then show ?thesis by (auto simp: graphic_def)
  qed (simp_all add: graphic_def)
qed

lemma parseIPv4Fields_chars:
  "parseIPv4Fields s fields val digLen = Some b \<Longrightarrow> \<forall>c \<in> set s. ip_char c"
proof (induction s fields val digLen rule: parseIPv4Fields.induct)
  case (2 c cs fields val digLen)
  then show ?case
    by (auto simp: Let_def digit_ip_char ip_char_def [of "CHR ''.''"] split: if_splits)
qed simp

lemma hex_group_chars:
  "hex_group s acc off = Some (a, n, rest) \<Longrightarrow> \<exists>p. s = p @ rest \<and> (\<forall>c \<in> set p. ip_char c)"
proof (induction s acc off rule: hex_group.induct)
  case (2 c cs acc off)
  show ?case
  proof (cases "hex_val c")
    case (Some d)
    then obtain p where "cs = p @ rest" "\<forall>c \<in> set p. ip_char c"
      using 2 by (auto split: if_splits)
    then show ?thesis using Some by (intro exI [of _ "c # p"]) (simp add: ip_char_def)
  qed (use 2 in simp)
qed simp

lemma v6_groups_chars:
  "v6_groups n ip e s = Some (b, e', rest) \<Longrightarrow> rest = [] \<Longrightarrow> \<forall>c \<in> set s. ip_char c"
proof (induction n arbitrary: ip e s)
  case (Suc n)
  obtain acc off r where g: "hex_group s 0 0 = Some (acc, off, r)"
    using Suc.prems by (cases "hex_group s 0 0") auto
  have off: "off \<noteq> 0"
  proof
    assume "off = 0"
    then show False using Suc.prems g by simp
  qed
  obtain p where p: "s = p @ r" "\<forall>c \<in> set p. ip_char c" using hex_group_chars [OF g] by blast
  have colon: "ip_char (CHR '':'')" by (simp add: ip_char_def)
  show ?case
  proof (cases "take 1 r = ''.''")
    case True
    then obtain v where "parseIPv4Fields s [] 0 0 = Some v"
      using Suc.prems g off by (auto split: if_splits option.splits)
    then show ?thesis by (rule parseIPv4Fields_chars)
  next
    case dot: False
    show ?thesis
    proof (cases r)
      case Nil
      then show ?thesis using p by simp
    next
      case (Cons c s')
      have c: "c = CHR '':''" "s' \<noteq> []" using Suc.prems g off dot Cons by (auto simp: Let_def split: if_splits)
      have "\<forall>c \<in> set s'. ip_char c"
      proof (cases "hd s' = CHR '':''")
        case True
        then obtain t where t: "s' = CHR '':'' # t" using c(2) by (cases s') auto
        have e: "e = None" using Suc.prems g off dot Cons c t by (auto simp: Let_def split: if_splits)
        show ?thesis
        proof (cases "t = []")
          case False
          then have "\<forall>c \<in> set t. ip_char c"
            using Suc.IH [of _ _ t] Suc.prems g off dot Cons c t e by (simp add: Let_def)
          then show ?thesis using t colon by simp
        qed (use t colon in simp)
      next
        case False
        then show ?thesis
          using Suc.IH [of _ _ s'] Suc.prems g off dot Cons c by (simp add: Let_def)
      qed
      then show ?thesis using p c Cons colon by auto
    qed
  qed
qed simp

lemma ParseIP_chars:
  assumes "ParseIP s = Some ip"
  shows "\<forall>c \<in> set s. ip_char c"
proof -
  consider b where "parseIPv4Fields s [] 0 0 = Some b" | "parseIPv6 s = Some ip"
    using assms by (auto simp: ParseIP_def split: option.splits if_splits)
  then show ?thesis
  proof cases
    case 1
    then show ?thesis by (rule parseIPv4Fields_chars)
  next
    case 2
    have colon: "ip_char (CHR '':'')" by (simp add: ip_char_def)
    show ?thesis
    proof (cases "s = ''::''")
      case False
      let ?t = "if take 2 s = ''::'' then drop 2 s else s"
      obtain b e where "v6_groups 8 [] (if take 2 s = ''::'' then Some 0 else None) ?t = Some (b, e, [])"
        using 2 False by (auto simp: parseIPv6_def Let_def split: option.splits if_splits)
      then have t: "\<forall>c \<in> set ?t. ip_char c" by (rule v6_groups_chars) simp
      show ?thesis
      proof (cases "take 2 s = ''::''")
        case True
        then have "s = ''::'' @ ?t" by (metis append_take_drop_id)
        then show ?thesis using t colon by (metis UnE empty_iff empty_set set_ConsD set_append)
      qed (use t in simp)
    qed (simp add: colon)
  qed
qed

lemma ParseIP_trim: "ParseIP s = Some ip \<Longrightarrow> TrimSpace s = s"
  using ParseIP_chars ip_char_graphic by (blast intro: TrimSpace_graphic)

lemma ParseIP_no_comma: "ParseIP s = Some ip \<Longrightarrow> CHR '','' \<notin> set s"
  using ParseIP_chars ip_char_graphic by blast

lemma ParseIP_Nil [simp]: "ParseIP [] = None"
  by (simp add: ParseIP_def)

end
