(* ===== verification/GoJson.thy ===== *)
theory GoJson
  imports GoStrings
begin

section \<open>The part of encoding/json the services use\<close>

text \<open>
  JSON documents as trees, and \<open>json.Unmarshal\<close> into the struct types of the services. A
  \<open>json.RawMessage\<close> is a document or \<open>None\<close> when it is absent (Go then reports \<open>unexpected
  end of JSON input\<close>). An integer literal is \<open>JInt\<close>; a literal with a fraction or an exponent
  is \<open>JFrac\<close>, which Go refuses to store in an integer field. Object members are decoded in
  document order, so a repeated key overwrites, an unknown key is skipped, and a key matches a
  field exactly or else up to letter case. A value of the wrong kind makes the call fail.
\<close>

datatype json =
    JNull
  | JBool bool
  | JInt int
  | JFrac string
  | JStr string
  | JArr "json list"
  | JObj "(string \<times> json) list"

type_synonym raw = "json option"

subsection \<open>Scalars\<close>

text \<open>Each decoder takes the value the field had, which JSON \<open>null\<close> leaves alone.\<close>

fun dec_string :: "json \<Rightarrow> string \<Rightarrow> string option" where
  "dec_string (JStr s) old = Some s"
| "dec_string JNull old = Some old"
| "dec_string _ old = None"

fun dec_bool :: "json \<Rightarrow> bool \<Rightarrow> bool option" where
  "dec_bool (JBool b) old = Some b"
| "dec_bool JNull old = Some old"
| "dec_bool _ old = None"

fun dec_int64 :: "json \<Rightarrow> int \<Rightarrow> int option" where
  "dec_int64 (JInt i) old = (if in_int64 i then Some i else None)"
| "dec_int64 JNull old = Some old"
| "dec_int64 _ old = None"

fun dec_uint32 :: "json \<Rightarrow> int \<Rightarrow> int option" where
  "dec_uint32 (JInt i) old = (if 0 \<le> i \<and> i < 2 ^ 32 then Some i else None)"
| "dec_uint32 JNull old = Some old"
| "dec_uint32 _ old = None"

fun dec_uint64 :: "json \<Rightarrow> int \<Rightarrow> int option" where
  "dec_uint64 (JInt i) old = (if 0 \<le> i \<and> i < 2 ^ 64 then Some i else None)"
| "dec_uint64 JNull old = Some old"
| "dec_uint64 _ old = None"

text \<open>A pointer field is \<open>nil\<close> on \<open>null\<close> and points to a decoded value otherwise.\<close>

fun dec_ptr :: "(json \<Rightarrow> 'a \<Rightarrow> 'a option) \<Rightarrow> 'a \<Rightarrow> json \<Rightarrow> 'a option \<Rightarrow> 'a option option" where
  "dec_ptr d z JNull old = Some None"
| "dec_ptr d z j old = map_option Some (d j (case old of None \<Rightarrow> z | Some v \<Rightarrow> v))"

text \<open>A slice is \<open>nil\<close> on \<open>null\<close>; its elements are decoded into fresh zero values.\<close>

fun dec_elems :: "(json \<Rightarrow> 'a \<Rightarrow> 'a option) \<Rightarrow> 'a \<Rightarrow> json list \<Rightarrow> 'a list option" where
  "dec_elems d z [] = Some []"
| "dec_elems d z (j # js) =
     (case d j z of None \<Rightarrow> None | Some v \<Rightarrow> map_option (Cons v) (dec_elems d z js))"

fun dec_slice :: "(json \<Rightarrow> 'a \<Rightarrow> 'a option) \<Rightarrow> 'a \<Rightarrow> json \<Rightarrow> 'a list \<Rightarrow> 'a list option" where
  "dec_slice d z JNull old = Some []"
| "dec_slice d z (JArr js) old = dec_elems d z js"
| "dec_slice d z _ old = None"

text \<open>
  A map field is \<open>nil\<close> (\<open>None\<close>) on \<open>null\<close>; an object adds its members to the map the field
  already held, each decoded into a fresh zero value.
\<close>

fun dec_map_members :: "(json \<Rightarrow> 'a \<Rightarrow> 'a option) \<Rightarrow> 'a \<Rightarrow> (string \<times> json) list \<Rightarrow>
    (string, 'a) gomap \<Rightarrow> (string, 'a) gomap option" where
  "dec_map_members d z [] m = Some m"
| "dec_map_members d z ((k, j) # kvs) m =
     (case d j z of None \<Rightarrow> None | Some v \<Rightarrow> dec_map_members d z kvs (mput k v m))"

fun dec_map :: "(json \<Rightarrow> 'a \<Rightarrow> 'a option) \<Rightarrow> 'a \<Rightarrow> json \<Rightarrow> (string, 'a) gomap option \<Rightarrow>
    (string, 'a) gomap option option" where
  "dec_map d z JNull old = Some None"
| "dec_map d z (JObj kvs) old =
     map_option Some (dec_map_members d z kvs (case old of None \<Rightarrow> [] | Some m \<Rightarrow> m))"
| "dec_map d z _ old = None"

subsection \<open>Structs\<close>

text \<open>
  Field names are ASCII. Letter case is folded; of the other code points only the long s
  (U+017F) and the Kelvin sign (U+212A) fold to ASCII letters.
\<close>

fun fold_name :: "string \<Rightarrow> string" where
  "fold_name [] = []"
| "fold_name (c # cs) =
     (if c = CHR 0xC5 \<and> take 1 cs = [CHR 0xBF] then CHR ''s'' # fold_name (drop 1 cs)
      else if c = CHR 0xE2 \<and> take 2 cs = [CHR 0x84, CHR 0xAA] then CHR ''k'' # fold_name (drop 2 cs)
      else fold_char c # fold_name cs)"

declare fold_name.simps [simp del]

type_synonym 'r field = "string \<times> (json \<Rightarrow> 'r \<Rightarrow> 'r option)"

definition find_field :: "'r field list \<Rightarrow> string \<Rightarrow> (json \<Rightarrow> 'r \<Rightarrow> 'r option) option" where
  "find_field fs k =
     (case map_of fs k of
        Some u \<Rightarrow> Some u
      | None \<Rightarrow> map_option snd (find (\<lambda>(n, _). fold_name n = fold_name k) fs))"

fun dec_members :: "'r field list \<Rightarrow> (string \<times> json) list \<Rightarrow> 'r \<Rightarrow> 'r option" where
  "dec_members fs [] r = Some r"
| "dec_members fs ((k, j) # kvs) r =
     (case find_field fs k of
        None \<Rightarrow> dec_members fs kvs r
      | Some u \<Rightarrow> (case u j r of None \<Rightarrow> None | Some r' \<Rightarrow> dec_members fs kvs r'))"

fun dec_struct :: "'r field list \<Rightarrow> json \<Rightarrow> 'r \<Rightarrow> 'r option" where
  "dec_struct fs (JObj kvs) r = dec_members fs kvs r"
| "dec_struct fs JNull r = Some r"
| "dec_struct fs _ r = None"

text \<open>\<open>json.Unmarshal(raw, &v)\<close> for a variable holding the zero value.\<close>

definition Unmarshal :: "(json \<Rightarrow> 'r \<Rightarrow> 'r option) \<Rightarrow> 'r \<Rightarrow> raw \<Rightarrow> 'r option" where
  "Unmarshal d z p = (case p of None \<Rightarrow> None | Some j \<Rightarrow> d j z)"

lemma Unmarshal_None [simp]: "Unmarshal d z None = None"
  by (simp add: Unmarshal_def)

lemma Unmarshal_Some [simp]: "Unmarshal d z (Some j) = d j z"
  by (simp add: Unmarshal_def)

text \<open>A field given by how to read, decode and store it.\<close>

definition fld :: "string \<Rightarrow> (json \<Rightarrow> 'a \<Rightarrow> 'a option) \<Rightarrow> ('r \<Rightarrow> 'a) \<Rightarrow> ('a \<Rightarrow> 'r \<Rightarrow> 'r) \<Rightarrow> 'r field" where
  "fld n d get put = (n, \<lambda>j r. map_option (\<lambda>v. put v r) (d j (get r)))"

lemmas json_simps = find_field_def fld_def in_int64_def

subsection \<open>Raw members and maps of them\<close>

text \<open>A \<open>json.RawMessage\<close> field stores any value as it is, \<open>null\<close> included.\<close>

definition dec_raw :: "json \<Rightarrow> raw \<Rightarrow> raw option" where
  "dec_raw j old = Some (Some j)"

text \<open>
  \<open>json.Marshal\<close> of a \<open>map[string]json.RawMessage\<close> writes the keys in order. A document held
  in a raw message is written back unchanged.
\<close>

definition MarshalMap :: "(string, json) gomap \<Rightarrow> json" where
  "MarshalMap m = JObj (sort_by (\<lambda>a b. fst a < fst b) m)"

text \<open>\<open>json.Unmarshal\<close> into a nil \<open>map[string]json.RawMessage\<close>: an error, \<open>nil\<close>, or the members.\<close>

fun decode_rawmap :: "raw \<Rightarrow> (string, json) gomap option option" where
  "decode_rawmap (Some (JObj kvs)) = Some (Some (mputs kvs []))"
| "decode_rawmap (Some JNull) = Some None"
| "decode_rawmap _ = None"

text \<open>The outcome of code that may panic, here by writing to a \<open>nil\<close> map.\<close>

datatype 'a go = Panics | Returns 'a

subsection \<open>Decoding does not depend on the order of members\<close>

definition clean_for :: "'r field list \<Rightarrow> (string \<times> json) list \<Rightarrow> bool" where
  "clean_for fs kvs \<longleftrightarrow> wf_map kvs \<and>
     list_all (\<lambda>k. k \<in> set (map fst fs) \<or> find_field fs k = None) (mkeys kvs)"

lemma dec_members_append:
  "dec_members fs (xs @ ys) r = (case dec_members fs xs r of None \<Rightarrow> None | Some r' \<Rightarrow> dec_members fs ys r')"
  by (induction xs arbitrary: r) (auto split: option.splits)

lemma dec_members_relevant:
  "dec_members fs kvs r = dec_members fs (filter (\<lambda>(k, j). find_field fs k \<noteq> None) kvs) r"
  by (induction kvs arbitrary: r) (auto split: option.splits)

lemma dec_members_irrelevant:
  "list_all (\<lambda>(k, j). find_field fs k = None) kvs \<Longrightarrow> dec_members fs kvs r = Some r"
  by (induction kvs) auto

text \<open>The contract of a struct type: storing two different fields commutes.\<close>

locale struct_fields =
  fixes fs :: "'r field list"
  assumes commute: "map_of fs m = Some u \<Longrightarrow> map_of fs n = Some v \<Longrightarrow> m \<noteq> n \<Longrightarrow>
      Option.bind (u i r) (v j) = Option.bind (v j r) (u i)"
begin

lemma dec_members_swap:
  assumes "clean_for fs [(m, i), (n, j)]"
  shows "dec_members fs ((m, i) # (n, j) # kvs) r = dec_members fs ((n, j) # (m, i) # kvs) r"
proof (cases "find_field fs m = None \<or> find_field fs n = None")
  case True
  then show ?thesis by (auto split: option.splits)
next
  case False
  then have "m \<in> set (map fst fs)" "n \<in> set (map fst fs)" "m \<noteq> n"
    using assms by (auto simp: clean_for_def wf_map_def mkeys_def)
  then obtain u v where uv: "map_of fs m = Some u" "map_of fs n = Some v"
    by (metis map_of_eq_None_iff not_Some_eq set_map)
  have "Option.bind (Option.bind (u i r) (v j)) (dec_members fs kvs) =
      Option.bind (Option.bind (v j r) (u i)) (dec_members fs kvs)"
    by (simp add: commute [OF uv \<open>m \<noteq> n\<close>])
  then show ?thesis
    by (simp add: uv find_field_def split: option.splits) (auto split: Option.bind_splits option.splits)
qed

lemma dec_members_front:
  assumes "clean_for fs (xs @ x # ys)"
  shows "dec_members fs (xs @ x # ys) r = dec_members fs (x # xs @ ys) r"
  using assms
proof (induction xs arbitrary: r)
  case (Cons y xs)
  obtain m i n j where xy: "x = (m, i)" "y = (n, j)" by (cases x, cases y)
  have "clean_for fs (xs @ x # ys)" and yx: "clean_for fs [(n, j), (m, i)]"
    using Cons.prems xy by (auto simp: clean_for_def wf_map_def mkeys_def)
  then have "dec_members fs (y # xs @ x # ys) r = dec_members fs (y # x # xs @ ys) r"
    using Cons.IH xy by (auto split: option.splits)
  then show ?case using dec_members_swap [OF yx] xy by simp
qed simp

lemma clean_for_mset: "clean_for fs xs \<Longrightarrow> mset xs = mset ys \<Longrightarrow> clean_for fs ys"
proof -
  assume c: "clean_for fs xs" and eq: "mset xs = mset ys"
  then have "same_map xs ys" by (intro mset_same_map) (simp_all add: clean_for_def)
  moreover have "set (mkeys xs) = set (mkeys ys)"
    using eq by (metis mkeys_def set_mset_mset set_map)
  ultimately show ?thesis using c by (simp add: clean_for_def same_map_def list_all_iff)
qed

lemma dec_members_perm:
  assumes "clean_for fs xs" and "mset xs = mset ys"
  shows "dec_members fs xs r = dec_members fs ys r"
  using assms
proof (induction xs arbitrary: ys r)
  case (Cons x xs)
  then have "x \<in> set ys" by (metis list.set_intros(1) set_mset_mset)
  then obtain as bs where ys: "ys = as @ x # bs" by (meson split_list)
  have rest: "mset xs = mset (as @ bs)" using Cons.prems(2) ys by simp
  have "clean_for fs xs" using Cons.prems(1) by (auto simp: clean_for_def wf_map_def mkeys_def)
  then have tail: "dec_members fs xs q = dec_members fs (as @ bs) q" for q using Cons.IH rest by blast
  have "clean_for fs (as @ x # bs)" using clean_for_mset [OF Cons.prems] ys by simp
  then have "dec_members fs ys r = dec_members fs (x # as @ bs) r" unfolding ys by (rule dec_members_front)
  then show ?case using tail by (cases x) (simp split: option.splits)
qed simp

end

text \<open>A property every field decoder keeps, the struct decoder keeps.\<close>

lemma find_field_mem: "find_field fs k = Some u \<Longrightarrow> \<exists>n. (n, u) \<in> set fs"
  by (auto simp: find_field_def find_Some_iff split: option.splits dest: map_of_SomeD) (metis nth_mem prod.collapse)

lemma dec_members_keep:
  assumes "\<And>n u j r r'. (n, u) \<in> set fs \<Longrightarrow> P r \<Longrightarrow> u j r = Some r' \<Longrightarrow> P r'"
  shows "dec_members fs kvs r = Some r' \<Longrightarrow> P r \<Longrightarrow> P r'"
proof (induction kvs arbitrary: r)
  case (Cons kv kvs)
  obtain k j where kv: "kv = (k, j)" by (cases kv)
  show ?case
  proof (cases "find_field fs k")
    case None
    with Cons kv show ?thesis by simp
  next
    case (Some u)
    with Cons.prems kv obtain r1 where r1: "u j r = Some r1" "dec_members fs kvs r1 = Some r'" by (auto split: option.splits)
    from find_field_mem [OF Some] obtain n where "(n, u) \<in> set fs" ..
    from assms [OF this Cons.prems(2) r1(1)] r1(2) Cons.IH show ?thesis by blast
  qed
qed simp

lemma dec_struct_keep:
  assumes "\<And>n u j r r'. (n, u) \<in> set fs \<Longrightarrow> P r \<Longrightarrow> u j r = Some r' \<Longrightarrow> P r'"
    and "dec_struct fs j r = Some r'" "P r"
  shows "P r'"
  using assms(2,3) dec_members_keep [where P = P, OF assms(1)] by (cases j) auto

lemma dec_elems_keep:
  assumes "\<And>j v. d j z = Some v \<Longrightarrow> P v"
  shows "dec_elems d z js = Some vs \<Longrightarrow> v \<in> set vs \<Longrightarrow> P v"
  by (induction js arbitrary: vs) (auto split: option.splits dest: assms)

end
