(* ===== verification/NodeRec.thy ===== *)
theory NodeRec
  imports GoJson GoStrings
begin

section \<open>Node records and the discovery directory\<close>

text \<open>
  \<open>shared/noderec/noderec.go\<close>: the TXT record every node advertises, the transport policy
  derived from it, and the directory entries the broker relays. A \<open>ServiceKey\<close> is a string; a
  \<open>nil\<close> map is \<open>None\<close> where the code tells it from an empty one.
\<close>

type_synonym ServiceKey = string

definition SchemaVersion :: string where "SchemaVersion = ''1''"
definition KeySchema :: string where "KeySchema = ''v''"
definition KeyHostUUID :: string where "KeyHostUUID = ''uuid''"
definition KeyClusterUUID :: string where "KeyClusterUUID = ''cluster-uuid''"
definition KeyIP :: string where "KeyIP = ''ip''"
definition KeyIPs :: string where "KeyIPs = ''ips''"
definition IPsSeparator :: char where "IPsSeparator = CHR '',''"
definition MaxAdvertisedIPs :: nat where "MaxAdvertisedIPs = 4"
definition maxTXTStringLen :: nat where "maxTXTStringLen = 255"

definition ServiceNodeInfo :: ServiceKey where "ServiceNodeInfo = ''ni''"
definition ServiceOllama :: ServiceKey where "ServiceOllama = ''ol''"
definition ServiceLMStudio :: ServiceKey where "ServiceLMStudio = ''lm''"
definition ServiceErrors :: ServiceKey where "ServiceErrors = ''er''"
definition ServiceWorkload :: ServiceKey where "ServiceWorkload = ''wl''"
definition ServiceCluster :: ServiceKey where "ServiceCluster = ''cl''"
definition ServiceEngineManager :: ServiceKey where "ServiceEngineManager = ''em''"
definition ServiceEngineControl :: ServiceKey where "ServiceEngineControl = ''ec''"

lemmas key_defs = SchemaVersion_def KeySchema_def KeyHostUUID_def KeyClusterUUID_def KeyIP_def KeyIPs_def
  ServiceNodeInfo_def ServiceOllama_def ServiceLMStudio_def ServiceErrors_def ServiceWorkload_def
  ServiceCluster_def ServiceEngineManager_def ServiceEngineControl_def

definition serviceKeyOrder :: "ServiceKey list" where
  "serviceKeyOrder =
     [ServiceNodeInfo, ServiceOllama, ServiceLMStudio, ServiceErrors, ServiceWorkload,
      ServiceCluster, ServiceEngineManager, ServiceEngineControl]"

subsection \<open>Transport policy\<close>

datatype Transport = TransportPlain | TransportMTLSWhenClustered | TransportSplit

definition Transport_of :: "ServiceKey \<Rightarrow> Transport" where
  "Transport_of s =
     (if s = ServiceErrors \<or> s = ServiceWorkload \<or> s = ServiceEngineControl then TransportMTLSWhenClustered
      else if s = ServiceCluster then TransportSplit
      else TransportPlain)"

definition UsesMTLS :: "ServiceKey \<Rightarrow> bool \<Rightarrow> bool" where
  "UsesMTLS s targetClustered =
     (case Transport_of s of
        TransportPlain \<Rightarrow> False
      | TransportMTLSWhenClustered \<Rightarrow> targetClustered
      | TransportSplit \<Rightarrow> targetClustered)"

subsection \<open>The TXT record\<close>

record NodeRecord =
  nr_SchemaVersion :: string
  nr_HostUUID :: string
  nr_ClusterUUID :: string
  nr_IP :: string
  nr_IPs :: "string list"
  nr_Services :: "(ServiceKey, int) gomap"

definition Clustered :: "NodeRecord \<Rightarrow> bool" where
  "Clustered r \<longleftrightarrow> nr_ClusterUUID r \<noteq> []"

definition Port :: "ServiceKey \<Rightarrow> NodeRecord \<Rightarrow> int option" where
  "Port s r = mget (nr_Services r) s"

definition NodeRecord0 :: NodeRecord where
  "NodeRecord0 = \<lparr>nr_SchemaVersion = [], nr_HostUUID = [], nr_ClusterUUID = [], nr_IP = [], nr_IPs = [],
     nr_Services = []\<rparr>"

text \<open>The loop over the parts of \<open>ips=\<close>, which stops when the list is full.\<close>

fun parse_ips :: "string list \<Rightarrow> string list \<Rightarrow> string list" where
  "parse_ips [] ips = ips"
| "parse_ips (part # parts) ips =
     (if length ips \<ge> MaxAdvertisedIPs then ips
      else parse_ips parts (if TrimSpace part \<noteq> [] then ips @ [TrimSpace part] else ips))"

definition parse_entry :: "NodeRecord \<Rightarrow> string \<Rightarrow> NodeRecord" where
  "parse_entry r kv =
     (case Cut (CHR ''='') kv of
        None \<Rightarrow> r
      | Some (key, val) \<Rightarrow>
          if key = KeySchema then r\<lparr>nr_SchemaVersion := val\<rparr>
          else if key = KeyHostUUID then r\<lparr>nr_HostUUID := val\<rparr>
          else if key = KeyClusterUUID then r\<lparr>nr_ClusterUUID := val\<rparr>
          else if key = KeyIP then r\<lparr>nr_IP := val\<rparr>
          else if key = KeyIPs then r\<lparr>nr_IPs := parse_ips (Split IPsSeparator val) (nr_IPs r)\<rparr>
          else case Atoi val of
            None \<Rightarrow> r
          | Some port \<Rightarrow> if port > 0 then r\<lparr>nr_Services := mput key port (nr_Services r)\<rparr> else r)"

definition ParseTXT :: "string list \<Rightarrow> NodeRecord" where
  "ParseTXT txt = foldl parse_entry NodeRecord0 txt"

text \<open>\<open>key + "=" + value\<close>.\<close>

definition kv :: "string \<Rightarrow> string \<Rightarrow> string" where
  "kv k v = k @ CHR ''='' # v"

definition ips_entry :: "string list \<Rightarrow> string list" where
  "ips_entry ips =
     (if length ips > 1
      then [kv KeyIPs (Join IPsSeparator (if length ips > MaxAdvertisedIPs then take MaxAdvertisedIPs ips else ips))]
      else [])"

definition port_entries :: "(ServiceKey, int) gomap \<Rightarrow> string list" where
  "port_entries svcs =
     map (\<lambda>s. kv s (Itoa (the (mget svcs s)))) (filter (mhas svcs) serviceKeyOrder) @
     sort_by (<) (map (\<lambda>(s, port). kv s (Itoa port)) (filter (\<lambda>(s, port). s \<notin> set serviceKeyOrder) svcs))"

definition TXT :: "NodeRecord \<Rightarrow> string list" where
  "TXT r =
     [kv KeySchema (if nr_SchemaVersion r = [] then SchemaVersion else nr_SchemaVersion r)] @
     (if nr_HostUUID r \<noteq> [] then [kv KeyHostUUID (nr_HostUUID r)] else []) @
     (if nr_ClusterUUID r \<noteq> [] then [kv KeyClusterUUID (nr_ClusterUUID r)] else []) @
     (if nr_IP r \<noteq> [] then [kv KeyIP (nr_IP r)] else []) @
     ips_entry (nr_IPs r) @
     port_entries (nr_Services r)"

text \<open>The key named by the error, if an entry is too long.\<close>

definition ValidateTXTSize :: "string list \<Rightarrow> string option" where
  "ValidateTXTSize txt =
     (case find (\<lambda>s. length s > maxTXTStringLen) txt of
        None \<Rightarrow> None
      | Some s \<Rightarrow> Some (case Cut (CHR ''='') s of None \<Rightarrow> s | Some (key, _) \<Rightarrow> key))"

subsection \<open>Directory entries\<close>

record GPUInfo =
  g_Name :: string
  g_VramBytes :: int
  g_VramUsedBytes :: int
  g_UtilizationPercent :: int

record CPUInfo =
  c_Name :: string
  c_Cores :: int
  c_UtilizationPercent :: int

record MemoryInfo =
  mem_TotalBytes :: int
  mem_UsedBytes :: int

record ServiceStatus =
  ss_Port :: int
  ss_Probe :: string

record DirectoryNode =
  d_HostUUID :: string
  d_Name :: string
  d_IP :: string
  d_IPs :: "string list"
  d_ClusterUUID :: string
  d_Trusted :: bool
  d_Services :: "(ServiceKey, ServiceStatus) gomap option"
  d_GPUs :: "GPUInfo list"
  d_CPU :: "CPUInfo option"
  d_Memory :: "MemoryInfo option"
  d_Models :: "string list"
  d_ModelsByEngine :: "(string, string list) gomap option"
  d_LoadedByEngine :: "(string, string list) gomap option"
  d_LastSeen :: int

text \<open>Looking a key up in a map that may be \<open>nil\<close>.\<close>

definition nget :: "('k, 'v) gomap option \<Rightarrow> 'k \<Rightarrow> 'v option" where
  "nget m k = (case m of None \<Rightarrow> None | Some m \<Rightarrow> mget m k)"

definition d_Clustered :: "DirectoryNode \<Rightarrow> bool" where
  "d_Clustered n \<longleftrightarrow> d_ClusterUUID n \<noteq> []"

definition CandidateIPs :: "DirectoryNode \<Rightarrow> string list" where
  "CandidateIPs n = (if d_IPs n \<noteq> [] then d_IPs n else if d_IP n \<noteq> [] then [d_IP n] else [])"

definition AddressTXT :: "DirectoryNode \<Rightarrow> string list" where
  "AddressTXT n =
     (let ips = CandidateIPs n in
      if ips = [] then []
      else [kv KeyIP (hd ips)] @ (if length ips > 1 then [kv KeyIPs (Join IPsSeparator ips)] else []))"

definition HasService :: "ServiceKey \<Rightarrow> DirectoryNode \<Rightarrow> bool" where
  "HasService s n \<longleftrightarrow> nget (d_Services n) s \<noteq> None"

definition EngineModels :: "string \<Rightarrow> DirectoryNode \<Rightarrow> string list" where
  "EngineModels engine n =
     (case d_ModelsByEngine n of
        Some m \<Rightarrow> (case mget m engine of None \<Rightarrow> [] | Some ms \<Rightarrow> ms)
      | None \<Rightarrow> d_Models n)"

definition Matches :: "ServiceKey list \<Rightarrow> DirectoryNode \<Rightarrow> bool" where
  "Matches services n = (if services = [] then True else list_ex (\<lambda>s. HasService s n) services)"

subsection \<open>Decoding discovery:nodes\<close>

definition gpu_fields :: "GPUInfo field list" where
  "gpu_fields =
     [fld ''name'' dec_string g_Name (\<lambda>v r. r\<lparr>g_Name := v\<rparr>),
      fld ''vram_bytes'' dec_uint64 g_VramBytes (\<lambda>v r. r\<lparr>g_VramBytes := v\<rparr>),
      fld ''vram_used_bytes'' dec_uint64 g_VramUsedBytes (\<lambda>v r. r\<lparr>g_VramUsedBytes := v\<rparr>),
      fld ''utilization_percent'' dec_uint32 g_UtilizationPercent (\<lambda>v r. r\<lparr>g_UtilizationPercent := v\<rparr>)]"

definition cpu_fields :: "CPUInfo field list" where
  "cpu_fields =
     [fld ''name'' dec_string c_Name (\<lambda>v r. r\<lparr>c_Name := v\<rparr>),
      fld ''cores'' dec_uint32 c_Cores (\<lambda>v r. r\<lparr>c_Cores := v\<rparr>),
      fld ''utilization_percent'' dec_uint32 c_UtilizationPercent (\<lambda>v r. r\<lparr>c_UtilizationPercent := v\<rparr>)]"

definition memory_fields :: "MemoryInfo field list" where
  "memory_fields =
     [fld ''total_bytes'' dec_uint64 mem_TotalBytes (\<lambda>v r. r\<lparr>mem_TotalBytes := v\<rparr>),
      fld ''used_bytes'' dec_uint64 mem_UsedBytes (\<lambda>v r. r\<lparr>mem_UsedBytes := v\<rparr>)]"

definition status_fields :: "ServiceStatus field list" where
  "status_fields =
     [fld ''port'' dec_int64 ss_Port (\<lambda>v r. r\<lparr>ss_Port := v\<rparr>),
      fld ''probe'' dec_string ss_Probe (\<lambda>v r. r\<lparr>ss_Probe := v\<rparr>)]"

definition DirectoryNode0 :: DirectoryNode where
  "DirectoryNode0 = \<lparr>d_HostUUID = [], d_Name = [], d_IP = [], d_IPs = [], d_ClusterUUID = [],
     d_Trusted = False, d_Services = None, d_GPUs = [], d_CPU = None, d_Memory = None, d_Models = [],
     d_ModelsByEngine = None, d_LoadedByEngine = None, d_LastSeen = 0\<rparr>"

definition node_fields :: "DirectoryNode field list" where
  "node_fields =
     [fld ''hostUuid'' dec_string d_HostUUID (\<lambda>v r. r\<lparr>d_HostUUID := v\<rparr>),
      fld ''name'' dec_string d_Name (\<lambda>v r. r\<lparr>d_Name := v\<rparr>),
      fld ''ip'' dec_string d_IP (\<lambda>v r. r\<lparr>d_IP := v\<rparr>),
      fld ''ips'' (dec_slice dec_string []) d_IPs (\<lambda>v r. r\<lparr>d_IPs := v\<rparr>),
      fld ''clusterUuid'' dec_string d_ClusterUUID (\<lambda>v r. r\<lparr>d_ClusterUUID := v\<rparr>),
      fld ''trusted'' dec_bool d_Trusted (\<lambda>v r. r\<lparr>d_Trusted := v\<rparr>),
      fld ''services'' (dec_map (dec_struct status_fields) \<lparr>ss_Port = 0, ss_Probe = []\<rparr>) d_Services
        (\<lambda>v r. r\<lparr>d_Services := v\<rparr>),
      fld ''gpus'' (dec_slice (dec_struct gpu_fields)
          \<lparr>g_Name = [], g_VramBytes = 0, g_VramUsedBytes = 0, g_UtilizationPercent = 0\<rparr>)
        d_GPUs (\<lambda>v r. r\<lparr>d_GPUs := v\<rparr>),
      fld ''cpu'' (dec_ptr (dec_struct cpu_fields) \<lparr>c_Name = [], c_Cores = 0, c_UtilizationPercent = 0\<rparr>)
        d_CPU (\<lambda>v r. r\<lparr>d_CPU := v\<rparr>),
      fld ''memory'' (dec_ptr (dec_struct memory_fields) \<lparr>mem_TotalBytes = 0, mem_UsedBytes = 0\<rparr>)
        d_Memory (\<lambda>v r. r\<lparr>d_Memory := v\<rparr>),
      fld ''models'' (dec_slice dec_string []) d_Models (\<lambda>v r. r\<lparr>d_Models := v\<rparr>),
      fld ''modelsByEngine'' (dec_map (dec_slice dec_string []) []) d_ModelsByEngine
        (\<lambda>v r. r\<lparr>d_ModelsByEngine := v\<rparr>),
      fld ''loadedByEngine'' (dec_map (dec_slice dec_string []) []) d_LoadedByEngine
        (\<lambda>v r. r\<lparr>d_LoadedByEngine := v\<rparr>),
      fld ''lastSeen'' dec_int64 d_LastSeen (\<lambda>v r. r\<lparr>d_LastSeen := v\<rparr>)]"

definition NotifyNodes :: string where "NotifyNodes = ''discovery:nodes''"

definition GetNodesResult_fields :: "DirectoryNode list field list" where
  "GetNodesResult_fields =
     [fld ''nodes'' (dec_slice (dec_struct node_fields) DirectoryNode0) id (\<lambda>v r. v)]"

text \<open>\<open>json.Unmarshal(params, &res)\<close> of a \<open>GetNodesResult\<close>.\<close>

definition decode_nodes :: "raw \<Rightarrow> DirectoryNode list option" where
  "decode_nodes params = Unmarshal (dec_struct GetNodesResult_fields) [] params"

subsection \<open>Entries\<close>

text \<open>Keys that name no service port.\<close>

definition reserved :: "string list" where
  "reserved = [KeySchema, KeyHostUUID, KeyClusterUUID, KeyIP, KeyIPs]"

lemma Cut_kv [simp]: "CHR ''='' \<notin> set k \<Longrightarrow> Cut (CHR ''='') (kv k v) = Some (k, v)"
  by (simp add: kv_def Cut_append)

lemma parse_entry_fields [simp]:
  "parse_entry r (kv KeySchema v) = r\<lparr>nr_SchemaVersion := v\<rparr>"
  "parse_entry r (kv KeyHostUUID v) = r\<lparr>nr_HostUUID := v\<rparr>"
  "parse_entry r (kv KeyClusterUUID v) = r\<lparr>nr_ClusterUUID := v\<rparr>"
  "parse_entry r (kv KeyIP v) = r\<lparr>nr_IP := v\<rparr>"
  "parse_entry r (kv KeyIPs v) = r\<lparr>nr_IPs := parse_ips (Split IPsSeparator v) (nr_IPs r)\<rparr>"
  by (simp_all add: parse_entry_def key_defs)

definition good_port :: "ServiceKey \<times> int \<Rightarrow> bool" where
  "good_port sp \<longleftrightarrow> CHR ''='' \<notin> set (fst sp) \<and> fst sp \<notin> set reserved \<and> 0 < snd sp \<and> in_int64 (snd sp)"

lemma parse_entry_port:
  "good_port (s, p) \<Longrightarrow> parse_entry r (kv s (Itoa p)) = r\<lparr>nr_Services := mput s p (nr_Services r)\<rparr>"
  by (auto simp: parse_entry_def good_port_def reserved_def Atoi_Itoa)

lemma parse_ports:
  "list_all good_port L \<Longrightarrow>
     foldl parse_entry r (map (\<lambda>(s, p). kv s (Itoa p)) L) = r\<lparr>nr_Services := mputs L (nr_Services r)\<rparr>"
  by (induction L arbitrary: r) (auto simp: parse_entry_port)

lemma parse_ips_clean:
  assumes "length ips + length parts \<le> MaxAdvertisedIPs" and "\<forall>x \<in> set parts. TrimSpace x = x \<and> x \<noteq> []"
  shows "parse_ips parts ips = ips @ parts"
  using assms by (induction parts arbitrary: ips) auto

lemma parse_ips_bound: "length ips \<le> MaxAdvertisedIPs \<Longrightarrow> length (parse_ips parts ips) \<le> MaxAdvertisedIPs"
  by (induction parts arbitrary: ips) auto

lemma parse_ips_nonempty: "[] \<notin> set ips \<Longrightarrow> [] \<notin> set (parse_ips parts ips)"
  by (induction parts arbitrary: ips) auto

text \<open>The ports as pairs, in the order they are emitted.\<close>

definition port_pairs :: "(ServiceKey, int) gomap \<Rightarrow> (ServiceKey \<times> int) list" where
  "port_pairs svcs =
     map (\<lambda>s. (s, the (mget svcs s))) (filter (mhas svcs) serviceKeyOrder) @
     sort_by (\<lambda>a b. kv (fst a) (Itoa (snd a)) < kv (fst b) (Itoa (snd b)))
       (filter (\<lambda>(s, port). s \<notin> set serviceKeyOrder) svcs)"

lemma port_entries_pairs: "port_entries svcs = map (\<lambda>(s, p). kv s (Itoa p)) (port_pairs svcs)"
  using map_sort_by [of "\<lambda>sp. kv (fst sp) (Itoa (snd sp))" "(<)" "filter (\<lambda>(s, port). s \<notin> set serviceKeyOrder) svcs"]
  by (simp add: port_entries_def port_pairs_def split_def)

lemma serviceKeyOrder_distinct: "distinct serviceKeyOrder"
  by (simp add: serviceKeyOrder_def key_defs)

lemma port_pairs_set:
  assumes "wf_map svcs"
  shows "set (port_pairs svcs) = set svcs"
proof -
  have known: "(s, the (mget svcs s)) \<in> set svcs" if "mhas svcs s" for s
    using that mget_SomeD [of svcs s] by (auto simp: mhas_def)
  have "mhas svcs s \<and> the (mget svcs s) = p" if "(s, p) \<in> set svcs" for s p
    using that mget_in_set [OF assms, of s p] by (auto simp: mhas_def)
  then show ?thesis
    using known by (fastforce simp: port_pairs_def)
qed

lemma port_pairs_map:
  assumes "wf_map svcs"
  shows "wf_map (port_pairs svcs)" and "mget (port_pairs svcs) = mget svcs"
proof -
  let ?U = "filter (\<lambda>(s, port). s \<notin> set serviceKeyOrder) svcs"
  let ?S = "sort_by (\<lambda>a b. kv (fst a) (Itoa (snd a)) < kv (fst b) (Itoa (snd b))) ?U"
  have "same_map ?U ?S"
    using assms by (intro mset_same_map wf_filter) simp_all
  then have "distinct (map fst ?S)" by (simp add: same_map_def wf_map_def)
  moreover have "set (map fst ?S) \<inter> set serviceKeyOrder = {}" by auto
  ultimately show wf: "wf_map (port_pairs svcs)"
    using serviceKeyOrder_distinct by (auto simp: wf_map_def port_pairs_def comp_def)
  show "mget (port_pairs svcs) = mget svcs"
    using mget_in_set [OF wf] mget_in_set [OF assms] port_pairs_set [OF assms]
    by (metis not_Some_eq ext)
qed

subsection \<open>Theorems\<close>

definition wf_node :: "NodeRecord \<Rightarrow> bool" where
  "wf_node r \<longleftrightarrow> nr_SchemaVersion r \<noteq> [] \<and> wf_map (nr_Services r) \<and> list_all good_port (nr_Services r) \<and>
     length (nr_IPs r) \<noteq> 1 \<and> length (nr_IPs r) \<le> MaxAdvertisedIPs \<and>
     list_all (\<lambda>x. TrimSpace x = x \<and> x \<noteq> [] \<and> IPsSeparator \<notin> set x) (nr_IPs r)"

lemma parse_ips_entry:
  assumes "nr_IPs r = []" and "length ips \<noteq> 1" and "length ips \<le> MaxAdvertisedIPs"
    and "list_all (\<lambda>x. TrimSpace x = x \<and> x \<noteq> [] \<and> IPsSeparator \<notin> set x) ips"
  shows "foldl parse_entry r (ips_entry ips) = r\<lparr>nr_IPs := ips\<rparr>"
proof (cases "ips = []")
  case True
  then show ?thesis using assms(1) by (cases r) (simp add: ips_entry_def)
next
  case False
  then have "length ips > 1" using assms(2) by (cases ips) auto
  have "Split IPsSeparator (Join IPsSeparator ips) = ips"
    using False assms(4) by (intro Split_Join) (auto simp: list_all_iff)
  then show ?thesis
    using assms \<open>length ips > 1\<close> by (auto simp: ips_entry_def parse_ips_clean list_all_iff)
qed

text \<open>
  C36. A node's advertisement survives the wire: parsing the TXT strings a well-formed record emits
  gives the record back, service ports included, whatever order the service map is visited in.
\<close>

theorem ParseTXT_TXT:
  assumes "wf_node r"
  shows "(ParseTXT (TXT r))\<lparr>nr_Services := nr_Services r\<rparr> = r \<and>
    same_map (nr_Services (ParseTXT (TXT r))) (nr_Services r)"
proof -
  let ?svcs = "nr_Services r"
  have wf: "wf_map ?svcs" and ver: "nr_SchemaVersion r \<noteq> []" using assms by (simp_all add: wf_node_def)
  have "list_all good_port (port_pairs ?svcs)"
    using assms port_pairs_set [OF wf] by (simp add: wf_node_def list_all_iff)
  then have ports: "foldl parse_entry q (port_entries ?svcs) = q\<lparr>nr_Services := mputs (port_pairs ?svcs) (nr_Services q)\<rparr>" for q
    by (simp add: port_entries_pairs parse_ports)
  have ips: "foldl parse_entry q (ips_entry (nr_IPs r)) = q\<lparr>nr_IPs := nr_IPs r\<rparr>" if "nr_IPs q = []" for q
    using assms that by (intro parse_ips_entry) (simp_all add: wf_node_def)
  have parsed: "ParseTXT (TXT r) = r\<lparr>nr_Services := mputs (port_pairs ?svcs) []\<rparr>"
    using ver by (intro NodeRecord.equality) (simp_all add: ParseTXT_def TXT_def NodeRecord0_def ips ports)
  have "same_map (mputs (port_pairs ?svcs) []) ?svcs"
    using port_pairs_map [OF wf] wf
    by (auto simp: same_map_def wf_mputs mget_mputs fun_eq_iff split: option.splits)
  then show ?thesis by (simp add: parsed)
qed

definition demo_node :: NodeRecord where
  "demo_node = \<lparr>nr_SchemaVersion = ''1'', nr_HostUUID = ''h'', nr_ClusterUUID = [], nr_IP = ''10.0.0.1'',
     nr_IPs = [''10.0.0.1'', ''10.0.1.1''], nr_Services = [(''zz'', 7), (''wl'', 14320)]\<rparr>"

lemma wf_demo_node: "wf_node demo_node"
proof -
  have "TrimSpace ''10.0.0.1'' = ''10.0.0.1''" "TrimSpace ''10.0.1.1'' = ''10.0.1.1''"
    by (rule TrimSpace_graphic, simp add: graphic_def)+
  then show ?thesis
    by (simp add: wf_node_def demo_node_def wf_map_def good_port_def reserved_def key_defs in_int64_def
        MaxAdvertisedIPs_def IPsSeparator_def)
qed

theorem ParseTXT_TXT_witness:
  "nr_IPs (ParseTXT (TXT demo_node)) = [''10.0.0.1'', ''10.0.1.1''] \<and> Port ''wl'' (ParseTXT (TXT demo_node)) = Some 14320"
proof -
  have "nr_IPs ((ParseTXT (TXT demo_node))\<lparr>nr_Services := nr_Services demo_node\<rparr>) = nr_IPs demo_node"
    and "mget (nr_Services (ParseTXT (TXT demo_node))) = mget (nr_Services demo_node)"
    using ParseTXT_TXT [OF wf_demo_node] by (simp_all add: same_map_def)
  then show ?thesis by (simp add: Port_def demo_node_def mget_def)
qed

definition record_bounded :: "NodeRecord \<Rightarrow> bool" where
  "record_bounded r \<longleftrightarrow> length (nr_IPs r) \<le> MaxAdvertisedIPs \<and> [] \<notin> set (nr_IPs r) \<and> wf_map (nr_Services r) \<and>
     (\<forall>s p. mget (nr_Services r) s = Some p \<longrightarrow> 0 < p \<and> in_int64 p \<and> s \<notin> set reserved)"

lemma Atoi_range: "Atoi s = Some p \<Longrightarrow> in_int64 p"
  by (auto simp: Atoi_def Let_def split: if_splits option.splits)

lemma parse_entry_bounded: "record_bounded r \<Longrightarrow> record_bounded (parse_entry r e)"
  by (auto simp: parse_entry_def record_bounded_def mget_mput reserved_def Atoi_range parse_ips_bound
      parse_ips_nonempty split: option.splits)

text \<open>
  Whatever an unauthenticated record on the network holds, the parsed one offers a dialer at
  most four addresses, none empty, and only positive ports under names that are not reserved.
\<close>

theorem ParseTXT_bounded:
  "length (nr_IPs (ParseTXT ts)) \<le> 4 \<and> [] \<notin> set (nr_IPs (ParseTXT ts)) \<and>
   (\<forall>s p. Port s (ParseTXT ts) = Some p \<longrightarrow> 0 < p \<and> p < 2 ^ 63 \<and> s \<notin> set reserved)"
proof -
  have "record_bounded (foldl parse_entry r ts)" if "record_bounded r" for r
    using that by (induction ts arbitrary: r) (simp_all add: parse_entry_bounded)
  moreover have "record_bounded NodeRecord0"
    by (simp add: record_bounded_def NodeRecord0_def)
  ultimately have "record_bounded (ParseTXT ts)"
    unfolding ParseTXT_def by blast
  then show ?thesis by (auto simp: record_bounded_def Port_def in_int64_def MaxAdvertisedIPs_def)
qed

theorem ParseTXT_bounded_witness:
  "length (nr_IPs (ParseTXT [''ips=a,b,,c,d,e''])) \<le> 4 \<and> [] \<notin> set (nr_IPs (ParseTXT [''ips=a,b,,c,d,e'']))"
  using ParseTXT_bounded [of "[''ips=a,b,,c,d,e'']"] by simp

end
