(* ===== verification/NetPick.thy ===== *)
theory NetPick
  imports GoNet NodeRec
begin

unbundle bit_operations_syntax

section \<open>Choosing addresses\<close>

text \<open>
  \<open>shared/netpick\<close>: which of a peer's addresses to dial (\<open>netpick.go\<close>) and which of a host's own
  addresses to publish (\<open>local.go\<close>). The functions are pure; what \<open>enumerate\<close> and
  \<open>routeSourceIP\<close> read from the kernel are arguments.
\<close>

subsection \<open>Scores\<close>

definition dockerDefaultBridge :: "IP \<Rightarrow> bool" where
  "dockerDefaultBridge ip = (case To4 ip of None \<Rightarrow> False | Some ip4 \<Rightarrow> ip4 ! 0 = 172 \<and> ip4 ! 1 = 17)"

definition scoreIP :: "IP option \<Rightarrow> int" where
  "scoreIP addr =
     (case addr of
        None \<Rightarrow> - 1000
      | Some ip \<Rightarrow>
          if IsLoopback ip then - 500
          else case To4 ip of
            Some ip4 \<Rightarrow>
              if IsLinkLocalUnicast ip4 then - 100
              else if ip4 ! 0 = 100 \<and> ip4 ! 1 AND 0xc0 = 64 then - 50
              else if dockerDefaultBridge ip4 then 20
              else if ip4 ! 0 = 10 \<or> (ip4 ! 0 = 172 \<and> ip4 ! 1 \<ge> 16 \<and> ip4 ! 1 \<le> 31) \<or>
                  (ip4 ! 0 = 192 \<and> ip4 ! 1 = 168) then 100
              else 40
          | None \<Rightarrow>
              if IsLinkLocalUnicast ip then - 100
              else if IsPrivate ip then 30
              else 20)"

subsection \<open>Remote peers\<close>

definition scored_less :: "string \<times> int \<Rightarrow> string \<times> int \<Rightarrow> bool" where
  "scored_less a b = (if snd a \<noteq> snd b then snd a > snd b else fst a < fst b)"

definition RankRemote :: "string list \<Rightarrow> string list" where
  "RankRemote addrs =
     map fst (sort_by scored_less
       (map (\<lambda>a. (a, scoreIP (ParseIP (TrimSpace a))))
         (filter (\<lambda>a. ParseIP (TrimSpace a) \<noteq> None) addrs)))"

definition IPFromTXT :: "string list \<Rightarrow> string" where
  "IPFromTXT ts =
     (case find (\<lambda>e. CutPrefix e (KeyIP @ ''='') \<noteq> None) ts of
        None \<Rightarrow> []
      | Some e \<Rightarrow> TrimSpace (the (CutPrefix e (KeyIP @ ''=''))))"

definition IPsFromTXT :: "string list \<Rightarrow> string list" where
  "IPsFromTXT ts =
     (case find (\<lambda>e. CutPrefix e (KeyIPs @ ''='') \<noteq> None) ts of
        None \<Rightarrow> []
      | Some e \<Rightarrow>
          filter (\<lambda>part. part \<noteq> [] \<and> ParseIP part \<noteq> None)
            (map TrimSpace (Split IPsSeparator (the (CutPrefix e (KeyIPs @ ''=''))))))"

text \<open>The closure \<open>add\<close>; \<open>seen\<close> holds exactly what \<open>out\<close> lists.\<close>

definition cand_add :: "string list \<Rightarrow> string \<Rightarrow> string list" where
  "cand_add out a0 =
     (let a = TrimSpace a0 in
      if a = [] \<or> a \<in> set out \<or> length out \<ge> MaxAdvertisedIPs \<or> ParseIP a = None then out
      else out @ [a])"

definition Candidates :: "string list \<Rightarrow> string list \<Rightarrow> string list" where
  "Candidates ts addrs =
     foldl cand_add (foldl cand_add (cand_add [] (IPFromTXT ts)) (IPsFromTXT ts)) (RankRemote addrs)"

definition Primary :: "string list \<Rightarrow> string list \<Rightarrow> string" where
  "Primary ts addrs = (case Candidates ts addrs of [] \<Rightarrow> [] | c # _ \<Rightarrow> c)"

subsection \<open>The local host\<close>

record Evidence =
  ev_SendFailed :: "string list"
  ev_PeerOnLink :: "string list"
  ev_PeerObserved :: "string list"

definition virtual_patterns :: "string list" where
  "virtual_patterns =
     [''veth'', ''docker'', ''br-'', ''vethernet'', ''vmnet'', ''vboxnet'', ''virbr'',
      ''tailscale'', ''zt'', ''utun'', ''wg'', ''tun'', ''tap'', ''ppp'', ''vpn'',
      ''hyper-v'', ''virtual'', ''wsl'', ''loopback'', ''isatap'', ''teredo'']"

definition virtualIface :: "string \<Rightarrow> bool" where
  "virtualIface name = list_ex (StrContains (ToLower name)) virtual_patterns"

definition physicalBonus :: "string \<Rightarrow> int" where
  "physicalBonus name =
     (let n = ToLower name in
      if StrContains n ''wi-fi'' \<or> StrContains n ''wifi'' \<or> StrContains n ''wlan'' \<or> HasPrefix n ''wl'' then 20
      else if StrContains n ''ethernet'' \<or> HasPrefix n ''eth'' \<or> HasPrefix n ''en'' then 15
      else 0)"

record localAddr =
  la_ip :: string
  la_prefixLen :: int

record localIface =
  li_name :: string
  li_pointToPoint :: bool
  li_addrs :: "localAddr list"

record candidate =
  ca_ip :: string
  ca_qualified :: bool
  ca_peerSeen :: bool
  ca_peerOnLink :: bool
  ca_routeSource :: bool
  ca_physical :: int
  ca_score :: int

definition betterThan :: "candidate \<Rightarrow> candidate \<Rightarrow> bool" where
  "betterThan c d =
     (if ca_qualified c \<noteq> ca_qualified d then ca_qualified c
      else if ca_peerSeen c \<noteq> ca_peerSeen d then ca_peerSeen c
      else if ca_peerOnLink c \<noteq> ca_peerOnLink d then ca_peerOnLink c
      else if ca_routeSource c \<noteq> ca_routeSource d then ca_routeSource c
      else if ca_physical c \<noteq> ca_physical d then ca_physical c > ca_physical d
      else if ca_score c \<noteq> ca_score d then ca_score c > ca_score d
      else ca_ip c < ca_ip d)"

definition maxPrefixLen :: int where "maxPrefixLen = 30"

definition addr_candidate :: "Evidence \<Rightarrow> string \<Rightarrow> bool \<Rightarrow> localIface \<Rightarrow> localAddr \<Rightarrow> candidate list" where
  "addr_candidate ev routeIP virt ifi a =
     (case ParseIP (la_ip a) of
        None \<Rightarrow> []
      | Some ip \<Rightarrow>
          (case To4 ip of
             None \<Rightarrow> []
           | Some ip4 \<Rightarrow>
               if IsLoopback ip4 \<or> IsLinkLocalUnicast ip4 then []
               else if dockerDefaultBridge ip4 then []
               else let narrow = (la_prefixLen a \<ge> maxPrefixLen) in
                 [\<lparr>ca_ip = v4_String ip4,
                   ca_qualified = (\<not> li_pointToPoint ifi \<and> \<not> narrow \<and> li_name ifi \<notin> set (ev_SendFailed ev)),
                   ca_peerSeen = (v4_String ip4 \<in> set (ev_PeerObserved ev)),
                   ca_peerOnLink = (li_name ifi \<in> set (ev_PeerOnLink ev)),
                   ca_routeSource = (routeIP \<noteq> [] \<and> v4_String ip4 = routeIP),
                   ca_physical = (if \<not> virt then physicalBonus (li_name ifi) else 0),
                   ca_score = scoreIP (Some ip4)\<rparr>]))"

definition iface_candidates :: "Evidence \<Rightarrow> string \<Rightarrow> bool \<Rightarrow> localIface \<Rightarrow> candidate list" where
  "iface_candidates ev routeIP virt ifi =
     (if virtualIface (li_name ifi) \<noteq> virt then []
      else concat (map (addr_candidate ev routeIP virt ifi) (li_addrs ifi)))"

definition rankIfaces :: "localIface list \<Rightarrow> Evidence \<Rightarrow> string \<Rightarrow> bool \<Rightarrow> candidate list" where
  "rankIfaces ifaces ev routeIP virt =
     sort_by betterThan (concat (map (iface_candidates ev routeIP virt) ifaces))"

definition peerProven :: "candidate list \<Rightarrow> candidate list" where
  "peerProven cands = filter ca_peerSeen cands"

text \<open>The loop keeps the first appearance of each address.\<close>

definition keep_first :: "string list \<Rightarrow> candidate \<Rightarrow> string list" where
  "keep_first out c = (if ca_ip c \<in> set out then out else out @ [ca_ip c])"

definition addresses :: "candidate list \<Rightarrow> string list" where
  "addresses cands = foldl keep_first [] cands"

definition rankLocal :: "localIface list \<Rightarrow> Evidence \<Rightarrow> string \<Rightarrow> string list" where
  "rankLocal ifaces ev routeIP =
     (let physical = rankIfaces ifaces ev routeIP False;
          overlay = rankIfaces ifaces ev routeIP True
      in if physical \<noteq> [] \<and> ca_qualified (hd physical)
         then addresses (physical @ peerProven overlay)
         else addresses (overlay @ physical))"

definition parsed_peers :: "string list \<Rightarrow> IP list" where
  "parsed_peers peerIPs =
     concat (map (\<lambda>p. case ParseIP (TrimSpace p) of
                        None \<Rightarrow> []
                      | Some ip \<Rightarrow> (case To4 ip of
                           Some ip4 \<Rightarrow> if IsLoopback ip4 then [] else [ip4]
                         | None \<Rightarrow> [])) peerIPs)"

definition addr_faces :: "IP list \<Rightarrow> localAddr \<Rightarrow> bool" where
  "addr_faces parsed a =
     (if la_prefixLen a < 0 then False
      else case ParseIP (la_ip a) of
        None \<Rightarrow> False
      | Some ip \<Rightarrow> (case To4 ip of
           None \<Rightarrow> False
         | Some ip4 \<Rightarrow>
             list_ex (\<lambda>peer. peer \<noteq> ip4 \<and> Contains4 ip4 (CIDRMask32 (la_prefixLen a)) peer) parsed))"

text \<open>The names the result maps to true.\<close>

definition facingPeers :: "localIface list \<Rightarrow> string list \<Rightarrow> string list" where
  "facingPeers ifaces peerIPs =
     (let parsed = parsed_peers peerIPs in
      if parsed = [] then []
      else map li_name (filter (\<lambda>ifi. \<not> virtualIface (li_name ifi) \<and> list_ex (addr_faces parsed) (li_addrs ifi)) ifaces))"

definition LocalCandidates :: "localIface list \<Rightarrow> string \<Rightarrow> Evidence \<Rightarrow> string list" where
  "LocalCandidates enumerated routeSource ev = rankLocal enumerated ev routeSource"

definition BestLocalIP :: "localIface list \<Rightarrow> string \<Rightarrow> Evidence \<Rightarrow> string" where
  "BestLocalIP enumerated routeSource ev =
     (case LocalCandidates enumerated routeSource ev of [] \<Rightarrow> [] | c # _ \<Rightarrow> c)"

subsection \<open>Sorting contracts\<close>

interpretation scored: key_sort scored_less "\<lambda>p. (- snd p, fst p)"
  by unfold_locales (auto simp: scored_less_def)

definition cand_key :: "candidate \<Rightarrow> bool \<times> bool \<times> bool \<times> bool \<times> int \<times> int \<times> string" where
  "cand_key c = (\<not> ca_qualified c, \<not> ca_peerSeen c, \<not> ca_peerOnLink c, \<not> ca_routeSource c,
     - ca_physical c, - ca_score c, ca_ip c)"

interpretation ranked: key_sort betterThan cand_key
  by unfold_locales (auto simp: betterThan_def cand_key_def)

lemma inj_cand_key: "inj_on cand_key A"
  by (rule inj_onI) (simp add: cand_key_def)

lemma mset_concat_map: "mset xs = mset ys \<Longrightarrow> mset (concat (map f xs)) = mset (concat (map f ys))"
  by (simp add: mset_concat flip: sum_mset_sum_list)

subsection \<open>Candidates\<close>

definition cand_ok :: "string list \<Rightarrow> bool" where
  "cand_ok out \<longleftrightarrow> length out \<le> MaxAdvertisedIPs \<and> distinct out \<and> list_all (\<lambda>a. ParseIP a \<noteq> None) out"

lemma cand_add_ok: "cand_ok out \<Longrightarrow> cand_ok (cand_add out a)"
  by (auto simp: cand_ok_def cand_add_def Let_def)

lemma fold_cand_ok: "cand_ok out \<Longrightarrow> cand_ok (foldl cand_add out as)"
  by (induction "as" arbitrary: out) (simp_all add: cand_add_ok)

lemma Candidates_ok: "cand_ok (Candidates ts addrs)"
  unfolding Candidates_def by (intro fold_cand_ok cand_add_ok) (simp add: cand_ok_def)

lemma cand_add_prefix: "\<exists>t. cand_add out a = out @ t"
  by (simp add: cand_add_def Let_def)

lemma fold_cand_prefix: "\<exists>t. foldl cand_add out as = out @ t"
proof (induction "as" arbitrary: out)
  case (Cons a "as")
  obtain t where "cand_add out a = out @ t" using cand_add_prefix by blast
  moreover obtain u where "foldl cand_add (out @ t) as = (out @ t) @ u" using Cons.IH by blast
  ultimately show ?case by simp
qed simp

lemma cand_add_new:
  "ParseIP a \<noteq> None \<Longrightarrow> a \<notin> set out \<Longrightarrow> length out < MaxAdvertisedIPs \<Longrightarrow> cand_add out a = out @ [a]"
  by (auto simp: cand_add_def Let_def ParseIP_trim)

lemma fold_cand_noop:
  assumes "\<forall>a \<in> set as. ParseIP a \<noteq> None \<and> (a \<in> set out \<or> length out \<ge> MaxAdvertisedIPs)"
  shows "foldl cand_add out as = out"
  using assms by (induction "as") (auto simp: cand_add_def Let_def ParseIP_trim)

lemma fold_cand_take:
  assumes "\<forall>a \<in> set as. ParseIP a \<noteq> None" and "distinct (out @ as)" and "length out \<le> MaxAdvertisedIPs"
  shows "foldl cand_add out as = take MaxAdvertisedIPs (out @ as)"
  using assms
proof (induction "as" arbitrary: out)
  case (Cons a "as")
  show ?case
  proof (cases "length out < MaxAdvertisedIPs")
    case True
    then have "cand_add out a = out @ [a]" using Cons.prems by (intro cand_add_new) auto
    then show ?thesis using Cons.IH [of "out @ [a]"] Cons.prems True by simp
  next
    case False
    then show ?thesis using Cons.prems by (subst fold_cand_noop) auto
  qed
qed simp

lemma RankRemote_set: "set (RankRemote addrs) = {a \<in> set addrs. ParseIP (TrimSpace a) \<noteq> None}"
  by (simp add: RankRemote_def image_image)

lemma no_ips_prefix: "CutPrefix (kv KeyIP x) (KeyIPs @ ''='') = None"
  by (simp add: CutPrefix_def kv_def KeyIP_def KeyIPs_def)

lemma kv_prefix: "CutPrefix (kv k v) (k @ ''='') = Some v"
  using CutPrefix_append [of "k @ ''=''" v] by (simp add: kv_def)

lemma IPFromTXT_AddressTXT:
  assumes "CandidateIPs n = x # L"
  shows "IPFromTXT (AddressTXT n @ es) = TrimSpace x"
  using assms by (simp add: IPFromTXT_def AddressTXT_def Let_def kv_prefix)

text \<open>Entries that carry no address.\<close>

definition no_addr_entries :: "string list \<Rightarrow> bool" where
  "no_addr_entries es \<longleftrightarrow>
     list_all (\<lambda>e. CutPrefix e (KeyIP @ ''='') = None \<and> CutPrefix e (KeyIPs @ ''='') = None) es"

lemma find_no_addr:
  assumes "no_addr_entries es"
  shows "find (\<lambda>e. CutPrefix e (KeyIP @ ''='') \<noteq> None) es = None"
    and "find (\<lambda>e. CutPrefix e (KeyIPs @ ''='') \<noteq> None) es = None"
  using assms by (auto simp: no_addr_entries_def list_all_iff find_None_iff)

lemma IPsFromTXT_AddressTXT:
  assumes "CandidateIPs n = L" and "\<forall>x \<in> set L. ParseIP x \<noteq> None" and "no_addr_entries es"
  shows "IPsFromTXT (AddressTXT n @ es) = (if length L > 1 then L else [])"
proof (cases "length L > 1")
  case True
  then have "L \<noteq> []" by auto
  have clean: "\<forall>x \<in> set L. IPsSeparator \<notin> set x"
    using assms(2) ParseIP_no_comma by (auto simp: IPsSeparator_def)
  have "map TrimSpace L = L"
    using assms(2) by (intro map_idI) (auto simp: ParseIP_trim)
  moreover have "filter (\<lambda>part. part \<noteq> [] \<and> ParseIP part \<noteq> None) L = L"
    using assms(2) by (intro filter_True) auto
  ultimately show ?thesis
    using True assms(1) \<open>L \<noteq> []\<close> Split_Join [OF \<open>L \<noteq> []\<close> clean]
    by (simp add: IPsFromTXT_def AddressTXT_def Let_def no_ips_prefix kv_prefix)
next
  case False
  then show ?thesis
    using assms(1) find_no_addr(2) [OF assms(3)]
    by (simp add: IPsFromTXT_def AddressTXT_def Let_def no_ips_prefix)
qed

lemma Candidates_AddressTXT:
  assumes "distinct (CandidateIPs n)" and "\<forall>x \<in> set (CandidateIPs n). ParseIP x \<noteq> None"
    and "set addrs \<subseteq> set (CandidateIPs n)" and "no_addr_entries es"
  shows "Candidates (AddressTXT n @ es) addrs = take 4 (CandidateIPs n)"
proof (cases "CandidateIPs n")
  case Nil
  then show ?thesis
    using assms(3) find_no_addr [OF assms(4)]
    by (simp add: Candidates_def AddressTXT_def IPFromTXT_def IPsFromTXT_def cand_add_def RankRemote_def sort_by_def TrimSpace_graphic)
next
  case (Cons x L)
  let ?I = "CandidateIPs n"
  have x: "ParseIP x \<noteq> None" "TrimSpace x = x" using assms(2) Cons by (auto simp: ParseIP_trim)
  then have first: "cand_add [] (IPFromTXT (AddressTXT n @ es)) = [x]"
    by (simp add: IPFromTXT_AddressTXT [OF Cons] cand_add_new MaxAdvertisedIPs_def)
  have "cand_add [x] x = [x]" by (simp add: cand_add_def x)
  then have own: "foldl cand_add [x] (IPsFromTXT (AddressTXT n @ es)) = take 4 ?I"
    using fold_cand_take [of L "[x]"] assms(1,2,4) Cons
    by (simp add: IPsFromTXT_AddressTXT MaxAdvertisedIPs_def)
  have "a \<in> set (take 4 ?I) \<or> length (take 4 ?I) \<ge> MaxAdvertisedIPs" if "a \<in> set ?I" for a
    using that by (cases "length ?I \<le> 4") (simp_all add: MaxAdvertisedIPs_def)
  moreover have "ParseIP a \<noteq> None \<and> a \<in> set ?I" if "a \<in> set (RankRemote addrs)" for a
    using that assms(2,3) by (auto simp: RankRemote_set)
  ultimately have "foldl cand_add (take 4 ?I) (RankRemote addrs) = take 4 ?I"
    by (intro fold_cand_noop) blast
  then show ?thesis by (simp add: Candidates_def first own)
qed

subsection \<open>Theorems\<close>

text \<open>
  A dialer's work is bounded and its list is clean whatever a record on the network says: at
  most four addresses, no repetition, every one a valid literal, and the address the node itself
  calls canonical first when it is one.
\<close>

theorem Candidates_sound:
  "length (Candidates ts addrs) \<le> 4 \<and> distinct (Candidates ts addrs) \<and>
   list_all (\<lambda>a. ParseIP a \<noteq> None) (Candidates ts addrs) \<and>
   (ParseIP (IPFromTXT ts) \<noteq> None \<longrightarrow> Primary ts addrs = IPFromTXT ts)"
proof -
  have "Primary ts addrs = IPFromTXT ts" if ip: "ParseIP (IPFromTXT ts) \<noteq> None"
  proof -
    have "cand_add [] (IPFromTXT ts) = [IPFromTXT ts]"
      using cand_add_new [OF ip, of "[]"] by (simp add: MaxAdvertisedIPs_def)
    then obtain t u where "Candidates ts addrs = ([IPFromTXT ts] @ t) @ u"
      unfolding Candidates_def using fold_cand_prefix by metis
    then show ?thesis by (simp add: Primary_def)
  qed
  then show ?thesis
    using Candidates_ok [of ts addrs] by (auto simp: cand_ok_def MaxAdvertisedIPs_def)
qed

theorem Candidates_sound_witness:
  "Primary [''ip=10.0.0.9''] [''192.168.0.1''] = ''10.0.0.9''"
proof -
  have "IPFromTXT [''ip=10.0.0.9''] = ''10.0.0.9''"
    using TrimSpace_graphic [of "''10.0.0.9''"] by (simp add: IPFromTXT_def CutPrefix_def KeyIP_def graphic_def)
  moreover have "ParseIP ''10.0.0.9'' \<noteq> None" by code_simp
  ultimately show ?thesis using Candidates_sound [of "[''ip=10.0.0.9'']" "[''192.168.0.1'']"] by simp
qed

text \<open>
  A node's own ranking survives every hop: projecting a directory entry onto TXT strings and
  reading candidates back gives the addresses the node published, in its order, up to the cap;
  an observer's ranking of the same addresses never displaces it.
\<close>

theorem published_order_preserved:
  assumes "distinct (CandidateIPs n)" and "\<forall>x \<in> set (CandidateIPs n). ParseIP x \<noteq> None"
    and "set addrs \<subseteq> set (CandidateIPs n)"
  shows "Candidates (AddressTXT n) addrs = take 4 (CandidateIPs n)"
  using Candidates_AddressTXT [OF assms, of "[]"] by (simp add: no_addr_entries_def)

definition demo_dir :: DirectoryNode where
  "demo_dir = DirectoryNode0\<lparr>d_IPs := [''10.0.0.2'', ''10.0.0.1'']\<rparr>"

theorem published_order_preserved_witness:
  "Candidates (AddressTXT demo_dir) [''10.0.0.1'', ''10.0.0.2''] = [''10.0.0.2'', ''10.0.0.1'']"
proof -
  have "CandidateIPs demo_dir = [''10.0.0.2'', ''10.0.0.1'']" by (simp add: demo_dir_def CandidateIPs_def)
  moreover have "ParseIP ''10.0.0.2'' \<noteq> None" "ParseIP ''10.0.0.1'' \<noteq> None" by code_simp+
  ultimately show ?thesis
    using published_order_preserved [of demo_dir "[''10.0.0.1'', ''10.0.0.2'']"] by simp
qed

text \<open>
  The fallback ranking of a peer that published no list does not flap: it depends on which
  addresses were seen, not on the order they arrived in, and every address comes after those with
  a better score.
\<close>

theorem RankRemote_stable:
  assumes "mset addrs = mset addrs'"
  shows "RankRemote addrs = RankRemote addrs' \<and>
    sorted (map (\<lambda>a. - scoreIP (ParseIP (TrimSpace a))) (RankRemote addrs))"
proof
  let ?m = "\<lambda>as. map (\<lambda>a. (a, scoreIP (ParseIP (TrimSpace a)))) (filter (\<lambda>a. ParseIP (TrimSpace a) \<noteq> None) as)"
  have "sort_by scored_less (?m addrs) = sort_by scored_less (?m addrs')"
    using assms by (intro scored.sort_by_deterministic inj_onI) auto
  then show "RankRemote addrs = RankRemote addrs'" by (simp add: RankRemote_def)
  let ?s = "sort_by scored_less (?m addrs)"
  have scores: "scoreIP (ParseIP (TrimSpace (fst p))) = snd p" if "p \<in> set ?s" for p
    using that by auto
  have "sorted (map (\<lambda>p. (- snd p, fst p)) ?s)" by (rule scored.sorted_sort_by)
  then have "sorted_wrt (\<lambda>p q. - snd p \<le> - snd q) ?s"
    unfolding sorted_map by (rule sorted_wrt_mono_rel [rotated]) auto
  then have "sorted (map (\<lambda>p. - scoreIP (ParseIP (TrimSpace (fst p)))) ?s)"
    unfolding sorted_map by (rule sorted_wrt_mono_rel [rotated]) (simp add: scores)
  then show "sorted (map (\<lambda>a. - scoreIP (ParseIP (TrimSpace a))) (RankRemote addrs))"
    by (simp add: RankRemote_def comp_def)
qed

theorem RankRemote_stable_witness:
  "RankRemote [''10.0.0.1'', ''127.0.0.1''] = RankRemote [''127.0.0.1'', ''10.0.0.1'']"
  using RankRemote_stable [of "[''10.0.0.1'', ''127.0.0.1'']" "[''127.0.0.1'', ''10.0.0.1'']"] by simp

subsection \<open>Publishing\<close>

text \<open>What can be published, and what of it may be the address the fleet shares.\<close>

definition usable :: "IP \<Rightarrow> bool" where
  "usable ip4 \<longleftrightarrow> length ip4 = 4 \<and> \<not> IsLoopback ip4 \<and> \<not> IsLinkLocalUnicast ip4 \<and> \<not> dockerDefaultBridge ip4"

definition holds_addr :: "localAddr \<Rightarrow> IP \<Rightarrow> bool" where
  "holds_addr a ip4 \<longleftrightarrow> (\<exists>ip. ParseIP (la_ip a) = Some ip \<and> To4 ip = Some ip4) \<and> usable ip4"

definition shared_link :: "Evidence \<Rightarrow> localIface \<Rightarrow> localAddr \<Rightarrow> bool" where
  "shared_link ev ifi a \<longleftrightarrow> \<not> li_pointToPoint ifi \<and> la_prefixLen a < maxPrefixLen \<and>
     li_name ifi \<notin> set (ev_SendFailed ev)"

lemma addr_candidate_iff:
  "c \<in> set (addr_candidate ev routeIP virt ifi a) \<longleftrightarrow>
     (\<exists>ip4. holds_addr a ip4 \<and> c =
        \<lparr>ca_ip = v4_String ip4, ca_qualified = shared_link ev ifi a,
         ca_peerSeen = (v4_String ip4 \<in> set (ev_PeerObserved ev)),
         ca_peerOnLink = (li_name ifi \<in> set (ev_PeerOnLink ev)),
         ca_routeSource = (routeIP \<noteq> [] \<and> v4_String ip4 = routeIP),
         ca_physical = (if \<not> virt then physicalBonus (li_name ifi) else 0), ca_score = scoreIP (Some ip4)\<rparr>)"
proof (cases "\<exists>ip ip4. ParseIP (la_ip a) = Some ip \<and> To4 ip = Some ip4")
  case True
  then obtain ip ip4 where ip: "ParseIP (la_ip a) = Some ip" "To4 ip = Some ip4" by blast
  then have holds: "holds_addr a x \<longleftrightarrow> x = ip4 \<and> usable ip4" for x
    by (auto simp: holds_addr_def)
  have link: "(\<not> li_pointToPoint ifi \<and> \<not> maxPrefixLen \<le> la_prefixLen a \<and> li_name ifi \<notin> set (ev_SendFailed ev)) =
      shared_link ev ifi a"
    by (auto simp: shared_link_def)
  show ?thesis
    using To4_length [OF ip(2)] by (auto simp: holds addr_candidate_def ip usable_def link)
next
  case False
  then show ?thesis by (auto simp: addr_candidate_def holds_addr_def split: option.splits)
qed

lemma rankIfaces_iff:
  "c \<in> set (rankIfaces ifaces ev routeIP virt) \<longleftrightarrow>
     (\<exists>ifi \<in> set ifaces. virtualIface (li_name ifi) = virt \<and>
        (\<exists>a \<in> set (li_addrs ifi). c \<in> set (addr_candidate ev routeIP virt ifi a)))"
  by (auto simp: rankIfaces_def iface_candidates_def)

lemma addresses_append: "addresses (cs @ [c]) = keep_first (addresses cs) c"
  by (simp add: addresses_def)

lemma addresses_set: "set (addresses cs) = ca_ip ` set cs"
  by (induction cs rule: rev_induct) (auto simp: addresses_append keep_first_def addresses_def)

lemma addresses_distinct: "distinct (addresses cs)"
  by (induction cs rule: rev_induct) (auto simp: addresses_append keep_first_def addresses_def)

lemma addresses_hd: "cs \<noteq> [] \<Longrightarrow> addresses cs \<noteq> [] \<and> hd (addresses cs) = ca_ip (hd cs)"
proof (induction cs rule: rev_induct)
  case (snoc c cs)
  show ?case
  proof (cases "cs = []")
    case True
    then show ?thesis by (simp add: addresses_def keep_first_def)
  next
    case False
    then show ?thesis using snoc.IH by (simp add: addresses_append keep_first_def)
  qed
qed simp

lemma rankIfaces_hd_qualified:
  assumes "c \<in> set (rankIfaces ifaces ev routeIP virt)" and "ca_qualified c"
  shows "ca_qualified (hd (rankIfaces ifaces ev routeIP virt))"
proof -
  let ?r = "rankIfaces ifaces ev routeIP virt"
  have "sorted (map cand_key ?r)" unfolding rankIfaces_def by (rule ranked.sorted_sort_by)
  then have "cand_key (hd ?r) \<le> cand_key c"
    using assms(1) by (cases ?r) auto
  then show ?thesis using assms(2) by (auto simp: cand_key_def less_eq_prod_def)
qed

text \<open>
  What a host publishes does not depend on the order in which the kernel enumerates its
  interfaces: the same interfaces, evidence and route give the same list.
\<close>

theorem rankLocal_deterministic:
  assumes "mset ifaces = mset ifaces'"
  shows "rankLocal ifaces ev routeIP = rankLocal ifaces' ev routeIP"
proof -
  have "rankIfaces ifaces ev routeIP virt = rankIfaces ifaces' ev routeIP virt" for virt
    unfolding rankIfaces_def using assms
    by (intro ranked.sort_by_deterministic inj_cand_key mset_concat_map)
  then show ?thesis by (simp add: rankLocal_def)
qed

definition demo_if :: "string \<Rightarrow> string \<Rightarrow> int \<Rightarrow> localIface" where
  "demo_if name ip p = \<lparr>li_name = name, li_pointToPoint = False, li_addrs = [\<lparr>la_ip = ip, la_prefixLen = p\<rparr>]\<rparr>"

definition no_evidence :: Evidence where
  "no_evidence = \<lparr>ev_SendFailed = [], ev_PeerOnLink = [], ev_PeerObserved = []\<rparr>"

theorem rankLocal_deterministic_witness:
  "rankLocal [demo_if ''eth0'' ''10.0.0.1'' 24, demo_if ''eth1'' ''10.0.1.1'' 24] no_evidence [] =
   rankLocal [demo_if ''eth1'' ''10.0.1.1'' 24, demo_if ''eth0'' ''10.0.0.1'' 24] no_evidence []"
  by (rule rankLocal_deterministic) simp

text \<open>
  A host never publishes loopback, link-local or the Docker bridge, never an address twice,
  and only addresses one of its interfaces holds.
\<close>

theorem rankLocal_safe:
  "distinct (rankLocal ifaces ev routeIP) \<and>
   (\<forall>s \<in> set (rankLocal ifaces ev routeIP). \<exists>ip4 ifi a. s = v4_String ip4 \<and> usable ip4 \<and>
      ifi \<in> set ifaces \<and> a \<in> set (li_addrs ifi) \<and> holds_addr a ip4)"
proof -
  have c: "\<exists>ip4 ifi a. ca_ip c = v4_String ip4 \<and> usable ip4 \<and> ifi \<in> set ifaces \<and> a \<in> set (li_addrs ifi) \<and> holds_addr a ip4"
    if cr: "c \<in> set (rankIfaces ifaces ev routeIP virt)" for c virt
  proof -
    obtain ifi a where "ifi \<in> set ifaces" "a \<in> set (li_addrs ifi)" "c \<in> set (addr_candidate ev routeIP virt ifi a)"
      using cr unfolding rankIfaces_iff by blast
    moreover then obtain ip4 where "holds_addr a ip4" "ca_ip c = v4_String ip4"
      unfolding addr_candidate_iff by auto
    ultimately show ?thesis unfolding holds_addr_def by blast
  qed
  have "\<exists>c virt. s = ca_ip c \<and> c \<in> set (rankIfaces ifaces ev routeIP virt)" if "s \<in> set (rankLocal ifaces ev routeIP)" for s
    using that by (auto simp: rankLocal_def Let_def addresses_set peerProven_def split: if_splits)
  then have "\<forall>s \<in> set (rankLocal ifaces ev routeIP). \<exists>ip4 ifi a. s = v4_String ip4 \<and> usable ip4 \<and>
      ifi \<in> set ifaces \<and> a \<in> set (li_addrs ifi) \<and> holds_addr a ip4"
    using c by blast
  moreover have "distinct (rankLocal ifaces ev routeIP)"
    by (simp add: rankLocal_def Let_def addresses_distinct)
  ultimately show ?thesis by blast
qed

text \<open>
  The canonical address of a host that has a shared physical link is on one: a direct-connect
  \<open>/30\<close>, a point-to-point link, an interface whose sends fail or an overlay adapter is never
  published first while a physical interface on a shared network holds a usable address.
\<close>

theorem BestLocalIP_on_shared_link:
  assumes "ifi \<in> set ifaces" and "\<not> virtualIface (li_name ifi)" and "a \<in> set (li_addrs ifi)"
    and "holds_addr a ip4" and "shared_link ev ifi a"
  shows "\<exists>ifi' a' ip4'. ifi' \<in> set ifaces \<and> \<not> virtualIface (li_name ifi') \<and> a' \<in> set (li_addrs ifi') \<and>
    holds_addr a' ip4' \<and> shared_link ev ifi' a' \<and> BestLocalIP ifaces routeIP ev = v4_String ip4'"
proof -
  let ?r = "rankIfaces ifaces ev routeIP False"
  have "\<exists>c. c \<in> set (addr_candidate ev routeIP False ifi a) \<and> ca_qualified c"
    using assms(4,5) unfolding addr_candidate_iff by fastforce
  then obtain c where c: "c \<in> set ?r" "ca_qualified c"
    using assms(1-3) unfolding rankIfaces_iff by blast
  have hd: "?r \<noteq> []" "hd ?r \<in> set ?r" "ca_qualified (hd ?r)"
    using c rankIfaces_hd_qualified [OF c] hd_in_set [of ?r] by (cases ?r; force)+
  have "hd (rankLocal ifaces ev routeIP) = ca_ip (hd ?r)" "rankLocal ifaces ev routeIP \<noteq> []"
    using addresses_hd [of "?r @ peerProven (rankIfaces ifaces ev routeIP True)"] hd
    by (simp_all add: rankLocal_def Let_def)
  then have best: "BestLocalIP ifaces routeIP ev = ca_ip (hd ?r)"
    by (cases "rankLocal ifaces ev routeIP") (simp_all add: BestLocalIP_def LocalCandidates_def)
  obtain ifi' a' where "ifi' \<in> set ifaces" "\<not> virtualIface (li_name ifi')" "a' \<in> set (li_addrs ifi')"
    and in_a': "hd ?r \<in> set (addr_candidate ev routeIP False ifi' a')"
    using hd(2) unfolding rankIfaces_iff by blast
  moreover obtain ip4' where "holds_addr a' ip4'" "shared_link ev ifi' a'" "ca_ip (hd ?r) = v4_String ip4'"
    using in_a' hd(3) unfolding addr_candidate_iff by auto
  ultimately show ?thesis using best by auto
qed

theorem BestLocalIP_on_shared_link_witness:
  "\<exists>ifi' a' ip4'. ifi' \<in> set [demo_if ''eth1'' ''10.9.0.1'' 30, demo_if ''eth0'' ''10.0.0.1'' 24] \<and>
     a' \<in> set (li_addrs ifi') \<and> shared_link no_evidence ifi' a' \<and>
     BestLocalIP [demo_if ''eth1'' ''10.9.0.1'' 30, demo_if ''eth0'' ''10.0.0.1'' 24] [] no_evidence = v4_String ip4'"
proof -
  have "\<not> virtualIface ''eth0''" by code_simp
  moreover have "ParseIP ''10.0.0.1'' = Some (v4_prefix @ [10, 0, 0, 1])" by code_simp
  then have "holds_addr \<lparr>la_ip = ''10.0.0.1'', la_prefixLen = 24\<rparr> [10, 0, 0, 1]"
    by (simp add: holds_addr_def To4_mapped usable_def IsLoopback_def IsLinkLocalUnicast_def dockerDefaultBridge_def To4_four)
  moreover have "shared_link no_evidence (demo_if ''eth0'' ''10.0.0.1'' 24) \<lparr>la_ip = ''10.0.0.1'', la_prefixLen = 24\<rparr>"
    by (simp add: shared_link_def no_evidence_def demo_if_def maxPrefixLen_def)
  ultimately show ?thesis
    using BestLocalIP_on_shared_link [of "demo_if ''eth0'' ''10.0.0.1'' 24"
        "[demo_if ''eth1'' ''10.9.0.1'' 30, demo_if ''eth0'' ''10.0.0.1'' 24]"
        "\<lparr>la_ip = ''10.0.0.1'', la_prefixLen = 24\<rparr>" "[10, 0, 0, 1]" no_evidence "[]"]
    by (auto simp: demo_if_def)
qed

theorem rankLocal_safe_witness:
  "distinct (rankLocal [demo_if ''eth0'' ''10.0.0.1'' 24, demo_if ''lo'' ''127.0.0.1'' 8] no_evidence [])"
  using rankLocal_safe by blast

end
