(* ===== verification/ClusterTrust.thy ===== *)
theory ClusterTrust
  imports NetPick GoJson
begin

section \<open>Cluster trust\<close>

text \<open>
  \<open>shared/clustertrust\<close>: the read side of the cluster directory (\<open>clustertrust.go\<close>,
  \<open>membership.go\<close>), the live view of it every service gates its traffic on (\<open>mesh.go\<close>), the
  membership watcher (\<open>watch.go\<close>) and the pool of pinned clients (\<open>peerclient.go\<close>).

  A state of the cluster directory is a value of \<open>ClusterDir\<close>, and one refresh reads one such state.
  Certificates are DER byte strings; what the standard library's PEM and X.509 parsers answer is the
  argument \<open>x509\<close>. A nil \<open>*Mesh\<close> is \<open>None\<close>.
\<close>

subsection \<open>Certificates\<close>

type_synonym DER = string

record Certificate =
  c_Raw :: DER
  c_URIs :: "string option list"
  c_CommonName :: string

text \<open>
  \<open>pem_Decode\<close> gives the type and the bytes of the first block; \<open>X509KeyPair\<close> gives the chain of a
  matching pair, which is never empty: its leaf and the rest.
\<close>

record x509 =
  pem_Decode :: "string \<Rightarrow> (string \<times> DER) option"
  ParseCertificate :: "DER \<Rightarrow> Certificate option"
  X509KeyPair :: "string \<Rightarrow> string \<Rightarrow> (DER \<times> DER list) option"

definition nodeURISANPrefix :: string where "nodeURISANPrefix = ''urn:nvpair:node:''"

definition UUIDFromCert :: "Certificate \<Rightarrow> string" where
  "UUIDFromCert cert =
     (case List.find (\<lambda>u. case u of None \<Rightarrow> False | Some s \<Rightarrow> CutPrefix s nodeURISANPrefix \<noteq> None) (c_URIs cert) of
        Some (Some s) \<Rightarrow> the (CutPrefix s nodeURISANPrefix)
      | _ \<Rightarrow> c_CommonName cert)"

subsection \<open>The cluster directory\<close>

text \<open>A file that cannot be read, or its contents: \<open>None\<close> inside \<open>Contents\<close> is no JSON document.\<close>

datatype file_read = Unreadable | Contents raw

record dir_entry =
  de_Name :: string
  de_IsDir :: bool
  de_File :: file_read

datatype dir = Missing | DirUnreadable | Entries "dir_entry list"

record ClusterDir =
  cd_node_crt :: "string option"
  cd_node_key :: "string option"
  cd_admission :: file_read
  cd_trusted :: dir

record Identity =
  id_NodeUUID :: string
  id_leaf :: DER
  id_chain :: "DER list"

definition LoadIdentity :: "x509 \<Rightarrow> ClusterDir \<Rightarrow> Identity option" where
  "LoadIdentity x d =
     (case cd_node_crt d of None \<Rightarrow> None | Some certPEM \<Rightarrow>
      case cd_node_key d of None \<Rightarrow> None | Some keyPEM \<Rightarrow>
      case X509KeyPair x certPEM keyPEM of None \<Rightarrow> None | Some (leafDER, chain) \<Rightarrow>
      case ParseCertificate x leafDER of None \<Rightarrow> None | Some leaf \<Rightarrow>
        Some \<lparr>id_NodeUUID = UUIDFromCert leaf, id_leaf = leafDER, id_chain = chain\<rparr>)"

record pin =
  pin_NodeUUID :: string
  pin_CertPem :: string

definition pin_fields :: "pin field list" where
  "pin_fields =
     [fld ''nodeUuid'' dec_string pin_NodeUUID (\<lambda>v. pin_NodeUUID_update (\<lambda>_. v)),
      fld ''certPem'' dec_string pin_CertPem (\<lambda>v. pin_CertPem_update (\<lambda>_. v))]"

definition pinDER :: "x509 \<Rightarrow> string \<Rightarrow> string \<Rightarrow> string \<Rightarrow> DER option" where
  "pinDER x innerUUID certPem fileUUID =
     (if innerUUID \<noteq> fileUUID then None
      else case pem_Decode x certPem of
        None \<Rightarrow> None
      | Some (typ, bytes) \<Rightarrow>
          if typ \<noteq> ''CERTIFICATE'' then None
          else case ParseCertificate x bytes of
            None \<Rightarrow> None
          | Some cert \<Rightarrow> if UUIDFromCert cert \<noteq> fileUUID then None else Some bytes)"

definition HasSuffix :: "string \<Rightarrow> string \<Rightarrow> bool" where
  "HasSuffix s t \<longleftrightarrow> length t \<le> length s \<and> drop (length s - length t) s = t"

definition TrimSuffix :: "string \<Rightarrow> string \<Rightarrow> string" where
  "TrimSuffix s t = (if HasSuffix s t then take (length s - length t) s else s)"

text \<open>One iteration of the loop of \<open>Reload\<close>; \<open>previous\<close> is the set in force before the reload.\<close>

definition reload_entry ::
  "x509 \<Rightarrow> (string, DER) gomap \<Rightarrow> dir_entry \<Rightarrow> (string, DER) gomap \<Rightarrow> (string, DER) gomap" where
  "reload_entry x previous e ders =
     (let name = de_Name e in
      if de_IsDir e \<or> \<not> HasSuffix name ''.json'' \<or> HasSuffix name ''.tmp'' then ders
      else let fileUUID = TrimSuffix name ''.json'' in
        case de_File e of
          Unreadable \<Rightarrow> (case mget previous fileUUID of None \<Rightarrow> ders | Some der \<Rightarrow> mput fileUUID der ders)
        | Contents raw \<Rightarrow>
            (case Unmarshal (dec_struct pin_fields) \<lparr>pin_NodeUUID = [], pin_CertPem = []\<rparr> raw of
               None \<Rightarrow> ders
             | Some p \<Rightarrow>
                 (case pinDER x (pin_NodeUUID p) (pin_CertPem p) fileUUID of
                    None \<Rightarrow> ders
                  | Some der \<Rightarrow> mput fileUUID der ders)))"

definition Reload :: "x509 \<Rightarrow> dir \<Rightarrow> (string, DER) gomap \<Rightarrow> (string, DER) gomap" where
  "Reload x d previous =
     (case d of
        DirUnreadable \<Rightarrow> previous
      | Missing \<Rightarrow> []
      | Entries es \<Rightarrow> fold (reload_entry x previous) es [])"

record admissionRecord =
  ar_ClusterID :: string
  ar_Epoch :: int

definition admission_fields :: "admissionRecord field list" where
  "admission_fields =
     [fld ''clusterId'' dec_string ar_ClusterID (\<lambda>v. ar_ClusterID_update (\<lambda>_. v)),
      fld ''epoch'' dec_uint64 ar_Epoch (\<lambda>v. ar_Epoch_update (\<lambda>_. v))]"

text \<open>\<open>clusterDir\<close> is the path; an empty one has no files.\<close>

definition hasActiveAdmission :: "string \<Rightarrow> ClusterDir \<Rightarrow> bool" where
  "hasActiveAdmission clusterDir d =
     (if clusterDir = [] then False
      else case cd_admission d of
        Unreadable \<Rightarrow> False
      | Contents raw \<Rightarrow>
          (case Unmarshal (dec_struct admission_fields) \<lparr>ar_ClusterID = [], ar_Epoch = 0\<rparr> raw of
             None \<Rightarrow> False
           | Some rec \<Rightarrow> ar_ClusterID rec \<noteq> [] \<and> ar_Epoch rec \<noteq> 0))"

subsection \<open>The mesh\<close>

record Mesh =
  me_dir :: string
  me_id :: "Identity option"
  me_idCertPEM :: string
  me_clustered :: bool
  me_trust :: "(string, DER) gomap"

definition Refresh :: "x509 \<Rightarrow> ClusterDir \<Rightarrow> Mesh option \<Rightarrow> Mesh option" where
  "Refresh x d mp =
     (case mp of
        None \<Rightarrow> None
      | Some m \<Rightarrow>
          if me_dir m = [] then Some m
          else
            (let trust = Reload x (cd_trusted d) (me_trust m);
                 (id, pem) =
                   (case cd_node_crt d of
                      None \<Rightarrow> (me_id m, me_idCertPEM m)
                    | Some certPEM \<Rightarrow>
                        if certPEM = me_idCertPEM m then (me_id m, me_idCertPEM m)
                        else (case LoadIdentity x d of
                                None \<Rightarrow> (me_id m, me_idCertPEM m)
                              | Some i \<Rightarrow> (Some i, certPEM)))
             in Some (m\<lparr>me_trust := trust, me_id := id, me_idCertPEM := pem,
                        me_clustered := (id \<noteq> None \<and> (hasActiveAdmission (me_dir m) d \<or> trust \<noteq> []))\<rparr>)))"

definition Open :: "x509 \<Rightarrow> string \<Rightarrow> ClusterDir \<Rightarrow> Mesh option" where
  "Open x clusterDir d =
     Refresh x d (Some \<lparr>me_dir = clusterDir, me_id = None, me_idCertPEM = [], me_clustered = False, me_trust = []\<rparr>)"

definition Clustered :: "Mesh option \<Rightarrow> bool" where
  "Clustered mp = (case mp of None \<Rightarrow> False | Some m \<Rightarrow> me_clustered m)"

definition identity :: "Mesh option \<Rightarrow> Identity option" where
  "identity mp = (case mp of None \<Rightarrow> None | Some m \<Rightarrow> me_id m)"

definition NodeUUID :: "Mesh option \<Rightarrow> string" where
  "NodeUUID mp = (case identity mp of None \<Rightarrow> [] | Some i \<Rightarrow> id_NodeUUID i)"

definition PeerCount :: "Mesh option \<Rightarrow> nat" where
  "PeerCount mp = (case mp of None \<Rightarrow> 0 | Some m \<Rightarrow> length (me_trust m))"

definition trustedDER :: "string \<Rightarrow> Mesh option \<Rightarrow> DER option" where
  "trustedDER uuid mp =
     (if \<not> Clustered mp \<or> uuid = [] then None
      else case identity mp of
        None \<Rightarrow> None
      | Some i \<Rightarrow>
          if uuid = id_NodeUUID i then Some (id_leaf i)
          else (case mp of None \<Rightarrow> None | Some m \<Rightarrow> mget (me_trust m) uuid))"

definition HasPin :: "string \<Rightarrow> Mesh option \<Rightarrow> bool" where
  "HasPin uuid mp \<longleftrightarrow> trustedDER uuid mp \<noteq> None"

definition matchDER :: "string \<Rightarrow> DER \<Rightarrow> Mesh option \<Rightarrow> bool" where
  "matchDER uuid der mp \<longleftrightarrow> trustedDER uuid mp = Some der"

text \<open>
  The leaf a handshake on the cluster listener is served with; \<open>None\<close> is \<open>ErrNotClustered\<close>.
\<close>

definition server_leaf :: "Mesh option \<Rightarrow> DER option" where
  "server_leaf mp =
     (case identity mp of
        None \<Rightarrow> None
      | Some i \<Rightarrow> if \<not> Clustered mp then None else Some (id_leaf i))"

text \<open>The TLS state of a request: \<open>None\<close> without TLS, else the certificates the client presented.\<close>

definition VerifyClientPin :: "Certificate list option \<Rightarrow> Mesh option \<Rightarrow> string option" where
  "VerifyClientPin tls mp =
     (if \<not> Clustered mp then None
      else case tls of
        None \<Rightarrow> None
      | Some [] \<Rightarrow> None
      | Some (cert # _) \<Rightarrow>
          (let uuid = UUIDFromCert cert in
           if uuid = [] \<or> \<not> matchDER uuid (c_Raw cert) mp then None else Some uuid))"

record tls_config =
  tc_leaf :: DER
  tc_pinned :: DER

definition verify_server :: "tls_config \<Rightarrow> DER list \<Rightarrow> bool" where
  "verify_server cfg rawCerts \<longleftrightarrow> rawCerts \<noteq> [] \<and> hd rawCerts = tc_pinned cfg"

definition ClientTLSConfig :: "string \<Rightarrow> Mesh option \<Rightarrow> tls_config option" where
  "ClientTLSConfig peerUUID mp =
     (case trustedDER peerUUID mp of
        None \<Rightarrow> None
      | Some der \<Rightarrow>
          (case identity mp of
             None \<Rightarrow> None
           | Some i \<Rightarrow> Some \<lparr>tc_leaf = id_leaf i, tc_pinned = der\<rparr>))"

text \<open>The leaf presented to a peer of unknown principal, and the check run at the handshake.\<close>

definition ClientTLSConfigAny :: "Mesh option \<Rightarrow> DER option" where
  "ClientTLSConfigAny mp =
     (case identity mp of
        None \<Rightarrow> None
      | Some i \<Rightarrow> if \<not> Clustered mp then None else Some (id_leaf i))"

definition verify_any :: "x509 \<Rightarrow> Mesh option \<Rightarrow> DER list \<Rightarrow> bool" where
  "verify_any x mp rawCerts =
     (case rawCerts of
        [] \<Rightarrow> False
      | der # _ \<Rightarrow>
          (case ParseCertificate x der of
             None \<Rightarrow> False
           | Some cert \<Rightarrow> matchDER (UUIDFromCert cert) der mp))"

subsection \<open>Watching membership\<close>

definition RefreshInterval :: duration where "RefreshInterval = 2 * Second"

text \<open>
  One tick of \<open>Watch\<close>: the watcher keeps its own last answer; the result is the refreshed mesh, the
  new baseline and the callback, if any.
\<close>

definition watch_tick ::
  "x509 \<Rightarrow> ClusterDir \<Rightarrow> Mesh option \<times> bool \<Rightarrow> (Mesh option \<times> bool) \<times> bool option" where
  "watch_tick x d s =
     (let m = Refresh x d (fst s); clustered = Clustered m in
      if clustered = snd s then ((m, snd s), None) else ((m, clustered), Some clustered))"

subsection \<open>Pooled clients\<close>

definition PeerIdleTimeout :: duration where "PeerIdleTimeout = 90 * Second"
definition PeerListenerIdleTimeout :: duration where "PeerListenerIdleTimeout = PeerIdleTimeout + 15 * Second"
definition peerMaxConnsPerHost :: int where "peerMaxConnsPerHost = 8"
definition peerMaxIdleConnsPerHost :: int where "peerMaxIdleConnsPerHost = peerMaxConnsPerHost"
definition peerMaxIdleConns :: int where "peerMaxIdleConns = 64"
definition peerKeepAlive :: duration where "peerKeepAlive = 30 * Second"

record transport =
  tr_DialTimeout :: duration
  tr_KeepAlive :: duration
  tr_TLS :: tls_config
  tr_TLSHandshakeTimeout :: duration
  tr_ResponseHeaderTimeout :: duration
  tr_MaxConnsPerHost :: int
  tr_MaxIdleConns :: int
  tr_MaxIdleConnsPerHost :: int
  tr_IdleConnTimeout :: duration

record http_client =
  hc_Timeout :: duration
  hc_Transport :: transport

text \<open>\<open>po_ResolvePin\<close> is the authority that replaces the mesh's own pin lookup, when one is set.\<close>

record PeerClientOptions =
  po_Timeout :: duration
  po_ResponseHeaderTimeout :: duration
  po_ResolvePin :: "(string \<Rightarrow> DER option) option"

record peerClient =
  pc_client :: http_client
  pc_pinnedDER :: DER
  pc_selfDER :: DER

record PeerClientPool =
  pp_opts :: PeerClientOptions
  pp_entries :: "(string, peerClient) gomap"

definition NewPeerClientPoolOpts :: "PeerClientOptions \<Rightarrow> PeerClientPool" where
  "NewPeerClientPoolOpts opts = \<lparr>pp_opts = opts, pp_entries = []\<rparr>"

definition NewPeerClientPool :: "duration \<Rightarrow> PeerClientPool" where
  "NewPeerClientPool timeout =
     NewPeerClientPoolOpts \<lparr>po_Timeout = timeout, po_ResponseHeaderTimeout = 0, po_ResolvePin = None\<rparr>"

definition resolvePin :: "Mesh option \<Rightarrow> PeerClientPool \<Rightarrow> string \<Rightarrow> DER option" where
  "resolvePin mp p peerUUID =
     (case po_ResolvePin (pp_opts p) of
        Some f \<Rightarrow> f peerUUID
      | None \<Rightarrow> trustedDER peerUUID mp)"

definition selfLeafDER :: "Identity option \<Rightarrow> DER option" where
  "selfLeafDER i = map_option id_leaf i"

definition newTransport :: "PeerClientOptions \<Rightarrow> tls_config \<Rightarrow> transport" where
  "newTransport opts cfg =
     (let dialTimeout = (if po_Timeout opts \<le> 0 then 30 * Second else po_Timeout opts) in
      \<lparr>tr_DialTimeout = dialTimeout, tr_KeepAlive = peerKeepAlive, tr_TLS = cfg,
       tr_TLSHandshakeTimeout = dialTimeout, tr_ResponseHeaderTimeout = po_ResponseHeaderTimeout opts,
       tr_MaxConnsPerHost = peerMaxConnsPerHost, tr_MaxIdleConns = peerMaxIdleConns,
       tr_MaxIdleConnsPerHost = peerMaxIdleConnsPerHost, tr_IdleConnTimeout = PeerIdleTimeout\<rparr>)"

definition new_entry :: "PeerClientOptions \<Rightarrow> DER \<Rightarrow> DER \<Rightarrow> peerClient" where
  "new_entry opts self der =
     \<lparr>pc_client = \<lparr>hc_Timeout = po_Timeout opts,
                   hc_Transport = newTransport opts \<lparr>tc_leaf = self, tc_pinned = der\<rparr>\<rparr>,
      pc_pinnedDER = der, pc_selfDER = self\<rparr>"

text \<open>
  \<open>Client\<close> returns the pool, the client and the entries whose idle connections were closed.
\<close>

definition Client ::
  "Mesh option \<Rightarrow> string \<Rightarrow> PeerClientPool \<Rightarrow> PeerClientPool \<times> http_client option \<times> peerClient list" where
  "Client mp peerUUID p =
     (let pinned = resolvePin mp p peerUUID;
          self = selfLeafDER (identity mp);
          build = (\<lambda>q closed.
            case pinned of
              None \<Rightarrow> (q, None, closed)
            | Some der \<Rightarrow>
                (case self of
                   None \<Rightarrow> (q, None, closed)
                 | Some s \<Rightarrow>
                     (let e = new_entry (pp_opts q) s der in
                      (q\<lparr>pp_entries := mput peerUUID e (pp_entries q)\<rparr>, Some (pc_client e), closed))))
      in case mget (pp_entries p) peerUUID of
           None \<Rightarrow> build p []
         | Some e \<Rightarrow>
             if pinned = Some (pc_pinnedDER e) \<and> self = Some (pc_selfDER e) then (p, Some (pc_client e), [])
             else build (p\<lparr>pp_entries := mdel peerUUID (pp_entries p)\<rparr>) [e])"

definition DropUnpinned :: "Mesh option \<Rightarrow> PeerClientPool \<Rightarrow> PeerClientPool \<times> peerClient list" where
  "DropUnpinned mp p =
     (let self = selfLeafDER (identity mp);
          current = (\<lambda>uuid (e :: peerClient).
            self = Some (pc_selfDER e) \<and> resolvePin mp p uuid = Some (pc_pinnedDER e))
      in (p\<lparr>pp_entries := mkeep current (pp_entries p)\<rparr>,
          mvals (mkeep (\<lambda>u e. \<not> current u e) (pp_entries p))))"

definition CloseIdle :: "PeerClientPool \<Rightarrow> PeerClientPool \<times> peerClient list" where
  "CloseIdle p = (p\<lparr>pp_entries := []\<rparr>, mvals (pp_entries p))"

subsection \<open>Membership and discovery records\<close>

definition ClusterUUIDTXTKey :: string where "ClusterUUIDTXTKey = ''cluster-uuid''"

definition ClusterUUIDFromTXT :: "string list \<Rightarrow> string" where
  "ClusterUUIDFromTXT ts =
     (case find (\<lambda>e. CutPrefix e (ClusterUUIDTXTKey @ ''='') \<noteq> None) ts of
        None \<Rightarrow> []
      | Some e \<Rightarrow> TrimSpace (the (CutPrefix e (ClusterUUIDTXTKey @ ''=''))))"

lemma no_addr_cluster: "no_addr_entries (if u \<noteq> [] then [kv ClusterUUIDTXTKey u] else [])"
  by (simp add: no_addr_entries_def CutPrefix_def kv_def ClusterUUIDTXTKey_def KeyIP_def KeyIPs_def)

lemma ClusterUUID_projected:
  "ClusterUUIDFromTXT (AddressTXT n @ (if d_ClusterUUID n \<noteq> [] then [kv ClusterUUIDTXTKey (d_ClusterUUID n)] else [])) =
     (if d_ClusterUUID n = [] then [] else TrimSpace (d_ClusterUUID n))"
proof -
  have "CutPrefix (kv KeyIP x) (ClusterUUIDTXTKey @ ''='') = None" "CutPrefix (kv KeyIPs x) (ClusterUUIDTXTKey @ ''='') = None" for x
    by (simp_all add: CutPrefix_def kv_def ClusterUUIDTXTKey_def KeyIP_def KeyIPs_def)
  then have none: "find (\<lambda>e. CutPrefix e (ClusterUUIDTXTKey @ ''='') \<noteq> None) (AddressTXT n @ es) =
      find (\<lambda>e. CutPrefix e (ClusterUUIDTXTKey @ ''='') \<noteq> None) es" for es
    by (simp add: AddressTXT_def Let_def)
  show ?thesis
    unfolding ClusterUUIDFromTXT_def none by (simp add: kv_prefix)
qed

subsection \<open>What a reload keeps\<close>

definition pins_to :: "x509 \<Rightarrow> raw \<Rightarrow> string \<Rightarrow> DER \<Rightarrow> bool" where
  "pins_to x raw u der \<longleftrightarrow>
     (\<exists>p c. Unmarshal (dec_struct pin_fields) \<lparr>pin_NodeUUID = [], pin_CertPem = []\<rparr> raw = Some p \<and>
        pin_NodeUUID p = u \<and> pem_Decode x (pin_CertPem p) = Some (''CERTIFICATE'', der) \<and>
        ParseCertificate x der = Some c \<and> UUIDFromCert c = u)"

text \<open>The pin one directory entry contributes.\<close>

definition pin_of :: "x509 \<Rightarrow> (string, DER) gomap \<Rightarrow> dir_entry \<Rightarrow> (string \<times> DER) list" where
  "pin_of x previous e =
     (let fileUUID = TrimSuffix (de_Name e) ''.json'' in
      if de_IsDir e \<or> \<not> HasSuffix (de_Name e) ''.json'' \<or> HasSuffix (de_Name e) ''.tmp'' then []
      else case de_File e of
        Unreadable \<Rightarrow> (case mget previous fileUUID of None \<Rightarrow> [] | Some der \<Rightarrow> [(fileUUID, der)])
      | Contents raw \<Rightarrow>
          (case Unmarshal (dec_struct pin_fields) \<lparr>pin_NodeUUID = [], pin_CertPem = []\<rparr> raw of
             None \<Rightarrow> []
           | Some p \<Rightarrow>
               (case pinDER x (pin_NodeUUID p) (pin_CertPem p) fileUUID of
                  None \<Rightarrow> []
                | Some der \<Rightarrow> [(fileUUID, der)])))"

lemma pinDER_iff:
  "pinDER x inner pem u = Some der \<longleftrightarrow>
     inner = u \<and> pem_Decode x pem = Some (''CERTIFICATE'', der) \<and>
     (\<exists>c. ParseCertificate x der = Some c \<and> UUIDFromCert c = u)"
  by (auto simp: pinDER_def split: option.splits if_splits)

lemma pins_to_pinDER:
  "pins_to x raw u der \<longleftrightarrow>
     (\<exists>p. Unmarshal (dec_struct pin_fields) \<lparr>pin_NodeUUID = [], pin_CertPem = []\<rparr> raw = Some p \<and>
        pinDER x (pin_NodeUUID p) (pin_CertPem p) u = Some der)"
  unfolding pins_to_def pinDER_iff by blast

lemma reload_entry_pin: "reload_entry x previous e ders = mputs (pin_of x previous e) ders"
  by (auto simp: reload_entry_def pin_of_def Let_def split: option.split file_read.split)

lemma Reload_entries: "Reload x (Entries es) previous = mputs (concat (map (pin_of x previous) es)) []"
proof -
  have "fold (reload_entry x previous) es m = mputs (concat (map (pin_of x previous) es)) m" for m
    by (induction es arbitrary: m) (simp_all add: reload_entry_pin mputs_append)
  then show ?thesis by (simp add: Reload_def)
qed

lemma TrimSuffix_name: "HasSuffix s t \<Longrightarrow> s = TrimSuffix s t @ t"
  unfolding TrimSuffix_def HasSuffix_def by (metis append_take_drop_id)

lemma HasSuffix_append: "HasSuffix (u @ t) t"
  by (simp add: HasSuffix_def)

lemma TrimSuffix_append: "TrimSuffix (u @ t) t = u"
  by (simp add: TrimSuffix_def HasSuffix_append)

lemma pin_of_iff:
  "(u, der) \<in> set (pin_of x previous e) \<longleftrightarrow>
     \<not> de_IsDir e \<and> de_Name e = u @ ''.json'' \<and>
     (de_File e = Unreadable \<and> mget previous u = Some der \<or>
      (\<exists>raw. de_File e = Contents raw \<and> pins_to x raw u der))"
proof -
  have name: "HasSuffix (de_Name e) ''.json'' \<and> TrimSuffix (de_Name e) ''.json'' = u \<longleftrightarrow> de_Name e = u @ ''.json''"
    using TrimSuffix_name [of "de_Name e" "''.json''"] by (auto simp: HasSuffix_append TrimSuffix_append)
  have tmp: "\<not> HasSuffix (u @ ''.json'') ''.tmp''" by (simp add: HasSuffix_def)
  show ?thesis
  proof (cases "de_Name e = u @ ''.json''")
    case True
    with name have n: "HasSuffix (u @ ''.json'') ''.json''" "TrimSuffix (u @ ''.json'') ''.json'' = u" by auto
    show ?thesis
    proof (cases "de_File e")
      case Unreadable
      then show ?thesis by (auto simp: pin_of_def Let_def True n tmp split: option.split)
    next
      case (Contents raw)
      have "(u, der) \<in> set (pin_of x previous e) \<longleftrightarrow> \<not> de_IsDir e \<and> pins_to x raw u der"
        unfolding pins_to_pinDER
        by (cases "Unmarshal (dec_struct pin_fields) \<lparr>pin_NodeUUID = [], pin_CertPem = []\<rparr> raw")
          (auto simp: pin_of_def Let_def True n tmp Contents split: option.split)
      with True Contents show ?thesis by simp
    qed
  next
    case False
    with name have "\<not> (HasSuffix (de_Name e) ''.json'' \<and> TrimSuffix (de_Name e) ''.json'' = u)" by blast
    with False show ?thesis
      by (auto simp: pin_of_def Let_def split: option.splits file_read.splits if_splits)
  qed
qed

lemma Reload_origin:
  assumes "mget (Reload x d previous) u = Some der"
  shows "d = DirUnreadable \<and> mget previous u = Some der \<or>
         (\<exists>es e. d = Entries es \<and> e \<in> set es \<and> (u, der) \<in> set (pin_of x previous e))"
proof (cases d)
  case (Entries es)
  with assms show ?thesis by (fastforce simp: Reload_entries dest: mputs_origin)
qed (use assms in \<open>simp_all add: Reload_def\<close>)

lemma Reload_wf: "wf_map previous \<Longrightarrow> wf_map (Reload x d previous)"
  by (cases d) (simp_all add: Reload_entries wf_mputs, simp_all add: Reload_def)

subsection \<open>The gates\<close>

lemma Clustered_simps [simp]: "Clustered None = False" "Clustered (Some m) = me_clustered m"
  by (simp_all add: Clustered_def)

lemma identity_simps [simp]: "identity None = None" "identity (Some m) = me_id m"
  by (simp_all add: identity_def)

lemma trustedDER_iff:
  "trustedDER u mp = Some der \<longleftrightarrow>
     (\<exists>m i. mp = Some m \<and> me_clustered m \<and> u \<noteq> [] \<and> me_id m = Some i \<and>
        (if u = id_NodeUUID i then der = id_leaf i else mget (me_trust m) u = Some der))"
  by (cases mp) (auto simp: trustedDER_def split: option.splits)

lemma VerifyClientPin_iff:
  "VerifyClientPin tls mp = Some u \<longleftrightarrow>
     (\<exists>cert rest. tls = Some (cert # rest) \<and> UUIDFromCert cert = u \<and> trustedDER u mp = Some (c_Raw cert))"
proof (cases tls)
  case (Some certs)
  then show ?thesis
    by (cases certs) (auto simp: VerifyClientPin_def Let_def matchDER_def trustedDER_def)
qed (simp add: VerifyClientPin_def)

lemma unclustered_refuses:
  assumes "\<not> Clustered mp"
  shows "trustedDER u mp = None" "VerifyClientPin tls mp = None" "server_leaf mp = None"
    "ClientTLSConfig u mp = None" "ClientTLSConfigAny mp = None" "\<not> verify_any x mp certs"
  using assms
  by (simp_all add: trustedDER_def VerifyClientPin_def server_leaf_def ClientTLSConfig_def ClientTLSConfigAny_def
      verify_any_def matchDER_def split: option.split list.split)

lemma Refresh_parts:
  assumes "me_dir m \<noteq> []"
  obtains id pem where
    "Refresh x d (Some m) = Some (m\<lparr>me_trust := Reload x (cd_trusted d) (me_trust m), me_id := id, me_idCertPEM := pem,
       me_clustered := (id \<noteq> None \<and> (hasActiveAdmission (me_dir m) d \<or> Reload x (cd_trusted d) (me_trust m) \<noteq> []))\<rparr>)"
    "(id, pem) = (me_id m, me_idCertPEM m) \<or>
     (\<exists>c i. cd_node_crt d = Some c \<and> c \<noteq> me_idCertPEM m \<and> LoadIdentity x d = Some i \<and> id = Some i \<and> pem = c)"
    "\<And>c i. cd_node_crt d = Some c \<Longrightarrow> c \<noteq> me_idCertPEM m \<Longrightarrow> LoadIdentity x d = Some i \<Longrightarrow> id = Some i \<and> pem = c"
proof (cases "\<exists>c i. cd_node_crt d = Some c \<and> c \<noteq> me_idCertPEM m \<and> LoadIdentity x d = Some i")
  case True
  then obtain c i where ci: "cd_node_crt d = Some c" "c \<noteq> me_idCertPEM m" "LoadIdentity x d = Some i" by blast
  show ?thesis
    by (rule that [of "Some i" c]) (use ci assms in \<open>simp_all add: Refresh_def Let_def\<close>)
next
  case False
  show ?thesis
  proof (rule that [of "me_id m" "me_idCertPEM m"])
    show "Refresh x d (Some m) = Some (m\<lparr>me_trust := Reload x (cd_trusted d) (me_trust m), me_id := me_id m,
        me_idCertPEM := me_idCertPEM m,
        me_clustered := (me_id m \<noteq> None \<and> (hasActiveAdmission (me_dir m) d \<or> Reload x (cd_trusted d) (me_trust m) \<noteq> []))\<rparr>)"
      using False assms by (auto simp: Refresh_def Let_def split: option.split)
  qed (use False in auto)
qed

text \<open>What a mesh remembers of its key pair: the identity belongs to the certificate it holds.\<close>

definition loads :: "x509 \<Rightarrow> string \<Rightarrow> Identity \<Rightarrow> bool" where
  "loads x pem i \<longleftrightarrow>
     (\<exists>key c. X509KeyPair x pem key = Some (id_leaf i, id_chain i) \<and> ParseCertificate x (id_leaf i) = Some c \<and>
        id_NodeUUID i = UUIDFromCert c)"

definition mesh_ok :: "x509 \<Rightarrow> Mesh \<Rightarrow> bool" where
  "mesh_ok x m \<longleftrightarrow>
     (case me_id m of None \<Rightarrow> me_idCertPEM m = [] | Some i \<Rightarrow> loads x (me_idCertPEM m) i) \<and>
     wf_map (me_trust m) \<and> (me_clustered m \<longrightarrow> me_id m \<noteq> None)"

lemma LoadIdentity_loads:
  "LoadIdentity x d = Some i \<Longrightarrow> \<exists>c. cd_node_crt d = Some c \<and> loads x c i"
  by (auto simp: LoadIdentity_def loads_def split: option.splits prod.splits)

lemma Refresh_ok:
  assumes "mesh_ok x m" "Refresh x d (Some m) = Some m'"
  shows "mesh_ok x m' \<and> me_dir m' = me_dir m"
proof (cases "me_dir m = []")
  case True
  with assms show ?thesis by (simp add: Refresh_def)
next
  case False
  obtain id pem where r: "Refresh x d (Some m) = Some (m\<lparr>me_trust := Reload x (cd_trusted d) (me_trust m), me_id := id,
      me_idCertPEM := pem,
      me_clustered := (id \<noteq> None \<and> (hasActiveAdmission (me_dir m) d \<or> Reload x (cd_trusted d) (me_trust m) \<noteq> []))\<rparr>)"
    and i: "(id, pem) = (me_id m, me_idCertPEM m) \<or>
      (\<exists>c i. cd_node_crt d = Some c \<and> c \<noteq> me_idCertPEM m \<and> LoadIdentity x d = Some i \<and> id = Some i \<and> pem = c)"
    using Refresh_parts [OF False, of x d] by metis
  have "case id of None \<Rightarrow> pem = [] | Some i \<Rightarrow> loads x pem i"
    using i assms(1) LoadIdentity_loads [of x d] by (fastforce simp: mesh_ok_def)
  moreover have m': "m' = m\<lparr>me_trust := Reload x (cd_trusted d) (me_trust m), me_id := id, me_idCertPEM := pem,
      me_clustered := (id \<noteq> None \<and> (hasActiveAdmission (me_dir m) d \<or> Reload x (cd_trusted d) (me_trust m) \<noteq> []))\<rparr>"
    using r assms(2) by (metis option.inject)
  moreover have "wf_map (me_trust m)" using assms(1) by (simp add: mesh_ok_def)
  ultimately show ?thesis by (cases id) (simp_all add: mesh_ok_def Reload_wf)
qed

inductive mesh_reachable :: "x509 \<Rightarrow> string \<Rightarrow> Mesh option \<Rightarrow> bool" for x path where
  opened: "mesh_reachable x path (Open x path d)"
| refreshed: "mesh_reachable x path mp \<Longrightarrow> mesh_reachable x path (Refresh x d mp)"

lemma Refresh_Some: "\<exists>m'. Refresh x d (Some m) = Some m'"
  by (simp add: Refresh_def Let_def split: option.split)

lemma Refresh_trust:
  "Refresh x d (Some m) = Some m' \<Longrightarrow> me_dir m \<noteq> [] \<Longrightarrow> me_trust m' = Reload x (cd_trusted d) (me_trust m)"
  by (auto simp: Refresh_def Let_def split: prod.splits)

lemma mesh_reachable_ok:
  "mesh_reachable x path mp \<Longrightarrow> \<exists>m. mp = Some m \<and> mesh_ok x m \<and> me_dir m = path"
proof (induction rule: mesh_reachable.induct)
  case (opened d)
  let ?m = "\<lparr>me_dir = path, me_id = None, me_idCertPEM = [], me_clustered = False, me_trust = []\<rparr> :: Mesh"
  have "mesh_ok x ?m" by (simp add: mesh_ok_def)
  with Refresh_ok [of x ?m d] Refresh_Some [of x d ?m] show ?case by (auto simp: Open_def)
next
  case (refreshed mp d)
  then show ?case using Refresh_ok Refresh_Some by metis
qed

text \<open>Every pin file can be read.\<close>

definition trusted_readable :: "dir \<Rightarrow> bool" where
  "trusted_readable d =
     (case d of DirUnreadable \<Rightarrow> False | Missing \<Rightarrow> True | Entries es \<Rightarrow> \<forall>e \<in> set es. de_File e \<noteq> Unreadable)"

text \<open>The parsers' contract: chains determined by the certificate file, no pair without one.\<close>

definition keypair_ok :: "x509 \<Rightarrow> bool" where
  "keypair_ok x \<longleftrightarrow>
     (\<forall>c k k' r r'. X509KeyPair x c k = Some r \<longrightarrow> X509KeyPair x c k' = Some r' \<longrightarrow> r = r') \<and>
     (\<forall>k. X509KeyPair x [] k = None)"

lemma loads_unique: "keypair_ok x \<Longrightarrow> loads x c i \<Longrightarrow> loads x c j \<Longrightarrow> i = j"
proof -
  assume x: "keypair_ok x" and i: "loads x c i" and j: "loads x c j"
  from i j obtain k k' a b where
    k: "X509KeyPair x c k = Some (id_leaf i, id_chain i)" "X509KeyPair x c k' = Some (id_leaf j, id_chain j)"
    and p: "ParseCertificate x (id_leaf i) = Some a" "id_NodeUUID i = UUIDFromCert a"
      "ParseCertificate x (id_leaf j) = Some b" "id_NodeUUID j = UUIDFromCert b"
    by (auto simp: loads_def)
  from x k have "(id_leaf i, id_chain i) = (id_leaf j, id_chain j)" unfolding keypair_ok_def by blast
  with p show "i = j" by simp
qed

lemma Reload_readable: "trusted_readable d \<Longrightarrow> Reload x d p = Reload x d q"
proof (cases d)
  case (Entries es)
  assume "trusted_readable d"
  then have "\<forall>e \<in> set es. pin_of x p e = pin_of x q e"
    by (auto simp: trusted_readable_def Entries pin_of_def Let_def split: file_read.split)
  then show ?thesis
    by (simp add: Entries Reload_entries cong: map_cong)
qed (simp_all add: trusted_readable_def Reload_def)

lemma Refresh_identity:
  assumes "keypair_ok x" "mesh_ok x m" "me_dir m \<noteq> []" "LoadIdentity x d = Some i" "cd_node_crt d = Some c"
  shows "Refresh x d (Some m) = Some \<lparr>me_dir = me_dir m, me_id = Some i, me_idCertPEM = c,
     me_clustered = (hasActiveAdmission (me_dir m) d \<or> Reload x (cd_trusted d) (me_trust m) \<noteq> []),
     me_trust = Reload x (cd_trusted d) (me_trust m)\<rparr>"
proof -
  have lc: "loads x c i" using LoadIdentity_loads [OF assms(4)] assms(5) by simp
  have "me_id m = Some i" if eq: "c = me_idCertPEM m"
  proof (cases "me_id m")
    case None
    with assms(2) eq have "c = []" by (simp add: mesh_ok_def)
    with lc assms(1) show ?thesis by (auto simp: loads_def keypair_ok_def)
  next
    case (Some j)
    with assms(2) eq have "loads x c j" by (simp add: mesh_ok_def)
    with loads_unique [OF assms(1) lc] Some show ?thesis by simp
  qed
  with assms(3-5) show ?thesis by (cases "c = me_idCertPEM m") (simp_all add: Refresh_def Let_def)
qed

text \<open>
  C11. Admission to a cluster comes from the directory on disk and nowhere else: right after a refresh,
  a request is accepted as coming from a peer \<open>u\<close> other than this node only when the client presented
  a certificate whose principal is \<open>u\<close>, and \<open>trusted/u.json\<close> names \<open>u\<close> and embeds exactly that
  certificate, byte for byte, again with principal \<open>u\<close>; a pin that was listed but could not be read
  counts only when it was already held with the same bytes.
\<close>

theorem accepted_peer_is_pinned_on_disk:
  assumes "me_dir m \<noteq> []" "VerifyClientPin tls (Refresh x d (Some m)) = Some u" "u \<noteq> NodeUUID (Refresh x d (Some m))"
  shows "\<exists>cert rest. tls = Some (cert # rest) \<and> UUIDFromCert cert = u \<and>
     (cd_trusted d = DirUnreadable \<and> mget (me_trust m) u = Some (c_Raw cert) \<or>
      (\<exists>es e. cd_trusted d = Entries es \<and> e \<in> set es \<and> \<not> de_IsDir e \<and> de_Name e = u @ ''.json'' \<and>
         (de_File e = Unreadable \<and> mget (me_trust m) u = Some (c_Raw cert) \<or>
          (\<exists>raw. de_File e = Contents raw \<and> pins_to x raw u (c_Raw cert)))))"
proof -
  from assms(2) obtain cert rest where t: "tls = Some (cert # rest)" "UUIDFromCert cert = u"
    and tr: "trustedDER u (Refresh x d (Some m)) = Some (c_Raw cert)" by (auto simp: VerifyClientPin_iff)
  obtain m' where m': "Refresh x d (Some m) = Some m'" using Refresh_Some by blast
  with tr assms(3) have "mget (me_trust m') u = Some (c_Raw cert)"
    by (auto simp: trustedDER_iff NodeUUID_def split: if_splits)
  moreover have "me_trust m' = Reload x (cd_trusted d) (me_trust m)"
    using m' assms(1) by (rule Refresh_trust)
  ultimately show ?thesis
    using t Reload_origin [of x "cd_trusted d" "me_trust m" u "c_Raw cert"] unfolding pin_of_iff by auto
qed

text \<open>
  The view of the cluster depends on the disk and not on the past: two services on the same
  cluster directory, whatever they read before, hold the same identity, the same pins and the same
  membership answer after a refresh that can read the key pair and the pins.
\<close>

theorem refresh_converges:
  assumes "keypair_ok x" "path \<noteq> []" "mesh_reachable x path m1" "mesh_reachable x path m2"
    and "LoadIdentity x d \<noteq> None" "trusted_readable (cd_trusted d)"
  shows "Refresh x d m1 = Refresh x d m2"
proof -
  obtain i where i: "LoadIdentity x d = Some i" using assms(5) by blast
  then obtain c where c: "cd_node_crt d = Some c" using LoadIdentity_loads by blast
  obtain a where a: "m1 = Some a" "mesh_ok x a" "me_dir a = path" using mesh_reachable_ok [OF assms(3)] by blast
  obtain b where b: "m2 = Some b" "mesh_ok x b" "me_dir b = path" using mesh_reachable_ok [OF assms(4)] by blast
  show ?thesis
    using Refresh_identity [OF assms(1) a(2) _ i c] Refresh_identity [OF assms(1) b(2) _ i c]
      Reload_readable [OF assms(6), of x "me_trust a" "me_trust b"] a b assms(2) by simp
qed

lemma teardown_closes_every_gate_parts:
  assumes "me_dir m \<noteq> []" "cd_trusted d = Missing \<or> cd_trusted d = Entries []" "\<not> hasActiveAdmission (me_dir m) d"
    and "po_ResolvePin (pp_opts p) = None" "mp = Refresh x d (Some m)"
  shows "VerifyClientPin tls mp = None" "server_leaf mp = None" "ClientTLSConfig u mp = None"
    "ClientTLSConfigAny mp = None" "\<not> verify_any x mp certs"
    "fst (snd (Client mp u p)) = None" "pp_entries (fst (DropUnpinned mp p)) = []"
proof -
  have "Reload x (cd_trusted d) (me_trust m) = []" using assms(2) by (auto simp: Reload_def)
  then have c: "\<not> Clustered mp" using assms(1,3,5) by (auto simp: Refresh_def Let_def split: option.split)
  note r = unclustered_refuses [OF c]
  have rp: "resolvePin mp p v = None" for v using assms(4) r(1) by (simp add: resolvePin_def)
  show "VerifyClientPin tls mp = None" "server_leaf mp = None" "ClientTLSConfig u mp = None"
    "ClientTLSConfigAny mp = None" "\<not> verify_any x mp certs" using r by auto
  show "fst (snd (Client mp u p)) = None" by (simp add: Client_def Let_def rp split: option.split)
  show "pp_entries (fst (DropUnpinned mp p)) = []" by (simp add: DropUnpinned_def Let_def rp mkeep_def)
qed

text \<open>
  C26. Leaving a cluster closes every gate at the next refresh, although the key pair stays on disk:
  with no live admission record and no pin, whatever pins, identity or pooled clients this node held
  before, no inbound request is accepted, no handshake is served, no outbound configuration is given
  out, and the pool neither hands out nor keeps a client.
\<close>

theorem teardown_closes_every_gate:
  assumes "me_dir m \<noteq> []" "cd_trusted d = Missing \<or> cd_trusted d = Entries []" "\<not> hasActiveAdmission (me_dir m) d"
    and "po_ResolvePin (pp_opts p) = None" "mp = Refresh x d (Some m)"
  shows "VerifyClientPin tls mp = None \<and> server_leaf mp = None \<and> ClientTLSConfig u mp = None \<and>
    ClientTLSConfigAny mp = None \<and> \<not> verify_any x mp certs \<and>
    fst (snd (Client mp u p)) = None \<and> pp_entries (fst (DropUnpinned mp p)) = []"
  by (intro conjI teardown_closes_every_gate_parts [OF assms])

subsection \<open>The pool\<close>

definition entry_ok :: "peerClient \<Rightarrow> bool" where
  "entry_ok e \<longleftrightarrow> tr_TLS (hc_Transport (pc_client e)) = \<lparr>tc_leaf = pc_selfDER e, tc_pinned = pc_pinnedDER e\<rparr>"

definition pool_ok :: "PeerClientPool \<Rightarrow> bool" where
  "pool_ok p \<longleftrightarrow> (\<forall>u e. mget (pp_entries p) u = Some e \<longrightarrow> entry_ok e)"

lemma new_entry_ok [simp]: "entry_ok (new_entry opts self der)"
  by (simp add: entry_ok_def new_entry_def newTransport_def Let_def)

inductive pool_reachable :: "PeerClientPool \<Rightarrow> bool" where
  new: "pool_reachable (NewPeerClientPoolOpts opts)"
| client: "pool_reachable p \<Longrightarrow> pool_reachable (fst (Client mp u p))"
| drop: "pool_reachable p \<Longrightarrow> pool_reachable (fst (DropUnpinned mp p))"
| close: "pool_reachable p \<Longrightarrow> pool_reachable (fst (CloseIdle p))"

lemma Client_pool_ok: "pool_ok p \<Longrightarrow> pool_ok (fst (Client mp u p))"
  by (auto simp: pool_ok_def Client_def Let_def gomap split: option.splits if_splits)

lemma pool_reachable_ok: "pool_reachable p \<Longrightarrow> pool_ok p \<and> wf_map (pp_entries p)"
proof (induction rule: pool_reachable.induct)
  case (client p mp u)
  then have "wf_map (pp_entries (fst (Client mp u p)))"
    by (simp add: Client_def Let_def split: option.split)
  with client Client_pool_ok show ?case by blast
next
  case (drop p mp)
  then show ?case
    by (simp add: pool_ok_def DropUnpinned_def Let_def mget_mkeep split: option.splits)
qed (simp_all add: pool_ok_def NewPeerClientPoolOpts_def CloseIdle_def)

lemma pooled_client_is_current_parts:
  assumes "pool_reachable p"
  shows "fst (snd (Client mp u p)) = None \<longleftrightarrow> resolvePin mp p u = None \<or> identity mp = None"
    and "fst (snd (Client mp u p)) = Some c \<Longrightarrow>
      \<exists>i der. identity mp = Some i \<and> resolvePin mp p u = Some der \<and>
        tr_TLS (hc_Transport c) = \<lparr>tc_leaf = id_leaf i, tc_pinned = der\<rparr> \<and>
        (\<forall>certs. verify_server (tr_TLS (hc_Transport c)) certs \<longleftrightarrow> certs \<noteq> [] \<and> hd certs = der)"
proof -
  have ok: "\<And>e. mget (pp_entries p) u = Some e \<Longrightarrow> entry_ok e"
    using pool_reachable_ok [OF assms] by (auto simp: pool_ok_def)
  show "fst (snd (Client mp u p)) = None \<longleftrightarrow> resolvePin mp p u = None \<or> identity mp = None"
    by (auto simp: Client_def Let_def selfLeafDER_def split: option.splits if_splits)
  assume "fst (snd (Client mp u p)) = Some c"
  then show "\<exists>i der. identity mp = Some i \<and> resolvePin mp p u = Some der \<and>
        tr_TLS (hc_Transport c) = \<lparr>tc_leaf = id_leaf i, tc_pinned = der\<rparr> \<and>
        (\<forall>certs. verify_server (tr_TLS (hc_Transport c)) certs \<longleftrightarrow> certs \<noteq> [] \<and> hd certs = der)"
    using ok new_entry_ok
    by (auto simp: Client_def Let_def selfLeafDER_def verify_server_def entry_ok_def new_entry_def newTransport_def
        split: option.splits if_splits)
qed

text \<open>
  C27. A pooled client is never stale: whatever the pool served before, across re-pairings, key
  rotations and membership changes, the client it returns for a peer presents this node's current
  leaf and accepts exactly the certificate now pinned for that peer; and it returns one exactly when a
  pin resolves and this node has an identity.
\<close>

theorem pooled_client_is_current:
  assumes "pool_reachable p"
  shows "(fst (snd (Client mp u p)) = None \<longleftrightarrow> resolvePin mp p u = None \<or> identity mp = None) \<and>
    (\<forall>c. fst (snd (Client mp u p)) = Some c \<longrightarrow>
      (\<exists>i der. identity mp = Some i \<and> resolvePin mp p u = Some der \<and>
        tr_TLS (hc_Transport c) = \<lparr>tc_leaf = id_leaf i, tc_pinned = der\<rparr> \<and>
        (\<forall>certs. verify_server (tr_TLS (hc_Transport c)) certs \<longleftrightarrow> certs \<noteq> [] \<and> hd certs = der)))"
  by (intro conjI allI impI pooled_client_is_current_parts [OF assms])

text \<open>
  A read failure does not untrust anyone: while the pin directory cannot be listed, or a listed
  pin cannot be opened, and while the key pair cannot be loaded, a member with at least one pin keeps
  its identity, its membership and every pin that is still listed.
\<close>

theorem read_failure_keeps_peers:
  assumes "mesh_reachable x path (Some m)" "path \<noteq> []" "me_clustered m" "LoadIdentity x d = None"
    and "cd_trusted d = DirUnreadable \<or>
      (\<exists>es. cd_trusted d = Entries es \<and> (\<forall>e \<in> set es. de_File e = Unreadable) \<and>
         (\<forall>u. mget (me_trust m) u \<noteq> None \<longrightarrow> (\<exists>e \<in> set es. \<not> de_IsDir e \<and> de_Name e = u @ ''.json'')))"
    and "me_trust m \<noteq> []"
  shows "trustedDER u (Refresh x d (Some m)) = trustedDER u (Some m)" "Clustered (Refresh x d (Some m))"
proof -
  have dir: "me_dir m \<noteq> []" and idn: "me_id m \<noteq> None" and wf: "wf_map (me_trust m)"
    using mesh_reachable_ok [OF assms(1)] assms(2,3) by (auto simp: mesh_ok_def)
  have get: "mget (Reload x (cd_trusted d) (me_trust m)) v = mget (me_trust m) v" for v
  proof (cases "cd_trusted d = DirUnreadable")
    case False
    with assms(5) obtain es where es: "cd_trusted d = Entries es" "\<forall>e \<in> set es. de_File e = Unreadable"
      "\<forall>u. mget (me_trust m) u \<noteq> None \<longrightarrow> (\<exists>e \<in> set es. \<not> de_IsDir e \<and> de_Name e = u @ ''.json'')" by blast
    let ?kvs = "concat (map (pin_of x (me_trust m)) es)"
    have kvs: "(k, der) \<in> set ?kvs \<Longrightarrow> mget (me_trust m) k = Some der" for k der
      using es(2) by (auto simp: pin_of_iff)
    have listed: "(v, der) \<in> set ?kvs" if got: "mget (me_trust m) v = Some der" for der
    proof -
      from es(3) got obtain e where e: "e \<in> set es" "\<not> de_IsDir e" "de_Name e = v @ ''.json''" by blast
      with es(2) got have "(v, der) \<in> set (pin_of x (me_trust m) e)" by (simp add: pin_of_iff)
      with e(1) show ?thesis by auto
    qed
    have "mget (mputs ?kvs []) v = mget (me_trust m) v" by (rule mget_mputs_same) (fact kvs, fact listed)
    then show ?thesis by (simp add: es(1) Reload_entries)
  qed (simp add: Reload_def)
  have "Reload x (cd_trusted d) (me_trust m) \<noteq> []"
  proof -
    obtain k v ms where "me_trust m = (k, v) # ms" using assms(6) by (metis list.exhaust prod.exhaust)
    then have "mget (Reload x (cd_trusted d) (me_trust m)) k = Some v" unfolding get by (simp add: mget_Cons)
    then show ?thesis by auto
  qed
  then have r: "Refresh x d (Some m) = Some (m\<lparr>me_trust := Reload x (cd_trusted d) (me_trust m), me_id := me_id m,
      me_idCertPEM := me_idCertPEM m, me_clustered := True\<rparr>)"
    using dir idn assms(4) by (simp add: Refresh_def Let_def split: option.split)
  then show "Clustered (Refresh x d (Some m))" by simp
  show "trustedDER u (Refresh x d (Some m)) = trustedDER u (Some m)"
    unfolding r using assms(3) idn get by (simp add: trustedDER_def split: option.split)
qed

subsection \<open>A cluster directory\<close>

text \<open>Parsers that read a certificate from its bytes taken as the principal, and a directory with one peer.\<close>

definition demo_x :: x509 where
  "demo_x = \<lparr>pem_Decode = (\<lambda>s. Some (''CERTIFICATE'', s)),
     ParseCertificate = (\<lambda>der. Some \<lparr>c_Raw = der, c_URIs = [None, Some (nodeURISANPrefix @ der)], c_CommonName = []\<rparr>),
     X509KeyPair = (\<lambda>c k. if c = [] then None else Some (c, []))\<rparr>"

definition demo_pin :: "string \<Rightarrow> dir_entry" where
  "demo_pin u = \<lparr>de_Name = u @ ''.json'', de_IsDir = False,
     de_File = Contents (Some (JObj [(''nodeUuid'', JStr u), (''certPem'', JStr u)]))\<rparr>"

definition demo_cdir :: "dir \<Rightarrow> ClusterDir" where
  "demo_cdir trusted = \<lparr>cd_node_crt = Some ''self'', cd_node_key = Some ''key'',
     cd_admission = Contents (Some (JObj [(''clusterId'', JStr ''c1''), (''epoch'', JInt 1)])),
     cd_trusted = trusted\<rparr>"

definition demo_mesh :: Mesh where
  "demo_mesh = \<lparr>me_dir = ''/c'', me_id = Some \<lparr>id_NodeUUID = ''self'', id_leaf = ''self'', id_chain = []\<rparr>,
     me_idCertPEM = ''self'', me_clustered = True, me_trust = [(''peer'', ''peer'')]\<rparr>"

definition demo_cert :: "string \<Rightarrow> Certificate" where
  "demo_cert u = \<lparr>c_Raw = u, c_URIs = [Some (nodeURISANPrefix @ u)], c_CommonName = u\<rparr>"

lemma demo_open: "Open demo_x ''/c'' (demo_cdir (Entries [demo_pin ''peer''])) = Some demo_mesh"
  by code_simp

theorem accepted_peer_is_pinned_on_disk_witness:
  "VerifyClientPin (Some [demo_cert ''peer'']) (Refresh demo_x (demo_cdir (Entries [demo_pin ''peer''])) (Some demo_mesh)) =
     Some ''peer'' \<and>
   (\<exists>raw. de_File (demo_pin ''peer'') = Contents raw \<and> pins_to demo_x raw ''peer'' (c_Raw (demo_cert ''peer'')))"
proof -
  have v: "VerifyClientPin (Some [demo_cert ''peer'']) (Refresh demo_x (demo_cdir (Entries [demo_pin ''peer''])) (Some demo_mesh)) =
     Some ''peer''" by code_simp
  have n: "''peer'' \<noteq> NodeUUID (Refresh demo_x (demo_cdir (Entries [demo_pin ''peer''])) (Some demo_mesh))" by code_simp
  have d: "me_dir demo_mesh \<noteq> []" by code_simp
  show ?thesis
    using accepted_peer_is_pinned_on_disk [OF d v n] v by (auto simp: demo_cdir_def demo_pin_def)
qed

theorem refresh_converges_witness:
  "Refresh demo_x (demo_cdir Missing) (Open demo_x ''/c'' (demo_cdir (Entries [demo_pin ''peer'']))) =
   Refresh demo_x (demo_cdir Missing) (Open demo_x ''/c'' ((demo_cdir Missing)\<lparr>cd_node_key := None\<rparr>))"
proof (rule refresh_converges [where path = "''/c''"])
  show "keypair_ok demo_x" by (simp add: keypair_ok_def demo_x_def)
  show "LoadIdentity demo_x (demo_cdir Missing) \<noteq> None" by code_simp
  show "trusted_readable (cd_trusted (demo_cdir Missing))" by code_simp
qed (simp_all add: mesh_reachable.opened)

theorem teardown_closes_every_gate_witness:
  "VerifyClientPin (Some [demo_cert ''peer''])
     (Refresh demo_x ((demo_cdir Missing)\<lparr>cd_admission := Unreadable\<rparr>) (Some demo_mesh)) = None"
  by (rule teardown_closes_every_gate [where p = "NewPeerClientPool 1" and m = demo_mesh
        and d = "(demo_cdir Missing)\<lparr>cd_admission := Unreadable\<rparr>" and x = demo_x, THEN conjunct1])
    (simp_all add: demo_mesh_def demo_cdir_def hasActiveAdmission_def NewPeerClientPool_def NewPeerClientPoolOpts_def)

theorem pooled_client_is_current_witness:
  "fst (snd (Client (Some demo_mesh) ''peer'' (NewPeerClientPool 1))) \<noteq> None \<and>
   (\<exists>c. fst (snd (Client (Some demo_mesh) ''peer'' (NewPeerClientPool 1))) = Some c \<and>
      tc_pinned (tr_TLS (hc_Transport c)) = ''peer'')"
proof -
  have r: "pool_reachable (NewPeerClientPool 1)" by (simp add: NewPeerClientPool_def pool_reachable.new)
  have p: "resolvePin (Some demo_mesh) (NewPeerClientPool 1) ''peer'' = Some ''peer''" "identity (Some demo_mesh) \<noteq> None"
    by code_simp+
  from pooled_client_is_current [OF r, THEN conjunct1, of "Some demo_mesh" "''peer''"] p
  obtain c where c: "fst (snd (Client (Some demo_mesh) ''peer'' (NewPeerClientPool 1))) = Some c" by auto
  from pooled_client_is_current [OF r, THEN conjunct2, rule_format, OF c] obtain der where
    d: "resolvePin (Some demo_mesh) (NewPeerClientPool 1) ''peer'' = Some der" "tc_pinned (tr_TLS (hc_Transport c)) = der"
    by (metis tls_config.simps(2))
  with p(1) have "tc_pinned (tr_TLS (hc_Transport c)) = ''peer''" by simp
  with c show ?thesis by blast
qed

theorem read_failure_keeps_peers_witness:
  "trustedDER ''peer'' (Refresh demo_x \<lparr>cd_node_crt = None, cd_node_key = None, cd_admission = Unreadable,
     cd_trusted = DirUnreadable\<rparr> (Some demo_mesh)) = Some ''peer''"
proof -
  have r: "mesh_reachable demo_x ''/c'' (Some demo_mesh)"
    using mesh_reachable.opened [of demo_x "''/c''" "demo_cdir (Entries [demo_pin ''peer''])"] by (simp add: demo_open)
  have t: "trustedDER ''peer'' (Some demo_mesh) = Some ''peer''" by code_simp
  have "trustedDER ''peer'' (Refresh demo_x \<lparr>cd_node_crt = None, cd_node_key = None, cd_admission = Unreadable,
     cd_trusted = DirUnreadable\<rparr> (Some demo_mesh)) = trustedDER ''peer'' (Some demo_mesh)"
    by (rule read_failure_keeps_peers(1) [OF r]) (simp_all add: demo_mesh_def LoadIdentity_def)
  with t show ?thesis by simp
qed

end
