(* ===== verification/ClusterRoster.thy ===== *)
theory ClusterRoster
  imports ClusterTrust "HOL-Library.Word"
begin

section \<open>The cluster manager: evidence and stores\<close>

text \<open>
  \<open>nvpair-cluster-manager\<close>: signed endorsements and removals (\<open>endorsement.go\<close>), the trusted pins
  (\<open>truststore.go\<close>), tombstones and removal proofs (\<open>tombstone_store.go\<close>, \<open>removal_proof_store.go\<close>), the
  admission counter (\<open>admission_store.go\<close>), the members (\<open>membership.go\<close>, \<open>membership_store.go\<close>) and the
  merge of a peer's roster (\<open>roster.go\<close>).

  Ed25519, SHA-256, Base64 and the X.509 parser are the arguments in \<open>crypto\<close>. Epochs are \<open>uint64\<close> and
  words here. Files are part of the state: \<open>Disk\<close> holds what the last successful atomic write of each file
  left, and \<open>cm_io\<close> says, operation by operation, whether the next writes and deletions succeed; a run of
  failures up to the end is also what a crash leaves. Every operation runs under \<open>rosterMu\<close>, so operations
  are sequential. The store keeps a pin, its certificate and its key in three maps that are always changed
  together; the model keeps them in one.
\<close>

subsection \<open>Evidence\<close>

type_synonym epoch = "64 word"

record Endorsement =
  eo_By :: string
  eo_Fingerprint :: string
  eo_ClusterID :: string
  eo_AdmissionEpoch :: epoch
  eo_ByAdmissionEpoch :: epoch
  eo_IssuedAt :: int
  eo_Sig :: string
  eo_SigV2 :: string

record Tombstone =
  tb_NodeUUID :: string
  tb_ClusterID :: string
  tb_AdmissionEpoch :: epoch
  tb_By :: string
  tb_ByAdmissionEpoch :: epoch
  tb_RemovedAt :: int
  tb_Sig :: string
  tb_SigV2 :: string

record RemovalProof =
  rp_Tombstone :: Tombstone
  rp_SignerCertPem :: string
  rp_SignerFingerprint :: string
  rp_Endorsements :: "Endorsement list"

text \<open>Keys and signatures are byte strings.\<close>

type_synonym pubkey = string
type_synonym privkey = string

record crypto =
  cy_x509 :: x509
  cy_pubKeyFromCert :: "Certificate \<Rightarrow> pubkey option"
  cy_Public :: "privkey \<Rightarrow> pubkey"
  cy_Sign :: "privkey \<Rightarrow> string \<Rightarrow> string"
  cy_Verify :: "pubkey \<Rightarrow> string \<Rightarrow> string \<Rightarrow> bool"
  cy_EncodeToString :: "string \<Rightarrow> string"
  cy_DecodeString :: "string \<Rightarrow> string option"
  cy_FingerprintFromDER :: "DER \<Rightarrow> string"

definition endorseDomain :: string where "endorseDomain = ''nvpair-endorse:v1''"
definition endorseDomainV2 :: string where "endorseDomainV2 = ''nvpair-endorse:v2''"
definition tombstoneDomain :: string where "tombstoneDomain = ''nvpair-remove:v1''"
definition tombstoneDomainV2 :: string where "tombstoneDomainV2 = ''nvpair-remove:v2''"

definition LF :: char where "LF = CHR 0x0A"

definition lines :: "string list \<Rightarrow> string" where
  "lines fs = Join LF fs"

definition FormatUint :: "epoch \<Rightarrow> string" where
  "FormatUint e = Itoa (uint e)"

definition endorsePayload :: "string \<Rightarrow> string \<Rightarrow> string \<Rightarrow> int \<Rightarrow> string" where
  "endorsePayload introducedUUID fingerprint clusterID issuedAt =
     lines [endorseDomain, introducedUUID, fingerprint, clusterID, Itoa issuedAt]"

definition tombstonePayload :: "string \<Rightarrow> string \<Rightarrow> int \<Rightarrow> string" where
  "tombstonePayload nodeUUID clusterID removedAt =
     lines [tombstoneDomain, nodeUUID, clusterID, Itoa removedAt]"

definition endorsePayloadV2 :: "string \<Rightarrow> string \<Rightarrow> string \<Rightarrow> epoch \<Rightarrow> epoch \<Rightarrow> int \<Rightarrow> string" where
  "endorsePayloadV2 introducedUUID fingerprint clusterID admissionEpoch byAdmissionEpoch issuedAt =
     lines [endorseDomainV2, introducedUUID, fingerprint, clusterID, FormatUint admissionEpoch,
       FormatUint byAdmissionEpoch, Itoa issuedAt]"

definition tombstonePayloadV2 :: "string \<Rightarrow> string \<Rightarrow> epoch \<Rightarrow> epoch \<Rightarrow> int \<Rightarrow> string" where
  "tombstonePayloadV2 nodeUUID clusterID admissionEpoch byAdmissionEpoch removedAt =
     lines [tombstoneDomainV2, nodeUUID, clusterID, FormatUint admissionEpoch, FormatUint byAdmissionEpoch, Itoa removedAt]"

text \<open>The two epochs are optional arguments; zero epochs leave the second signature out.\<close>

definition signEndorsement ::
  "crypto \<Rightarrow> privkey \<Rightarrow> string \<Rightarrow> string \<Rightarrow> string \<Rightarrow> string \<Rightarrow> int \<Rightarrow> epoch \<Rightarrow> epoch \<Rightarrow> Endorsement" where
  "signEndorsement cy signer byUUID introducedUUID fingerprint clusterID issuedAt e0 e1 =
     (let e = \<lparr>eo_By = byUUID, eo_Fingerprint = fingerprint, eo_ClusterID = clusterID, eo_AdmissionEpoch = 0,
               eo_ByAdmissionEpoch = 0, eo_IssuedAt = issuedAt,
               eo_Sig = cy_EncodeToString cy (cy_Sign cy signer (endorsePayload introducedUUID fingerprint clusterID issuedAt)),
               eo_SigV2 = []\<rparr>
      in if e0 \<noteq> 0 \<and> e1 \<noteq> 0
         then e\<lparr>eo_AdmissionEpoch := e0, eo_ByAdmissionEpoch := e1,
                eo_SigV2 := cy_EncodeToString cy (cy_Sign cy signer
                  (endorsePayloadV2 introducedUUID fingerprint clusterID e0 e1 issuedAt))\<rparr>
         else e)"

definition verifyEndorsement :: "crypto \<Rightarrow> pubkey \<Rightarrow> string \<Rightarrow> string \<Rightarrow> string \<Rightarrow> Endorsement \<Rightarrow> bool" where
  "verifyEndorsement cy pub introducedUUID fingerprint clusterID e \<longleftrightarrow>
     (if eo_Fingerprint e \<noteq> fingerprint \<or> eo_ClusterID e \<noteq> clusterID then False
      else if eo_SigV2 e \<noteq> [] then
        (if eo_AdmissionEpoch e = 0 \<or> eo_ByAdmissionEpoch e = 0 then False
         else case cy_DecodeString cy (eo_SigV2 e) of
           None \<Rightarrow> False
         | Some sig \<Rightarrow> cy_Verify cy pub (endorsePayloadV2 introducedUUID fingerprint clusterID
             (eo_AdmissionEpoch e) (eo_ByAdmissionEpoch e) (eo_IssuedAt e)) sig)
      else case cy_DecodeString cy (eo_Sig e) of
        None \<Rightarrow> False
      | Some sig \<Rightarrow> cy_Verify cy pub (endorsePayload introducedUUID fingerprint clusterID (eo_IssuedAt e)) sig)"

definition signTombstone ::
  "crypto \<Rightarrow> privkey \<Rightarrow> string \<Rightarrow> string \<Rightarrow> string \<Rightarrow> int \<Rightarrow> epoch \<Rightarrow> epoch \<Rightarrow> Tombstone" where
  "signTombstone cy signer byUUID nodeUUID clusterID removedAt e0 e1 =
     (let t = \<lparr>tb_NodeUUID = nodeUUID, tb_ClusterID = clusterID, tb_AdmissionEpoch = 0, tb_By = byUUID,
               tb_ByAdmissionEpoch = 0, tb_RemovedAt = removedAt,
               tb_Sig = cy_EncodeToString cy (cy_Sign cy signer (tombstonePayload nodeUUID clusterID removedAt)),
               tb_SigV2 = []\<rparr>
      in if e0 \<noteq> 0 \<and> e1 \<noteq> 0
         then t\<lparr>tb_AdmissionEpoch := e0, tb_ByAdmissionEpoch := e1,
                tb_SigV2 := cy_EncodeToString cy (cy_Sign cy signer
                  (tombstonePayloadV2 nodeUUID clusterID e0 e1 removedAt))\<rparr>
         else t)"

definition verifyTombstone :: "crypto \<Rightarrow> pubkey \<Rightarrow> string \<Rightarrow> Tombstone \<Rightarrow> bool" where
  "verifyTombstone cy pub clusterID t \<longleftrightarrow>
     (if tb_ClusterID t \<noteq> clusterID \<or> tb_NodeUUID t = [] then False
      else if tb_SigV2 t \<noteq> [] then
        (if tb_AdmissionEpoch t = 0 \<or> tb_ByAdmissionEpoch t = 0 then False
         else case cy_DecodeString cy (tb_SigV2 t) of
           None \<Rightarrow> False
         | Some sig \<Rightarrow> cy_Verify cy pub (tombstonePayloadV2 (tb_NodeUUID t) clusterID
             (tb_AdmissionEpoch t) (tb_ByAdmissionEpoch t) (tb_RemovedAt t)) sig)
      else case cy_DecodeString cy (tb_Sig t) of
        None \<Rightarrow> False
      | Some sig \<Rightarrow> cy_Verify cy pub (tombstonePayload (tb_NodeUUID t) clusterID (tb_RemovedAt t)) sig)"

definition uuidFromCert :: "Certificate \<Rightarrow> string" where
  "uuidFromCert cert =
     (case List.find (\<lambda>u. case u of None \<Rightarrow> False
          | Some s \<Rightarrow> length s > length nodeURISANPrefix \<and> take (length nodeURISANPrefix) s = nodeURISANPrefix) (c_URIs cert) of
        Some (Some s) \<Rightarrow> drop (length nodeURISANPrefix) s
      | _ \<Rightarrow> c_CommonName cert)"

definition pubFromDER :: "crypto \<Rightarrow> DER \<Rightarrow> pubkey option" where
  "pubFromDER cy der =
     (case ParseCertificate (cy_x509 cy) der of None \<Rightarrow> None | Some cert \<Rightarrow> cy_pubKeyFromCert cy cert)"

text \<open>The certificate in a PEM text, when it is one and names the expected node.\<close>

definition certDER :: "crypto \<Rightarrow> string \<Rightarrow> string \<Rightarrow> DER option" where
  "certDER cy certPem uuid =
     (case pem_Decode (cy_x509 cy) certPem of
        None \<Rightarrow> None
      | Some (typ, bytes) \<Rightarrow>
          if typ \<noteq> ''CERTIFICATE'' then None
          else case ParseCertificate (cy_x509 cy) bytes of
            None \<Rightarrow> None
          | Some cert \<Rightarrow> if uuidFromCert cert \<noteq> uuid then None else Some bytes)"

subsection \<open>The manager's state\<close>

record TrustedPin =
  tp_NodeUUID :: string
  tp_NodeID :: string
  tp_Name :: string
  tp_ClusterID :: string
  tp_AdmissionEpoch :: epoch
  tp_CertPem :: string
  tp_CertFingerprint :: string
  tp_PinnedAt :: int
  tp_Endorsements :: "Endorsement list"

record trusted =
  tr_pin :: TrustedPin
  tr_der :: DER
  tr_pub :: pubkey

datatype MembershipState = stateMember | statePendingOutbound | statePendingInbound

record ClusterNode =
  cn_ID :: string
  cn_NodeUUID :: string
  cn_Name :: string
  cn_IPAddress :: string
  cn_Port :: int
  cn_ClusterID :: string
  cn_AdmissionEpoch :: epoch
  cn_State :: MembershipState
  cn_JoinedAt :: "int option"
  cn_LastSeen :: "int option"

record admissionState =
  as_Counter :: epoch
  as_Activated :: epoch
  as_Retired :: bool
  as_ClusterID :: string
  as_Epoch :: epoch

definition admissionState0 :: admissionState where
  "admissionState0 = \<lparr>as_Counter = 0, as_Activated = 0, as_Retired = False, as_ClusterID = [], as_Epoch = 0\<rparr>"

record NodeIdentity =
  ni_NodeUUID :: string
  ni_NodeID :: string
  ni_Name :: string
  ni_CertPEM :: string
  ni_CertFingerprint :: string
  ni_Cert :: DER
  ni_Signer :: privkey

record Disk =
  dk_admission :: "admissionState option"
  dk_members :: "ClusterNode list option"
  dk_pins :: "(string, TrustedPin) gomap"
  dk_tombstones :: "Tombstone list option"
  dk_proofs :: "RemovalProof list option"
  dk_marker :: bool
  dk_invite :: "string option"

datatype cluster_out = TrustChanged | NodesChanged "ClusterNode list" | IdentityChanged string string

record Manager =
  cm_identity :: NodeIdentity
  cm_port :: int
  cm_trust :: "(string, trusted) gomap"
  cm_clusterID :: string
  cm_clusterFriendlyName :: string
  cm_inviteCreated :: "string option"
  cm_admission :: admissionState
  cm_clusterGen :: "64 word"
  cm_members :: "(string, ClusterNode) gomap"
  cm_tombstones :: "(string, Tombstone) gomap"
  cm_removalProofs :: "(string, RemovalProof) gomap"
  cm_clusterTornDown :: bool
  cm_teardownPending :: bool
  cm_observedPeerHosts :: "(string, string) gomap"
  cm_disk :: Disk
  cm_io :: "bool list"
  cm_out :: "cluster_out list"

text \<open>The outcome of the next file operation; operations beyond the list succeed.\<close>

definition io_ok :: "Manager \<Rightarrow> bool" where
  "io_ok m = (case cm_io m of [] \<Rightarrow> True | ok # _ \<Rightarrow> ok)"

definition io_step :: "Manager \<Rightarrow> Manager" where
  "io_step m = m\<lparr>cm_io := tl (cm_io m)\<rparr>"

definition put_disk :: "(Disk \<Rightarrow> Disk) \<Rightarrow> Manager \<Rightarrow> Manager" where
  "put_disk f m = (io_step m)\<lparr>cm_disk := (if io_ok m then f (cm_disk m) else cm_disk m)\<rparr>"

definition announce :: "bool \<Rightarrow> Manager \<Rightarrow> Manager" where
  "announce changed m = (if changed then m\<lparr>cm_out := cm_out m @ [TrustChanged]\<rparr> else m)"

subsection \<open>Pins\<close>

definition validatePin :: "crypto \<Rightarrow> TrustedPin \<Rightarrow> string \<Rightarrow> DER option" where
  "validatePin cy pin expectUUID =
     (if tp_NodeUUID pin \<noteq> expectUUID then None else certDER cy (tp_CertPem pin) expectUUID)"

definition writePinLocked :: "TrustedPin \<Rightarrow> DER \<Rightarrow> pubkey \<Rightarrow> Manager \<Rightarrow> Manager \<times> bool" where
  "writePinLocked pin der pub m =
     (let uuid = tp_NodeUUID pin; m' = put_disk (\<lambda>d. d\<lparr>dk_pins := mput uuid pin (dk_pins d)\<rparr>) m in
      if io_ok m then (m'\<lparr>cm_trust := mput uuid \<lparr>tr_pin = pin, tr_der = der, tr_pub = pub\<rparr> (cm_trust m)\<rparr>, True)
      else (m', False))"

definition endorsementKey :: "Endorsement \<Rightarrow> string" where
  "endorsementKey e = eo_By e @ ''|'' @ (if eo_SigV2 e = [] then eo_Sig e else eo_SigV2 e)"

fun union_by :: "('a \<Rightarrow> 'b) \<Rightarrow> 'a list \<Rightarrow> 'a list \<Rightarrow> 'a list" where
  "union_by key out [] = out"
| "union_by key out (x # xs) = union_by key (if key x \<in> set (map key out) then out else out @ [x]) xs"

definition mergeEndorsementsLocked :: "string \<Rightarrow> Endorsement list \<Rightarrow> Manager \<Rightarrow> Manager \<times> bool" where
  "mergeEndorsementsLocked uuid incoming m =
     (case mget (cm_trust m) uuid of
        None \<Rightarrow> (m, True)
      | Some t \<Rightarrow>
          (let old = tp_Endorsements (tr_pin t); es = union_by endorsementKey old incoming in
           if es = old then (m, True)
           else writePinLocked ((tr_pin t)\<lparr>tp_Endorsements := es\<rparr>) (tr_der t) (tr_pub t) m))"

definition AddEndorsements :: "string \<Rightarrow> Endorsement list \<Rightarrow> Manager \<Rightarrow> Manager \<times> bool" where
  "AddEndorsements uuid endorsements m =
     (let (m', ok) = mergeEndorsementsLocked uuid endorsements m in (announce ok m', ok))"

definition Pin :: "crypto \<Rightarrow> TrustedPin \<Rightarrow> Manager \<Rightarrow> Manager \<times> bool" where
  "Pin cy pin m =
     (case validatePin cy pin (tp_NodeUUID pin) of None \<Rightarrow> (m, False) | Some der \<Rightarrow>
      case pubFromDER cy der of None \<Rightarrow> (m, False) | Some pub \<Rightarrow>
      case mget (cm_trust m) (tp_NodeUUID pin) of
        Some cur \<Rightarrow>
          if tr_der cur = der then
            (if tp_AdmissionEpoch pin > tp_AdmissionEpoch (tr_pin cur) then
               (let (m', ok) = writePinLocked
                    (pin\<lparr>tp_Endorsements := tp_Endorsements (tr_pin cur) @ tp_Endorsements pin\<rparr>) der (tr_pub cur) m
                in (announce ok m', ok))
             else if tp_AdmissionEpoch pin < tp_AdmissionEpoch (tr_pin cur) then (m, True)
             else (let (m', ok) = mergeEndorsementsLocked (tp_NodeUUID pin) (tp_Endorsements pin) m in (announce ok m', ok)))
          else (m, False)
      | None \<Rightarrow> (let (m', ok) = writePinLocked pin der pub m in (announce ok m', ok)))"

definition trust_Remove :: "string \<Rightarrow> Manager \<Rightarrow> Manager \<times> bool" where
  "trust_Remove uuid m =
     (let ok = (io_ok m \<or> mget (dk_pins (cm_disk m)) uuid = None);
          m' = put_disk (\<lambda>d. d\<lparr>dk_pins := mdel uuid (dk_pins d)\<rparr>) m
      in if ok then (announce (mget (cm_trust m) uuid \<noteq> None) (m'\<lparr>cm_trust := mdel uuid (cm_trust m)\<rparr>), True)
         else (m', False))"

definition trust_Forget :: "string \<Rightarrow> Manager \<Rightarrow> Manager" where
  "trust_Forget uuid m =
     announce (mget (cm_trust m) uuid \<noteq> None) (m\<lparr>cm_trust := mdel uuid (cm_trust m)\<rparr>)"

definition trust_Get :: "string \<Rightarrow> Manager \<Rightarrow> TrustedPin option" where
  "trust_Get uuid m = map_option tr_pin (mget (cm_trust m) uuid)"

definition MatchDER :: "string \<Rightarrow> DER \<Rightarrow> Manager \<Rightarrow> bool" where
  "MatchDER uuid der m \<longleftrightarrow> (case mget (cm_trust m) uuid of None \<Rightarrow> False | Some t \<Rightarrow> tr_der t = der)"

definition renamed_pin :: "string \<Rightarrow> string \<Rightarrow> TrustedPin \<Rightarrow> TrustedPin" where
  "renamed_pin nodeID name p =
     p\<lparr>tp_NodeID := (if nodeID \<noteq> [] then nodeID else tp_NodeID p), tp_Name := (if name \<noteq> [] then name else tp_Name p)\<rparr>"

definition UpdateIdentity :: "string \<Rightarrow> string \<Rightarrow> string \<Rightarrow> Manager \<Rightarrow> Manager \<times> bool" where
  "UpdateIdentity uuid nodeID name m =
     (case mget (cm_trust m) uuid of
        None \<Rightarrow> (m, False)
      | Some t \<Rightarrow>
          (let p = renamed_pin nodeID name (tr_pin t) in
           if p = tr_pin t then (m, False)
           else let (m', ok) = writePinLocked p (tr_der t) (tr_pub t) m in (announce ok m', ok)))"

definition legacyAdmissionEpoch :: epoch where "legacyAdmissionEpoch = 1"

definition migrated_pin :: "string \<Rightarrow> TrustedPin \<Rightarrow> TrustedPin" where
  "migrated_pin clusterID p =
     (if tp_ClusterID p \<noteq> [] \<and> tp_ClusterID p \<noteq> clusterID then p
      else p\<lparr>tp_ClusterID := clusterID,
             tp_AdmissionEpoch := (if tp_AdmissionEpoch p = 0 then legacyAdmissionEpoch else tp_AdmissionEpoch p)\<rparr>)"

primrec migrate_pins :: "string \<Rightarrow> trusted list \<Rightarrow> Manager \<Rightarrow> bool \<Rightarrow> Manager \<times> bool \<times> bool" where
  "migrate_pins clusterID [] m migrated = (m, True, migrated)"
| "migrate_pins clusterID (t # ts) m migrated =
     (let p = migrated_pin clusterID (tr_pin t) in
      if p = tr_pin t then migrate_pins clusterID ts m migrated
      else let (m', ok) = writePinLocked p (tr_der t) (tr_pub t) m
           in if ok then migrate_pins clusterID ts m' True else (m', False, migrated))"

definition MigrateLegacyAdmissions :: "string \<Rightarrow> Manager \<Rightarrow> Manager \<times> bool" where
  "MigrateLegacyAdmissions clusterID m =
     (let (m', ok, migrated) = migrate_pins clusterID (mvals (cm_trust m)) m False in (announce migrated m', ok))"

subsection \<open>Tombstones\<close>

definition sorted_tombstones :: "(string, Tombstone) gomap \<Rightarrow> Tombstone list" where
  "sorted_tombstones ts = sort_by (\<lambda>a b. tb_NodeUUID a < tb_NodeUUID b) (mvals ts)"

text \<open>Replace the set, persist it, and go back to the old one when that fails.\<close>

definition replace_tombstones :: "(string, Tombstone) gomap \<Rightarrow> Manager \<Rightarrow> Manager \<times> bool" where
  "replace_tombstones ts m =
     (let m' = put_disk (\<lambda>d. d\<lparr>dk_tombstones := Some (sorted_tombstones ts)\<rparr>) m
      in if io_ok m then (m'\<lparr>cm_tombstones := ts\<rparr>, True) else (m', False))"

definition putTombstone :: "Tombstone \<Rightarrow> Manager \<Rightarrow> Manager \<times> bool" where
  "putTombstone t m =
     (let keep = (case mget (cm_tombstones m) (tb_NodeUUID t) of
          None \<Rightarrow> False
        | Some cur \<Rightarrow>
            if tb_AdmissionEpoch cur \<noteq> 0 \<and> tb_AdmissionEpoch t \<noteq> 0 then tb_AdmissionEpoch cur \<ge> tb_AdmissionEpoch t
            else tb_RemovedAt cur \<ge> tb_RemovedAt t)
      in if keep then (m, False) else replace_tombstones (mput (tb_NodeUUID t) t (cm_tombstones m)) m)"

definition clearTombstone :: "string \<Rightarrow> Manager \<Rightarrow> Manager" where
  "clearTombstone uuid m =
     (if mget (cm_tombstones m) uuid = None then m else fst (replace_tombstones (mdel uuid (cm_tombstones m)) m))"

definition clearAllTombstones :: "Manager \<Rightarrow> Manager \<times> bool" where
  "clearAllTombstones m = (if cm_tombstones m = [] then (m, True) else replace_tombstones [] m)"

subsection \<open>Admission\<close>

definition currentAdmission :: "Manager \<Rightarrow> string \<times> epoch" where
  "currentAdmission m = (as_ClusterID (cm_admission m), as_Epoch (cm_admission m))"

definition replace_admission :: "admissionState \<Rightarrow> Manager \<Rightarrow> Manager \<times> bool" where
  "replace_admission a m =
     (let m' = put_disk (\<lambda>d. d\<lparr>dk_admission := Some a\<rparr>) m
      in if io_ok m then (m'\<lparr>cm_admission := a\<rparr>, True) else (m', False))"

definition loadAdmission :: "Manager \<Rightarrow> Manager option" where
  "loadAdmission m =
     (case dk_admission (cm_disk m) of
        None \<Rightarrow> Some m
      | Some st \<Rightarrow>
          (let st = (if as_Activated st = 0 \<and> as_Epoch st \<noteq> 0 then st\<lparr>as_Activated := as_Epoch st\<rparr> else st) in
           if as_Epoch st > as_Counter st then None
           else if as_Activated st > as_Counter st \<or> as_Epoch st > as_Activated st then None
           else if (as_ClusterID st = []) \<noteq> (as_Epoch st = 0) then None
           else Some (m\<lparr>cm_admission := st\<rparr>)))"

definition reserveAdmissionEpoch :: "Manager \<Rightarrow> Manager \<times> epoch option" where
  "reserveAdmissionEpoch m =
     (let a = (cm_admission m)\<lparr>as_Counter := as_Counter (cm_admission m) + 1\<rparr>
      in case replace_admission a m of (m', True) \<Rightarrow> (m', Some (as_Counter a)) | (m', False) \<Rightarrow> (m', None))"

definition activateAdmission :: "string \<Rightarrow> epoch \<Rightarrow> Manager \<Rightarrow> Manager \<times> bool" where
  "activateAdmission clusterID ep m =
     (if clusterID = [] \<or> ep = 0 then (m, False)
      else if cm_teardownPending m then (m, False)
      else if ep > as_Counter (cm_admission m) then (m, False)
      else if ep \<le> as_Activated (cm_admission m) then (m, False)
      else replace_admission ((cm_admission m)\<lparr>as_Activated := ep, as_Retired := False, as_ClusterID := clusterID, as_Epoch := ep\<rparr>) m)"

definition ensureAdmission :: "string \<Rightarrow> Manager \<Rightarrow> Manager \<times> epoch option" where
  "ensureAdmission clusterID m =
     (let a = cm_admission m in
      if as_ClusterID a = clusterID \<and> as_Epoch a \<noteq> 0 then (m, Some (as_Epoch a))
      else if as_ClusterID a \<noteq> [] \<or> as_Epoch a \<noteq> 0 then (m, None)
      else if as_Retired a then (m, None)
      else case reserveAdmissionEpoch m of
        (m', None) \<Rightarrow> (m', None)
      | (m', Some ep) \<Rightarrow> (case activateAdmission clusterID ep m' of (m'', True) \<Rightarrow> (m'', Some ep) | (m'', False) \<Rightarrow> (m'', None)))"

definition clearAdmission :: "Manager \<Rightarrow> Manager \<times> bool" where
  "clearAdmission m = replace_admission ((cm_admission m)\<lparr>as_Retired := True, as_ClusterID := [], as_Epoch := 0\<rparr>) m"

subsection \<open>Removal proofs\<close>

definition sorted_proofs :: "(string, RemovalProof) gomap \<Rightarrow> RemovalProof list" where
  "sorted_proofs ps = sort_by (\<lambda>a b. tb_NodeUUID (rp_Tombstone a) < tb_NodeUUID (rp_Tombstone b)) (mvals ps)"

definition replace_proofs :: "(string, RemovalProof) gomap \<Rightarrow> Manager \<Rightarrow> Manager \<times> bool" where
  "replace_proofs ps m =
     (let m' = put_disk (\<lambda>d. d\<lparr>dk_proofs := Some (sorted_proofs ps)\<rparr>) m
      in if io_ok m then (m'\<lparr>cm_removalProofs := ps\<rparr>, True) else (m', False))"

definition newRemovalProof :: "crypto \<Rightarrow> int \<Rightarrow> string \<Rightarrow> epoch \<Rightarrow> Manager \<Rightarrow> RemovalProof option" where
  "newRemovalProof cy now nodeUUID admissionEpoch m =
     (let (cid, selfEpoch) = currentAdmission m; me = cm_identity m in
      if cid = [] \<or> selfEpoch = 0 \<or> admissionEpoch = 0 then None
      else Some \<lparr>rp_Tombstone = signTombstone cy (ni_Signer me) (ni_NodeUUID me) nodeUUID cid now admissionEpoch selfEpoch,
                 rp_SignerCertPem = ni_CertPEM me, rp_SignerFingerprint = ni_CertFingerprint me, rp_Endorsements = []\<rparr>)"

definition targetAdmissionAuthenticated :: "string \<Rightarrow> epoch \<Rightarrow> Manager \<Rightarrow> bool" where
  "targetAdmissionAuthenticated uuid ep m \<longleftrightarrow>
     (if uuid = [] \<or> ep = 0 then False
      else if uuid = ni_NodeUUID (cm_identity m) then snd (currentAdmission m) = ep
      else case trust_Get uuid m of None \<Rightarrow> False | Some pin \<Rightarrow> tp_AdmissionEpoch pin = ep)"

definition proofEndorsementKey :: "Endorsement \<Rightarrow> string" where
  "proofEndorsementKey e = eo_By e @ ''|'' @ eo_SigV2 e"

definition mergeProofEndorsements :: "Endorsement list \<Rightarrow> Endorsement list \<Rightarrow> Endorsement list" where
  "mergeProofEndorsements a b = union_by proofEndorsementKey a b"

definition withLocalRelayEndorsement :: "crypto \<Rightarrow> int \<Rightarrow> Manager \<Rightarrow> RemovalProof \<Rightarrow> RemovalProof" where
  "withLocalRelayEndorsement cy now m p =
     (let (cid, selfEpoch) = currentAdmission m; me = cm_identity m; t = rp_Tombstone p in
      if cid = [] \<or> selfEpoch = 0 \<or> tb_ClusterID t \<noteq> cid then p
      else if \<exists>en \<in> set (rp_Endorsements p). eo_By en = ni_NodeUUID me \<and> eo_ByAdmissionEpoch en = selfEpoch \<and>
                eo_AdmissionEpoch en = tb_ByAdmissionEpoch t \<and> eo_Fingerprint en = rp_SignerFingerprint p \<and> eo_SigV2 en \<noteq> []
      then p
      else p\<lparr>rp_Endorsements := mergeProofEndorsements (rp_Endorsements p)
               [signEndorsement cy (ni_Signer me) (ni_NodeUUID me) (tb_By t) (rp_SignerFingerprint p) cid now
                  (tb_ByAdmissionEpoch t) selfEpoch]\<rparr>)"

text \<open>\<open>None\<close> is the error; otherwise whether the set changed.\<close>

definition putRemovalProof :: "crypto \<Rightarrow> int \<Rightarrow> RemovalProof \<Rightarrow> Manager \<Rightarrow> Manager \<times> bool option" where
  "putRemovalProof cy now p0 m =
     (let t = rp_Tombstone p0; key = tb_NodeUUID t in
      if key = [] \<or> tb_AdmissionEpoch t = 0 then (m, None)
      else
        (let p1 = withLocalRelayEndorsement cy now m p0;
             cur = mget (cm_removalProofs m) key;
             p = (case cur of
                    Some c \<Rightarrow> if tb_AdmissionEpoch (rp_Tombstone c) = tb_AdmissionEpoch t
                               then p1\<lparr>rp_Endorsements := mergeProofEndorsements (rp_Endorsements c) (rp_Endorsements p1)\<rparr> else p1
                  | None \<Rightarrow> p1);
             settled = (case cur of
                    Some c \<Rightarrow> tb_AdmissionEpoch (rp_Tombstone c) > tb_AdmissionEpoch t \<or>
                               tb_AdmissionEpoch (rp_Tombstone c) = tb_AdmissionEpoch t \<and> c = p
                  | None \<Rightarrow> False)
         in if settled then (m, Some False)
            else if \<not> targetAdmissionAuthenticated key (tb_AdmissionEpoch t) m then (m, None)
            else case replace_proofs (mput key p (cm_removalProofs m)) m of
              (m', True) \<Rightarrow> (m', Some True)
            | (m', False) \<Rightarrow> (m', None)))"

definition removalProofBlocksAdmission :: "string \<Rightarrow> string \<Rightarrow> epoch \<Rightarrow> Manager \<Rightarrow> bool" where
  "removalProofBlocksAdmission uuid clusterID ep m \<longleftrightarrow>
     (case mget (cm_removalProofs m) uuid of
        None \<Rightarrow> False
      | Some p \<Rightarrow> tb_ClusterID (rp_Tombstone p) = clusterID \<and> (ep = 0 \<or> ep \<le> tb_AdmissionEpoch (rp_Tombstone p)))"

definition clearRemovalProofAfterAdmission :: "string \<Rightarrow> epoch \<Rightarrow> Manager \<Rightarrow> Manager \<times> bool" where
  "clearRemovalProofAfterAdmission uuid ep m =
     (case mget (cm_removalProofs m) uuid of
        None \<Rightarrow> (m, True)
      | Some p \<Rightarrow> if ep \<le> tb_AdmissionEpoch (rp_Tombstone p) then (m, True)
                  else replace_proofs (mdel uuid (cm_removalProofs m)) m)"

definition clearAllRemovalProofs :: "Manager \<Rightarrow> Manager \<times> bool" where
  "clearAllRemovalProofs m = (if cm_removalProofs m = [] then (m, True) else replace_proofs [] m)"

definition parseProofSigner :: "crypto \<Rightarrow> RemovalProof \<Rightarrow> DER option" where
  "parseProofSigner cy p =
     (case certDER cy (rp_SignerCertPem p) (tb_By (rp_Tombstone p)) of
        None \<Rightarrow> None
      | Some der \<Rightarrow> if cy_FingerprintFromDER cy der \<noteq> rp_SignerFingerprint p then None else Some der)"

definition selfPub :: "crypto \<Rightarrow> Manager \<Rightarrow> pubkey" where
  "selfPub cy m = cy_Public cy (ni_Signer (cm_identity m))"

definition trustedPub :: "crypto \<Rightarrow> string \<Rightarrow> Manager \<Rightarrow> pubkey option" where
  "trustedPub cy uuid m =
     (if uuid = ni_NodeUUID (cm_identity m) then Some (selfPub cy m) else map_option tr_pub (mget (cm_trust m) uuid))"

definition trustedAdmissionEpoch :: "string \<Rightarrow> Manager \<Rightarrow> epoch option" where
  "trustedAdmissionEpoch uuid m =
     (if uuid = ni_NodeUUID (cm_identity m) then
        (if snd (currentAdmission m) \<noteq> 0 then Some (snd (currentAdmission m)) else None)
      else case trust_Get uuid m of
        None \<Rightarrow> None
      | Some pin \<Rightarrow> if tp_AdmissionEpoch pin = 0 then None else Some (tp_AdmissionEpoch pin))"

text \<open>An endorsement of a certificate and admission by a node trusted in its current admission.\<close>

definition trusted_endorsement :: "crypto \<Rightarrow> string \<Rightarrow> string \<Rightarrow> string \<Rightarrow> epoch \<Rightarrow> Manager \<Rightarrow> Endorsement \<Rightarrow> bool" where
  "trusted_endorsement cy uuid fingerprint cid ep m en \<longleftrightarrow>
     eo_SigV2 en \<noteq> [] \<and> eo_AdmissionEpoch en = ep \<and>
     trustedAdmissionEpoch (eo_By en) m = Some (eo_ByAdmissionEpoch en) \<and>
     (case trustedPub cy (eo_By en) m of
        None \<Rightarrow> False
      | Some pub \<Rightarrow> verifyEndorsement cy pub uuid fingerprint cid en)"

definition verifyRemovalProof :: "crypto \<Rightarrow> RemovalProof \<Rightarrow> string \<Rightarrow> Manager \<Rightarrow> bool" where
  "verifyRemovalProof cy p clusterID m \<longleftrightarrow>
     (let t = rp_Tombstone p in
      if tb_ClusterID t \<noteq> clusterID \<or> tb_NodeUUID t = [] \<or> tb_AdmissionEpoch t = 0 \<or> tb_By t = [] \<or>
         tb_ByAdmissionEpoch t = 0 \<or> tb_SigV2 t = [] then False
      else case parseProofSigner cy p of None \<Rightarrow> False | Some der \<Rightarrow>
        (case pubFromDER cy der of None \<Rightarrow> False | Some pub \<Rightarrow>
         if \<not> verifyTombstone cy pub clusterID t then False
         else if tb_By t = ni_NodeUUID (cm_identity m) then
           snd (currentAdmission m) = tb_ByAdmissionEpoch t \<and> der = ni_Cert (cm_identity m)
         else
           (case mget (cm_trust m) (tb_By t) of
              None \<Rightarrow> False
            | Some s \<Rightarrow> tp_AdmissionEpoch (tr_pin s) = tb_ByAdmissionEpoch t \<and> tr_der s = der) \<or>
           (\<exists>en \<in> set (rp_Endorsements p).
              trusted_endorsement cy (tb_By t) (rp_SignerFingerprint p) clusterID (tb_ByAdmissionEpoch t) m en)))"

subsection \<open>Members\<close>

definition upsertMember :: "ClusterNode \<Rightarrow> Manager \<Rightarrow> Manager" where
  "upsertMember n m = m\<lparr>cm_members := mput (cn_NodeUUID n) n (cm_members m), cm_clusterGen := cm_clusterGen m + 1\<rparr>"

definition removeMemberByUUID :: "string \<Rightarrow> Manager \<Rightarrow> Manager \<times> bool" where
  "removeMemberByUUID uuid m =
     (let ok = (mget (cm_members m) uuid \<noteq> None)
      in (m\<lparr>cm_members := mdel uuid (cm_members m),
            cm_clusterGen := (if ok then cm_clusterGen m + 1 else cm_clusterGen m)\<rparr>, ok))"

definition resetMembership :: "Manager \<Rightarrow> Manager" where
  "resetMembership m = m\<lparr>cm_members := [], cm_clusterGen := cm_clusterGen m + 1\<rparr>"

definition memberByNodeID :: "string \<Rightarrow> Manager \<Rightarrow> ClusterNode option" where
  "memberByNodeID idOrUUID m =
     (case mget (cm_members m) idOrUUID of
        Some n \<Rightarrow> Some n
      | None \<Rightarrow> List.find (\<lambda>n. cn_ID n = idOrUUID) (mvals (cm_members m)))"

definition valid_port :: "int \<Rightarrow> bool" where
  "valid_port p \<longleftrightarrow> 1 \<le> p \<and> p \<le> 65535"

definition setMemberAddr :: "string \<Rightarrow> string \<Rightarrow> int \<Rightarrow> Manager \<Rightarrow> Manager \<times> bool" where
  "setMemberAddr uuid host port m =
     (if host = [] then (m, False)
      else case mget (cm_members m) uuid of
        None \<Rightarrow> (m, False)
      | Some n \<Rightarrow>
          (let port1 = (if valid_port port then port else cn_Port n);
               port2 = (if valid_port port1 then port1 else cm_port m)
           in if cn_IPAddress n = host \<and> cn_Port n = port2 then (m, False)
              else (m\<lparr>cm_members := mput uuid (n\<lparr>cn_IPAddress := host, cn_Port := port2\<rparr>) (cm_members m)\<rparr>, True)))"

definition noteObservedPeerHost :: "string \<Rightarrow> string \<Rightarrow> Manager \<Rightarrow> Manager \<times> bool" where
  "noteObservedPeerHost uuid host m =
     (if uuid = [] \<or> host = [] then (m, False)
      else setMemberAddr uuid host 0 (m\<lparr>cm_observedPeerHosts := mput uuid host (cm_observedPeerHosts m)\<rparr>))"

definition observedPeerHost :: "string \<Rightarrow> Manager \<Rightarrow> string" where
  "observedPeerHost uuid m = (case mget (cm_observedPeerHosts m) uuid of None \<Rightarrow> [] | Some h \<Rightarrow> h)"

definition updateMemberIdentity :: "string \<Rightarrow> string \<Rightarrow> string \<Rightarrow> Manager \<Rightarrow> Manager \<times> bool" where
  "updateMemberIdentity uuid nodeID name m =
     (case mget (cm_members m) uuid of
        None \<Rightarrow> (m, False)
      | Some n \<Rightarrow>
          (let n1 = (if nodeID \<noteq> [] \<and> cn_ID n \<noteq> nodeID then n\<lparr>cn_ID := nodeID\<rparr> else n);
               n2 = (if name \<noteq> [] \<and> cn_Name n1 \<noteq> name then n1\<lparr>cn_Name := name\<rparr> else n1)
           in (m\<lparr>cm_members := mput uuid n2 (cm_members m)\<rparr>, n2 \<noteq> n)))"

definition snapshotNodes :: "Manager \<Rightarrow> ClusterNode list" where
  "snapshotNodes m = sort_by (\<lambda>a b. cn_ID a < cn_ID b) (mvals (cm_members m))"

definition persistMembersErr :: "Manager \<Rightarrow> Manager \<times> bool" where
  "persistMembersErr m =
     (let durable = sort_by (\<lambda>a b. cn_ID a < cn_ID b) (filter (\<lambda>n. cn_State n = stateMember) (mvals (cm_members m)))
      in (put_disk (\<lambda>d. d\<lparr>dk_members := Some durable\<rparr>) m, io_ok m))"

definition emitNodesChanged :: "Manager \<Rightarrow> Manager" where
  "emitNodesChanged m =
     (let m' = fst (persistMembersErr m) in m'\<lparr>cm_out := cm_out m' @ [NodesChanged (snapshotNodes m')]\<rparr>)"

subsection \<open>Rosters\<close>

record RosterEntry =
  re_NodeUUID :: string
  re_NodeID :: string
  re_Name :: string
  re_Addr :: string
  re_AdmissionEpoch :: epoch
  re_CertPem :: string
  re_CertFingerprint :: string
  re_Endorsements :: "Endorsement list"

record Roster =
  ro_ClusterID :: string
  ro_Members :: "RosterEntry list"
  ro_Tombstones :: "Tombstone list"
  ro_RemovalProofs :: "RemovalProof list"

definition entry_of_pin :: "Manager \<Rightarrow> TrustedPin \<Rightarrow> RosterEntry" where
  "entry_of_pin m pin =
     \<lparr>re_NodeUUID = tp_NodeUUID pin, re_NodeID = tp_NodeID pin, re_Name = tp_Name pin,
      re_Addr = (case memberByNodeID (tp_NodeUUID pin) m of
           None \<Rightarrow> []
         | Some n \<Rightarrow> if cn_IPAddress n = [] then [] else JoinHostPort (cn_IPAddress n) (Itoa (cn_Port n))),
      re_AdmissionEpoch = tp_AdmissionEpoch pin, re_CertPem = tp_CertPem pin,
      re_CertFingerprint = tp_CertFingerprint pin, re_Endorsements = tp_Endorsements pin\<rparr>"

definition buildLocalRoster :: "Manager \<Rightarrow> Roster" where
  "buildLocalRoster m =
     (let me = cm_identity m in
      \<lparr>ro_ClusterID = cm_clusterID m,
       ro_Members = \<lparr>re_NodeUUID = ni_NodeUUID me, re_NodeID = ni_NodeID me, re_Name = ni_Name me, re_Addr = [],
          re_AdmissionEpoch = snd (currentAdmission m), re_CertPem = ni_CertPEM me,
          re_CertFingerprint = ni_CertFingerprint me, re_Endorsements = []\<rparr>
         # map (\<lambda>t. entry_of_pin m (tr_pin t)) (mvals (cm_trust m)),
       ro_Tombstones = sorted_tombstones (cm_tombstones m), ro_RemovalProofs = sorted_proofs (cm_removalProofs m)\<rparr>)"

text \<open>\<open>net.SplitHostPort\<close>: the host and the port, or an error.\<close>

definition LastIndexByte :: "string \<Rightarrow> char \<Rightarrow> nat option" where
  "LastIndexByte s c = (if c \<in> set s then Some (length s - 1 - length (takeWhile (\<lambda>x. x \<noteq> c) (rev s))) else None)"

definition IndexByte :: "string \<Rightarrow> char \<Rightarrow> nat option" where
  "IndexByte s c = (if c \<in> set s then Some (length (takeWhile (\<lambda>x. x \<noteq> c) s)) else None)"

definition SplitHostPort :: "string \<Rightarrow> (string \<times> string) option" where
  "SplitHostPort hp =
     (case LastIndexByte hp (CHR '':'') of
        None \<Rightarrow> None
      | Some i \<Rightarrow>
          if take 1 hp = ''['' then
            (case IndexByte hp (CHR '']'') of
               None \<Rightarrow> None
             | Some e \<Rightarrow>
                 if e + 1 \<noteq> i then None
                 else if CHR ''['' \<in> set (drop 1 hp) \<or> CHR '']'' \<in> set (drop (e + 1) hp) then None
                 else Some (take (e - 1) (drop 1 hp), drop (i + 1) hp))
          else if CHR '':'' \<in> set (take i hp) then None
          else if CHR ''['' \<in> set hp \<or> CHR '']'' \<in> set hp then None
          else Some (take i hp, drop (i + 1) hp))"

definition splitAddr :: "string \<Rightarrow> int \<Rightarrow> string \<times> int" where
  "splitAddr addr defPort =
     (if addr = [] then ([], defPort)
      else case SplitHostPort addr of
        None \<Rightarrow> (addr, defPort)
      | Some (host, portStr) \<Rightarrow> (case Atoi portStr of None \<Rightarrow> (host, defPort) | Some port \<Rightarrow> (host, port)))"

definition validateEntryCert :: "crypto \<Rightarrow> RosterEntry \<Rightarrow> DER option" where
  "validateEntryCert cy e =
     (case certDER cy (re_CertPem e) (re_NodeUUID e) of
        None \<Rightarrow> None
      | Some der \<Rightarrow> if cy_FingerprintFromDER cy der \<noteq> re_CertFingerprint e then None else Some der)"

definition entryEndorsed :: "crypto \<Rightarrow> RosterEntry \<Rightarrow> string \<Rightarrow> Manager \<Rightarrow> bool" where
  "entryEndorsed cy e cid m \<longleftrightarrow>
     re_AdmissionEpoch e \<noteq> 0 \<and>
     (\<exists>en \<in> set (re_Endorsements e).
        trusted_endorsement cy (re_NodeUUID e) (re_CertFingerprint e) cid (re_AdmissionEpoch e) m en)"

definition supersededByTombstone :: "RosterEntry \<Rightarrow> Manager \<Rightarrow> bool" where
  "supersededByTombstone e m \<longleftrightarrow>
     (case mget (cm_removalProofs m) (re_NodeUUID e) of
        Some p \<Rightarrow> re_AdmissionEpoch e = 0 \<or> re_AdmissionEpoch e \<le> tb_AdmissionEpoch (rp_Tombstone p)
      | None \<Rightarrow>
          (case mget (cm_tombstones m) (re_NodeUUID e) of
             None \<Rightarrow> False
           | Some t \<Rightarrow>
               if tb_SigV2 t = [] \<or> tb_AdmissionEpoch t = 0 then False
               else re_AdmissionEpoch e = 0 \<or> re_AdmissionEpoch e \<le> tb_AdmissionEpoch t))"

definition restoreMember :: "string \<Rightarrow> ClusterNode option \<Rightarrow> Manager \<Rightarrow> Manager" where
  "restoreMember uuid previous m =
     fst (persistMembersErr (case previous of Some n \<Rightarrow> upsertMember n m | None \<Rightarrow> fst (removeMemberByUUID uuid m)))"

definition pinEntry :: "crypto \<Rightarrow> int \<Rightarrow> RosterEntry \<Rightarrow> DER \<Rightarrow> Manager \<Rightarrow> Manager \<times> bool" where
  "pinEntry cy now e der m =
     (let (host, port) = splitAddr (re_Addr e) (cm_port m);
          previous = memberByNodeID (re_NodeUUID e) m;
          m1 = upsertMember \<lparr>cn_ID = re_NodeID e, cn_NodeUUID = re_NodeUUID e, cn_Name = re_Name e, cn_IPAddress = host,
                 cn_Port = port, cn_ClusterID = cm_clusterID m, cn_AdmissionEpoch = re_AdmissionEpoch e,
                 cn_State = stateMember, cn_JoinedAt = Some now, cn_LastSeen = None\<rparr> m;
          (m2, persisted) = persistMembersErr m1
      in if \<not> persisted then (restoreMember (re_NodeUUID e) previous m2, False)
         else
           (let (m3, pinned) = Pin cy \<lparr>tp_NodeUUID = re_NodeUUID e, tp_NodeID = re_NodeID e, tp_Name = re_Name e,
                  tp_ClusterID = cm_clusterID m, tp_AdmissionEpoch = re_AdmissionEpoch e, tp_CertPem = re_CertPem e,
                  tp_CertFingerprint = cy_FingerprintFromDER cy der, tp_PinnedAt = now, tp_Endorsements = re_Endorsements e\<rparr> m2
            in if pinned then (m3, True) else (restoreMember (re_NodeUUID e) previous m3, False)))"

definition refreshMemberAddr :: "RosterEntry \<Rightarrow> Manager \<Rightarrow> Manager" where
  "refreshMemberAddr e m =
     (if re_Addr e = [] then m
      else
        (let (host, port) = splitAddr (re_Addr e) (cm_port m);
             observed = observedPeerHost (re_NodeUUID e) m
         in fst (setMemberAddr (re_NodeUUID e) (if observed \<noteq> [] then observed else host) port m)))"

definition refreshMemberIdentity :: "RosterEntry \<Rightarrow> Manager \<Rightarrow> Manager \<times> bool" where
  "refreshMemberIdentity e m =
     (let (m1, c1) = updateMemberIdentity (re_NodeUUID e) (re_NodeID e) (re_Name e) m;
          (m2, c2) = UpdateIdentity (re_NodeUUID e) (re_NodeID e) (re_Name e) m1
      in (m2, c1 \<or> c2))"

text \<open>The admission of an entry that is not pinned, or pinned under an older epoch.\<close>

definition admit_entry :: "crypto \<Rightarrow> int \<Rightarrow> string \<Rightarrow> RosterEntry \<Rightarrow> Manager \<Rightarrow> Manager \<times> bool" where
  "admit_entry cy now cid e m =
     (if supersededByTombstone e m then (m, False)
      else case validateEntryCert cy e of
        None \<Rightarrow> (m, False)
      | Some der \<Rightarrow>
          if \<not> entryEndorsed cy e cid m then (m, False)
          else
            (let (m1, ok) = pinEntry cy now e der m in
             if \<not> ok then (m1, False)
             else (clearTombstone (re_NodeUUID e)
                     (fst (clearRemovalProofAfterAdmission (re_NodeUUID e) (re_AdmissionEpoch e) m1)), True)))"

definition member_step :: "crypto \<Rightarrow> int \<Rightarrow> string \<Rightarrow> string \<Rightarrow> RosterEntry \<Rightarrow> Manager \<times> bool \<times> bool \<Rightarrow> Manager \<times> bool \<times> bool" where
  "member_step cy now cid senderUUID e s =
     (let (m, changed, progressed) = s in
      if re_NodeUUID e = ni_NodeUUID (cm_identity m) then s
      else case trust_Get (re_NodeUUID e) m of
        Some pin \<Rightarrow>
          if re_AdmissionEpoch e > tp_AdmissionEpoch pin then
            (let (m', ok) = admit_entry cy now cid e m in (m', changed \<or> ok, progressed \<or> ok))
          else
            (let m1 = fst (AddEndorsements (re_NodeUUID e) (re_Endorsements e) m);
                 m2 = refreshMemberAddr e m1;
                 (m3, renamed) = (if re_NodeUUID e = senderUUID then refreshMemberIdentity e m2 else (m2, False))
             in (m3, changed \<or> renamed, progressed))
      | None \<Rightarrow> (let (m', ok) = admit_entry cy now cid e m in (m', changed \<or> ok, progressed \<or> ok)))"

text \<open>One round of \<open>applyMembers\<close> over the entries.\<close>

definition member_pass :: "crypto \<Rightarrow> int \<Rightarrow> string \<Rightarrow> string \<Rightarrow> RosterEntry list \<Rightarrow> Manager \<Rightarrow> bool \<Rightarrow> Manager \<times> bool \<times> bool" where
  "member_pass cy now cid senderUUID entries m changed = fold (member_step cy now cid senderUUID) entries (m, changed, False)"

definition apply_proof :: "crypto \<Rightarrow> int \<Rightarrow> string \<Rightarrow> RemovalProof \<Rightarrow> Manager \<times> bool \<Rightarrow> Manager \<times> bool" where
  "apply_proof cy now cid p s =
     (let (m, changed) = s; t = rp_Tombstone p; u = tb_NodeUUID t in
      if u = ni_NodeUUID (cm_identity m) \<or> \<not> verifyRemovalProof cy p cid m then s
      else case putRemovalProof cy now p m of
        (m1, None) \<Rightarrow> (m1, changed)
      | (m1, Some _) \<Rightarrow>
          (let m2 = fst (putTombstone t m1) in
           case trust_Get u m2 of
             Some pin \<Rightarrow>
               if tp_AdmissionEpoch pin \<noteq> tb_AdmissionEpoch t then
                 (if tp_AdmissionEpoch pin > tb_AdmissionEpoch t
                  then fst (clearRemovalProofAfterAdmission u (tp_AdmissionEpoch pin) m2) else m2, changed)
               else if (case memberByNodeID u m2 of None \<Rightarrow> False | Some n \<Rightarrow> cn_AdmissionEpoch n \<noteq> tb_AdmissionEpoch t)
               then (m2, changed)
               else (case trust_Remove u m2 of
                       (m3, False) \<Rightarrow> (m3, changed)
                     | (m3, True) \<Rightarrow> (fst (removeMemberByUUID u m3), True))
           | None \<Rightarrow>
               if (case memberByNodeID u m2 of None \<Rightarrow> False | Some n \<Rightarrow> cn_AdmissionEpoch n \<noteq> tb_AdmissionEpoch t)
               then (m2, changed)
               else (let (m3, gone) = removeMemberByUUID u m2 in (m3, changed \<or> gone))))"

definition applyRemovalProofs :: "crypto \<Rightarrow> int \<Rightarrow> RemovalProof list \<Rightarrow> string \<Rightarrow> Manager \<Rightarrow> Manager \<times> bool" where
  "applyRemovalProofs cy now proofs cid m = fold (apply_proof cy now cid) proofs (m, False)"

definition apply_tombstone :: "crypto \<Rightarrow> string \<Rightarrow> Tombstone \<Rightarrow> Manager \<Rightarrow> Manager" where
  "apply_tombstone cy cid t m =
     (if tb_NodeUUID t = ni_NodeUUID (cm_identity m) then m
      else if tb_SigV2 t \<noteq> [] then m
      else case trustedPub cy (tb_By t) m of
        None \<Rightarrow> m
      | Some pub \<Rightarrow> if \<not> verifyTombstone cy pub cid t then m else fst (putTombstone t m))"

definition applyTombstones :: "crypto \<Rightarrow> Tombstone list \<Rightarrow> string \<Rightarrow> Manager \<Rightarrow> Manager" where
  "applyTombstones cy ts cid m = fold (apply_tombstone cy cid) ts m"

subsection \<open>What the operations leave alone\<close>

named_theorems keeps_trust \<open>operations that do not touch the pins\<close>
named_theorems keeps_self \<open>operations that do not touch the node's identity, admission and cluster\<close>

definition self_of :: "Manager \<Rightarrow> NodeIdentity \<times> admissionState \<times> string \<times> bool" where
  "self_of m = (cm_identity m, cm_admission m, cm_clusterID m, cm_teardownPending m)"

lemma put_disk_keeps [keeps_trust, keeps_self]:
  "cm_trust (put_disk f m) = cm_trust m" "self_of (put_disk f m) = self_of m"
  "cm_removalProofs (put_disk f m) = cm_removalProofs m" "cm_tombstones (put_disk f m) = cm_tombstones m"
  "cm_members (put_disk f m) = cm_members m"
  by (simp_all add: put_disk_def io_step_def self_of_def)

lemma announce_keeps [keeps_trust, keeps_self]:
  "cm_trust (announce c m) = cm_trust m" "self_of (announce c m) = self_of m"
  "cm_removalProofs (announce c m) = cm_removalProofs m" "cm_tombstones (announce c m) = cm_tombstones m"
  "cm_members (announce c m) = cm_members m"
  by (simp_all add: announce_def self_of_def)

lemma self_of_updates [keeps_self]:
  "self_of (m\<lparr>cm_trust := x1\<rparr>) = self_of m" "self_of (m\<lparr>cm_members := x2\<rparr>) = self_of m"
  "self_of (m\<lparr>cm_tombstones := x3\<rparr>) = self_of m" "self_of (m\<lparr>cm_removalProofs := x4\<rparr>) = self_of m"
  "self_of (m\<lparr>cm_clusterGen := x5\<rparr>) = self_of m" "self_of (m\<lparr>cm_observedPeerHosts := x6\<rparr>) = self_of m"
  "self_of (m\<lparr>cm_out := x7\<rparr>) = self_of m"
  by (simp_all add: self_of_def)

lemma member_ops_keep [keeps_trust, keeps_self]:
  "cm_trust (upsertMember n m) = cm_trust m" "self_of (upsertMember n m) = self_of m"
  "cm_removalProofs (upsertMember n m) = cm_removalProofs m"
  "cm_trust (fst (removeMemberByUUID u m)) = cm_trust m" "self_of (fst (removeMemberByUUID u m)) = self_of m"
  "cm_removalProofs (fst (removeMemberByUUID u m)) = cm_removalProofs m"
  "cm_trust (fst (persistMembersErr m)) = cm_trust m" "self_of (fst (persistMembersErr m)) = self_of m"
  "cm_removalProofs (fst (persistMembersErr m)) = cm_removalProofs m"
  "cm_trust (fst (setMemberAddr u h p m)) = cm_trust m" "self_of (fst (setMemberAddr u h p m)) = self_of m"
  "cm_removalProofs (fst (setMemberAddr u h p m)) = cm_removalProofs m"
  "cm_trust (fst (updateMemberIdentity u i n' m)) = cm_trust m" "self_of (fst (updateMemberIdentity u i n' m)) = self_of m"
  "cm_removalProofs (fst (updateMemberIdentity u i n' m)) = cm_removalProofs m"
  by (simp_all add: upsertMember_def removeMemberByUUID_def persistMembersErr_def setMemberAddr_def updateMemberIdentity_def
      Let_def keeps_trust keeps_self split: option.splits)

lemma restoreMember_keeps [keeps_trust, keeps_self]:
  "cm_trust (restoreMember u p m) = cm_trust m" "self_of (restoreMember u p m) = self_of m"
  "cm_removalProofs (restoreMember u p m) = cm_removalProofs m"
  by (simp_all add: restoreMember_def keeps_trust keeps_self split: option.splits)

lemma refreshMemberAddr_keeps [keeps_trust, keeps_self]:
  "cm_trust (refreshMemberAddr e m) = cm_trust m" "self_of (refreshMemberAddr e m) = self_of m"
  "cm_removalProofs (refreshMemberAddr e m) = cm_removalProofs m"
  by (simp_all add: refreshMemberAddr_def Let_def case_prod_beta keeps_trust keeps_self)

lemma replace_keeps [keeps_trust, keeps_self]:
  "cm_trust (fst (replace_tombstones ts m)) = cm_trust m" "self_of (fst (replace_tombstones ts m)) = self_of m"
  "cm_removalProofs (fst (replace_tombstones ts m)) = cm_removalProofs m"
  "cm_trust (fst (replace_proofs ps m)) = cm_trust m" "self_of (fst (replace_proofs ps m)) = self_of m"
  by (simp_all add: replace_tombstones_def replace_proofs_def Let_def keeps_trust keeps_self)

lemma tombstone_ops_keep [keeps_trust, keeps_self]:
  "cm_trust (fst (putTombstone t m)) = cm_trust m" "self_of (fst (putTombstone t m)) = self_of m"
  "cm_removalProofs (fst (putTombstone t m)) = cm_removalProofs m"
  "cm_trust (clearTombstone u m) = cm_trust m" "self_of (clearTombstone u m) = self_of m"
  "cm_removalProofs (clearTombstone u m) = cm_removalProofs m"
  by (simp_all add: putTombstone_def clearTombstone_def Let_def keeps_trust keeps_self)

lemma proof_ops_keep [keeps_trust, keeps_self]:
  "cm_trust (fst (putRemovalProof cy now p m)) = cm_trust m" "self_of (fst (putRemovalProof cy now p m)) = self_of m"
  "cm_trust (fst (clearRemovalProofAfterAdmission u ep m)) = cm_trust m"
  "self_of (fst (clearRemovalProofAfterAdmission u ep m)) = self_of m"
  by (auto simp: putRemovalProof_def clearRemovalProofAfterAdmission_def Let_def replace_proofs_def keeps_trust keeps_self
      split: option.splits prod.splits bool.splits)

lemma identity_of_self: "self_of m' = self_of m \<Longrightarrow> cm_identity m' = cm_identity m"
  by (simp add: self_of_def)

subsection \<open>How pins change\<close>

text \<open>What authorises a peer: the admission it is pinned under, its certificate and its key.\<close>

definition core :: "trusted \<Rightarrow> epoch \<times> DER \<times> pubkey" where
  "core t = (tp_AdmissionEpoch (tr_pin t), tr_der t, tr_pub t)"

definition cores :: "Manager \<Rightarrow> string \<Rightarrow> (epoch \<times> DER \<times> pubkey) option" where
  "cores m u = map_option core (mget (cm_trust m) u)"

lemma cores_same: "cm_trust m' = cm_trust m \<Longrightarrow> cores m' = cores m"
  by (simp add: cores_def fun_eq_iff)

lemma writePin_effect:
  "self_of (fst (writePinLocked pin der pub m)) = self_of m"
  "cm_removalProofs (fst (writePinLocked pin der pub m)) = cm_removalProofs m"
  "cm_members (fst (writePinLocked pin der pub m)) = cm_members m"
  "snd (writePinLocked pin der pub m) = io_ok m"
  "cm_trust (fst (writePinLocked pin der pub m)) =
     (if io_ok m then mput (tp_NodeUUID pin) \<lparr>tr_pin = pin, tr_der = der, tr_pub = pub\<rparr> (cm_trust m) else cm_trust m)"
  by (simp_all add: writePinLocked_def Let_def keeps_trust keeps_self)

text \<open>The store files a pin under its own node.\<close>

definition trust_ok :: "crypto \<Rightarrow> Manager \<Rightarrow> bool" where
  "trust_ok cy m \<longleftrightarrow> (\<forall>u t. mget (cm_trust m) u = Some t \<longrightarrow>
     tp_NodeUUID (tr_pin t) = u \<and> certDER cy (tp_CertPem (tr_pin t)) u = Some (tr_der t) \<and>
     pubFromDER cy (tr_der t) = Some (tr_pub t))"

lemma trust_okD:
  assumes "trust_ok cy m" "mget (cm_trust m) u = Some t"
  shows "tp_NodeUUID (tr_pin t) = u" "certDER cy (tp_CertPem (tr_pin t)) u = Some (tr_der t)"
    "pubFromDER cy (tr_der t) = Some (tr_pub t)"
  using assms unfolding trust_ok_def by blast+

lemma trust_ok_same: "cm_trust m' = cm_trust m \<Longrightarrow> trust_ok cy m \<Longrightarrow> trust_ok cy m'"
  by (simp add: trust_ok_def)

lemma trust_ok_mput:
  assumes "trust_ok cy m" "cm_trust m' = mput u t (cm_trust m)" "tp_NodeUUID (tr_pin t) = u"
    "certDER cy (tp_CertPem (tr_pin t)) u = Some (tr_der t)" "pubFromDER cy (tr_der t) = Some (tr_pub t)"
  shows "trust_ok cy m'"
  using assms by (simp add: trust_ok_def mget_mput)

text \<open>Writing other metadata of a pin that is there changes no authorisation.\<close>

lemma rewrite_pin_quiet:
  assumes "trust_ok cy m" "mget (cm_trust m) u = Some t"
    "tp_NodeUUID p = tp_NodeUUID (tr_pin t)" "tp_AdmissionEpoch p = tp_AdmissionEpoch (tr_pin t)"
    "tp_CertPem p = tp_CertPem (tr_pin t)"
  shows "cores (fst (writePinLocked p (tr_der t) (tr_pub t) m)) = cores m"
    "trust_ok cy (fst (writePinLocked p (tr_der t) (tr_pub t) m))"
proof -
  let ?m = "fst (writePinLocked p (tr_der t) (tr_pub t) m)"
  let ?t = "\<lparr>tr_pin = p, tr_der = tr_der t, tr_pub = tr_pub t\<rparr>"
  note ok = trust_okD [OF assms(1,2)]
  have tr: "cm_trust ?m = (if io_ok m then mput u ?t (cm_trust m) else cm_trust m)"
    using assms(3) ok(1) by (simp add: writePin_effect)
  show "cores ?m = cores m"
    using assms(2,4) by (auto simp: cores_def tr fun_eq_iff mget_mput core_def)
  show "trust_ok cy ?m"
  proof (cases "io_ok m")
    case True
    then have "cm_trust ?m = mput u ?t (cm_trust m)" by (simp add: tr)
    then show ?thesis by (rule trust_ok_mput [OF assms(1)]) (use assms(3,5) ok in simp_all)
  qed (use assms(1) tr in \<open>simp add: trust_ok_def\<close>)
qed

lemma mergeEndorsements_quiet:
  assumes "trust_ok cy m"
  shows "cores (fst (mergeEndorsementsLocked u es m)) = cores m" "trust_ok cy (fst (mergeEndorsementsLocked u es m))"
    "self_of (fst (mergeEndorsementsLocked u es m)) = self_of m"
    "cm_removalProofs (fst (mergeEndorsementsLocked u es m)) = cm_removalProofs m"
  using assms rewrite_pin_quiet [OF assms]
  by (auto simp: mergeEndorsementsLocked_def Let_def writePin_effect split: option.splits)

lemma AddEndorsements_quiet:
  assumes "trust_ok cy m"
  shows "cores (fst (AddEndorsements u es m)) = cores m" "trust_ok cy (fst (AddEndorsements u es m))"
    "self_of (fst (AddEndorsements u es m)) = self_of m"
    "cm_removalProofs (fst (AddEndorsements u es m)) = cm_removalProofs m"
proof -
  have eq: "cm_trust (fst (AddEndorsements u es m)) = cm_trust (fst (mergeEndorsementsLocked u es m))"
    "self_of (fst (AddEndorsements u es m)) = self_of (fst (mergeEndorsementsLocked u es m))"
    "cm_removalProofs (fst (AddEndorsements u es m)) = cm_removalProofs (fst (mergeEndorsementsLocked u es m))"
    by (simp_all add: AddEndorsements_def case_prod_beta keeps_trust keeps_self)
  show "cores (fst (AddEndorsements u es m)) = cores m" "trust_ok cy (fst (AddEndorsements u es m))"
    "self_of (fst (AddEndorsements u es m)) = self_of m"
    "cm_removalProofs (fst (AddEndorsements u es m)) = cm_removalProofs m"
    using mergeEndorsements_quiet [OF assms, of u es] eq cores_same [OF eq(1)] trust_ok_same [OF eq(1)] by simp_all
qed

lemma UpdateIdentity_quiet:
  assumes "trust_ok cy m"
  shows "cores (fst (UpdateIdentity u i n m)) = cores m \<and> trust_ok cy (fst (UpdateIdentity u i n m)) \<and>
    self_of (fst (UpdateIdentity u i n m)) = self_of m \<and>
    cm_removalProofs (fst (UpdateIdentity u i n m)) = cm_removalProofs m"
proof (cases "mget (cm_trust m) u")
  case None
  then show ?thesis using assms by (simp add: UpdateIdentity_def)
next
  case (Some t)
  let ?p = "renamed_pin i n (tr_pin t)" and ?m' = "fst (UpdateIdentity u i n m)"
  let ?w = "fst (writePinLocked ?p (tr_der t) (tr_pub t) m)"
  have q: "cores ?w = cores m" "trust_ok cy ?w"
    by (rule rewrite_pin_quiet [OF assms Some]; simp add: renamed_pin_def)+
  show ?thesis
  proof (cases "?p = tr_pin t")
    case True
    then show ?thesis using Some assms by (simp add: UpdateIdentity_def)
  next
    case False
    then have "?m' = announce (io_ok m) ?w"
      using Some writePin_effect(4) [of ?p "tr_der t" "tr_pub t" m] by (simp add: UpdateIdentity_def case_prod_beta)
    then have "cm_trust ?m' = cm_trust ?w" "self_of ?m' = self_of m" "cm_removalProofs ?m' = cm_removalProofs m"
      by (simp_all add: keeps_trust keeps_self writePin_effect)
    then show ?thesis using q cores_same [of ?m' ?w] trust_ok_same [of ?m' ?w] by simp
  qed
qed

text \<open>An admission: the node's entry becomes the new epoch under the certificate it presented.\<close>

definition admitted :: "crypto \<Rightarrow> string \<Rightarrow> string \<Rightarrow> epoch \<Rightarrow> Manager \<Rightarrow> Manager \<Rightarrow> bool" where
  "admitted cy u pem ep m m' \<longleftrightarrow>
     (\<exists>der pub. certDER cy pem u = Some der \<and> pubFromDER cy der = Some pub \<and>
        cores m' = (cores m)(u := Some (ep, der, pub)) \<and>
        (\<forall>ep0 c. cores m u = Some (ep0, c) \<longrightarrow> ep0 < ep \<and> c = (der, pub)))"

lemma Pin_effect:
  assumes ok: "trust_ok cy m"
  shows "trust_ok cy (fst (Pin cy pin m)) \<and> self_of (fst (Pin cy pin m)) = self_of m \<and>
    cm_removalProofs (fst (Pin cy pin m)) = cm_removalProofs m \<and>
    (cores (fst (Pin cy pin m)) = cores m \<and>
       (snd (Pin cy pin m) \<longrightarrow> (\<exists>ep c. cores m (tp_NodeUUID pin) = Some (ep, c) \<and> tp_AdmissionEpoch pin \<le> ep)) \<or>
     snd (Pin cy pin m) \<and> admitted cy (tp_NodeUUID pin) (tp_CertPem pin) (tp_AdmissionEpoch pin) m (fst (Pin cy pin m)))"
    (is "?P (Pin cy pin m)")
proof (cases "validatePin cy pin (tp_NodeUUID pin)")
  case None
  then show ?thesis using ok by (simp add: Pin_def)
next
  case (Some der)
  note der = Some
  let ?u = "tp_NodeUUID pin"
  have cert: "certDER cy (tp_CertPem pin) ?u = Some der" using der by (simp add: validatePin_def)
  show ?thesis
  proof (cases "pubFromDER cy der")
    case None
    then show ?thesis using ok der by (simp add: Pin_def)
  next
    case (Some pub)
    note pub = Some
    have written: "?P (announce (snd w) (fst w), snd w)"
      if w: "w = writePinLocked (pin\<lparr>tp_Endorsements := es\<rparr>) der pub m"
        and newer: "\<forall>ep0 c. cores m ?u = Some (ep0, c) \<longrightarrow> ep0 < tp_AdmissionEpoch pin \<and> c = (der, pub)" for w es
    proof (cases "io_ok m")
      case True
      let ?t = "\<lparr>tr_pin = pin\<lparr>tp_Endorsements := es\<rparr>, tr_der = der, tr_pub = pub\<rparr>"
      let ?m = "announce (snd w) (fst w)"
      have tr: "cm_trust ?m = mput ?u ?t (cm_trust m)" using True by (simp add: w writePin_effect keeps_trust)
      have "trust_ok cy ?m" by (rule trust_ok_mput [OF ok tr]) (simp_all add: cert pub)
      moreover have "cores ?m = (cores m)(?u := Some (tp_AdmissionEpoch pin, der, pub))"
        by (simp add: cores_def tr fun_eq_iff mget_mput core_def)
      moreover have "self_of ?m = self_of m" "cm_removalProofs ?m = cm_removalProofs m" "snd w"
        using True by (simp_all add: w writePin_effect keeps_trust keeps_self)
      ultimately show ?thesis using cert pub newer by (simp add: admitted_def)
    next
      case False
      then have tr: "cm_trust (announce (snd w) (fst w)) = cm_trust m" by (simp add: w writePin_effect keeps_trust)
      show ?thesis using False cores_same [OF tr] trust_ok_same [OF tr ok]
        by (simp add: w writePin_effect keeps_trust keeps_self)
    qed
    show ?thesis
    proof (cases "mget (cm_trust m) ?u")
      case None
      then have "\<forall>ep0 c. cores m ?u = Some (ep0, c) \<longrightarrow> ep0 < tp_AdmissionEpoch pin \<and> c = (der, pub)" by (simp add: cores_def)
      from written [OF refl this, of "tp_Endorsements pin"] show ?thesis
        using None der pub by (simp add: Pin_def case_prod_beta)
    next
      case (Some cur)
      have cur: "cores m ?u = Some (tp_AdmissionEpoch (tr_pin cur), tr_der cur, tr_pub cur)"
        using Some by (simp add: cores_def core_def)
      consider (other) "tr_der cur \<noteq> der" | (newer) "tr_der cur = der" "tp_AdmissionEpoch pin > tp_AdmissionEpoch (tr_pin cur)"
        | (older) "tr_der cur = der" "tp_AdmissionEpoch pin < tp_AdmissionEpoch (tr_pin cur)"
        | (same) "tr_der cur = der" "tp_AdmissionEpoch pin = tp_AdmissionEpoch (tr_pin cur)" by fastforce
      then show ?thesis
      proof cases
        case other
        then show ?thesis using ok der pub Some by (simp add: Pin_def)
      next
        case newer
        have "tr_pub cur = pub" using trust_okD(3) [OF ok Some] newer(1) pub by simp
        then show ?thesis using written [OF refl, of "tp_Endorsements (tr_pin cur) @ tp_Endorsements pin"] cur newer der pub Some
          by (simp add: Pin_def case_prod_beta)
      next
        case older
        then show ?thesis using ok der pub Some cur by (auto simp: Pin_def)
      next
        case same
        let ?w = "mergeEndorsementsLocked ?u (tp_Endorsements pin) m"
        have eq: "Pin cy pin m = (announce (snd ?w) (fst ?w), snd ?w)" using same der pub Some by (simp add: Pin_def case_prod_beta)
        note q = mergeEndorsements_quiet [OF ok, of ?u "tp_Endorsements pin"]
        have tr: "cm_trust (announce (snd ?w) (fst ?w)) = cm_trust (fst ?w)" by (simp add: keeps_trust)
        have "cores (announce (snd ?w) (fst ?w)) = cores m" "trust_ok cy (announce (snd ?w) (fst ?w))"
          using q cores_same [OF tr] trust_ok_same [OF tr] by simp_all
        then show ?thesis using q(3,4) cur same(2) unfolding eq by (simp add: keeps_trust keeps_self)
      qed
    qed
  qed
qed


text \<open>Steps that change neither an authorisation nor a removal proof, and steps that admit one entry.\<close>

definition quiet :: "Manager \<Rightarrow> Manager \<Rightarrow> bool" where
  "quiet m m' \<longleftrightarrow> cores m' = cores m \<and> cm_removalProofs m' = cm_removalProofs m"

definition admits :: "crypto \<Rightarrow> string \<Rightarrow> RosterEntry \<Rightarrow> Manager \<Rightarrow> Manager \<Rightarrow> bool" where
  "admits cy cid e m m' \<longleftrightarrow>
     re_NodeUUID e \<noteq> ni_NodeUUID (cm_identity m) \<and> \<not> supersededByTombstone e m \<and> entryEndorsed cy e cid m \<and>
     validateEntryCert cy e \<noteq> None \<and>
     admitted cy (re_NodeUUID e) (re_CertPem e) (re_AdmissionEpoch e) m m' \<and>
     (cm_removalProofs m' = cm_removalProofs m \<or>
      cm_removalProofs m' = mdel (re_NodeUUID e) (cm_removalProofs m))"

lemma quiet_refl [simp]: "quiet m m"
  by (simp add: quiet_def)

lemma quiet_same: "cm_trust m' = cm_trust m \<Longrightarrow> cm_removalProofs m' = cm_removalProofs m \<Longrightarrow> quiet m m'"
  unfolding quiet_def using cores_same by blast

lemma clearProof_effect:
  "cm_removalProofs (fst (clearRemovalProofAfterAdmission u ep m)) = cm_removalProofs m \<or>
   cm_removalProofs (fst (clearRemovalProofAfterAdmission u ep m)) = mdel u (cm_removalProofs m)"
proof (cases "mget (cm_removalProofs m) u")
  case None
  then show ?thesis by (simp add: clearRemovalProofAfterAdmission_def)
next
  case (Some p)
  have "cm_removalProofs (fst (replace_proofs ps m)) = (if io_ok m then ps else cm_removalProofs m)" for ps
    by (simp add: replace_proofs_def Let_def put_disk_keeps)
  with Some show ?thesis by (simp add: clearRemovalProofAfterAdmission_def)
qed

lemma pinEntry_effect:
  assumes ok: "trust_ok cy m" and der: "validateEntryCert cy e = Some der"
    and newer: "\<forall>ep0 c. cores m (re_NodeUUID e) = Some (ep0, c) \<longrightarrow> ep0 < re_AdmissionEpoch e"
  shows "trust_ok cy (fst (pinEntry cy now e der m)) \<and> self_of (fst (pinEntry cy now e der m)) = self_of m \<and>
    cm_removalProofs (fst (pinEntry cy now e der m)) = cm_removalProofs m \<and>
    (if snd (pinEntry cy now e der m)
     then admitted cy (re_NodeUUID e) (re_CertPem e) (re_AdmissionEpoch e) m (fst (pinEntry cy now e der m))
     else cores (fst (pinEntry cy now e der m)) = cores m)"
proof -
  define n where "n = \<lparr>cn_ID = re_NodeID e, cn_NodeUUID = re_NodeUUID e, cn_Name = re_Name e,
    cn_IPAddress = fst (splitAddr (re_Addr e) (cm_port m)), cn_Port = snd (splitAddr (re_Addr e) (cm_port m)),
    cn_ClusterID = cm_clusterID m, cn_AdmissionEpoch = re_AdmissionEpoch e,
    cn_State = stateMember, cn_JoinedAt = Some now, cn_LastSeen = None\<rparr>"
  define pin where "pin = \<lparr>tp_NodeUUID = re_NodeUUID e, tp_NodeID = re_NodeID e, tp_Name = re_Name e,
    tp_ClusterID = cm_clusterID m, tp_AdmissionEpoch = re_AdmissionEpoch e, tp_CertPem = re_CertPem e,
    tp_CertFingerprint = cy_FingerprintFromDER cy der, tp_PinnedAt = now, tp_Endorsements = re_Endorsements e\<rparr>"
  define m2 where "m2 = fst (persistMembersErr (upsertMember n m))"
  define rolled where "rolled = restoreMember (re_NodeUUID e) (memberByNodeID (re_NodeUUID e) m)"
  have eq: "pinEntry cy now e der m =
     (if snd (persistMembersErr (upsertMember n m))
      then (if snd (Pin cy pin m2) then (fst (Pin cy pin m2), True) else (rolled (fst (Pin cy pin m2)), False))
      else (rolled m2, False))"
    by (simp add: pinEntry_def n_def pin_def m2_def rolled_def Let_def case_prod_beta)
  have tr: "cm_trust m2 = cm_trust m" "self_of m2 = self_of m" "cm_removalProofs m2 = cm_removalProofs m"
    by (simp_all add: m2_def keeps_trust keeps_self)
  have rolled: "cm_trust (rolled x) = cm_trust x" "self_of (rolled x) = self_of x" "cm_removalProofs (rolled x) = cm_removalProofs x" for x
    by (simp_all add: rolled_def keeps_trust keeps_self)
  note c2 = cores_same [OF tr(1)] and ok2 = trust_ok_same [OF tr(1) ok]
  note P = Pin_effect [OF ok2, of pin]
  have pin: "tp_NodeUUID pin = re_NodeUUID e" "tp_CertPem pin = re_CertPem e" "tp_AdmissionEpoch pin = re_AdmissionEpoch e"
    by (simp_all add: pin_def)
  have stale: "\<not> (\<exists>ep c. cores m (re_NodeUUID e) = Some (ep, c) \<and> re_AdmissionEpoch e \<le> ep)"
    using newer by (auto simp: not_le)
  have adm: "admitted cy u pem ep m2 x = admitted cy u pem ep m x" for u pem ep x by (simp add: admitted_def c2)
  show ?thesis
  proof (cases "snd (persistMembersErr (upsertMember n m))")
    case False
    then show ?thesis using cores_same [OF rolled(1)] trust_ok_same [OF rolled(1) ok2] by (simp add: eq rolled tr c2)
  next
    case persisted: True
    show ?thesis
    proof (cases "snd (Pin cy pin m2)")
      case True
      have "admitted cy (re_NodeUUID e) (re_CertPem e) (re_AdmissionEpoch e) m (fst (Pin cy pin m2))"
        using P True stale unfolding pin c2 adm by blast
      then show ?thesis using P True persisted by (simp add: eq tr)
    next
      case False
      then have "cores (fst (Pin cy pin m2)) = cores m" "trust_ok cy (fst (Pin cy pin m2))" using P by (auto simp: c2)
      then show ?thesis using P False persisted cores_same [OF rolled(1)] trust_ok_same [OF rolled(1)]
        by (simp add: eq rolled tr)
    qed
  qed
qed

lemma admitted_same:
  "cores m1 = cores m' \<Longrightarrow> admitted cy u pem ep m m1 = admitted cy u pem ep m m'"
  by (simp add: admitted_def)

lemma admit_entry_effect:
  assumes ok: "trust_ok cy m" and other: "re_NodeUUID e \<noteq> ni_NodeUUID (cm_identity m)"
    and newer: "\<forall>ep0 c. cores m (re_NodeUUID e) = Some (ep0, c) \<longrightarrow> ep0 < re_AdmissionEpoch e"
  shows "trust_ok cy (fst (admit_entry cy now cid e m)) \<and> self_of (fst (admit_entry cy now cid e m)) = self_of m \<and>
    (if snd (admit_entry cy now cid e m) then admits cy cid e m (fst (admit_entry cy now cid e m))
     else quiet m (fst (admit_entry cy now cid e m)))"
proof (cases "supersededByTombstone e m \<or> validateEntryCert cy e = None \<or> \<not> entryEndorsed cy e cid m")
  case True
  then have "admit_entry cy now cid e m = (m, False)" by (auto simp: admit_entry_def split: option.splits)
  then show ?thesis using ok by simp
next
  case False
  then obtain der where der: "validateEntryCert cy e = Some der" and go: "\<not> supersededByTombstone e m" "entryEndorsed cy e cid m"
    by auto
  let ?p = "pinEntry cy now e der m"
  let ?c = "fst (clearRemovalProofAfterAdmission (re_NodeUUID e) (re_AdmissionEpoch e) (fst ?p))"
  have eq: "admit_entry cy now cid e m = (if snd ?p then (clearTombstone (re_NodeUUID e) ?c, True) else (fst ?p, False))"
    using go der by (simp add: admit_entry_def case_prod_beta)
  note P = pinEntry_effect [OF ok der newer, of now]
  have tr: "cm_trust (clearTombstone (re_NodeUUID e) ?c) = cm_trust (fst ?p)"
    "self_of (clearTombstone (re_NodeUUID e) ?c) = self_of (fst ?p)"
    "cm_removalProofs (clearTombstone (re_NodeUUID e) ?c) = cm_removalProofs ?c"
    by (simp_all add: keeps_trust keeps_self)
  show ?thesis
  proof (cases "snd ?p")
    case True
    have "cm_removalProofs ?c = cm_removalProofs m \<or> cm_removalProofs ?c = mdel (re_NodeUUID e) (cm_removalProofs m)"
      using clearProof_effect [of "re_NodeUUID e" "re_AdmissionEpoch e" "fst ?p"] P by simp
    then show ?thesis using P True go other der trust_ok_same [OF tr(1)] admitted_same [OF cores_same [OF tr(1)]]
      by (simp add: eq admits_def tr)
  next
    case False
    then show ?thesis using P by (simp add: eq quiet_def)
  qed
qed


subsection \<open>Merging a roster\<close>

text \<open>
  The loop of \<open>applyMembers\<close>: rounds over the entries until one makes no progress. \<open>None\<close> is a loop that never
  ends.
\<close>

partial_function (option) applyMembers ::
  "crypto \<Rightarrow> int \<Rightarrow> string \<Rightarrow> string \<Rightarrow> RosterEntry list \<Rightarrow> Manager \<Rightarrow> bool \<Rightarrow> (Manager \<times> bool) option" where
  [code]: "applyMembers cy now cid senderUUID entries m changed =
     (let r = member_pass cy now cid senderUUID entries m changed in
      if snd (snd r) then applyMembers cy now cid senderUUID entries (fst r) (fst (snd r))
      else Some (fst r, fst (snd r)))"

definition mergeRoster :: "crypto \<Rightarrow> int \<Rightarrow> Roster \<Rightarrow> string \<Rightarrow> Manager \<Rightarrow> (Manager \<times> bool) option" where
  "mergeRoster cy now remote senderUUID m =
     (let cid = cm_clusterID m in
      if cm_teardownPending m then Some (m, False)
      else if cid = [] \<or> ro_ClusterID remote \<noteq> cid then Some (m, False)
      else
        (let (m1, changed) = applyRemovalProofs cy now (ro_RemovalProofs remote) cid m;
             m2 = applyTombstones cy (ro_Tombstones remote) cid m1
         in applyMembers cy now cid senderUUID (ro_Members remote) m2 changed))"

text \<open>What a round amounts to: a sequence of quiet steps and admissions of entries of the roster.\<close>

inductive admissions :: "crypto \<Rightarrow> string \<Rightarrow> RosterEntry list \<Rightarrow> Manager \<Rightarrow> Manager \<Rightarrow> bool" for cy cid es m where
  start: "admissions cy cid es m m"
| idle: "\<lbrakk>admissions cy cid es m m1; quiet m1 m2; self_of m2 = self_of m1\<rbrakk> \<Longrightarrow> admissions cy cid es m m2"
| admit: "\<lbrakk>admissions cy cid es m m1; e \<in> set es; admits cy cid e m1 m2; self_of m2 = self_of m1\<rbrakk>
    \<Longrightarrow> admissions cy cid es m m2"

text \<open>An entry no later round can admit.\<close>

definition settled :: "Manager \<Rightarrow> RosterEntry \<Rightarrow> bool" where
  "settled m e \<longleftrightarrow> re_NodeUUID e = ni_NodeUUID (cm_identity m) \<or>
     (\<exists>ep c. cores m (re_NodeUUID e) = Some (ep, c) \<and> re_AdmissionEpoch e \<le> ep)"

definition unsettled :: "Manager \<Rightarrow> RosterEntry list \<Rightarrow> nat" where
  "unsettled m es = length (filter (\<lambda>e. \<not> settled m e) es)"

lemma settled_quiet: "quiet m m' \<Longrightarrow> self_of m' = self_of m \<Longrightarrow> settled m' e = settled m e"
  using identity_of_self [of m' m] by (simp add: settled_def quiet_def)

lemma unsettled_quiet: "quiet m m' \<Longrightarrow> self_of m' = self_of m \<Longrightarrow> unsettled m' es = unsettled m es"
  by (simp add: unsettled_def settled_quiet)

lemma admits_cores:
  assumes "admits cy cid e m m'"
  obtains c where "cores m' = (cores m)(re_NodeUUID e := Some (re_AdmissionEpoch e, c))"
    "\<forall>ep0 c. cores m (re_NodeUUID e) = Some (ep0, c) \<longrightarrow> ep0 < re_AdmissionEpoch e"
    "re_NodeUUID e \<noteq> ni_NodeUUID (cm_identity m)"
  using assms unfolding admits_def admitted_def by blast

lemma settled_admits:
  assumes "admits cy cid e m m'" "self_of m' = self_of m"
  shows "\<not> settled m e" "settled m' e" "settled m x \<Longrightarrow> settled m' x"
proof -
  have me: "cm_identity m' = cm_identity m" by (rule identity_of_self [OF assms(2)])
  obtain c where c: "cores m' = (cores m)(re_NodeUUID e := Some (re_AdmissionEpoch e, c))"
    and newer: "\<forall>ep0 c. cores m (re_NodeUUID e) = Some (ep0, c) \<longrightarrow> ep0 < re_AdmissionEpoch e"
    and other: "re_NodeUUID e \<noteq> ni_NodeUUID (cm_identity m)"
    by (rule admits_cores [OF assms(1)])
  show "\<not> settled m e" using newer other by (auto simp: settled_def)
  show "settled m' e" by (simp add: settled_def c)
  show "settled m' x" if "settled m x"
    using that newer by (cases "re_NodeUUID x = re_NodeUUID e") (auto simp: settled_def c me)
qed

lemma unsettled_admits:
  assumes "admits cy cid e m m'" "self_of m' = self_of m" "e \<in> set es"
  shows "unsettled m' es < unsettled m es"
proof -
  note s = settled_admits [OF assms(1,2)]
  have "filter (\<lambda>x. \<not> settled m' x) es = filter (\<lambda>x. \<not> settled m' x) (filter (\<lambda>x. \<not> settled m x) es)"
    using s(3) by (auto simp: filter_filter intro!: filter_cong)
  moreover have "length (filter (\<lambda>x. \<not> settled m' x) (filter (\<lambda>x. \<not> settled m x) es)) < length (filter (\<lambda>x. \<not> settled m x) es)"
    using s(1,2) assms(3) by (intro length_filter_less [of e]) auto
  ultimately show ?thesis by (simp add: unsettled_def)
qed

lemma member_step_effect:
  assumes ok: "trust_ok cy m"
  shows "trust_ok cy (fst (member_step cy now cid sender e (m, ch, pr))) \<and>
    self_of (fst (member_step cy now cid sender e (m, ch, pr))) = self_of m \<and>
    (quiet m (fst (member_step cy now cid sender e (m, ch, pr))) \<and> snd (snd (member_step cy now cid sender e (m, ch, pr))) = pr \<or>
     admits cy cid e m (fst (member_step cy now cid sender e (m, ch, pr))) \<and> snd (snd (member_step cy now cid sender e (m, ch, pr))))"
proof (cases "re_NodeUUID e = ni_NodeUUID (cm_identity m)")
  case True
  then show ?thesis using ok by (simp add: member_step_def)
next
  case other: False
  let ?u = "re_NodeUUID e"
  have admit: "?thesis" if newer: "\<forall>ep0 c. cores m ?u = Some (ep0, c) \<longrightarrow> ep0 < re_AdmissionEpoch e"
    and eq: "member_step cy now cid sender e (m, ch, pr) = (fst (admit_entry cy now cid e m),
      ch \<or> snd (admit_entry cy now cid e m), pr \<or> snd (admit_entry cy now cid e m))"
    using admit_entry_effect [OF ok other newer, of now cid] unfolding eq by (simp split: if_splits)
  show ?thesis
  proof (cases "mget (cm_trust m) ?u")
    case None
    show ?thesis by (rule admit) (use None other in \<open>simp_all add: cores_def member_step_def trust_Get_def case_prod_beta\<close>)
  next
    case (Some t)
    show ?thesis
    proof (cases "re_AdmissionEpoch e > tp_AdmissionEpoch (tr_pin t)")
      case True
      show ?thesis
        by (rule admit) (use True Some other in \<open>simp_all add: cores_def core_def member_step_def trust_Get_def case_prod_beta\<close>)
    next
      case False
      define m1 where "m1 = fst (AddEndorsements ?u (re_Endorsements e) m)"
      define m2 where "m2 = refreshMemberAddr e m1"
      define m3 where "m3 = fst (updateMemberIdentity ?u (re_NodeID e) (re_Name e) m2)"
      define m4 where "m4 = fst (UpdateIdentity ?u (re_NodeID e) (re_Name e) m3)"
      have eq: "fst (member_step cy now cid sender e (m, ch, pr)) = (if ?u = sender then m4 else m2)"
        "snd (snd (member_step cy now cid sender e (m, ch, pr))) = pr"
        using False Some other
        by (simp_all add: member_step_def trust_Get_def case_prod_beta refreshMemberIdentity_def Let_def m1_def m2_def m3_def m4_def)
      note q1 = AddEndorsements_quiet [OF ok, of ?u "re_Endorsements e", folded m1_def]
      have t2: "cm_trust m2 = cm_trust m1" "self_of m2 = self_of m1" "cm_removalProofs m2 = cm_removalProofs m1"
        by (simp_all add: m2_def keeps_trust keeps_self)
      have t3: "cm_trust m3 = cm_trust m1" "self_of m3 = self_of m1" "cm_removalProofs m3 = cm_removalProofs m1"
        by (simp_all add: m3_def keeps_trust keeps_self t2)
      note c2 = cores_same [OF t2(1)] and c3 = cores_same [OF t3(1)]
      note ok2 = trust_ok_same [OF t2(1) q1(2)] and ok3 = trust_ok_same [OF t3(1) q1(2)]
      note q4 = UpdateIdentity_quiet [OF ok3, of ?u "re_NodeID e" "re_Name e", folded m4_def]
      have "quiet m m2" "self_of m2 = self_of m" "quiet m m4" "self_of m4 = self_of m"
        using q1 q4 c2 c3 t2 t3 unfolding quiet_def by simp_all
      then show ?thesis using ok2 q4 eq by simp
    qed
  qed
qed


lemma member_pass_effect:
  assumes "set xs \<subseteq> set es" "trust_ok cy m" "admissions cy cid es m0 m"
  shows "trust_ok cy (fst (fold (member_step cy now cid sender) xs (m, ch, pr))) \<and>
    self_of (fst (fold (member_step cy now cid sender) xs (m, ch, pr))) = self_of m \<and>
    admissions cy cid es m0 (fst (fold (member_step cy now cid sender) xs (m, ch, pr))) \<and>
    unsettled (fst (fold (member_step cy now cid sender) xs (m, ch, pr))) es \<le> unsettled m es \<and>
    (snd (snd (fold (member_step cy now cid sender) xs (m, ch, pr))) \<longrightarrow>
       pr \<or> unsettled (fst (fold (member_step cy now cid sender) xs (m, ch, pr))) es < unsettled m es)"
  using assms
proof (induction xs arbitrary: m ch pr)
  case Nil
  then show ?case by simp
next
  case (Cons e xs)
  obtain m1 ch1 pr1 where s: "member_step cy now cid sender e (m, ch, pr) = (m1, ch1, pr1)" by (metis prod_cases3)
  have e: "e \<in> set es" and sub: "set xs \<subseteq> set es" using Cons.prems(1) by simp_all
  have eff: "trust_ok cy m1" "self_of m1 = self_of m" "quiet m m1 \<and> pr1 = pr \<or> admits cy cid e m m1 \<and> pr1"
    using member_step_effect [OF Cons.prems(2), of now cid sender e ch pr] by (simp_all add: s)
  have adm: "admissions cy cid es m0 m1"
    using eff(3) admissions.idle [OF Cons.prems(3) _ eff(2)] admissions.admit [OF Cons.prems(3) e _ eff(2)] by blast
  have un: "unsettled m1 es \<le> unsettled m es" "pr1 \<Longrightarrow> pr \<or> unsettled m1 es < unsettled m es"
    using eff(3) unsettled_quiet [OF _ eff(2), of es] unsettled_admits [OF _ eff(2) e] by fastforce+
  show ?case using Cons.IH [OF sub eff(1) adm, of ch1 pr1] un eff(2) by (simp add: s) linarith
qed

lemma applyMembers_effect:
  assumes "trust_ok cy m" "admissions cy cid es m0 m"
  shows "\<exists>m' ch'. applyMembers cy now cid sender es m ch = Some (m', ch') \<and> trust_ok cy m' \<and>
    self_of m' = self_of m \<and> admissions cy cid es m0 m'"
  using assms
proof (induction "unsettled m es" arbitrary: m ch rule: less_induct)
  case less
  let ?r = "member_pass cy now cid sender es m ch"
  note eff = member_pass_effect [OF order_refl less.prems, of now sender ch False, folded member_pass_def]
  show ?case
  proof (cases "snd (snd ?r)")
    case True
    then have "unsettled (fst ?r) es < unsettled m es" using eff by simp
    from less.hyps [OF this] eff obtain m' ch' where
      "applyMembers cy now cid sender es (fst ?r) (fst (snd ?r)) = Some (m', ch')" "trust_ok cy m'"
      "self_of m' = self_of m" "admissions cy cid es m0 m'" by metis
    then show ?thesis using True by (subst applyMembers.simps) (simp add: Let_def)
  next
    case False
    then show ?thesis using eff by (subst applyMembers.simps) (simp add: Let_def)
  qed
qed

subsection \<open>Removals\<close>

lemma trust_Remove_effect:
  assumes ok: "trust_ok cy m"
  shows "trust_ok cy (fst (trust_Remove u m))" "self_of (fst (trust_Remove u m)) = self_of m"
    "cm_removalProofs (fst (trust_Remove u m)) = cm_removalProofs m"
    "cores (fst (trust_Remove u m)) = (if snd (trust_Remove u m) then (cores m)(u := None) else cores m)"
proof -
  have tr: "cm_trust (fst (trust_Remove u m)) = (if snd (trust_Remove u m) then mdel u (cm_trust m) else cm_trust m)"
    by (simp add: trust_Remove_def Let_def keeps_trust)
  show "trust_ok cy (fst (trust_Remove u m))" using ok by (auto simp: trust_ok_def tr mget_mdel split: if_splits)
  show "cores (fst (trust_Remove u m)) = (if snd (trust_Remove u m) then (cores m)(u := None) else cores m)"
    by (auto simp: cores_def tr mget_mdel fun_eq_iff)
  show "self_of (fst (trust_Remove u m)) = self_of m" "cm_removalProofs (fst (trust_Remove u m)) = cm_removalProofs m"
    by (simp_all add: trust_Remove_def Let_def keeps_trust keeps_self)
qed

definition proof_epoch :: "Manager \<Rightarrow> string \<Rightarrow> epoch option" where
  "proof_epoch m u = map_option (\<lambda>p. tb_AdmissionEpoch (rp_Tombstone p)) (mget (cm_removalProofs m) u)"

lemma proof_epoch_same: "cm_removalProofs m' = cm_removalProofs m \<Longrightarrow> proof_epoch m' = proof_epoch m"
  by (simp add: proof_epoch_def fun_eq_iff)

lemma relay_keeps_tombstone: "rp_Tombstone (withLocalRelayEndorsement cy now m p) = rp_Tombstone p"
  by (simp add: withLocalRelayEndorsement_def Let_def case_prod_beta)

text \<open>Storing a proof never lowers the epoch the node is removed up to.\<close>

lemma replace_proofs_effect:
  "cm_removalProofs (fst (replace_proofs ps m)) = (if io_ok m then ps else cm_removalProofs m)"
  "snd (replace_proofs ps m) = io_ok m"
  by (simp_all add: replace_proofs_def Let_def put_disk_keeps)

definition stored_proof :: "crypto \<Rightarrow> int \<Rightarrow> RemovalProof \<Rightarrow> Manager \<Rightarrow> RemovalProof" where
  "stored_proof cy now p m =
     (let q = withLocalRelayEndorsement cy now m p in
      case mget (cm_removalProofs m) (tb_NodeUUID (rp_Tombstone p)) of
        Some c \<Rightarrow> if tb_AdmissionEpoch (rp_Tombstone c) = tb_AdmissionEpoch (rp_Tombstone p)
                   then q\<lparr>rp_Endorsements := mergeProofEndorsements (rp_Endorsements c) (rp_Endorsements q)\<rparr> else q
      | None \<Rightarrow> q)"

lemma stored_proof_tombstone: "rp_Tombstone (stored_proof cy now p m) = rp_Tombstone p"
  by (simp add: stored_proof_def Let_def relay_keeps_tombstone split: option.splits)

lemma putRemovalProof_cases:
  assumes "putRemovalProof cy now p m = (m', r)"
  obtains (refused) "m' = m" "r = None"
  | (held) c where "m' = m" "r = Some False" "mget (cm_removalProofs m) (tb_NodeUUID (rp_Tombstone p)) = Some c"
      "tb_AdmissionEpoch (rp_Tombstone p) \<le> tb_AdmissionEpoch (rp_Tombstone c)"
  | (failed) "r = None" "cm_removalProofs m' = cm_removalProofs m"
  | (stored) "r = Some True" "cm_removalProofs m' = mput (tb_NodeUUID (rp_Tombstone p)) (stored_proof cy now p m) (cm_removalProofs m)"
      "\<forall>c. mget (cm_removalProofs m) (tb_NodeUUID (rp_Tombstone p)) = Some c \<longrightarrow>
         tb_AdmissionEpoch (rp_Tombstone c) \<le> tb_AdmissionEpoch (rp_Tombstone p)"
proof -
  define t where "t = rp_Tombstone p"
  define q where "q = stored_proof cy now p m"
  define old where "old = (case mget (cm_removalProofs m) (tb_NodeUUID t) of
      Some c \<Rightarrow> tb_AdmissionEpoch (rp_Tombstone c) > tb_AdmissionEpoch t \<or>
                 tb_AdmissionEpoch (rp_Tombstone c) = tb_AdmissionEpoch t \<and> c = q
    | None \<Rightarrow> False)"
  define w where "w = replace_proofs (mput (tb_NodeUUID t) q (cm_removalProofs m)) m"
  have eq: "putRemovalProof cy now p m =
     (if tb_NodeUUID t = [] \<or> tb_AdmissionEpoch t = 0 then (m, None)
      else if old then (m, Some False)
      else if \<not> targetAdmissionAuthenticated (tb_NodeUUID t) (tb_AdmissionEpoch t) m then (m, None)
      else (fst w, if snd w then Some True else None))"
    unfolding putRemovalProof_def Let_def t_def [symmetric] old_def w_def q_def stored_proof_def
    by (simp add: case_prod_beta case_bool_if split: prod.splits bool.splits)
  consider "m' = m" "r = None" | "m' = m" "r = Some False" "old" | "\<not> old" "m' = fst w" "r = None" "\<not> snd w"
    | "\<not> old" "m' = fst w" "r = Some True" "snd w"
    using assms unfolding eq by (auto split: if_splits)
  then show ?thesis
  proof cases
    case 1
    then show ?thesis by (rule refused)
  next
    case 2
    from 2(3) obtain c where "mget (cm_removalProofs m) (tb_NodeUUID t) = Some c" "tb_AdmissionEpoch t \<le> tb_AdmissionEpoch (rp_Tombstone c)"
      by (auto simp: old_def split: option.splits)
    then show ?thesis using 2 held by (simp add: t_def)
  next
    case 3
    then show ?thesis using failed by (simp add: w_def replace_proofs_effect)
  next
    case 4
    have "\<forall>c. mget (cm_removalProofs m) (tb_NodeUUID t) = Some c \<longrightarrow> tb_AdmissionEpoch (rp_Tombstone c) \<le> tb_AdmissionEpoch t"
      using 4(1) by (auto simp: old_def not_less)
    then show ?thesis using 4 stored by (simp add: w_def replace_proofs_effect t_def q_def)
  qed
qed


text \<open>
  A node was removed up to an epoch: a proof that reaches it is held, or the node was admitted again under a
  later one. It is barred when, besides, it is not pinned under that epoch or an older one.
\<close>

definition reached :: "string \<Rightarrow> epoch \<Rightarrow> Manager \<Rightarrow> bool" where
  "reached u n m \<longleftrightarrow> (\<exists>k. proof_epoch m u = Some k \<and> n \<le> k) \<or> (\<exists>ep c. cores m u = Some (ep, c) \<and> n < ep)"

definition barred :: "string \<Rightarrow> epoch \<Rightarrow> Manager \<Rightarrow> bool" where
  "barred u n m \<longleftrightarrow> reached u n m \<and> (\<forall>ep c. cores m u = Some (ep, c) \<longrightarrow> n < ep)"

lemma reached_cong: "cores m' u = cores m u \<Longrightarrow> proof_epoch m' u = proof_epoch m u \<Longrightarrow> reached u n m' = reached u n m"
  by (simp add: reached_def)

lemma quiet_same_at: "quiet m m' \<Longrightarrow> cores m' u = cores m u" "quiet m m' \<Longrightarrow> proof_epoch m' u = proof_epoch m u"
  by (simp_all add: quiet_def proof_epoch_def)

lemma barred_quiet: "quiet m m' \<Longrightarrow> reached u n m' = reached u n m" "quiet m m' \<Longrightarrow> barred u n m' = barred u n m"
  using reached_cong [of m' u m n] by (simp_all add: quiet_same_at barred_def)

text \<open>An entry that gets past the tombstones is newer than the removal.\<close>

lemma admitted_beyond:
  assumes "admits cy cid e m m'" "reached (re_NodeUUID e) n m"
  shows "n < re_AdmissionEpoch e"
proof -
  obtain c where newer: "\<forall>ep0 c. cores m (re_NodeUUID e) = Some (ep0, c) \<longrightarrow> ep0 < re_AdmissionEpoch e"
    by (rule admits_cores [OF assms(1)])
  have "\<not> supersededByTombstone e m" using assms(1) by (simp add: admits_def)
  then have "k < re_AdmissionEpoch e" if "proof_epoch m (re_NodeUUID e) = Some k" for k
    using that by (auto simp: supersededByTombstone_def proof_epoch_def)
  then show ?thesis using assms(2) newer unfolding reached_def by (meson le_less_trans less_trans)
qed

lemma reached_admits:
  assumes "admits cy cid e m m'" "reached u n m"
  shows "reached u n m' \<and> (barred u n m \<longrightarrow> barred u n m')"
proof (cases "re_NodeUUID e = u")
  case False
  then have "cores m' u = cores m u" "proof_epoch m' u = proof_epoch m u"
    using assms(1) by (auto simp: admits_def admitted_def proof_epoch_def mget_mdel)
  then show ?thesis using assms(2) reached_cong [of m' u m n] by (simp add: barred_def)
next
  case True
  obtain c where c: "cores m' = (cores m)(re_NodeUUID e := Some (re_AdmissionEpoch e, c))"
    by (rule admits_cores [OF assms(1)])
  moreover have "n < re_AdmissionEpoch e" using admitted_beyond assms True by blast
  ultimately show ?thesis using True by (simp add: barred_def reached_def)
qed

lemma reached_admissions:
  "admissions cy cid es m m' \<Longrightarrow> reached u n m \<Longrightarrow> reached u n m' \<and> (barred u n m \<longrightarrow> barred u n m')"
  by (induction rule: admissions.induct) (use reached_admits in \<open>auto simp: barred_quiet\<close>)

text \<open>What a removal proof does: pins only go away, and no removal is forgotten.\<close>

definition shrinks :: "Manager \<Rightarrow> Manager \<Rightarrow> bool" where
  "shrinks m m' \<longleftrightarrow> (\<forall>v. cores m' v = cores m v \<or> cores m' v = None) \<and> (\<forall>v n. reached v n m \<longrightarrow> reached v n m')"

lemma shrinks_barred: "shrinks m m' \<Longrightarrow> barred u n m \<Longrightarrow> barred u n m'"
  unfolding shrinks_def barred_def by (metis option.distinct(1))

lemma shrinks_refl [simp]: "shrinks m m"
  by (simp add: shrinks_def)

lemma shrinks_trans: "shrinks m m1 \<Longrightarrow> shrinks m1 m2 \<Longrightarrow> shrinks m m2"
  unfolding shrinks_def by metis

lemma shrinks_quiet: "quiet m m' \<Longrightarrow> shrinks m m'"
  by (simp add: shrinks_def barred_quiet quiet_same_at)

lemma shrinks_put:
  assumes "cores m' = cores m" "\<forall>v. proof_epoch m' v = proof_epoch m v \<or>
    (\<exists>k. proof_epoch m' v = Some k \<and> (\<forall>j. proof_epoch m v = Some j \<longrightarrow> j \<le> k))"
  shows "shrinks m m'"
proof -
  have "reached v n m'" if r: "reached v n m" for v n
  proof (cases "\<exists>k. proof_epoch m v = Some k \<and> n \<le> k")
    case True
    then obtain k where k: "proof_epoch m v = Some k" "n \<le> k" by blast
    then obtain k' where "proof_epoch m' v = Some k'" "k \<le> k'" using assms(2) by (metis order_refl)
    then show ?thesis using k(2) by (auto simp: reached_def intro: order_trans)
  qed (use r assms(1) in \<open>auto simp: reached_def\<close>)
  then show ?thesis using assms(1) by (simp add: shrinks_def)
qed

lemma shrinks_clear:
  assumes "cores m u = Some (k, c)"
  shows "shrinks m (fst (clearRemovalProofAfterAdmission u k m))"
proof -
  let ?m = "fst (clearRemovalProofAfterAdmission u k m)"
  have c: "cores ?m = cores m" by (rule cores_same) (simp add: keeps_trust)
  have p: "proof_epoch ?m v = proof_epoch m v" if "v \<noteq> u \<or> (\<exists>j. proof_epoch m u = Some j \<and> k \<le> j)" for v
  proof (cases "v = u")
    case False
    then show ?thesis using clearProof_effect [of u k m] by (auto simp: proof_epoch_def mget_mdel)
  next
    case True
    then show ?thesis using that by (auto simp: proof_epoch_def clearRemovalProofAfterAdmission_def)
  qed
  have "reached v n ?m" if r: "reached v n m" for v n
  proof (cases "v \<noteq> u \<or> (\<exists>j. proof_epoch m u = Some j \<and> k \<le> j)")
    case True
    from p [OF this] r c show ?thesis by (simp add: reached_def)
  next
    case False
    then have "n < k" using r assms by (auto simp: reached_def not_le)
    then show ?thesis using False assms c by (simp add: reached_def)
  qed
  then show ?thesis using c by (simp add: shrinks_def)
qed

lemma shrinks_remove:
  assumes ok: "trust_ok cy m" and k: "proof_epoch m u = Some k" and le: "\<forall>ep c. cores m u = Some (ep, c) \<longrightarrow> ep \<le> k"
  shows "shrinks m (fst (trust_Remove u m))"
proof -
  let ?m = "fst (trust_Remove u m)"
  note eff = trust_Remove_effect [OF ok, of u]
  have "reached v n ?m" if r: "reached v n m" for v n
  proof (cases "v = u")
    case True
    have "n \<le> k" using r k le True by (fastforce simp: reached_def)
    then show ?thesis using True k proof_epoch_same [OF eff(3)] by (simp add: reached_def)
  next
    case False
    then have "cores ?m v = cores m v" using eff(4) by auto
    then show ?thesis using r proof_epoch_same [OF eff(3)] by (simp add: reached_def)
  qed
  then show ?thesis using eff(4) by (simp add: shrinks_def)
qed

lemma putRemovalProof_shrinks:
  assumes "putRemovalProof cy now p m = (m', r)"
  shows "cm_trust m' = cm_trust m" "self_of m' = self_of m" "shrinks m m'"
    "r \<noteq> None \<Longrightarrow> \<exists>k. proof_epoch m' (tb_NodeUUID (rp_Tombstone p)) = Some k \<and> tb_AdmissionEpoch (rp_Tombstone p) \<le> k"
proof -
  show tr: "cm_trust m' = cm_trust m" and "self_of m' = self_of m"
    using proof_ops_keep(1,2) [of cy now p m] assms by simp_all
  note c = cores_same [OF tr]
  show "shrinks m m'"
    using assms
  proof (cases rule: putRemovalProof_cases)
    case stored
    show ?thesis
      by (rule shrinks_put [OF c]) (use stored in \<open>auto simp: proof_epoch_def mget_mput stored_proof_tombstone\<close>)
  qed (use quiet_same [OF tr] shrinks_quiet in simp_all)
  show "\<exists>k. proof_epoch m' (tb_NodeUUID (rp_Tombstone p)) = Some k \<and> tb_AdmissionEpoch (rp_Tombstone p) \<le> k" if "r \<noteq> None"
    using assms
    by (cases rule: putRemovalProof_cases) (use that in \<open>simp_all add: proof_epoch_def mget_mput stored_proof_tombstone\<close>)
qed

lemma quiet_shrinks_member:
  "quiet m (fst (removeMemberByUUID u m))" "quiet m (fst (putTombstone t m))"
  by (rule quiet_same; simp add: keeps_trust)+

definition proof_step :: "RemovalProof \<Rightarrow> Manager \<Rightarrow> Manager" where
  "proof_step p m2 =
     (let t = rp_Tombstone p; u = tb_NodeUUID t in
      case trust_Get u m2 of
        Some pin \<Rightarrow>
          if tp_AdmissionEpoch pin \<noteq> tb_AdmissionEpoch t then
            (if tp_AdmissionEpoch pin > tb_AdmissionEpoch t
             then fst (clearRemovalProofAfterAdmission u (tp_AdmissionEpoch pin) m2) else m2)
          else if (case memberByNodeID u m2 of None \<Rightarrow> False | Some n \<Rightarrow> cn_AdmissionEpoch n \<noteq> tb_AdmissionEpoch t) then m2
          else if snd (trust_Remove u m2) then fst (removeMemberByUUID u (fst (trust_Remove u m2))) else fst (trust_Remove u m2)
      | None \<Rightarrow>
          if (case memberByNodeID u m2 of None \<Rightarrow> False | Some n \<Rightarrow> cn_AdmissionEpoch n \<noteq> tb_AdmissionEpoch t) then m2
          else fst (removeMemberByUUID u m2))"

lemma apply_proof_eq:
  "fst (apply_proof cy now cid p (m, ch)) =
     (if tb_NodeUUID (rp_Tombstone p) = ni_NodeUUID (cm_identity m) \<or> \<not> verifyRemovalProof cy p cid m then m
      else if snd (putRemovalProof cy now p m) = None then fst (putRemovalProof cy now p m)
      else proof_step p (fst (putTombstone (rp_Tombstone p) (fst (putRemovalProof cy now p m)))))"
  by (simp add: apply_proof_def proof_step_def Let_def case_prod_beta split: option.split prod.split bool.split)

lemma proof_step_effect:
  assumes ok: "trust_ok cy m" and k: "proof_epoch m (tb_NodeUUID (rp_Tombstone p)) = Some k" "tb_AdmissionEpoch (rp_Tombstone p) \<le> k"
  shows "trust_ok cy (proof_step p m) \<and> self_of (proof_step p m) = self_of m \<and> shrinks m (proof_step p m)"
proof -
  let ?t = "rp_Tombstone p" let ?u = "tb_NodeUUID ?t"
  let ?r = "fst (trust_Remove ?u m)" and ?d = "fst (removeMemberByUUID ?u m)"
  let ?rd = "fst (removeMemberByUUID ?u (fst (trust_Remove ?u m)))"
  have gone: "trust_ok cy ?d" "self_of ?d = self_of m" "shrinks m ?d"
    using trust_ok_same [of ?d m cy] ok shrinks_quiet [OF quiet_shrinks_member(1)] by (simp_all add: keeps_trust keeps_self)
  show ?thesis
  proof (cases "mget (cm_trust m) ?u")
    case None
    then show ?thesis using ok gone by (simp add: proof_step_def Let_def trust_Get_def)
  next
    case (Some t)
    then have c: "cores m ?u = Some (tp_AdmissionEpoch (tr_pin t), tr_der t, tr_pub t)" by (simp add: cores_def core_def)
    let ?c = "fst (clearRemovalProofAfterAdmission ?u (tp_AdmissionEpoch (tr_pin t)) m)"
    have clear: "trust_ok cy ?c" "self_of ?c = self_of m" "shrinks m ?c"
      using trust_ok_same [of ?c m cy] ok shrinks_clear [OF c] by (simp_all add: keeps_trust keeps_self)
    show ?thesis
    proof (cases "tp_AdmissionEpoch (tr_pin t) = tb_AdmissionEpoch ?t")
      case False
      then show ?thesis using Some ok clear by (simp add: proof_step_def Let_def trust_Get_def)
    next
      case True
      have sh: "shrinks m ?r" by (rule shrinks_remove [OF ok k(1)]) (use c k(2) True in simp)
      note eff = trust_Remove_effect [OF ok, of ?u]
      have "trust_ok cy ?rd" "self_of ?rd = self_of m" "shrinks m ?rd"
        using trust_ok_same [of ?rd ?r cy] eff shrinks_trans [OF sh shrinks_quiet [OF quiet_shrinks_member(1)]]
        by (simp_all add: keeps_trust keeps_self)
      then show ?thesis using Some True ok eff sh by (simp add: proof_step_def Let_def trust_Get_def)
    qed
  qed
qed

lemma apply_proof_effect:
  assumes ok: "trust_ok cy m"
  shows "trust_ok cy (fst (apply_proof cy now cid p (m, ch))) \<and> self_of (fst (apply_proof cy now cid p (m, ch))) = self_of m \<and>
    shrinks m (fst (apply_proof cy now cid p (m, ch)))"
proof (cases "tb_NodeUUID (rp_Tombstone p) = ni_NodeUUID (cm_identity m) \<or> \<not> verifyRemovalProof cy p cid m")
  case True
  then show ?thesis using ok by (simp add: apply_proof_eq)
next
  case False
  obtain m1 r where put: "putRemovalProof cy now p m = (m1, r)" by force
  note eff = putRemovalProof_shrinks [OF put]
  note ok1 = trust_ok_same [OF eff(1) ok]
  show ?thesis
  proof (cases r)
    case None
    then show ?thesis using False put eff ok1 by (simp add: apply_proof_eq)
  next
    case (Some b)
    let ?m2 = "fst (putTombstone (rp_Tombstone p) m1)"
    have keep: "cm_trust ?m2 = cm_trust m1" "self_of ?m2 = self_of m1" "cm_removalProofs ?m2 = cm_removalProofs m1"
      by (simp_all add: keeps_trust keeps_self)
    obtain k where "proof_epoch ?m2 (tb_NodeUUID (rp_Tombstone p)) = Some k" "tb_AdmissionEpoch (rp_Tombstone p) \<le> k"
      using eff(4) Some proof_epoch_same [OF keep(3)] by auto
    note st = proof_step_effect [OF trust_ok_same [OF keep(1) ok1] this]
    have "shrinks m (proof_step p ?m2)"
      using shrinks_trans [OF eff(3) shrinks_quiet [OF quiet_shrinks_member(2)]] st shrinks_trans by blast
    then show ?thesis using False put Some eff keep st by (simp add: apply_proof_eq)
  qed
qed

lemma applyRemovalProofs_effect:
  assumes "trust_ok cy m"
  shows "trust_ok cy (fst (fold (apply_proof cy now cid) ps (m, ch))) \<and>
    self_of (fst (fold (apply_proof cy now cid) ps (m, ch))) = self_of m \<and> shrinks m (fst (fold (apply_proof cy now cid) ps (m, ch)))"
  using assms
proof (induction ps arbitrary: m ch)
  case (Cons p ps)
  obtain m1 ch1 where s: "apply_proof cy now cid p (m, ch) = (m1, ch1)" by force
  have eff: "trust_ok cy m1" "self_of m1 = self_of m" "shrinks m m1"
    using apply_proof_effect [OF Cons.prems, of now cid p ch] by (simp_all add: s)
  show ?case using Cons.IH [OF eff(1), of ch1] eff shrinks_trans [OF eff(3)] by (simp add: s)
qed simp

lemma applyTombstones_keeps:
  "cm_trust (fold (apply_tombstone cy cid) ts m) = cm_trust m \<and> self_of (fold (apply_tombstone cy cid) ts m) = self_of m \<and>
   cm_removalProofs (fold (apply_tombstone cy cid) ts m) = cm_removalProofs m"
proof (induction ts arbitrary: m)
  case (Cons t ts)
  have "cm_trust (apply_tombstone cy cid t m) = cm_trust m" "self_of (apply_tombstone cy cid t m) = self_of m"
    "cm_removalProofs (apply_tombstone cy cid t m) = cm_removalProofs m"
    by (simp_all add: apply_tombstone_def keeps_trust keeps_self split: option.split)
  then show ?case using Cons.IH by simp
qed simp


subsection \<open>What a merge can and cannot do\<close>

lemma mergeRoster_effect:
  assumes "trust_ok cy m"
  shows "\<exists>m' ch m2. mergeRoster cy now remote sender m = Some (m', ch) \<and> trust_ok cy m' \<and> self_of m' = self_of m \<and>
    shrinks m m2 \<and> self_of m2 = self_of m \<and> admissions cy (cm_clusterID m) (ro_Members remote) m2 m'"
proof (cases "cm_teardownPending m \<or> cm_clusterID m = [] \<or> ro_ClusterID remote \<noteq> cm_clusterID m")
  case True
  then have "mergeRoster cy now remote sender m = Some (m, False)" by (auto simp: mergeRoster_def Let_def)
  then show ?thesis using assms by (auto intro!: exI [of _ m] admissions.start)
next
  case False
  let ?cid = "cm_clusterID m"
  let ?p = "applyRemovalProofs cy now (ro_RemovalProofs remote) ?cid m"
  let ?m2 = "applyTombstones cy (ro_Tombstones remote) ?cid (fst ?p)"
  have p: "trust_ok cy (fst ?p)" "self_of (fst ?p) = self_of m" "shrinks m (fst ?p)"
    using applyRemovalProofs_effect [OF assms] by (simp_all add: applyRemovalProofs_def)
  note t = applyTombstones_keeps [of cy ?cid "ro_Tombstones remote" "fst ?p", folded applyTombstones_def]
  have ok2: "trust_ok cy ?m2" using t p(1) trust_ok_same by blast
  have sh: "shrinks m ?m2" using shrinks_trans [OF p(3) shrinks_quiet [OF quiet_same]] t by blast
  from applyMembers_effect [OF ok2 admissions.start, of now ?cid sender "ro_Members remote" "snd ?p"]
  obtain m' ch where "applyMembers cy now ?cid sender (ro_Members remote) ?m2 (snd ?p) = Some (m', ch)" "trust_ok cy m'"
    "self_of m' = self_of ?m2" "admissions cy ?cid (ro_Members remote) ?m2 m'" by blast
  moreover from this have "mergeRoster cy now remote sender m = Some (m', ch)"
    using False by (simp add: mergeRoster_def Let_def case_prod_beta)
  moreover have "self_of ?m2 = self_of m" using t p(2) by simp
  ultimately show ?thesis using sh by metis
qed

text \<open>Rosters received one after the other: the time, the roster and the authenticated sender of each.\<close>

primrec mergeAll :: "crypto \<Rightarrow> (int \<times> Roster \<times> string) list \<Rightarrow> Manager \<Rightarrow> Manager option" where
  "mergeAll cy [] m = Some m"
| "mergeAll cy (r # rs) m =
     (case mergeRoster cy (fst r) (fst (snd r)) (snd (snd r)) m of None \<Rightarrow> None | Some (m', _) \<Rightarrow> mergeAll cy rs m')"

text \<open>
  Who may be trusted, given the state before: the node itself, its pinned peers, and whoever a trusted node
  signed for. The signature covers the node, the fingerprint of its exact certificate, the cluster, and both
  admission epochs.
\<close>

inductive vouched :: "crypto \<Rightarrow> Manager \<Rightarrow> string \<Rightarrow> epoch \<times> DER \<times> pubkey \<Rightarrow> bool" for cy m where
  pinned: "cores m u = Some c \<Longrightarrow> vouched cy m u c"
| by_self: "\<lbrakk>snd (currentAdmission m) \<noteq> 0;
    cy_Verify cy (selfPub cy m) (endorsePayloadV2 u (cy_FingerprintFromDER cy der) (cm_clusterID m) ep
      (snd (currentAdmission m)) issuedAt) sig;
    certDER cy certPem u = Some der; pubFromDER cy der = Some pub\<rbrakk> \<Longrightarrow> vouched cy m u (ep, der, pub)"
| by_peer: "\<lbrakk>vouched cy m w (byEpoch, byDer, byPub);
    cy_Verify cy byPub (endorsePayloadV2 u (cy_FingerprintFromDER cy der) (cm_clusterID m) ep byEpoch issuedAt) sig;
    certDER cy certPem u = Some der; pubFromDER cy der = Some pub\<rbrakk> \<Longrightarrow> vouched cy m u (ep, der, pub)"

definition all_vouched :: "crypto \<Rightarrow> Manager \<Rightarrow> Manager \<Rightarrow> bool" where
  "all_vouched cy m0 m \<longleftrightarrow> (\<forall>u c. cores m u = Some c \<longrightarrow> vouched cy m0 u c)"

lemma self_fields:
  assumes "self_of m' = self_of m"
  shows "cm_identity m' = cm_identity m" "cm_clusterID m' = cm_clusterID m" "currentAdmission m' = currentAdmission m"
    "cm_teardownPending m' = cm_teardownPending m" "selfPub cy m' = selfPub cy m"
  using assms by (simp_all add: self_of_def currentAdmission_def selfPub_def)

lemma endorsement_vouches:
  assumes v: "all_vouched cy m0 m" and s: "self_of m = self_of m0"
    and e: "trusted_endorsement cy u (cy_FingerprintFromDER cy der) (cm_clusterID m0) ep m en"
    and c: "certDER cy certPem u = Some der" "pubFromDER cy der = Some pub"
  shows "vouched cy m0 u (ep, der, pub)"
proof -
  note f = self_fields [OF s]
  obtain by_pub sig where bp: "trustedPub cy (eo_By en) m = Some by_pub" "cy_DecodeString cy (eo_SigV2 en) = Some sig"
    "cy_Verify cy by_pub (endorsePayloadV2 u (cy_FingerprintFromDER cy der) (cm_clusterID m0) ep
       (eo_ByAdmissionEpoch en) (eo_IssuedAt en)) sig"
    and te: "trustedAdmissionEpoch (eo_By en) m = Some (eo_ByAdmissionEpoch en)"
    using e by (auto simp: trusted_endorsement_def verifyEndorsement_def split: option.splits if_splits)
  show ?thesis
  proof (cases "eo_By en = ni_NodeUUID (cm_identity m)")
    case True
    then have "snd (currentAdmission m0) \<noteq> 0" "eo_ByAdmissionEpoch en = snd (currentAdmission m0)" "by_pub = selfPub cy m0"
      using te bp(1) by (auto simp: trustedAdmissionEpoch_def trustedPub_def f split: if_splits)
    then show ?thesis using vouched.by_self [OF _ _ c] bp(3) by metis
  next
    case False
    then obtain t where t: "mget (cm_trust m) (eo_By en) = Some t" "tr_pub t = by_pub"
      "tp_AdmissionEpoch (tr_pin t) = eo_ByAdmissionEpoch en"
      using te bp(1) by (auto simp: trustedAdmissionEpoch_def trustedPub_def trust_Get_def split: if_splits)
    then have "cores m (eo_By en) = Some (eo_ByAdmissionEpoch en, tr_der t, by_pub)" by (simp add: cores_def core_def)
    then have "vouched cy m0 (eo_By en) (eo_ByAdmissionEpoch en, tr_der t, by_pub)" using v by (simp add: all_vouched_def)
    then show ?thesis by (rule vouched.by_peer [OF _ bp(3) c])
  qed
qed

lemma vouched_admits:
  assumes v: "all_vouched cy m0 m" and s: "self_of m = self_of m0" and a: "admits cy (cm_clusterID m0) e m m'"
  shows "all_vouched cy m0 m'"
proof -
  obtain der0 where d0: "validateEntryCert cy e = Some der0" using a by (auto simp: admits_def)
  obtain der pub where c: "certDER cy (re_CertPem e) (re_NodeUUID e) = Some der" "pubFromDER cy der = Some pub"
    "cores m' = (cores m)(re_NodeUUID e := Some (re_AdmissionEpoch e, der, pub))"
    using a unfolding admits_def admitted_def by blast
  have fp: "cy_FingerprintFromDER cy der = re_CertFingerprint e"
    using d0 c(1) by (auto simp: validateEntryCert_def split: if_splits)
  obtain en where "trusted_endorsement cy (re_NodeUUID e) (re_CertFingerprint e) (cm_clusterID m0) (re_AdmissionEpoch e) m en"
    using a by (auto simp: admits_def entryEndorsed_def)
  then have "vouched cy m0 (re_NodeUUID e) (re_AdmissionEpoch e, der, pub)"
    using endorsement_vouches [OF v s _ c(1,2)] fp by metis
  then show ?thesis using v unfolding all_vouched_def c(3) by (metis fun_upd_apply option.inject)
qed

lemma vouched_admissions:
  assumes "admissions cy (cm_clusterID m0) es m m'" "all_vouched cy m0 m" "self_of m = self_of m0"
  shows "all_vouched cy m0 m' \<and> self_of m' = self_of m0"
  using assms
proof (induction rule: admissions.induct)
  case (idle m1 m2)
  then show ?case by (simp add: all_vouched_def quiet_def)
next
  case (admit m1 e m2)
  then show ?case using vouched_admits by auto
qed simp


text \<open>What holds along any sequence of merges.\<close>

lemma mergeAll_effect:
  assumes "trust_ok cy m" "all_vouched cy m0 m" "self_of m = self_of m0"
  shows "\<exists>m'. mergeAll cy rs m = Some m' \<and> trust_ok cy m' \<and> self_of m' = self_of m0 \<and> all_vouched cy m0 m' \<and>
    (\<forall>u n. reached u n m \<longrightarrow> reached u n m' \<and> (barred u n m \<longrightarrow> barred u n m'))"
  using assms
proof (induction rs arbitrary: m)
  case Nil
  then show ?case by simp
next
  case (Cons r rs)
  obtain m' ch m2 where e: "mergeRoster cy (fst r) (fst (snd r)) (snd (snd r)) m = Some (m', ch)" "trust_ok cy m'"
    "self_of m' = self_of m" "shrinks m m2" "self_of m2 = self_of m"
    "admissions cy (cm_clusterID m) (ro_Members (fst (snd r))) m2 m'"
    using mergeRoster_effect [OF Cons.prems(1)] by blast
  have cid: "cm_clusterID m = cm_clusterID m0" using self_fields(2) [OF Cons.prems(3)] .
  have "all_vouched cy m0 m2" using Cons.prems(2) e(4) by (auto simp: all_vouched_def shrinks_def) (metis option.distinct(1))
  then have v: "all_vouched cy m0 m'" "self_of m' = self_of m0"
    using vouched_admissions [of cy m0 "ro_Members (fst (snd r))" m2 m'] e(5,6) Cons.prems(3) cid by simp_all
  have "reached u n m' \<and> (barred u n m \<longrightarrow> barred u n m')" if "reached u n m" for u n
    using reached_admissions [OF e(6)] shrinks_barred [OF e(4)] e(4) that by (auto simp: shrinks_def)
  then show ?case using Cons.IH [OF e(2) v] e(1) by fastforce
qed

lemma all_vouched_start: "all_vouched cy m m"
  by (auto simp: all_vouched_def intro: vouched.pinned)

text \<open>
  C15. Merging a peer's roster always comes to an end, whatever the roster holds and whichever file operations fail,
  and leaves a consistent trust store: every pin filed under its own node, with the certificate and the key
  its text holds.
\<close>

theorem roster_merge_terminates:
  assumes "trust_ok cy m"
  shows "\<exists>m' changed. mergeRoster cy now remote senderUUID m = Some (m', changed) \<and> trust_ok cy m'"
  using mergeRoster_effect [OF assms, of now remote senderUUID] by blast

text \<open>
  C4. After any sequence of rosters from any senders, every pinned peer is vouched for: it was pinned before, or
  there is a chain of signatures, from this node or a peer pinned before, each over the exact certificate,
  cluster and admission it introduces and made under the signer's own current admission.
\<close>

theorem every_pin_is_vouched:
  assumes "trust_ok cy m" "mergeAll cy rosters m = Some m'" "mget (cm_trust m') u = Some t"
  shows "vouched cy m u (tp_AdmissionEpoch (tr_pin t), tr_der t, tr_pub t)"
proof -
  have "all_vouched cy m m'" using mergeAll_effect [OF assms(1) all_vouched_start refl, of rosters] assms(2) by auto
  then show ?thesis using assms(3) by (auto simp: all_vouched_def cores_def core_def)
qed

text \<open>
  C8. A removal holds: once the proof that a node was removed under an admission is stored and the node is out, no
  roster brings it back under that admission or an older one, whatever is endorsed, replayed or lost on the
  way; it can only return under a later admission.
\<close>

theorem removal_is_never_undone:
  assumes "trust_ok cy m" "mget (cm_removalProofs m) u = Some p" "trust_Get u m = None"
  shows "\<exists>m'. mergeAll cy rosters m = Some m' \<and>
    (\<forall>pin. trust_Get u m' = Some pin \<longrightarrow> tb_AdmissionEpoch (rp_Tombstone p) < tp_AdmissionEpoch pin)"
proof -
  have "barred u (tb_AdmissionEpoch (rp_Tombstone p)) m"
    using assms(2,3) by (simp add: barred_def reached_def proof_epoch_def cores_def trust_Get_def)
  moreover from this have "reached u (tb_AdmissionEpoch (rp_Tombstone p)) m" by (simp add: barred_def)
  ultimately obtain m' where "mergeAll cy rosters m = Some m'" "barred u (tb_AdmissionEpoch (rp_Tombstone p)) m'"
    using mergeAll_effect [OF assms(1) all_vouched_start refl, of rosters] by blast
  then show ?thesis by (auto simp: barred_def cores_def core_def trust_Get_def)
qed


subsection \<open>What a signature covers\<close>

lemma lines_inj:
  assumes "\<forall>x \<in> set xs. LF \<notin> set x" "\<forall>y \<in> set ys. LF \<notin> set y" "xs \<noteq> []" "ys \<noteq> []" "lines xs = lines ys"
  shows "xs = ys"
  using assms Split_Join [of xs LF] Split_Join [of ys LF] unfolding lines_def by metis

lemma numbers_clean: "LF \<notin> set (FormatUint e)" "0 \<le> i \<Longrightarrow> LF \<notin> set (Itoa i)"
proof -
  have LF: "\<not> is_digit LF" by code_simp
  then show "LF \<notin> set (FormatUint e)" using Itoa_digits [of "uint e" LF] by (auto simp: FormatUint_def)
  show "LF \<notin> set (Itoa i)" if "0 \<le> i" using that LF Itoa_digits by blast
qed

lemma domains_clean: "LF \<notin> set endorseDomainV2" "LF \<notin> set tombstoneDomainV2" "endorseDomainV2 \<noteq> tombstoneDomainV2"
  by code_simp+

lemma FormatUint_inj: "FormatUint a = FormatUint b \<Longrightarrow> a = b"
  using Itoa_inj [of "uint a" "uint b"] by (simp add: FormatUint_def word_uint_eq_iff)

text \<open>
  A signature speaks about one thing only: the text signed for an endorsement determines the node, the
  certificate, the cluster, both admissions and the time, and is never the text signed for a removal.
\<close>

theorem evidence_is_unambiguous:
  assumes "LF \<notin> set u" "LF \<notin> set fp" "LF \<notin> set cid" "0 \<le> t" "LF \<notin> set u'" "LF \<notin> set fp'" "LF \<notin> set cid'" "0 \<le> t'"
  shows "endorsePayloadV2 u fp cid a b t = endorsePayloadV2 u' fp' cid' a' b' t' \<longleftrightarrow> (u, fp, cid, a, b, t) = (u', fp', cid', a', b', t')"
    and "tombstonePayloadV2 u cid a b t = tombstonePayloadV2 u' cid' a' b' t' \<longleftrightarrow> (u, cid, a, b, t) = (u', cid', a', b', t')"
    and "endorsePayloadV2 u fp cid a b t \<noteq> tombstonePayloadV2 u' cid' a' b' t'"
proof -
  note clean = assms numbers_clean domains_clean
  show "endorsePayloadV2 u fp cid a b t = endorsePayloadV2 u' fp' cid' a' b' t' \<longleftrightarrow> (u, fp, cid, a, b, t) = (u', fp', cid', a', b', t')"
  proof
    assume "endorsePayloadV2 u fp cid a b t = endorsePayloadV2 u' fp' cid' a' b' t'"
    from this [unfolded endorsePayloadV2_def, THEN lines_inj [rotated 4]] clean
    show "(u, fp, cid, a, b, t) = (u', fp', cid', a', b', t')" using FormatUint_inj Itoa_inj by simp
  qed simp
  show "tombstonePayloadV2 u cid a b t = tombstonePayloadV2 u' cid' a' b' t' \<longleftrightarrow> (u, cid, a, b, t) = (u', cid', a', b', t')"
  proof
    assume "tombstonePayloadV2 u cid a b t = tombstonePayloadV2 u' cid' a' b' t'"
    from this [unfolded tombstonePayloadV2_def, THEN lines_inj [rotated 4]] clean
    show "(u, cid, a, b, t) = (u', cid', a', b', t')" using FormatUint_inj Itoa_inj by simp
  qed simp
  show "endorsePayloadV2 u fp cid a b t \<noteq> tombstonePayloadV2 u' cid' a' b' t'"
  proof
    assume "endorsePayloadV2 u fp cid a b t = tombstonePayloadV2 u' cid' a' b' t'"
    from this [unfolded endorsePayloadV2_def tombstonePayloadV2_def, THEN lines_inj [rotated 4]] clean
    show False by simp
  qed
qed

text \<open>
  What a node signs, every holder of its public key accepts: with a signature scheme and an encoding that
  are inverse to their checks, a signed endorsement or removal verifies for the values it was made for.
\<close>

theorem signed_evidence_verifies:
  assumes "\<And>k msg. cy_Verify cy (cy_Public cy k) msg (cy_Sign cy k msg)" "\<And>s. cy_DecodeString cy (cy_EncodeToString cy s) = Some s"
    "u \<noteq> []"
  shows "verifyEndorsement cy (cy_Public cy k) u fp cid (signEndorsement cy k me u fp cid t e0 e1) \<and>
    verifyTombstone cy (cy_Public cy k) cid (signTombstone cy k me u cid t e0 e1)"
  using assms by (auto simp: signEndorsement_def verifyEndorsement_def signTombstone_def verifyTombstone_def Let_def)

subsection \<open>A cluster of four\<close>

text \<open>
  Signatures that are the key followed by the message; node \<open>a\<close> has pinned \<open>b\<close>, which endorsed \<open>c\<close>, which
  endorsed \<open>d\<close>.
\<close>

definition demo_cy :: crypto where
  "demo_cy = \<lparr>cy_x509 = demo_x, cy_pubKeyFromCert = (\<lambda>c. Some (c_Raw c)), cy_Public = (\<lambda>k. k), cy_Sign = (\<lambda>k msg. k @ msg),
     cy_Verify = (\<lambda>k msg sig. sig = k @ msg), cy_EncodeToString = (\<lambda>s. s), cy_DecodeString = Some,
     cy_FingerprintFromDER = (\<lambda>d. d)\<rparr>"

definition demo_trusted :: "string \<Rightarrow> epoch \<Rightarrow> trusted" where
  "demo_trusted u ep = \<lparr>tr_pin = \<lparr>tp_NodeUUID = u, tp_NodeID = u, tp_Name = u, tp_ClusterID = ''k'', tp_AdmissionEpoch = ep,
     tp_CertPem = u, tp_CertFingerprint = u, tp_PinnedAt = 0, tp_Endorsements = []\<rparr>, tr_der = u, tr_pub = u\<rparr>"

definition demo_mgr :: Manager where
  "demo_mgr = \<lparr>cm_identity = \<lparr>ni_NodeUUID = ''a'', ni_NodeID = ''a'', ni_Name = ''a'', ni_CertPEM = ''a'',
       ni_CertFingerprint = ''a'', ni_Cert = ''a'', ni_Signer = ''a''\<rparr>,
     cm_port = 5000, cm_trust = [(''b'', demo_trusted ''b'' 1)], cm_clusterID = ''k'', cm_clusterFriendlyName = [],
     cm_inviteCreated = None,
     cm_admission = \<lparr>as_Counter = 1, as_Activated = 1, as_Retired = False, as_ClusterID = ''k'', as_Epoch = 1\<rparr>,
     cm_clusterGen = 0, cm_members = [], cm_tombstones = [], cm_removalProofs = [], cm_clusterTornDown = False,
     cm_teardownPending = False, cm_observedPeerHosts = [],
     cm_disk = \<lparr>dk_admission = None, dk_members = None, dk_pins = [], dk_tombstones = None, dk_proofs = None,
       dk_marker = False, dk_invite = None\<rparr>,
     cm_io = [], cm_out = []\<rparr>"

definition demo_entry :: "string \<Rightarrow> string \<Rightarrow> epoch \<Rightarrow> RosterEntry" where
  "demo_entry w u ep = \<lparr>re_NodeUUID = u, re_NodeID = u, re_Name = u, re_Addr = ''10.0.0.9:5000'', re_AdmissionEpoch = ep,
     re_CertPem = u, re_CertFingerprint = u, re_Endorsements = [signEndorsement demo_cy w w u u ''k'' 7 ep 1]\<rparr>"

definition demo_roster :: Roster where
  "demo_roster = \<lparr>ro_ClusterID = ''k'', ro_Members = [demo_entry ''c'' ''d'' 1, demo_entry ''b'' ''c'' 1],
     ro_Tombstones = [], ro_RemovalProofs = []\<rparr>"

definition demo_proof :: RemovalProof where
  "demo_proof = \<lparr>rp_Tombstone = signTombstone demo_cy ''b'' ''b'' ''c'' ''k'' 5 1 1, rp_SignerCertPem = ''b'',
     rp_SignerFingerprint = ''b'', rp_Endorsements = []\<rparr>"

lemma demo_trust_ok: "trust_ok demo_cy demo_mgr" "trust_ok demo_cy (demo_mgr\<lparr>cm_removalProofs := ps\<rparr>)"
proof -
  have "certDER demo_cy ''b'' ''b'' = Some ''b''" "pubFromDER demo_cy ''b'' = Some ''b''" by code_simp+
  then show "trust_ok demo_cy demo_mgr" "trust_ok demo_cy (demo_mgr\<lparr>cm_removalProofs := ps\<rparr>)"
    by (auto simp: trust_ok_def demo_mgr_def demo_trusted_def mget_def split: if_splits)
qed

theorem roster_merge_terminates_witness:
  "\<exists>m' changed. mergeRoster demo_cy 9 demo_roster ''b'' demo_mgr = Some (m', changed) \<and> trust_ok demo_cy m'"
  by (rule roster_merge_terminates [OF demo_trust_ok(1)])

lemma demo_merge:
  "map_option (\<lambda>m. mget (cm_trust m) ''d'' \<noteq> None) (mergeAll demo_cy [(9, demo_roster, ''b'')] demo_mgr) = Some True"
  by code_simp

theorem every_pin_is_vouched_witness:
  "\<exists>m' t. mergeAll demo_cy [(9, demo_roster, ''b'')] demo_mgr = Some m' \<and> mget (cm_trust m') ''d'' = Some t \<and>
     vouched demo_cy demo_mgr ''d'' (tp_AdmissionEpoch (tr_pin t), tr_der t, tr_pub t)"
proof -
  from demo_merge obtain m' t where m: "mergeAll demo_cy [(9, demo_roster, ''b'')] demo_mgr = Some m'"
    and t: "mget (cm_trust m') ''d'' = Some t" by auto
  from every_pin_is_vouched [OF demo_trust_ok(1) m t] m t show ?thesis by blast
qed

theorem removal_is_never_undone_witness:
  "\<exists>m'. mergeAll demo_cy [(9, demo_roster, ''b''), (10, demo_roster\<lparr>ro_Members := [demo_entry ''b'' ''c'' 2]\<rparr>, ''b'')]
       (demo_mgr\<lparr>cm_removalProofs := [(''c'', demo_proof)]\<rparr>) = Some m' \<and>
     (case trust_Get ''c'' m' of None \<Rightarrow> True | Some pin \<Rightarrow> tb_AdmissionEpoch (rp_Tombstone demo_proof) < tp_AdmissionEpoch pin)"
proof -
  let ?m = "demo_mgr\<lparr>cm_removalProofs := [(''c'', demo_proof)]\<rparr>"
  have "mget (cm_removalProofs ?m) ''c'' = Some demo_proof" "trust_Get ''c'' ?m = None"
    by (simp_all add: trust_Get_def demo_mgr_def mget_def)
  from removal_is_never_undone [OF demo_trust_ok(2) this,
      of "[(9, demo_roster, ''b''), (10, demo_roster\<lparr>ro_Members := [demo_entry ''b'' ''c'' 2]\<rparr>, ''b'')]"]
  show ?thesis unfolding option.case_eq_if by (elim exE conjE) (rule exI, rule conjI, assumption, force)
qed

theorem evidence_is_unambiguous_witness:
  "endorsePayloadV2 ''b'' ''f'' ''k'' 1 2 3 \<noteq> tombstonePayloadV2 ''b'' ''k'' 1 2 3"
  by (rule evidence_is_unambiguous(3) [where fp' = "''f''"]) (simp_all add: LF_def)

theorem signed_evidence_verifies_witness:
  "verifyEndorsement demo_cy (cy_Public demo_cy ''a'') ''b'' ''b'' ''k'' (signEndorsement demo_cy ''a'' ''a'' ''b'' ''b'' ''k'' 7 2 1) \<and>
   verifyTombstone demo_cy (cy_Public demo_cy ''a'') ''k'' (signTombstone demo_cy ''a'' ''a'' ''b'' ''k'' 7 2 1)"
  by (rule signed_evidence_verifies) (simp_all add: demo_cy_def)

end
