(* ===== verification/JsonRpc.thy ===== *)
theory JsonRpc
  imports GoJson
begin

section \<open>JSON-RPC frames and the log level\<close>

text \<open>
  \<open>shared/jsonrpc/jsonrpc.go\<close>: the frames every service exchanges and how they are told apart, and
  \<open>shared/applog\<close>: the \<open>log/set-level\<close> request every service answers. Framing and the
  short-write loop of the codec are transport and not modelled; a frame is a decoded document.
\<close>

record RPCError =
  e_Code :: int
  e_Message :: string
  e_Data :: raw

record Message =
  msg_JSONRPC :: string
  msg_ID :: raw
  msg_Method :: string
  msg_Params :: raw
  msg_Result :: raw
  msg_Error :: "RPCError option"

definition Message0 :: Message where
  "Message0 = \<lparr>msg_JSONRPC = [], msg_ID = None, msg_Method = [], msg_Params = None, msg_Result = None,
     msg_Error = None\<rparr>"

text \<open>\<open>ID\<close> is a pointer to a raw message, \<open>nil\<close> on \<open>null\<close>.\<close>

definition dec_raw_ptr :: "json \<Rightarrow> raw \<Rightarrow> raw option" where
  "dec_raw_ptr j old = Some (if j = JNull then None else Some j)"

definition rpcerror_fields :: "RPCError field list" where
  "rpcerror_fields =
     [fld ''code'' dec_int64 e_Code (\<lambda>v r. r\<lparr>e_Code := v\<rparr>),
      fld ''message'' dec_string e_Message (\<lambda>v r. r\<lparr>e_Message := v\<rparr>),
      fld ''data'' dec_raw e_Data (\<lambda>v r. r\<lparr>e_Data := v\<rparr>)]"

definition message_fields :: "Message field list" where
  "message_fields =
     [fld ''jsonrpc'' dec_string msg_JSONRPC (\<lambda>v r. r\<lparr>msg_JSONRPC := v\<rparr>),
      fld ''id'' dec_raw_ptr msg_ID (\<lambda>v r. r\<lparr>msg_ID := v\<rparr>),
      fld ''method'' dec_string msg_Method (\<lambda>v r. r\<lparr>msg_Method := v\<rparr>),
      fld ''params'' dec_raw msg_Params (\<lambda>v r. r\<lparr>msg_Params := v\<rparr>),
      fld ''result'' dec_raw msg_Result (\<lambda>v r. r\<lparr>msg_Result := v\<rparr>),
      fld ''error'' (dec_ptr (dec_struct rpcerror_fields) \<lparr>e_Code = 0, e_Message = [], e_Data = None\<rparr>)
        msg_Error (\<lambda>v r. r\<lparr>msg_Error := v\<rparr>)]"

definition IsRequest :: "Message \<Rightarrow> bool" where
  "IsRequest m \<longleftrightarrow> msg_ID m \<noteq> None \<and> msg_Method m \<noteq> []"

definition IsNotification :: "Message \<Rightarrow> bool" where
  "IsNotification m \<longleftrightarrow> msg_ID m = None \<and> msg_Method m \<noteq> []"

definition IsResponse :: "Message \<Rightarrow> bool" where
  "IsResponse m \<longleftrightarrow> msg_ID m \<noteq> None \<and> msg_Method m = []"

datatype read_result = ReadOk Message | DecodeError

text \<open>\<open>Codec.Read\<close> on one line that is, or is not, a JSON document.\<close>

definition Read :: "raw \<Rightarrow> read_result" where
  "Read line =
     (case Unmarshal (dec_struct message_fields) Message0 line of
        None \<Rightarrow> DecodeError
      | Some msg \<Rightarrow> if msg_JSONRPC msg \<noteq> ''2.0'' then DecodeError else ReadOk msg)"

text \<open>What a service writes back.\<close>

datatype answer = Respond raw json | RespondError raw int

subsection \<open>log/set-level\<close>

datatype level = LevelDebug | LevelInfo | LevelWarn | LevelError

definition ParseLevel :: "string \<Rightarrow> level option" where
  "ParseLevel s =
     (let l = ToLower (TrimSpace s) in
      if l = ''debug'' then Some LevelDebug
      else if l = [] \<or> l = ''info'' then Some LevelInfo
      else if l = ''warn'' \<or> l = ''warning'' then Some LevelWarn
      else if l = ''error'' \<or> l = ''err'' then Some LevelError
      else None)"

definition LevelString :: "level \<Rightarrow> string" where
  "LevelString l =
     (case l of LevelDebug \<Rightarrow> ''debug'' | LevelInfo \<Rightarrow> ''info'' | LevelWarn \<Rightarrow> ''warn'' | LevelError \<Rightarrow> ''error'')"

definition SetLevelMethod :: string where "SetLevelMethod = ''log/set-level''"

definition level_fields :: "string field list" where
  "level_fields = [fld ''level'' dec_string id (\<lambda>v r. v)]"

text \<open>The level to set, or an error; absent params read as an empty level.\<close>

definition HandleSetLevelParams :: "raw \<Rightarrow> level option" where
  "HandleSetLevelParams params =
     (case (case params of None \<Rightarrow> Some [] | Some j \<Rightarrow> dec_struct level_fields j []) of
        None \<Rightarrow> None
      | Some l \<Rightarrow> ParseLevel l)"

text \<open>The set-level branch shared by the services' message handlers: new level and answer.\<close>

definition handle_set_level :: "Message \<Rightarrow> level \<Rightarrow> level \<times> answer list" where
  "handle_set_level msg cur =
     (case HandleSetLevelParams (msg_Params msg) of
        None \<Rightarrow> (cur, if IsRequest msg then [RespondError (msg_ID msg) (- 32602)] else [])
      | Some l \<Rightarrow> (l, if IsRequest msg then [Respond (msg_ID msg) (JObj [(''level'', JStr (LevelString l))])] else []))"

end
