(* ===== verification/ClusterRemoval.thy ===== *)
theory ClusterRemoval
  imports ClusterRoster JsonRpc
begin

section \<open>The cluster manager: removal, teardown and start\<close>

text \<open>
  How a node leaves a cluster and comes up again: \<open>nodes:remove\<close> (\<open>remove.go\<close>), \<open>cluster:leave\<close>
  (\<open>leave.go\<close>), the teardown journal (\<open>teardown_store.go\<close>), removal by a peer (\<open>mtls.go\<close>), the verdict over a
  round of rejected reconciles (\<open>roster_http.go\<close>), and what \<open>NewManager\<close> makes of the files it finds
  (\<open>manager.go\<close>, \<open>membership_store.go\<close>, the loaders of the stores).

  A handler that releases \<open>rosterMu\<close> to talk to a peer is two definitions, one per critical section, and any
  other operation may come between them. Reading a file always succeeds and gives what the last
  successful write left; writes and deletions succeed or fail as \<open>cm_io\<close> says. Pairing sessions and invites
  are not part of the state.
\<close>

subsection \<open>The teardown journal\<close>

definition setClusterIdentity :: "string \<Rightarrow> string \<Rightarrow> Manager \<Rightarrow> Manager" where
  "setClusterIdentity cid friendly m =
     m\<lparr>cm_clusterID := cid, cm_clusterFriendlyName := friendly,
       cm_clusterGen := (if cm_clusterID m \<noteq> cid \<or> cm_clusterFriendlyName m \<noteq> friendly then cm_clusterGen m + 1 else cm_clusterGen m)\<rparr>"

definition emitIdentityChanged :: "Manager \<Rightarrow> Manager" where
  "emitIdentityChanged m = m\<lparr>cm_out := cm_out m @ [IdentityChanged (cm_clusterID m) (cm_clusterFriendlyName m)]\<rparr>"

definition clearInviteCreatedCluster :: "Manager \<Rightarrow> Manager \<times> bool" where
  "clearInviteCreatedCluster m =
     ((put_disk (\<lambda>d. d\<lparr>dk_invite := None\<rparr>) m)\<lparr>cm_inviteCreated := None\<rparr>, io_ok m \<or> dk_invite (cm_disk m) = None)"

definition beginDurableTeardown :: "Manager \<Rightarrow> Manager \<times> bool" where
  "beginDurableTeardown m = ((put_disk (\<lambda>d. d\<lparr>dk_marker := True\<rparr>) m)\<lparr>cm_teardownPending := io_ok m\<rparr>, io_ok m)"

text \<open>Delete every pin; one whose file cannot be deleted is at least forgotten in memory.\<close>

primrec drop_pins :: "string list \<Rightarrow> Manager \<Rightarrow> Manager \<times> bool" where
  "drop_pins [] m = (m, True)"
| "drop_pins (u # us) m =
     (let (m1, ok) = trust_Remove u m;
          (m2, rest) = drop_pins us (if ok then m1 else trust_Forget u m1)
      in (m2, ok \<and> rest))"

definition pin_uuids :: "Manager \<Rightarrow> string list" where
  "pin_uuids m = map (\<lambda>t. tp_NodeUUID (tr_pin t)) (mvals (cm_trust m))"

definition finishDurableTeardown :: "Manager \<Rightarrow> Manager \<times> bool" where
  "finishDurableTeardown m =
     (let (m1, a) = clearAdmission (m\<lparr>cm_teardownPending := True\<rparr>);
          (m2, b) = drop_pins (pin_uuids m1) m1;
          (m3, c) = persistMembersErr (resetMembership m2);
          (m4, d) = clearAllTombstones m3;
          (m5, e) = clearAllRemovalProofs m4;
          (m6, f) = clearInviteCreatedCluster m5;
          m7 = (setClusterIdentity [] [] m6)\<lparr>cm_clusterTornDown := True\<rparr>
      in if \<not> (a \<and> b \<and> c \<and> d \<and> e \<and> f) then (m7, False)
         else if \<not> (io_ok m7 \<or> \<not> dk_marker (cm_disk m7)) then (put_disk (\<lambda>d. d) m7, False)
         else ((put_disk (\<lambda>d. d\<lparr>dk_marker := False\<rparr>) m7)\<lparr>cm_teardownPending := False\<rparr>, True))"

definition recoverPendingTeardown :: "Manager \<Rightarrow> Manager \<times> bool" where
  "recoverPendingTeardown m =
     (if \<not> dk_marker (cm_disk m) then (m, True) else finishDurableTeardown (m\<lparr>cm_teardownPending := True\<rparr>))"

definition teardownClusterLocalLocked :: "Manager \<Rightarrow> Manager \<times> bool" where
  "teardownClusterLocalLocked m =
     (case beginDurableTeardown m of (m1, False) \<Rightarrow> (m1, False) | (m1, True) \<Rightarrow> finishDurableTeardown m1)"

definition teardownClusterLocal :: "Manager \<Rightarrow> Manager \<times> bool" where
  "teardownClusterLocal m =
     (case teardownClusterLocalLocked m of
        (m1, False) \<Rightarrow> (m1, False)
      | (m1, True) \<Rightarrow> (emitNodesChanged (emitIdentityChanged m1), True))"

subsection \<open>Leaving\<close>

text \<open>Up to the pushes: \<open>None\<close> when the node is not in a cluster, else whether the departure was recorded.\<close>

definition leave_prepare :: "crypto \<Rightarrow> int \<Rightarrow> Manager \<Rightarrow> Manager \<times> bool option" where
  "leave_prepare cy now m =
     (if cm_clusterID m = [] then (m, None)
      else
        (let (m1, ep) = (if snd (currentAdmission m) = 0 then ensureAdmission (cm_clusterID m) m
                         else (m, Some (snd (currentAdmission m))))
         in case ep of None \<Rightarrow> (m1, Some False) | Some selfEpoch \<Rightarrow>
           (case newRemovalProof cy now (ni_NodeUUID (cm_identity m1)) selfEpoch m1 of
              None \<Rightarrow> (m1, Some False)
            | Some p \<Rightarrow>
                (case putRemovalProof cy now p m1 of
                   (m2, None) \<Rightarrow> (m2, Some False)
                 | (m2, Some _) \<Rightarrow> (fst (putTombstone (rp_Tombstone p) m2), Some True)))))"

text \<open>
  The answers of the peers to the pushes are merged as they come; after them, or when the time is up, the
  node tears down. \<open>None\<close> stands for a merge that does not return.
\<close>

definition leaveCluster :: "crypto \<Rightarrow> int \<Rightarrow> (int \<times> Roster \<times> string) list \<Rightarrow> Manager \<Rightarrow> (Manager \<times> bool option) option" where
  "leaveCluster cy now replies m =
     (case leave_prepare cy now m of
        (m1, None) \<Rightarrow> Some (m1, Some False)
      | (m1, Some False) \<Rightarrow> Some (m1, None)
      | (m1, Some True) \<Rightarrow>
          map_option (\<lambda>m2. case teardownClusterLocal m2 of (m3, ok) \<Rightarrow> (m3, if ok then Some True else None)) (mergeAll cy replies m1))"

subsection \<open>Removing a peer\<close>

record removeParams =
  rm_NodeID :: "string option"
  rm_NodeUUID :: "string option"

definition remove_fields :: "removeParams field list" where
  "remove_fields =
     [fld ''nodeId'' (dec_ptr dec_string []) rm_NodeID (\<lambda>v r. r\<lparr>rm_NodeID := v\<rparr>),
      fld ''nodeUuid'' (dec_ptr dec_string []) rm_NodeUUID (\<lambda>v r. r\<lparr>rm_NodeUUID := v\<rparr>)]"

definition removeParams0 :: removeParams where
  "removeParams0 = \<lparr>rm_NodeID = None, rm_NodeUUID = None\<rparr>"

definition codeInvalidParams :: int where "codeInvalidParams = - 32602"
definition codeInternalError :: int where "codeInternalError = - 32603"

definition nodes_removed :: "raw \<Rightarrow> string \<Rightarrow> bool \<Rightarrow> answer" where
  "nodes_removed rid nodeID removed = Respond rid (JObj [(''nodeId'', JStr nodeID), (''removed'', JBool removed)])"

definition find_target :: "removeParams \<Rightarrow> Manager \<Rightarrow> ClusterNode option" where
  "find_target p m =
     (case (case rm_NodeUUID p of None \<Rightarrow> None | Some u \<Rightarrow> memberByNodeID u m) of
        Some n \<Rightarrow> Some n
      | None \<Rightarrow> (case rm_NodeID p of None \<Rightarrow> None | Some i \<Rightarrow> memberByNodeID i m))"

text \<open>The admission a removal is bound to: the cluster, this node's epoch and the member as it was.\<close>

record removal =
  rv_cid :: string
  rv_selfEpoch :: epoch
  rv_node :: ClusterNode
  rv_proof :: RemovalProof

text \<open>First critical section: an answer at once, or the removal to carry out.\<close>

definition remove_prepare :: "crypto \<Rightarrow> int \<Rightarrow> raw \<Rightarrow> raw \<Rightarrow> Manager \<Rightarrow> Manager \<times> (answer + removal)" where
  "remove_prepare cy now rid params m =
     (case Unmarshal (dec_struct remove_fields) removeParams0 params of
        None \<Rightarrow> (m, Inl (RespondError rid codeInvalidParams))
      | Some p \<Rightarrow>
          if rm_NodeID p = None \<and> rm_NodeUUID p = None then (m, Inl (RespondError rid codeInvalidParams))
          else case find_target p m of
            None \<Rightarrow> (m, Inl (nodes_removed rid (case rm_NodeID p of None \<Rightarrow> [] | Some i \<Rightarrow> i) False))
          | Some node \<Rightarrow>
              if cn_NodeUUID node = ni_NodeUUID (cm_identity m) then (m, Inl (RespondError rid codeInvalidParams))
              else
                (let (cid0, selfEpoch0) = currentAdmission m; pin = trust_Get (cn_NodeUUID node) m in
                 if cid0 = [] \<or> cm_clusterID m \<noteq> cid0 \<or> selfEpoch0 = 0 \<or> cn_ClusterID node \<noteq> cid0 \<or> cn_AdmissionEpoch node = 0 \<or>
                    (case pin of None \<Rightarrow> True
                     | Some q \<Rightarrow> tp_ClusterID q \<noteq> cid0 \<or> tp_AdmissionEpoch q \<noteq> cn_AdmissionEpoch node)
                 then (m, Inl (RespondError rid codeInternalError))
                 else case newRemovalProof cy now (cn_NodeUUID node) (cn_AdmissionEpoch node) m of
                   None \<Rightarrow> (m, Inl (RespondError rid codeInternalError))
                 | Some proof \<Rightarrow>
                     (case putRemovalProof cy now proof m of
                        (m1, None) \<Rightarrow> (m1, Inl (RespondError rid codeInternalError))
                      | (m1, Some _) \<Rightarrow>
                          (fst (putTombstone (rp_Tombstone proof) m1),
                           Inr \<lparr>rv_cid = cid0, rv_selfEpoch = selfEpoch0, rv_node = node, rv_proof = proof\<rparr>))))"

text \<open>Second critical section, after the peer was told.\<close>

definition remove_commit :: "raw \<Rightarrow> removal \<Rightarrow> Manager \<Rightarrow> Manager \<times> answer" where
  "remove_commit rid r m =
     (let node = rv_node r; uuid = cn_NodeUUID node; (cid, selfEpoch) = currentAdmission m;
          stale = (cid \<noteq> rv_cid r \<or> selfEpoch \<noteq> rv_selfEpoch r \<or> cm_clusterID m \<noteq> rv_cid r \<or>
            (case (memberByNodeID uuid m, trust_Get uuid m) of
               (Some current, Some pin) \<Rightarrow> cn_ClusterID current \<noteq> rv_cid r \<or> tp_ClusterID pin \<noteq> rv_cid r \<or>
                 cn_AdmissionEpoch current \<noteq> cn_AdmissionEpoch node \<or> tp_AdmissionEpoch pin \<noteq> cn_AdmissionEpoch node
             | _ \<Rightarrow> True))
      in if stale then (m, RespondError rid codeInternalError)
         else case trust_Remove uuid m of
           (m1, False) \<Rightarrow> (m1, RespondError rid codeInternalError)
         | (m1, True) \<Rightarrow> (emitNodesChanged (fst (removeMemberByUUID uuid m1)), nodes_removed rid (cn_ID node) True))"


subsection \<open>Removed by a peer\<close>

definition verifyClientPin :: "Certificate list option \<Rightarrow> Manager \<Rightarrow> string option" where
  "verifyClientPin tls m =
     (if cm_teardownPending m then None
      else case tls of
        None \<Rightarrow> None
      | Some [] \<Rightarrow> None
      | Some (cert # _) \<Rightarrow>
          (let uuid = UUIDFromCert cert in if uuid = [] \<or> \<not> MatchDER uuid (c_Raw cert) m then None else Some uuid))"

record membersRemoveRequest =
  mr_NodeUUID :: string
  mr_Proof :: RemovalProof

text \<open>What the first critical section of \<open>handleMembersRemove\<close> keeps.\<close>

record remove_ticket =
  rt_uuid :: string
  rt_der :: DER
  rt_cid :: string
  rt_epoch :: epoch
  rt_gen :: "64 word"

definition members_remove_check :: "string \<Rightarrow> Certificate list option \<Rightarrow> Manager \<Rightarrow> int + remove_ticket" where
  "members_remove_check verb tls m =
     (if verb \<noteq> ''POST'' then Inl 405
      else case (verifyClientPin tls m, tls) of
        (Some uuid, Some (cert # _)) \<Rightarrow>
          Inr \<lparr>rt_uuid = uuid, rt_der = c_Raw cert, rt_cid = fst (currentAdmission m), rt_epoch = snd (currentAdmission m),
               rt_gen = cm_clusterGen m\<rparr>
      | _ \<Rightarrow> Inl 403)"

text \<open>The body, as reading and \<open>json.Unmarshal\<close> leave it (\<open>None\<close> for an error), and the rest of the handler.\<close>

definition members_remove_commit ::
  "crypto \<Rightarrow> remove_ticket \<Rightarrow> membersRemoveRequest option \<Rightarrow> Manager \<Rightarrow> Manager \<times> int" where
  "members_remove_commit cy k body m =
     (case body of
        None \<Rightarrow> (m, 400)
      | Some req \<Rightarrow>
          if mr_NodeUUID req \<noteq> [] \<and> mr_NodeUUID req \<noteq> rt_uuid k then (m, 400)
          else if rt_cid k = [] \<or> rt_epoch k = 0 \<or> currentAdmission m \<noteq> (rt_cid k, rt_epoch k) \<or>
                  cm_clusterGen m \<noteq> rt_gen k \<or> \<not> MatchDER (rt_uuid k) (rt_der k) m then (m, 409)
          else
            (let t = rp_Tombstone (mr_Proof req) in
             if tb_NodeUUID t \<noteq> ni_NodeUUID (cm_identity m) \<or> tb_AdmissionEpoch t \<noteq> rt_epoch k \<or> tb_By t \<noteq> rt_uuid k \<or>
                \<not> verifyRemovalProof cy (mr_Proof req) (rt_cid k) m then (m, 403)
             else case teardownClusterLocalLocked m of
               (m1, False) \<Rightarrow> (m1, 500)
             | (m1, True) \<Rightarrow> (emitNodesChanged (emitIdentityChanged m1), 200)))"

subsection \<open>Rejected by every peer\<close>

text \<open>The proofs in the body of a rejection; \<open>None\<close> for an empty or undecodable body.\<close>

definition rejectionProvesRemoval :: "crypto \<Rightarrow> RemovalProof list option \<Rightarrow> string \<Rightarrow> Manager \<Rightarrow> bool" where
  "rejectionProvesRemoval cy body relayUUID m \<longleftrightarrow>
     (case body of
        None \<Rightarrow> False
      | Some proofs \<Rightarrow>
          cm_clusterID m \<noteq> [] \<and> fst (currentAdmission m) = cm_clusterID m \<and> snd (currentAdmission m) \<noteq> 0 \<and>
          (\<exists>p \<in> set proofs.
             tb_NodeUUID (rp_Tombstone p) = ni_NodeUUID (cm_identity m) \<and>
             tb_AdmissionEpoch (rp_Tombstone p) = snd (currentAdmission m) \<and>
             verifyRemovalProof cy p (cm_clusterID m) m \<and>
             (tb_By (rp_Tombstone p) = relayUUID \<or> (\<exists>en \<in> set (rp_Endorsements p). eo_By en = relayUUID))))"

definition rejection_for :: "string \<Rightarrow> Manager \<Rightarrow> RemovalProof list" where
  "rejection_for uuid m =
     (if uuid = [] then []
      else case List.find (\<lambda>p. tb_NodeUUID (rp_Tombstone p) = uuid) (sorted_proofs (cm_removalProofs m)) of
        None \<Rightarrow> []
      | Some p \<Rightarrow> [p])"

datatype reconcileOutcome = reconcileUnreachable | reconcileAccepted | reconcileRejected bool

text \<open>
  The peers a round talks to, and the tail of \<open>reconcilePeersAndMaybeSelfRemove\<close> once every one has an
  outcome (\<open>reconcileRejected True\<close> is a rejection with a proof).
\<close>

definition round_peers :: "Manager \<Rightarrow> ClusterNode list" where
  "round_peers m = filter (\<lambda>n. cn_NodeUUID n \<noteq> ni_NodeUUID (cm_identity m) \<and> cn_State n = stateMember) (snapshotNodes m)"

definition remove_bare_peer :: "string \<Rightarrow> ClusterNode \<Rightarrow> Manager \<times> bool \<Rightarrow> Manager \<times> bool" where
  "remove_bare_peer clusterID rejected s =
     (let (m, changed) = s; uuid = cn_NodeUUID rejected in
      case (memberByNodeID uuid m, trust_Get uuid m) of
        (Some current, Some pin) \<Rightarrow>
          if cn_ClusterID current \<noteq> clusterID \<or> tp_ClusterID pin \<noteq> clusterID \<or>
             cn_AdmissionEpoch current \<noteq> cn_AdmissionEpoch rejected \<or> tp_AdmissionEpoch pin \<noteq> cn_AdmissionEpoch rejected
          then s
          else (case trust_Remove uuid m of
                  (m1, False) \<Rightarrow> (m1, changed)
                | (m1, True) \<Rightarrow> (let (m2, gone) = removeMemberByUUID uuid m1 in (m2, changed \<or> gone)))
      | _ \<Rightarrow> s)"

definition removeBareRejectingPeers :: "string \<Rightarrow> 64 word \<Rightarrow> ClusterNode list \<Rightarrow> Manager \<Rightarrow> Manager" where
  "removeBareRejectingPeers clusterID generation peers m =
     (if cm_clusterID m \<noteq> clusterID \<or> cm_clusterGen m \<noteq> generation then m
      else let (m1, changed) = fold (remove_bare_peer clusterID) peers (m, False)
           in if changed then emitNodesChanged (fst (persistMembersErr m1)) else m1)"

definition round_verdict :: "string \<Rightarrow> 64 word \<Rightarrow> (ClusterNode \<times> reconcileOutcome) list \<Rightarrow> Manager \<Rightarrow> Manager" where
  "round_verdict cid0 gen0 results m =
     (let bare = map fst (filter (\<lambda>r. snd r = reconcileRejected False) results);
          proven = (\<exists>r \<in> set results. snd r = reconcileRejected True);
          m1 = (if \<not> proven \<and> bare \<noteq> [] then removeBareRejectingPeers cid0 gen0 bare m else m)
      in if results = [] \<or> (\<exists>r \<in> set results. snd r = reconcileUnreachable \<or> snd r = reconcileAccepted) then m1
         else if \<not> proven then m1
         else if cm_clusterID m1 = [] \<or> cm_clusterID m1 \<noteq> cid0 \<or> cm_clusterGen m1 \<noteq> gen0 then m1
         else case teardownClusterLocalLocked m1 of
           (m2, False) \<Rightarrow> m2
         | (m2, True) \<Rightarrow> emitNodesChanged (emitIdentityChanged m2))"

subsection \<open>Start-up\<close>

definition load_pin :: "crypto \<Rightarrow> string \<Rightarrow> TrustedPin \<Rightarrow> trusted option" where
  "load_pin cy fileUUID pin =
     (case validatePin cy pin fileUUID of None \<Rightarrow> None | Some der \<Rightarrow>
      map_option (\<lambda>pub. \<lparr>tr_pin = pin, tr_der = der, tr_pub = pub\<rparr>) (pubFromDER cy der))"

fun load_pins :: "crypto \<Rightarrow> (string, TrustedPin) gomap \<Rightarrow> (string, trusted) gomap" where
  "load_pins cy [] = []"
| "load_pins cy ((f, pin) # fs) =
     (case load_pin cy f pin of None \<Rightarrow> load_pins cy fs | Some t \<Rightarrow> (tp_NodeUUID pin, t) # load_pins cy fs)"

definition members_on :: "Disk \<Rightarrow> (string, ClusterNode) gomap" where
  "members_on d = fold (\<lambda>n. mput (cn_NodeUUID n) n) (case dk_members d of None \<Rightarrow> [] | Some ns \<Rightarrow> ns) []"

definition tombstones_on :: "Disk \<Rightarrow> (string, Tombstone) gomap" where
  "tombstones_on d = fold (\<lambda>t. mput (tb_NodeUUID t) t) (case dk_tombstones d of None \<Rightarrow> [] | Some ts \<Rightarrow> ts) []"

definition load_proof :: "RemovalProof \<Rightarrow> (string, RemovalProof) gomap \<Rightarrow> (string, RemovalProof) gomap" where
  "load_proof p ps =
     (let t = rp_Tombstone p in
      if tb_NodeUUID t = [] \<or> tb_AdmissionEpoch t = 0 then ps
      else case mget ps (tb_NodeUUID t) of
        None \<Rightarrow> mput (tb_NodeUUID t) p ps
      | Some cur \<Rightarrow> if tb_AdmissionEpoch t > tb_AdmissionEpoch (rp_Tombstone cur) then mput (tb_NodeUUID t) p ps else ps)"

definition proofs_on :: "Disk \<Rightarrow> (string, RemovalProof) gomap" where
  "proofs_on d = fold load_proof (case dk_proofs d of None \<Rightarrow> [] | Some ps \<Rightarrow> ps) []"

definition invite_on :: "Disk \<Rightarrow> string option" where
  "invite_on d = (case dk_invite d of None \<Rightarrow> None | Some cid \<Rightarrow> if cid = [] then None else Some cid)"

definition rollbackIncompleteAdmission :: "Manager \<Rightarrow> Manager \<times> bool" where
  "rollbackIncompleteAdmission m =
     (if fst (currentAdmission m) \<noteq> [] \<or> snd (currentAdmission m) \<noteq> 0 then (m, True)
      else case memberByNodeID (ni_NodeUUID (cm_identity m)) m of
        None \<Rightarrow> (m, True)
      | Some self \<Rightarrow>
          if cn_ClusterID self = [] \<or> cn_AdmissionEpoch self = 0 then (m, True)
          else
            (let (m1, a) = drop_pins (pin_uuids m) m;
                 (m2, b) = persistMembersErr (resetMembership m1)
             in (m2, a \<and> b)))"

definition endorsePeer :: "crypto \<Rightarrow> int \<Rightarrow> string \<Rightarrow> string \<Rightarrow> epoch \<Rightarrow> Manager \<Rightarrow> Endorsement" where
  "endorsePeer cy now peerUUID fingerprint peerEpoch m =
     signEndorsement cy (ni_Signer (cm_identity m)) (ni_NodeUUID (cm_identity m)) peerUUID fingerprint (cm_clusterID m) now
       peerEpoch (snd (currentAdmission m))"

primrec endorse_pins :: "crypto \<Rightarrow> int \<Rightarrow> string \<Rightarrow> epoch \<Rightarrow> TrustedPin list \<Rightarrow> Manager \<Rightarrow> Manager \<times> bool" where
  "endorse_pins cy now clusterID selfEpoch [] m = (m, True)"
| "endorse_pins cy now clusterID selfEpoch (pin # pins) m =
     (if tp_ClusterID pin \<noteq> clusterID \<or>
         (\<exists>en \<in> set (tp_Endorsements pin). eo_By en = ni_NodeUUID (cm_identity m) \<and> eo_AdmissionEpoch en = tp_AdmissionEpoch pin \<and>
            eo_ByAdmissionEpoch en = selfEpoch \<and>
            verifyEndorsement cy (selfPub cy m) (tp_NodeUUID pin) (tp_CertFingerprint pin) clusterID en)
      then endorse_pins cy now clusterID selfEpoch pins m
      else
        (let (m1, ok) = AddEndorsements (tp_NodeUUID pin)
               [endorsePeer cy now (tp_NodeUUID pin) (tp_CertFingerprint pin) (tp_AdmissionEpoch pin) m] m
         in if ok then endorse_pins cy now clusterID selfEpoch pins m1 else (m1, False)))"

definition migrated_member :: "string \<Rightarrow> epoch \<Rightarrow> Manager \<Rightarrow> ClusterNode \<Rightarrow> ClusterNode" where
  "migrated_member clusterID selfEpoch m n =
     (if cn_ClusterID n \<noteq> [] \<and> cn_ClusterID n \<noteq> clusterID then n
      else if cn_NodeUUID n = ni_NodeUUID (cm_identity m) then n\<lparr>cn_ClusterID := clusterID, cn_AdmissionEpoch := selfEpoch\<rparr>
      else case trust_Get (cn_NodeUUID n) m of
        None \<Rightarrow> n
      | Some pin \<Rightarrow> if tp_ClusterID pin = clusterID \<and> tp_AdmissionEpoch pin \<noteq> 0
                     then n\<lparr>cn_ClusterID := clusterID, cn_AdmissionEpoch := tp_AdmissionEpoch pin\<rparr> else n)"

definition migrateLegacyAdmissions :: "crypto \<Rightarrow> int \<Rightarrow> string \<Rightarrow> epoch \<Rightarrow> Manager \<Rightarrow> Manager \<times> bool" where
  "migrateLegacyAdmissions cy now clusterID selfEpoch m =
     (if clusterID = [] \<or> selfEpoch = 0 then (m, True)
      else case MigrateLegacyAdmissions clusterID m of
        (m1, False) \<Rightarrow> (m1, False)
      | (m1, True) \<Rightarrow>
          (case endorse_pins cy now clusterID selfEpoch (map tr_pin (mvals (cm_trust m1))) m1 of
             (m2, False) \<Rightarrow> (m2, False)
           | (m2, True) \<Rightarrow>
               (let ms = map (\<lambda>(u, n). (u, migrated_member clusterID selfEpoch m2 n)) (cm_members m2)
                in if ms \<noteq> cm_members m2 then persistMembersErr (m2\<lparr>cm_members := ms\<rparr>) else (m2, True))))"

definition authenticated_member :: "string \<Rightarrow> epoch \<Rightarrow> Manager \<Rightarrow> string \<Rightarrow> ClusterNode \<Rightarrow> bool" where
  "authenticated_member clusterID selfEpoch m uuid n \<longleftrightarrow>
     (if uuid = ni_NodeUUID (cm_identity m) then cn_ClusterID n = clusterID \<and> cn_AdmissionEpoch n = selfEpoch
      else case trust_Get uuid m of
        None \<Rightarrow> False
      | Some pin \<Rightarrow> cn_ClusterID n = clusterID \<and> tp_ClusterID pin = clusterID \<and> cn_AdmissionEpoch n \<noteq> 0 \<and>
          cn_AdmissionEpoch n = tp_AdmissionEpoch pin)"

primrec prune_pins :: "string \<Rightarrow> (string \<times> trusted) list \<Rightarrow> Manager \<Rightarrow> Manager \<times> bool" where
  "prune_pins clusterID [] m = (m, True)"
| "prune_pins clusterID (e # es) m =
     (if (case memberByNodeID (fst e) m of None \<Rightarrow> False
          | Some n \<Rightarrow> cn_ClusterID n = clusterID \<and> cn_AdmissionEpoch n \<noteq> 0 \<and> cn_AdmissionEpoch n = tp_AdmissionEpoch (tr_pin (snd e)))
      then prune_pins clusterID es m
      else (case trust_Remove (fst e) m of (m1, False) \<Rightarrow> (m1, False) | (m1, True) \<Rightarrow> prune_pins clusterID es m1))"

definition pruneUnauthenticatedMembers :: "string \<Rightarrow> epoch \<Rightarrow> Manager \<Rightarrow> Manager \<times> bool" where
  "pruneUnauthenticatedMembers clusterID selfEpoch m =
     (let ms = mkeep (authenticated_member clusterID selfEpoch m) (cm_members m);
          (m1, ok) = prune_pins clusterID (cm_trust m) (m\<lparr>cm_members := ms\<rparr>)
      in if \<not> ok then (m1, False)
         else if ms \<noteq> cm_members m then persistMembersErr (m1\<lparr>cm_clusterGen := cm_clusterGen m1 + 1\<rparr>)
         else (m1, True))"

definition refreshSelfMemberIdentity :: "Manager \<Rightarrow> Manager" where
  "refreshSelfMemberIdentity m =
     (let me = cm_identity m; (m1, changed) = updateMemberIdentity (ni_NodeUUID me) (ni_NodeID me) (ni_Name me) m
      in if changed then fst (persistMembersErr m1) else m1)"

primrec replay_proofs :: "crypto \<Rightarrow> string \<Rightarrow> RemovalProof list \<Rightarrow> Manager \<Rightarrow> bool \<Rightarrow> Manager \<times> bool option" where
  "replay_proofs cy cid [] m changed = (m, Some changed)"
| "replay_proofs cy cid (p # ps) m changed =
     (let t = rp_Tombstone p; u = tb_NodeUUID t in
      if u = ni_NodeUUID (cm_identity m) \<or> \<not> verifyRemovalProof cy p cid m then replay_proofs cy cid ps m changed
      else
        (let hit = (case trust_Get u m of None \<Rightarrow> False | Some pin \<Rightarrow> tp_AdmissionEpoch pin = tb_AdmissionEpoch t);
             (m1, ok) = (if hit then trust_Remove u m else (m, True))
         in if \<not> ok then (m1, None)
            else
              (let listed = (case memberByNodeID u m1 of None \<Rightarrow> False | Some n \<Rightarrow> cn_AdmissionEpoch n = tb_AdmissionEpoch t);
                   (m2, gone) = (if listed then removeMemberByUUID u m1 else (m1, False))
               in replay_proofs cy cid ps m2 (changed \<or> hit \<or> gone))))"

definition replayRemovalProofs :: "crypto \<Rightarrow> Manager \<Rightarrow> Manager \<times> bool" where
  "replayRemovalProofs cy m =
     (if fst (currentAdmission m) = [] then (m, True)
      else case replay_proofs cy (fst (currentAdmission m)) (sorted_proofs (cm_removalProofs m)) m False of
        (m1, None) \<Rightarrow> (m1, False)
      | (m1, Some changed) \<Rightarrow> if changed then persistMembersErr m1 else (m1, True))"

text \<open>The steps of a start, each run when the one before succeeded.\<close>

definition and_then :: "Manager \<times> bool \<Rightarrow> (Manager \<Rightarrow> Manager \<times> bool) \<Rightarrow> Manager \<times> bool" where
  "and_then r f = (if snd r then f (fst r) else (fst r, False))"

definition fresh_manager :: "crypto \<Rightarrow> NodeIdentity \<Rightarrow> int \<Rightarrow> Disk \<Rightarrow> bool list \<Rightarrow> Manager" where
  "fresh_manager cy me port d io =
     \<lparr>cm_identity = me, cm_port = port, cm_trust = load_pins cy (dk_pins d), cm_clusterID = [], cm_clusterFriendlyName = [],
      cm_inviteCreated = None, cm_admission = admissionState0, cm_clusterGen = 0, cm_members = [], cm_tombstones = [],
      cm_removalProofs = [], cm_clusterTornDown = False, cm_teardownPending = False, cm_observedPeerHosts = [],
      cm_disk = d, cm_io = io, cm_out = []\<rparr>"

definition restored :: "Manager \<Rightarrow> Manager" where
  "restored m =
     m\<lparr>cm_clusterID := (if fst (currentAdmission m) \<noteq> [] \<and> snd (currentAdmission m) \<noteq> 0 then fst (currentAdmission m) else []),
       cm_clusterTornDown := as_Retired (cm_admission m), cm_members := members_on (cm_disk m)\<rparr>"

definition adopt_admission :: "crypto \<Rightarrow> int \<Rightarrow> Manager \<Rightarrow> Manager \<times> bool" where
  "adopt_admission cy now m =
     (let (cid, ep) = currentAdmission m in
      if cid \<noteq> [] \<and> ep \<noteq> 0
      then and_then (migrateLegacyAdmissions cy now cid ep m) (pruneUnauthenticatedMembers cid ep) else (m, True))"

definition load_rest :: "Manager \<Rightarrow> Manager" where
  "load_rest m =
     (let m1 = refreshSelfMemberIdentity m
      in m1\<lparr>cm_tombstones := tombstones_on (cm_disk m1), cm_removalProofs := proofs_on (cm_disk m1),
            cm_inviteCreated := invite_on (cm_disk m1)\<rparr>)"

definition NewManager :: "crypto \<Rightarrow> int \<Rightarrow> NodeIdentity \<Rightarrow> int \<Rightarrow> Disk \<Rightarrow> bool list \<Rightarrow> Manager \<times> bool" where
  "NewManager cy now me port d io =
     (case loadAdmission (fresh_manager cy me port d io) of
        None \<Rightarrow> (fresh_manager cy me port d io, False)
      | Some m \<Rightarrow>
          and_then (and_then (and_then (rollbackIncompleteAdmission (restored m)) (adopt_admission cy now))
            (\<lambda>m. recoverPendingTeardown (load_rest m))) (replayRemovalProofs cy))"


subsection \<open>What a start finds\<close>

text \<open>The parts of the state a teardown is about, and the operations that leave them alone.\<close>

definition ledger ::
  "Manager \<Rightarrow> (string, trusted) gomap \<times> admissionState \<times> (string, TrustedPin) gomap \<times> bool \<times> admissionState option" where
  "ledger m = (cm_trust m, cm_admission m, dk_pins (cm_disk m), dk_marker (cm_disk m), dk_admission (cm_disk m))"

named_theorems keeps_ledger \<open>operations that touch neither pins nor admission nor the journal\<close>

lemma ledger_eqD:
  assumes "ledger m' = ledger m"
  shows "cm_trust m' = cm_trust m" "cm_admission m' = cm_admission m" "dk_pins (cm_disk m') = dk_pins (cm_disk m)"
    "dk_marker (cm_disk m') = dk_marker (cm_disk m)" "dk_admission (cm_disk m') = dk_admission (cm_disk m)"
  using assms by (simp_all add: ledger_def)

lemma put_disk_disk: "cm_disk (put_disk f m) = (if io_ok m then f (cm_disk m) else cm_disk m)"
  by (simp add: put_disk_def io_step_def)

lemma ledger_members [keeps_ledger]:
  "ledger (m\<lparr>cm_members := x1\<rparr>) = ledger m" "ledger (m\<lparr>cm_clusterGen := x2\<rparr>) = ledger m"
  "ledger (resetMembership m) = ledger m" "ledger (fst (removeMemberByUUID u m)) = ledger m"
  "ledger (fst (persistMembersErr m)) = ledger m" "ledger (fst (updateMemberIdentity u i n m)) = ledger m"
  "ledger (announce c m) = ledger m"
  by (simp_all add: ledger_def resetMembership_def removeMemberByUUID_def persistMembersErr_def updateMemberIdentity_def
      announce_def put_disk_def io_step_def Let_def split: option.split)

lemma ledger_evidence [keeps_ledger]:
  "ledger (fst (clearAllTombstones m)) = ledger m" "ledger (fst (clearAllRemovalProofs m)) = ledger m"
  "ledger (fst (clearInviteCreatedCluster m)) = ledger m" "ledger (refreshSelfMemberIdentity m) = ledger m"
  "ledger (load_rest m) = ledger m"
proof -
  show "ledger (fst (clearAllTombstones m)) = ledger m" "ledger (fst (clearAllRemovalProofs m)) = ledger m"
    "ledger (fst (clearInviteCreatedCluster m)) = ledger m"
    by (simp_all add: ledger_def clearAllTombstones_def clearAllRemovalProofs_def clearInviteCreatedCluster_def
        replace_tombstones_def replace_proofs_def put_disk_def io_step_def Let_def)
  show r: "ledger (refreshSelfMemberIdentity m) = ledger m"
    by (simp add: refreshSelfMemberIdentity_def Let_def case_prod_beta keeps_ledger)
  show "ledger (load_rest m) = ledger m"
    using r by (simp add: load_rest_def Let_def ledger_def)
qed

text \<open>
  The trust store and its directory: one entry per name, pins filed under their node, and every pin file a
  start would load is pinned. The admission in memory can be written and read back.
\<close>

definition stored_ok :: "crypto \<Rightarrow> Manager \<Rightarrow> bool" where
  "stored_ok cy m \<longleftrightarrow> trust_ok cy m \<and> wf_map (cm_trust m) \<and> wf_map (dk_pins (cm_disk m)) \<and>
     (\<forall>u pin. mget (dk_pins (cm_disk m)) u = Some pin \<longrightarrow> load_pin cy u pin \<noteq> None \<longrightarrow> mget (cm_trust m) u \<noteq> None) \<and>
     as_Activated (cm_admission m) \<le> as_Counter (cm_admission m)"

definition admission_readable :: "Disk \<Rightarrow> bool" where
  "admission_readable d \<longleftrightarrow>
     (case dk_admission d of
        None \<Rightarrow> True
      | Some st \<Rightarrow> as_Epoch st \<le> as_Counter st \<and> as_Activated st \<le> as_Counter st \<and>
          (as_Epoch st \<le> as_Activated st \<or> as_Activated st = 0) \<and> (as_ClusterID st = [] \<longleftrightarrow> as_Epoch st = 0))"

lemma loadAdmission_iff: "loadAdmission m = None \<longleftrightarrow> \<not> admission_readable (cm_disk m)"
  by (auto simp: loadAdmission_def admission_readable_def Let_def not_le split: option.split)

lemma loadAdmission_Some:
  assumes "loadAdmission m = Some m'" "cm_admission m = admissionState0"
  shows "cm_trust m' = cm_trust m" "cm_disk m' = cm_disk m" "as_Activated (cm_admission m') \<le> as_Counter (cm_admission m')"
    "cm_io m' = cm_io m"
  using assms by (auto simp: loadAdmission_def Let_def admissionState0_def not_less split: option.splits if_splits)

lemma stored_ok_ledger: "ledger m' = ledger m \<Longrightarrow> stored_ok cy m' = stored_ok cy m"
  by (simp add: stored_ok_def trust_ok_def ledger_def)

lemma writePin_disk:
  "ledger (fst (writePinLocked pin der pub m)) =
     (if io_ok m then (mput (tp_NodeUUID pin) \<lparr>tr_pin = pin, tr_der = der, tr_pub = pub\<rparr> (cm_trust m), cm_admission m,
        mput (tp_NodeUUID pin) pin (dk_pins (cm_disk m)), dk_marker (cm_disk m), dk_admission (cm_disk m)) else ledger m)"
  by (simp add: ledger_def writePinLocked_def put_disk_def io_step_def Let_def)

lemma rewrite_stored:
  assumes ok: "stored_ok cy m" and t: "mget (cm_trust m) u = Some t"
    and p: "tp_NodeUUID p = tp_NodeUUID (tr_pin t)" "tp_CertPem p = tp_CertPem (tr_pin t)" "tp_AdmissionEpoch p = ep"
  shows "stored_ok cy (fst (writePinLocked p (tr_der t) (tr_pub t) m))"
proof (cases "io_ok m")
  case False
  then have "ledger (fst (writePinLocked p (tr_der t) (tr_pub t) m)) = ledger m" by (simp add: writePin_disk)
  then show ?thesis using ok stored_ok_ledger by metis
next
  case True
  let ?m = "fst (writePinLocked p (tr_der t) (tr_pub t) m)"
  have tok: "trust_ok cy m" using ok by (simp add: stored_ok_def)
  note tp = trust_okD [OF tok t]
  have l: "cm_trust ?m = mput u \<lparr>tr_pin = p, tr_der = tr_der t, tr_pub = tr_pub t\<rparr> (cm_trust m)"
    "cm_admission ?m = cm_admission m" "dk_pins (cm_disk ?m) = mput u p (dk_pins (cm_disk m))"
    using writePin_disk [of p "tr_der t" "tr_pub t" m] True p(1) tp(1) by (simp_all add: ledger_def)
  have "trust_ok cy ?m" by (rule trust_ok_mput [OF tok l(1)]) (use p tp in simp_all)
  moreover have "wf_map (cm_trust ?m)" "wf_map (dk_pins (cm_disk ?m))" using ok by (simp_all add: stored_ok_def l)
  moreover have "mget (cm_trust ?m) v \<noteq> None" if "mget (dk_pins (cm_disk ?m)) v = Some pin" "load_pin cy v pin \<noteq> None" for v pin
    using ok that unfolding l(1,3) stored_ok_def by (cases "v = u") (simp_all add: mget_mput)
  ultimately show ?thesis using ok by (simp add: stored_ok_def l(2))
qed

lemma remove_stored:
  assumes ok: "stored_ok cy m"
  shows "stored_ok cy (fst (trust_Remove u m))" "cm_admission (fst (trust_Remove u m)) = cm_admission m"
    "dk_marker (cm_disk (fst (trust_Remove u m))) = dk_marker (cm_disk m)"
    "dk_admission (cm_disk (fst (trust_Remove u m))) = dk_admission (cm_disk m)"
    "cm_trust (fst (trust_Remove u m)) = (if snd (trust_Remove u m) then mdel u (cm_trust m) else cm_trust m)"
    "snd (trust_Remove u m) \<Longrightarrow> mget (dk_pins (cm_disk (fst (trust_Remove u m)))) v =
       (if v = u then None else mget (dk_pins (cm_disk m)) v)"
    "\<not> snd (trust_Remove u m) \<Longrightarrow> dk_pins (cm_disk (fst (trust_Remove u m))) = dk_pins (cm_disk m)"
proof -
  let ?m = "fst (trust_Remove u m)" and ?ok = "snd (trust_Remove u m)"
  have eq: "?ok = (io_ok m \<or> mget (dk_pins (cm_disk m)) u = None)"
    "dk_pins (cm_disk ?m) = (if io_ok m then mdel u (dk_pins (cm_disk m)) else dk_pins (cm_disk m))"
    by (simp_all add: trust_Remove_def Let_def put_disk_disk announce_def)
  show adm: "cm_admission ?m = cm_admission m" and "dk_marker (cm_disk ?m) = dk_marker (cm_disk m)"
    and "dk_admission (cm_disk ?m) = dk_admission (cm_disk m)"
    by (simp_all add: trust_Remove_def Let_def put_disk_def io_step_def announce_def)
  show tr: "cm_trust ?m = (if ?ok then mdel u (cm_trust m) else cm_trust m)"
    by (simp add: trust_Remove_def Let_def keeps_trust)
  show gone: "mget (dk_pins (cm_disk ?m)) v = (if v = u then None else mget (dk_pins (cm_disk m)) v)" if ?ok for v
    using that by (auto simp: eq mget_mdel)
  show "dk_pins (cm_disk ?m) = dk_pins (cm_disk m)" if "\<not> ?ok"
    using that by (simp add: eq)
  have "trust_ok cy ?m" using trust_Remove_effect(1) [of cy m u] ok by (simp add: stored_ok_def)
  moreover have "wf_map (cm_trust ?m)" "wf_map (dk_pins (cm_disk ?m))" using ok by (simp_all add: stored_ok_def tr eq)
  moreover have "mget (cm_trust ?m) v \<noteq> None" if "mget (dk_pins (cm_disk ?m)) v = Some pin" "load_pin cy v pin \<noteq> None" for v pin
    using ok that gone unfolding stored_ok_def by (cases ?ok) (auto simp: tr mget_mdel eq split: if_splits)
  ultimately show "stored_ok cy ?m" using ok by (simp add: stored_ok_def adm)
qed


text \<open>Steps that keep the store sound and the journal marker where it is.\<close>

definition steady :: "crypto \<Rightarrow> Manager \<Rightarrow> Manager \<Rightarrow> bool" where
  "steady cy m m' \<longleftrightarrow> (stored_ok cy m \<longrightarrow> stored_ok cy m') \<and> cm_admission m' = cm_admission m \<and>
     dk_marker (cm_disk m') = dk_marker (cm_disk m) \<and> dk_admission (cm_disk m') = dk_admission (cm_disk m)"

lemma steady_refl [simp]: "steady cy m m"
  by (simp add: steady_def)

lemma steady_trans: "steady cy m m1 \<Longrightarrow> steady cy m1 m2 \<Longrightarrow> steady cy m m2"
  by (simp add: steady_def)

lemma steady_ledger: "ledger m' = ledger m \<Longrightarrow> steady cy m m'"
  using stored_ok_ledger ledger_eqD unfolding steady_def by metis

lemma steady_remove: "steady cy m (fst (trust_Remove u m))"
proof -
  have "cm_admission (fst (trust_Remove u m)) = cm_admission m" "dk_marker (cm_disk (fst (trust_Remove u m))) = dk_marker (cm_disk m)"
    "dk_admission (cm_disk (fst (trust_Remove u m))) = dk_admission (cm_disk m)"
    by (simp_all add: trust_Remove_def Let_def put_disk_def io_step_def announce_def)
  then show ?thesis using remove_stored(1) by (simp add: steady_def)
qed

lemma steady_rewrite:
  assumes "mget (cm_trust m) u = Some t" "tp_NodeUUID p = tp_NodeUUID (tr_pin t)" "tp_CertPem p = tp_CertPem (tr_pin t)"
  shows "steady cy m (fst (writePinLocked p (tr_der t) (tr_pub t) m))"
  using rewrite_stored [OF _ assms refl] by (simp add: steady_def writePinLocked_def put_disk_def io_step_def Let_def)

lemma steady_AddEndorsements: "steady cy m (fst (AddEndorsements u es m))"
proof (cases "mget (cm_trust m) u")
  case None
  then show ?thesis by (simp add: AddEndorsements_def mergeEndorsementsLocked_def steady_ledger keeps_ledger)
next
  case (Some t)
  let ?p = "(tr_pin t)\<lparr>tp_Endorsements := union_by endorsementKey (tp_Endorsements (tr_pin t)) es\<rparr>"
  let ?w = "fst (mergeEndorsementsLocked u es m)"
  have "steady cy m (fst (writePinLocked ?p (tr_der t) (tr_pub t) m))" by (rule steady_rewrite [OF Some]) simp_all
  then have "steady cy m ?w" using Some by (simp add: mergeEndorsementsLocked_def Let_def)
  moreover have "steady cy ?w (announce c ?w)" for c by (rule steady_ledger) (simp add: keeps_ledger)
  ultimately show ?thesis using steady_trans by (auto simp: AddEndorsements_def case_prod_beta)
qed

lemma mget_writePin:
  "mget (cm_trust (fst (writePinLocked p d k m))) v =
     (if io_ok m \<and> v = tp_NodeUUID p then Some \<lparr>tr_pin = p, tr_der = d, tr_pub = k\<rparr> else mget (cm_trust m) v)"
  by (simp add: writePin_effect mget_mput)

lemma steady_migrate_pins:
  assumes "\<forall>t \<in> set ts. mget (cm_trust m) (tp_NodeUUID (tr_pin t)) = Some t" "distinct (map (\<lambda>t. tp_NodeUUID (tr_pin t)) ts)"
  shows "steady cy m (fst (migrate_pins cid ts m c))"
  using assms
proof (induction ts arbitrary: m c)
  case Nil
  then show ?case by simp
next
  case (Cons t ts)
  let ?p = "migrated_pin cid (tr_pin t)" let ?w = "writePinLocked ?p (tr_der t) (tr_pub t) m"
  have u: "tp_NodeUUID ?p = tp_NodeUUID (tr_pin t)" "tp_CertPem ?p = tp_CertPem (tr_pin t)" by (simp_all add: migrated_pin_def)
  have w: "steady cy m (fst ?w)" using Cons.prems(1) by (intro steady_rewrite [where u = "tp_NodeUUID (tr_pin t)", OF _ u]) simp
  have "mget (cm_trust (fst ?w)) (tp_NodeUUID (tr_pin s)) = Some s" if s: "s \<in> set ts" for s
  proof -
    have "tp_NodeUUID (tr_pin t) \<notin> set (map (\<lambda>t. tp_NodeUUID (tr_pin t)) ts)" using Cons.prems(2) by simp
    with s have "tp_NodeUUID (tr_pin s) \<noteq> tp_NodeUUID ?p" unfolding u by (auto simp: image_iff)
    then show ?thesis using Cons.prems(1) s by (simp add: mget_writePin)
  qed
  then have rest: "\<forall>t \<in> set ts. mget (cm_trust (fst ?w)) (tp_NodeUUID (tr_pin t)) = Some t" by blast
  have d: "distinct (map (\<lambda>t. tp_NodeUUID (tr_pin t)) ts)" and r: "\<forall>t \<in> set ts. mget (cm_trust m) (tp_NodeUUID (tr_pin t)) = Some t"
    using Cons.prems by simp_all
  have eq: "fst (migrate_pins cid (t # ts) m c) =
     (if ?p = tr_pin t then fst (migrate_pins cid ts m c)
      else if snd ?w then fst (migrate_pins cid ts (fst ?w) True) else fst ?w)"
    by (simp add: Let_def case_prod_beta)
  show ?case unfolding eq using w Cons.IH [OF r d] steady_trans [OF w Cons.IH [OF rest d]] by simp
qed

lemma pins_listed:
  assumes "trust_ok cy m" "wf_map (cm_trust m)"
  shows "\<forall>t \<in> set (mvals (cm_trust m)). mget (cm_trust m) (tp_NodeUUID (tr_pin t)) = Some t"
    "distinct (map (\<lambda>t. tp_NodeUUID (tr_pin t)) (mvals (cm_trust m)))"
proof -
  have key: "tp_NodeUUID (tr_pin t) = u" if "(u, t) \<in> set (cm_trust m)" for u t
    using that trust_okD(1) [OF assms(1)] mget_in_set [OF assms(2)] by blast
  show "\<forall>t \<in> set (mvals (cm_trust m)). mget (cm_trust m) (tp_NodeUUID (tr_pin t)) = Some t"
    using key mget_in_set [OF assms(2)] by (fastforce simp: mvals_def)
  have "map (\<lambda>t. tp_NodeUUID (tr_pin t)) (mvals (cm_trust m)) = map fst (cm_trust m)"
    unfolding mvals_def by (simp add: o_def) (use key in force)
  then show "distinct (map (\<lambda>t. tp_NodeUUID (tr_pin t)) (mvals (cm_trust m)))" using assms(2) by (simp add: wf_map_def)
qed

lemma steady_endorse_pins: "steady cy m (fst (endorse_pins cy now cid ep ps m))"
proof (induction ps arbitrary: m)
  case (Cons p ps)
  show ?case using Cons.IH steady_trans [OF steady_AddEndorsements Cons.IH] steady_AddEndorsements
    by (simp add: Let_def case_prod_beta)
qed simp

lemma steady_persist: "steady cy m m' \<Longrightarrow> steady cy m (fst (persistMembersErr m'))"
  by (rule steady_trans) (auto intro: steady_ledger simp: keeps_ledger)

lemma steady_prune_pins: "steady cy m (fst (prune_pins cid es m))"
proof (induction es arbitrary: m)
  case (Cons e es)
  obtain m1 ok where r: "trust_Remove (fst e) m = (m1, ok)" by force
  have "steady cy m m1" using steady_remove [of cy m "fst e"] by (simp add: r)
  then show ?case using Cons.IH [of m] steady_trans [OF _ Cons.IH [of m1]] by (cases ok) (simp_all add: r)
qed simp


text \<open>A step of the start that may fail: the journal and the admission are as before, and a success is sound.\<close>

definition stage :: "crypto \<Rightarrow> Manager \<Rightarrow> Manager \<times> bool \<Rightarrow> bool" where
  "stage cy m r \<longleftrightarrow> cm_admission (fst r) = cm_admission m \<and> dk_marker (cm_disk (fst r)) = dk_marker (cm_disk m) \<and>
     dk_admission (cm_disk (fst r)) = dk_admission (cm_disk m) \<and> wf_map (dk_pins (cm_disk (fst r))) \<and>
     (snd r \<longrightarrow> stored_ok cy (fst r))"

lemma stage_steady: "stored_ok cy m \<Longrightarrow> steady cy m (fst r) \<Longrightarrow> stage cy m r"
  by (simp add: stage_def steady_def stored_ok_def)

lemma stage_ledger:
  assumes "stage cy m r" "ledger m' = ledger (fst r)" "b \<Longrightarrow> snd r"
  shows "stage cy m (m', b)"
  using assms stored_ok_ledger [OF assms(2)] ledger_eqD [OF assms(2)] unfolding stage_def fst_conv snd_conv by metis

lemma stage_and_then:
  assumes "stage cy m r" "\<And>m1. stored_ok cy m1 \<Longrightarrow> stage cy m1 (f m1)"
  shows "stage cy m (and_then r f)"
proof (cases "snd r")
  case True
  then have "stored_ok cy (fst r)" using assms(1) by (simp add: stage_def)
  from assms(2) [OF this] show ?thesis using True assms(1) by (simp add: and_then_def stage_def)
next
  case False
  then show ?thesis using assms(1) by (simp add: and_then_def stage_def)
qed

lemma forget_fields:
  "cm_trust (trust_Forget u m) = mdel u (cm_trust m)" "cm_disk (trust_Forget u m) = cm_disk m"
  "cm_admission (trust_Forget u m) = cm_admission m" "cm_io (trust_Forget u m) = cm_io m"
  by (simp_all add: trust_Forget_def announce_def)

lemma remove_fields:
  "cm_trust (fst (trust_Remove u m)) = (if snd (trust_Remove u m) then mdel u (cm_trust m) else cm_trust m)"
  "cm_admission (fst (trust_Remove u m)) = cm_admission m"
  "dk_marker (cm_disk (fst (trust_Remove u m))) = dk_marker (cm_disk m)"
  "dk_admission (cm_disk (fst (trust_Remove u m))) = dk_admission (cm_disk m)"
  "dk_tombstones (cm_disk (fst (trust_Remove u m))) = dk_tombstones (cm_disk m)"
  "dk_proofs (cm_disk (fst (trust_Remove u m))) = dk_proofs (cm_disk m)"
  "cm_tombstones (fst (trust_Remove u m)) = cm_tombstones m" "cm_removalProofs (fst (trust_Remove u m)) = cm_removalProofs m"
  "wf_map (dk_pins (cm_disk m)) \<Longrightarrow> wf_map (dk_pins (cm_disk (fst (trust_Remove u m))))"
  by (simp_all add: trust_Remove_def Let_def put_disk_def io_step_def announce_def)

lemma drop_pins_Cons:
  "fst (drop_pins (u # us) m) =
     fst (drop_pins us (if snd (trust_Remove u m) then fst (trust_Remove u m) else trust_Forget u (fst (trust_Remove u m))))"
  "snd (drop_pins (u # us) m) \<longleftrightarrow> snd (trust_Remove u m) \<and> snd (drop_pins us (fst (trust_Remove u m)))"
  by (auto simp: Let_def case_prod_beta)

lemma drop_pins_fields:
  "cm_trust (fst (drop_pins us m)) = fold mdel us (cm_trust m) \<and> cm_admission (fst (drop_pins us m)) = cm_admission m \<and>
   dk_marker (cm_disk (fst (drop_pins us m))) = dk_marker (cm_disk m) \<and>
   dk_admission (cm_disk (fst (drop_pins us m))) = dk_admission (cm_disk m) \<and>
   dk_tombstones (cm_disk (fst (drop_pins us m))) = dk_tombstones (cm_disk m) \<and>
   dk_proofs (cm_disk (fst (drop_pins us m))) = dk_proofs (cm_disk m) \<and>
   cm_tombstones (fst (drop_pins us m)) = cm_tombstones m \<and> cm_removalProofs (fst (drop_pins us m)) = cm_removalProofs m \<and>
   (wf_map (dk_pins (cm_disk m)) \<longrightarrow> wf_map (dk_pins (cm_disk (fst (drop_pins us m)))))"
proof (induction us arbitrary: m)
  case (Cons u us)
  let ?n = "if snd (trust_Remove u m) then fst (trust_Remove u m) else trust_Forget u (fst (trust_Remove u m))"
  have keep: "cm_tombstones (trust_Forget u x) = cm_tombstones x" "cm_removalProofs (trust_Forget u x) = cm_removalProofs x" for x
    by (simp_all add: trust_Forget_def announce_def)
  show ?case unfolding drop_pins_Cons(1) using Cons.IH [of ?n] by (simp add: remove_fields forget_fields keep)
qed simp

lemma drop_pins_ok:
  assumes "stored_ok cy m" "snd (drop_pins us m)"
  shows "stored_ok cy (fst (drop_pins us m)) \<and> (\<forall>u. mget (dk_pins (cm_disk (fst (drop_pins us m)))) u =
     (if u \<in> set us then None else mget (dk_pins (cm_disk m)) u))"
  using assms
proof (induction us arbitrary: m)
  case (Cons v us)
  have ok: "snd (trust_Remove v m)" "snd (drop_pins us (fst (trust_Remove v m)))" using Cons.prems(2) by (simp_all only: drop_pins_Cons)
  note rm = remove_stored [OF Cons.prems(1), of v]
  have eq: "fst (drop_pins (v # us) m) = fst (drop_pins us (fst (trust_Remove v m)))"
    unfolding drop_pins_Cons(1) using ok(1) by simp
  show ?case unfolding eq using Cons.IH [OF rm(1) ok(2)] rm(6) [OF ok(1)] by auto
qed simp

lemma set_fold_mdel: "set (fold mdel us xs) = {e \<in> set xs. fst e \<notin> set us}"
  by (induction us arbitrary: xs) (auto simp: mdel_def)

text \<open>Dropping every pin empties the store, and with no failure also what a start would load.\<close>

lemma drop_all_pins:
  assumes ok: "stored_ok cy m"
  shows "cm_trust (fst (drop_pins (pin_uuids m) m)) = []"
    "snd (drop_pins (pin_uuids m) m) \<Longrightarrow> load_pins cy (dk_pins (cm_disk (fst (drop_pins (pin_uuids m) m)))) = []"
proof -
  have t: "trust_ok cy m" "wf_map (cm_trust m)" using ok by (simp_all add: stored_ok_def)
  have key: "u \<in> set (pin_uuids m)" if "mget (cm_trust m) u = Some t" for u t
    using that mget_in_set [OF t(2)] trust_okD(1) [OF t(1) that] by (force simp: pin_uuids_def mvals_def)
  have "set (fold mdel (pin_uuids m) (cm_trust m)) = {}"
  proof (rule equals0I)
    fix e
    assume "e \<in> set (fold mdel (pin_uuids m) (cm_trust m))"
    then have "(fst e, snd e) \<in> set (cm_trust m)" "fst e \<notin> set (pin_uuids m)" by (simp_all add: set_fold_mdel)
    then show False using key mget_in_set [OF t(2)] by blast
  qed
  then show "cm_trust (fst (drop_pins (pin_uuids m) m)) = []" using drop_pins_fields [of "pin_uuids m" m] by simp
  have nil: "load_pins cy ps = []" if "\<forall>(f, p) \<in> set ps. load_pin cy f p = None" for ps
    using that by (induction ps) auto
  show "load_pins cy (dk_pins (cm_disk (fst (drop_pins (pin_uuids m) m)))) = []" if d: "snd (drop_pins (pin_uuids m) m)"
  proof (rule nil, clarify)
    fix f p
    assume e: "(f, p) \<in> set (dk_pins (cm_disk (fst (drop_pins (pin_uuids m) m))))"
    note dp = drop_pins_ok [OF ok d]
    have "wf_map (dk_pins (cm_disk (fst (drop_pins (pin_uuids m) m))))" using dp unfolding stored_ok_def by blast
    from mget_in_set [OF this] e have "mget (dk_pins (cm_disk (fst (drop_pins (pin_uuids m) m)))) f = Some p" by blast
    then have "f \<notin> set (pin_uuids m)" "mget (dk_pins (cm_disk m)) f = Some p" using dp by (auto split: if_splits)
    then show "load_pin cy f p = None" using ok key unfolding stored_ok_def by blast
  qed
qed

lemma rollback_stage:
  assumes ok: "stored_ok cy m"
  shows "stage cy m (rollbackIncompleteAdmission m)"
proof -
  let ?d = "drop_pins (pin_uuids m) m" let ?r = "persistMembersErr (resetMembership (fst ?d))"
  have "wf_map (dk_pins (cm_disk m))" using ok by (simp add: stored_ok_def)
  then have d: "stage cy m ?d" using drop_pins_fields [of "pin_uuids m" m] drop_pins_ok [OF ok, of "pin_uuids m"]
    unfolding stage_def by blast
  have "stage cy m (fst ?r, snd ?d \<and> snd ?r)" by (rule stage_ledger [OF d]) (simp_all add: keeps_ledger)
  then show ?thesis using stage_steady [OF ok, of "(m, True)"]
    by (auto simp: rollbackIncompleteAdmission_def Let_def case_prod_beta split: option.split)
qed


lemma migrate_steady:
  assumes ok: "stored_ok cy m"
  shows "steady cy m (fst (migrateLegacyAdmissions cy now cid ep m))"
proof -
  let ?g = "MigrateLegacyAdmissions cid m"
  let ?e = "endorse_pins cy now cid ep (map tr_pin (mvals (cm_trust (fst ?g)))) (fst ?g)"
  let ?n = "(fst ?e)\<lparr>cm_members := map (\<lambda>(u, n). (u, migrated_member cid ep (fst ?e) n)) (cm_members (fst ?e))\<rparr>"
  have "trust_ok cy m" "wf_map (cm_trust m)" using ok by (simp_all add: stored_ok_def)
  then have "steady cy m (fst (migrate_pins cid (mvals (cm_trust m)) m False))"
    by (intro steady_migrate_pins pins_listed)
  then have g: "steady cy m (fst ?g)"
    using steady_trans steady_ledger [OF ledger_members(7)] by (auto simp: MigrateLegacyAdmissions_def case_prod_beta)
  have e: "steady cy m (fst ?e)" by (rule steady_trans [OF g steady_endorse_pins])
  have n: "steady cy m ?n" by (rule steady_trans [OF e steady_ledger]) (simp add: keeps_ledger)
  have eq: "fst (migrateLegacyAdmissions cy now cid ep m) =
     (if cid = [] \<or> ep = 0 then m else if \<not> snd ?g then fst ?g else if \<not> snd ?e then fst ?e
      else if cm_members ?n \<noteq> cm_members (fst ?e) then fst (persistMembersErr ?n) else fst ?e)"
    by (simp add: migrateLegacyAdmissions_def Let_def case_prod_beta split: prod.split bool.split)
  show ?thesis unfolding eq using g e steady_persist [OF n] by simp
qed

lemma prune_steady: "steady cy m (fst (pruneUnauthenticatedMembers cid ep m))"
proof -
  define m0 where "m0 = m\<lparr>cm_members := mkeep (authenticated_member cid ep m) (cm_members m)\<rparr>"
  let ?p = "prune_pins cid (cm_trust m) m0"
  have "steady cy m m0" by (rule steady_ledger) (simp add: m0_def keeps_ledger)
  then have p: "steady cy m (fst ?p)" using steady_trans steady_prune_pins by blast
  have g: "steady cy m ((fst ?p)\<lparr>cm_clusterGen := cm_clusterGen (fst ?p) + 1\<rparr>)"
    by (rule steady_trans [OF p steady_ledger]) (simp add: keeps_ledger)
  have eq: "fst (pruneUnauthenticatedMembers cid ep m) =
     (if \<not> snd ?p then fst ?p
      else if cm_members m0 \<noteq> cm_members m then fst (persistMembersErr ((fst ?p)\<lparr>cm_clusterGen := cm_clusterGen (fst ?p) + 1\<rparr>))
      else fst ?p)"
    by (simp add: pruneUnauthenticatedMembers_def Let_def case_prod_beta m0_def)
  show ?thesis unfolding eq using p steady_persist [OF g] by simp
qed

lemma adopt_stage:
  assumes "stored_ok cy m"
  shows "stage cy m (adopt_admission cy now m)"
proof -
  have "stage cy m (and_then (migrateLegacyAdmissions cy now cid ep m) (pruneUnauthenticatedMembers cid ep))" for cid ep
    by (intro stage_and_then stage_steady migrate_steady prune_steady assms)
  then show ?thesis using stage_steady [OF assms, of "(m, True)"] by (simp add: adopt_admission_def case_prod_beta)
qed

text \<open>What loading the files gives is sound.\<close>

lemma load_pin_Some:
  assumes "load_pin cy f pin = Some t"
  shows "tr_pin t = pin" "tp_NodeUUID pin = f" "certDER cy (tp_CertPem pin) f = Some (tr_der t)" "pubFromDER cy (tr_der t) = Some (tr_pub t)"
  using assms by (auto simp: load_pin_def validatePin_def split: option.splits if_splits)

lemma mget_load_pins:
  assumes "wf_map ps"
  shows "mget (load_pins cy ps) u = (case mget ps u of None \<Rightarrow> None | Some pin \<Rightarrow> load_pin cy u pin)" "wf_map (load_pins cy ps)"
proof -
  have "mget (load_pins cy ps) u = (case mget ps u of None \<Rightarrow> None | Some pin \<Rightarrow> load_pin cy u pin) \<and>
    wf_map (load_pins cy ps) \<and> fst ` set (load_pins cy ps) \<subseteq> fst ` set ps" for u
    using assms
  proof (induction ps)
    case (Cons e ps)
    obtain f pin where e: "e = (f, pin)" by force
    have wf: "wf_map ps" and new: "f \<notin> fst ` set ps" using Cons.prems by (auto simp: wf_map_def e)
    have none: "mget ps f = None" using new by (auto simp: mget_def map_of_eq_None_iff)
    show ?case
    proof (cases "load_pin cy f pin")
      case None
      then show ?thesis using Cons.IH [OF wf] none by (auto simp: e mget_Cons)
    next
      case (Some t)
      have "tp_NodeUUID pin = f" by (rule load_pin_Some(2) [OF Some])
      moreover have "f \<notin> fst ` set (load_pins cy ps)" using Cons.IH [OF wf] new by blast
      ultimately show ?thesis using Cons.IH [OF wf] Some by (auto simp: e mget_Cons wf_map_def)
    qed
  qed (simp add: wf_map_def)
  then show "mget (load_pins cy ps) u = (case mget ps u of None \<Rightarrow> None | Some pin \<Rightarrow> load_pin cy u pin)" "wf_map (load_pins cy ps)"
    by blast+
qed

lemma fresh_stored:
  assumes "wf_map (dk_pins d)"
  shows "stored_ok cy (fresh_manager cy me port d io)"
proof -
  let ?m = "fresh_manager cy me port d io"
  have f: "cm_trust ?m = load_pins cy (dk_pins d)" "cm_disk ?m = d" "cm_admission ?m = admissionState0"
    by (simp_all add: fresh_manager_def)
  have "trust_ok cy ?m"
    unfolding trust_ok_def f using load_pin_Some by (auto simp: mget_load_pins [OF assms] split: option.splits)
  then show ?thesis using assms by (simp add: stored_ok_def f mget_load_pins [OF assms] admissionState0_def)
qed

lemma restored_stored:
  assumes "wf_map (dk_pins d)" "loadAdmission (fresh_manager cy me port d io) = Some m"
  shows "stored_ok cy (restored m)" "cm_disk (restored m) = d" "cm_io (restored m) = io"
    "dk_marker (cm_disk (restored m)) = dk_marker d" "admission_readable d"
proof -
  have f: "cm_admission (fresh_manager cy me port d io) = admissionState0" "cm_disk (fresh_manager cy me port d io) = d"
    "cm_io (fresh_manager cy me port d io) = io"
    by (simp_all add: fresh_manager_def)
  note l = loadAdmission_Some [OF assms(2) f(1)]
  show "stored_ok cy (restored m)"
    using fresh_stored [OF assms(1), of cy me port io] l by (simp add: stored_ok_def trust_ok_def restored_def)
  show "cm_disk (restored m) = d" "cm_io (restored m) = io" "dk_marker (cm_disk (restored m)) = dk_marker d"
    using l f by (simp_all add: restored_def)
  show "admission_readable d" using loadAdmission_iff [of "fresh_manager cy me port d io"] assms(2) f(2) by simp
qed


subsection \<open>A teardown is completed\<close>

text \<open>Nothing of a cluster is left, neither in memory nor in what a later start would load.\<close>

definition cleared :: "crypto \<Rightarrow> Manager \<Rightarrow> bool" where
  "cleared cy m \<longleftrightarrow> cm_trust m = [] \<and> cm_members m = [] \<and> cm_tombstones m = [] \<and> cm_removalProofs m = [] \<and> cm_clusterID m = [] \<and>
     currentAdmission m = ([], 0) \<and> \<not> cm_teardownPending m \<and> cm_clusterTornDown m \<and>
     (let d = cm_disk m in load_pins cy (dk_pins d) = [] \<and> members_on d = [] \<and> tombstones_on d = [] \<and> proofs_on d = [] \<and>
        \<not> dk_marker d \<and> dk_admission d = Some (cm_admission m) \<and> dk_invite d = None)"

definition evidence_synced :: "Manager \<Rightarrow> bool" where
  "evidence_synced m \<longleftrightarrow> cm_tombstones m = tombstones_on (cm_disk m) \<and> cm_removalProofs m = proofs_on (cm_disk m)"

lemma sort_by_Nil [simp]: "sort_by lt [] = []"
  using length_sort_by [of lt "[]"] by (simp del: length_sort_by)

lemma clearAdmission_effect:
  "cm_trust (fst (clearAdmission m)) = cm_trust m" "cm_tombstones (fst (clearAdmission m)) = cm_tombstones m" "cm_removalProofs (fst (clearAdmission m)) = cm_removalProofs m"
    "dk_pins (cm_disk (fst (clearAdmission m))) = dk_pins (cm_disk m)" "dk_tombstones (cm_disk (fst (clearAdmission m))) = dk_tombstones (cm_disk m)"
    "dk_proofs (cm_disk (fst (clearAdmission m))) = dk_proofs (cm_disk m)" "dk_marker (cm_disk (fst (clearAdmission m))) = dk_marker (cm_disk m)"
    "as_Activated (cm_admission (fst (clearAdmission m))) = as_Activated (cm_admission m)" "as_Counter (cm_admission (fst (clearAdmission m))) = as_Counter (cm_admission m)"
    "snd (clearAdmission m) \<Longrightarrow> currentAdmission (fst (clearAdmission m)) = ([], 0) \<and> dk_admission (cm_disk (fst (clearAdmission m))) = Some (cm_admission (fst (clearAdmission m)))"
    "\<not> snd (clearAdmission m) \<Longrightarrow> dk_admission (cm_disk (fst (clearAdmission m))) = dk_admission (cm_disk m)"
  by (simp_all add: clearAdmission_def replace_admission_def currentAdmission_def put_disk_def io_step_def Let_def split: if_splits)

lemma clear_evidence_effect:
  "cm_tombstones (fst (clearAllTombstones m)) = (if snd (clearAllTombstones m) then [] else cm_tombstones m)"
  "cm_removalProofs (fst (clearAllRemovalProofs m)) = (if snd (clearAllRemovalProofs m) then [] else cm_removalProofs m)"
  "cm_removalProofs (fst (clearAllTombstones m)) = cm_removalProofs m" "cm_tombstones (fst (clearAllRemovalProofs m)) = cm_tombstones m"
  "cm_members (fst (clearAllTombstones m)) = cm_members m" "cm_members (fst (clearAllRemovalProofs m)) = cm_members m"
  "dk_members (cm_disk (fst (clearAllTombstones m))) = dk_members (cm_disk m)"
  "dk_members (cm_disk (fst (clearAllRemovalProofs m))) = dk_members (cm_disk m)"
  "dk_proofs (cm_disk (fst (clearAllTombstones m))) = dk_proofs (cm_disk m)"
  "dk_tombstones (cm_disk (fst (clearAllRemovalProofs m))) = dk_tombstones (cm_disk m)"
  by (simp_all add: clearAllTombstones_def clearAllRemovalProofs_def replace_tombstones_def replace_proofs_def
      put_disk_def io_step_def Let_def)

lemma cleared_evidence:
  "snd (clearAllTombstones m) \<Longrightarrow> cm_tombstones m = tombstones_on (cm_disk m) \<Longrightarrow> tombstones_on (cm_disk (fst (clearAllTombstones m))) = []"
  "snd (clearAllRemovalProofs m) \<Longrightarrow> cm_removalProofs m = proofs_on (cm_disk m) \<Longrightarrow> proofs_on (cm_disk (fst (clearAllRemovalProofs m))) = []"
  by (auto simp: clearAllTombstones_def clearAllRemovalProofs_def replace_tombstones_def replace_proofs_def put_disk_def io_step_def
      Let_def tombstones_on_def proofs_on_def sorted_tombstones_def sorted_proofs_def mvals_def split: if_splits)

lemma reset_members_effect:
  "cm_members (fst (persistMembersErr (resetMembership m))) = []" "cm_tombstones (fst (persistMembersErr (resetMembership m))) = cm_tombstones m" "cm_removalProofs (fst (persistMembersErr (resetMembership m))) = cm_removalProofs m"
    "dk_tombstones (cm_disk (fst (persistMembersErr (resetMembership m)))) = dk_tombstones (cm_disk m)" "dk_proofs (cm_disk (fst (persistMembersErr (resetMembership m)))) = dk_proofs (cm_disk m)"
    "snd (persistMembersErr (resetMembership m)) \<Longrightarrow> members_on (cm_disk (fst (persistMembersErr (resetMembership m)))) = []"
  by (simp_all add: persistMembersErr_def resetMembership_def put_disk_def io_step_def Let_def members_on_def mvals_def split: if_splits)

lemma readable_cleared:
  assumes "admission_readable (cm_disk m)" "as_Activated (cm_admission m) \<le> as_Counter (cm_admission m)"
  shows "admission_readable (cm_disk (fst (clearAdmission m)))"
  using assms
  by (auto simp: clearAdmission_def replace_admission_def put_disk_def io_step_def Let_def admission_readable_def split: option.splits)

lemma stored_ok_admission:
  assumes "stored_ok cy m" "cm_trust m' = cm_trust m" "dk_pins (cm_disk m') = dk_pins (cm_disk m)"
    "as_Activated (cm_admission m') = as_Activated (cm_admission m)" "as_Counter (cm_admission m') = as_Counter (cm_admission m)"
  shows "stored_ok cy m'"
  using assms by (simp add: stored_ok_def trust_ok_def)


lemma finish_effect:
  assumes ok: "stored_ok cy m" and ev: "evidence_synced m" and mark: "dk_marker (cm_disk m)"
  shows "if snd (finishDurableTeardown m) then cleared cy (fst (finishDurableTeardown m))
    else dk_marker (cm_disk (fst (finishDurableTeardown m))) \<and> wf_map (dk_pins (cm_disk (fst (finishDurableTeardown m)))) \<and>
      (admission_readable (cm_disk m) \<longrightarrow> admission_readable (cm_disk (fst (finishDurableTeardown m))))"
proof -
  define m0 where "m0 = m\<lparr>cm_teardownPending := True\<rparr>"
  define m1 where "m1 = fst (clearAdmission m0)"
  define m2 where "m2 = fst (drop_pins (pin_uuids m1) m1)"
  define m3 where "m3 = fst (persistMembersErr (resetMembership m2))"
  define m4 where "m4 = fst (clearAllTombstones m3)"
  define m5 where "m5 = fst (clearAllRemovalProofs m4)"
  define m6 where "m6 = fst (clearInviteCreatedCluster m5)"
  define m7 where "m7 = (setClusterIdentity [] [] m6)\<lparr>cm_clusterTornDown := True\<rparr>"
  define good where "good \<longleftrightarrow> snd (clearAdmission m0) \<and> snd (drop_pins (pin_uuids m1) m1) \<and> snd (persistMembersErr (resetMembership m2)) \<and>
    snd (clearAllTombstones m3) \<and> snd (clearAllRemovalProofs m4) \<and> snd (clearInviteCreatedCluster m5)"
  have eq: "finishDurableTeardown m =
     (if \<not> good then (m7, False)
      else if \<not> (io_ok m7 \<or> \<not> dk_marker (cm_disk m7)) then (put_disk (\<lambda>d. d) m7, False)
      else ((put_disk (\<lambda>d. d\<lparr>dk_marker := False\<rparr>) m7)\<lparr>cm_teardownPending := False\<rparr>, True))"
    unfolding finishDurableTeardown_def m0_def m1_def m2_def m3_def m4_def m5_def m6_def m7_def good_def
    by (simp add: Let_def case_prod_beta)
  have ok0: "stored_ok cy m0" "evidence_synced m0" "dk_marker (cm_disk m0)" "cm_disk m0 = cm_disk m"
    using ok ev mark by (simp_all add: m0_def stored_ok_def trust_ok_def evidence_synced_def)
  note c1 = clearAdmission_effect [of m0, folded m1_def]
  have ok1: "stored_ok cy m1" using stored_ok_admission [OF ok0(1)] c1 by simp
  note c2 = drop_pins_fields [of "pin_uuids m1" m1, folded m2_def] and e2 = drop_all_pins [OF ok1, folded m2_def]
  note c3 = reset_members_effect [of m2, folded m3_def]
  have ev3: "cm_tombstones m3 = tombstones_on (cm_disk m3)" "cm_removalProofs m3 = proofs_on (cm_disk m3)"
    using ok0(2) c1 c2 c3 unfolding evidence_synced_def tombstones_on_def proofs_on_def by simp_all
  note c4 = clear_evidence_effect [of m3, folded m4_def] and c5 = clear_evidence_effect [of m4, folded m5_def]
  have ev4: "cm_removalProofs m4 = proofs_on (cm_disk m4)" using ev3(2) c4 by (simp add: proofs_on_def)
  have l: "ledger m7 = ledger m2"
  proof -
    have "ledger m7 = ledger m6" by (simp add: m7_def setClusterIdentity_def ledger_def)
    then show ?thesis by (simp add: m6_def m5_def m4_def m3_def keeps_ledger)
  qed
  note l7 = ledger_eqD [OF l]
  have mark7: "dk_marker (cm_disk m7)" using l7 c2 c1 ok0(3) by simp
  have wf7: "wf_map (dk_pins (cm_disk m7))" using l7 c2 ok1 by (simp add: stored_ok_def)
  have rd7: "admission_readable (cm_disk m7)" if "admission_readable (cm_disk m)"
  proof -
    have "admission_readable (cm_disk m1)"
      unfolding m1_def by (rule readable_cleared) (use that ok0 in \<open>simp_all add: stored_ok_def\<close>)
    then show ?thesis using l7(5) c2 by (simp add: admission_readable_def)
  qed
  show ?thesis
  proof (cases "good \<and> io_ok m7")
    case False
    then have "\<not> snd (finishDurableTeardown m)" "cm_disk (fst (finishDurableTeardown m)) = cm_disk m7"
      using mark7 by (auto simp: eq put_disk_disk)
    then show ?thesis using mark7 wf7 rd7 by simp
  next
    case True
    then have g: "snd (clearAdmission m0)" "snd (drop_pins (pin_uuids m1) m1)" "snd (persistMembersErr (resetMembership m2))"
      "snd (clearAllTombstones m3)" "snd (clearAllRemovalProofs m4)" "snd (clearInviteCreatedCluster m5)" "io_ok m7"
      by (simp_all add: good_def)
    have keep6: "cm_members m6 = cm_members m5" "cm_tombstones m6 = cm_tombstones m5" "cm_removalProofs m6 = cm_removalProofs m5"
      "dk_members (cm_disk m6) = dk_members (cm_disk m5)" "dk_tombstones (cm_disk m6) = dk_tombstones (cm_disk m5)"
      "dk_proofs (cm_disk m6) = dk_proofs (cm_disk m5)" "dk_invite (cm_disk m6) = None"
      using g(6) by (auto simp: m6_def clearInviteCreatedCluster_def put_disk_def io_step_def)
    have keep7: "cm_members m7 = cm_members m6" "cm_tombstones m7 = cm_tombstones m6" "cm_removalProofs m7 = cm_removalProofs m6"
      "cm_disk m7 = cm_disk m6" "cm_clusterID m7 = []" "cm_clusterTornDown m7"
      by (simp_all add: m7_def setClusterIdentity_def)
    have mem: "cm_members m7 = []" "members_on (cm_disk m7) = []"
      using keep7 keep6 c5 c4 c3(1) c3(6) [OF g(3)] by (simp_all add: members_on_def)
    have tomb: "cm_tombstones m7 = []" "tombstones_on (cm_disk m7) = []"
      using keep7 keep6 c5 c4 g(4) cleared_evidence(1) [OF g(4) ev3(1), folded m4_def] by (simp_all add: tombstones_on_def)
    have pfs: "cm_removalProofs m7 = []" "proofs_on (cm_disk m7) = []"
      using keep7 keep6 c5 g(5) cleared_evidence(2) [OF g(5) ev4, folded m5_def] by (simp_all add: proofs_on_def)
    have adm: "currentAdmission m7 = ([], 0)" "dk_admission (cm_disk m7) = Some (cm_admission m7)"
      using c1(10) [OF g(1)] l7 c2 by (simp_all add: currentAdmission_def)
    have pins: "cm_trust m7 = []" "load_pins cy (dk_pins (cm_disk m7)) = []" using e2(1) e2(2) [OF g(2)] l7 by simp_all
    let ?f = "(put_disk (\<lambda>d. d\<lparr>dk_marker := False\<rparr>) m7)\<lparr>cm_teardownPending := False\<rparr>"
    have disk: "cm_disk ?f = (cm_disk m7)\<lparr>dk_marker := False\<rparr>" using g(7) by (simp add: put_disk_disk)
    have "cleared cy ?f"
      unfolding cleared_def Let_def disk
      using mem tomb pfs adm pins keep7 keep6(7)
      by (simp add: put_disk_def io_step_def currentAdmission_def members_on_def tombstones_on_def proofs_on_def)
    then show ?thesis using True by (simp add: eq)
  qed
qed


lemma load_rest_synced: "evidence_synced (load_rest m)"
  by (simp add: load_rest_def evidence_synced_def Let_def)

lemma NewManager_marked:
  assumes mark: "dk_marker d" and wf: "wf_map (dk_pins d)"
  shows "if snd (NewManager cy now me port d io) then cleared cy (fst (NewManager cy now me port d io))
    else dk_marker (cm_disk (fst (NewManager cy now me port d io))) \<and> wf_map (dk_pins (cm_disk (fst (NewManager cy now me port d io)))) \<and>
      (admission_readable d \<longrightarrow> admission_readable (cm_disk (fst (NewManager cy now me port d io))))"
proof (cases "loadAdmission (fresh_manager cy me port d io)")
  case None
  then show ?thesis using mark wf by (simp add: NewManager_def fresh_manager_def)
next
  case (Some m)
  note res = restored_stored [OF wf Some]
  let ?r = "and_then (rollbackIncompleteAdmission (restored m)) (adopt_admission cy now)"
  have st: "stage cy (restored m) ?r" by (rule stage_and_then [OF rollback_stage [OF res(1)]]) (rule adopt_stage)
  let ?l = "load_rest (fst ?r)" let ?t = "recoverPendingTeardown ?l"
  have eq: "NewManager cy now me port d io = and_then (and_then ?r (\<lambda>m. recoverPendingTeardown (load_rest m))) (replayRemovalProofs cy)"
    using Some by (simp add: NewManager_def)
  show ?thesis
  proof (cases "snd ?r")
    case False
    have "NewManager cy now me port d io = (fst ?r, False)" using False unfolding eq by (simp add: and_then_def)
    moreover have "dk_marker (cm_disk (fst ?r))" "wf_map (dk_pins (cm_disk (fst ?r)))" "dk_admission (cm_disk (fst ?r)) = dk_admission d"
      using st res mark by (simp_all add: stage_def)
    ultimately show ?thesis by (simp add: admission_readable_def)
  next
    case True
    have lg: "ledger ?l = ledger (fst ?r)" by (simp add: keeps_ledger)
    let ?p = "?l\<lparr>cm_teardownPending := True\<rparr>"
    have lp: "ledger ?p = ledger (fst ?r)" using lg by (simp add: ledger_def)
    have okp: "stored_ok cy ?p" using st True stored_ok_ledger [OF lp] by (simp add: stage_def)
    have evp: "evidence_synced ?p" using load_rest_synced by (simp add: evidence_synced_def)
    have mkp: "dk_marker (cm_disk ?p)" "admission_readable d \<Longrightarrow> admission_readable (cm_disk ?p)"
      using ledger_eqD [OF lp] st res mark by (simp_all add: stage_def admission_readable_def)
    have t: "?t = finishDurableTeardown ?p" using mkp(1) by (simp add: recoverPendingTeardown_def)
    note fin = finish_effect [OF okp evp mkp(1)]
    have "NewManager cy now me port d io = and_then ?t (replayRemovalProofs cy)" using True unfolding eq by (simp add: and_then_def)
    moreover have "replayRemovalProofs cy (fst ?t) = (fst ?t, True)" if "snd ?t"
      using fin that unfolding t by (simp add: replayRemovalProofs_def cleared_def)
    ultimately have "NewManager cy now me port d io = ?t" by (cases "?t") (auto simp: and_then_def)
    then show ?thesis using fin mkp(2) unfolding t by (simp split: if_splits)
  qed
qed

text \<open>With working files every step succeeds.\<close>

definition works :: "Manager \<Rightarrow> Manager \<times> bool \<Rightarrow> bool" where
  "works m r \<longleftrightarrow> (cm_io m = [] \<longrightarrow> snd r \<and> cm_io (fst r) = [])"

lemma worksD: "works m r \<Longrightarrow> cm_io m = [] \<Longrightarrow> snd r" "works m r \<Longrightarrow> cm_io m = [] \<Longrightarrow> cm_io (fst r) = []"
  by (simp_all add: works_def)

lemma works_ops:
  "works m (trust_Remove u m)" "works m (writePinLocked p d k m)" "works m (persistMembersErr m)" "works m (clearAdmission m)"
  "works m (clearAllTombstones m)" "works m (clearAllRemovalProofs m)" "works m (clearInviteCreatedCluster m)"
  by (simp_all add: works_def trust_Remove_def writePinLocked_def persistMembersErr_def clearAdmission_def replace_admission_def
      clearAllTombstones_def clearAllRemovalProofs_def replace_tombstones_def replace_proofs_def clearInviteCreatedCluster_def
      put_disk_def io_step_def io_ok_def announce_def Let_def)

lemma io_plain:
  "cm_io (announce c m) = cm_io m" "cm_io (resetMembership m) = cm_io m" "cm_io (fst (removeMemberByUUID u m)) = cm_io m"
  "cm_io (setClusterIdentity a b m) = cm_io m" "cm_io (fst (updateMemberIdentity u i n m)) = cm_io m"
  by (simp_all add: announce_def resetMembership_def removeMemberByUUID_def setClusterIdentity_def updateMemberIdentity_def Let_def
      split: option.split)

lemma works_drop: "works m (drop_pins us m)"
proof (induction us arbitrary: m)
  case (Cons u us)
  show ?case using works_ops(1) [of m u] Cons.IH [of "fst (trust_Remove u m)"]
    unfolding works_def drop_pins_Cons by simp
qed (simp add: works_def)

lemma works_AddEndorsements: "works m (AddEndorsements u es m)"
  using works_ops(2) by (auto simp: works_def AddEndorsements_def mergeEndorsementsLocked_def Let_def case_prod_beta io_plain split: option.split)

lemma works_endorse: "works m (endorse_pins cy now cid ep ps m)"
proof (induction ps arbitrary: m)
  case (Cons p ps)
  show ?case using Cons.IH worksD [OF works_AddEndorsements] by (simp add: works_def Let_def case_prod_beta)
qed (simp add: works_def)

lemma works_prune_pins: "works m (prune_pins cid es m)"
proof (induction es arbitrary: m)
  case (Cons e es)
  obtain m1 ok where r: "trust_Remove (fst e) m = (m1, ok)" by force
  have "cm_io m = [] \<Longrightarrow> ok \<and> cm_io m1 = []" using works_ops(1) [of m "fst e"] by (simp add: works_def r)
  then show ?case using Cons.IH [of m] Cons.IH [of m1] by (cases ok) (auto simp: works_def r)
qed (simp add: works_def)

lemma works_migrate_pins: "cm_io m = [] \<Longrightarrow> fst (snd (migrate_pins cid ts m c)) \<and> cm_io (fst (migrate_pins cid ts m c)) = []"
proof (induction ts arbitrary: m c)
  case (Cons t ts)
  let ?w = "writePinLocked (migrated_pin cid (tr_pin t)) (tr_der t) (tr_pub t) m"
  have w: "snd ?w" "cm_io (fst ?w) = []" using worksD [OF works_ops(2)] Cons.prems by simp_all
  show ?case using Cons.IH [OF Cons.prems] Cons.IH [OF w(2)] w(1) by (simp add: Let_def case_prod_beta)
qed simp

lemma works_migrate: "works m (migrateLegacyAdmissions cy now cid ep m)"
proof -
  let ?g = "MigrateLegacyAdmissions cid m"
  let ?e = "endorse_pins cy now cid ep (map tr_pin (mvals (cm_trust (fst ?g)))) (fst ?g)"
  let ?n = "(fst ?e)\<lparr>cm_members := map (\<lambda>(u, n). (u, migrated_member cid ep (fst ?e) n)) (cm_members (fst ?e))\<rparr>"
  have eq: "migrateLegacyAdmissions cy now cid ep m =
     (if cid = [] \<or> ep = 0 then (m, True) else if \<not> snd ?g then (fst ?g, False) else if \<not> snd ?e then (fst ?e, False)
      else if cm_members ?n \<noteq> cm_members (fst ?e) then persistMembersErr ?n else (fst ?e, True))"
    by (simp add: migrateLegacyAdmissions_def Let_def case_prod_beta split: prod.split bool.split)
  have g: "works m ?g" using works_migrate_pins by (simp add: works_def MigrateLegacyAdmissions_def case_prod_beta io_plain)
  show ?thesis unfolding eq using g works_endorse [of "fst ?g"] works_ops(3) [of ?n] by (simp add: works_def)
qed

lemma works_prune: "works m (pruneUnauthenticatedMembers cid ep m)"
proof -
  define m0 where "m0 = m\<lparr>cm_members := mkeep (authenticated_member cid ep m) (cm_members m)\<rparr>"
  let ?p = "prune_pins cid (cm_trust m) m0"
  let ?g = "(fst ?p)\<lparr>cm_clusterGen := cm_clusterGen (fst ?p) + 1\<rparr>"
  have eq: "pruneUnauthenticatedMembers cid ep m =
     (if \<not> snd ?p then (fst ?p, False) else if cm_members m0 \<noteq> cm_members m then persistMembersErr ?g else (fst ?p, True))"
    by (simp add: pruneUnauthenticatedMembers_def Let_def case_prod_beta m0_def)
  have "cm_io m0 = cm_io m" by (simp add: m0_def)
  then show ?thesis unfolding eq using works_prune_pins [of m0] works_ops(3) [of ?g] by (simp add: works_def)
qed

lemma works_and_then: "works m r \<Longrightarrow> (\<And>m1. works m1 (f m1)) \<Longrightarrow> works m (and_then r f)"
  by (simp add: works_def and_then_def)


lemma works_finish: "works m (finishDurableTeardown m)"
proof -
  define m0 where "m0 = m\<lparr>cm_teardownPending := True\<rparr>"
  define m1 where "m1 = fst (clearAdmission m0)"
  define m2 where "m2 = fst (drop_pins (pin_uuids m1) m1)"
  define m3 where "m3 = fst (persistMembersErr (resetMembership m2))"
  define m4 where "m4 = fst (clearAllTombstones m3)"
  define m5 where "m5 = fst (clearAllRemovalProofs m4)"
  define m6 where "m6 = fst (clearInviteCreatedCluster m5)"
  define m7 where "m7 = (setClusterIdentity [] [] m6)\<lparr>cm_clusterTornDown := True\<rparr>"
  define good where "good \<longleftrightarrow> snd (clearAdmission m0) \<and> snd (drop_pins (pin_uuids m1) m1) \<and> snd (persistMembersErr (resetMembership m2)) \<and>
    snd (clearAllTombstones m3) \<and> snd (clearAllRemovalProofs m4) \<and> snd (clearInviteCreatedCluster m5)"
  have eq: "finishDurableTeardown m =
     (if \<not> good then (m7, False)
      else if \<not> (io_ok m7 \<or> \<not> dk_marker (cm_disk m7)) then (put_disk (\<lambda>d. d) m7, False)
      else ((put_disk (\<lambda>d. d\<lparr>dk_marker := False\<rparr>) m7)\<lparr>cm_teardownPending := False\<rparr>, True))"
    unfolding finishDurableTeardown_def m0_def m1_def m2_def m3_def m4_def m5_def m6_def m7_def good_def
    by (simp add: Let_def case_prod_beta)
  have "good \<and> cm_io m7 = []" if "cm_io m = []"
  proof -
    have io: "cm_io m0 = []" using that by (simp add: m0_def)
    note s1 = worksD [OF works_ops(4) io, folded m1_def]
    note s2 = worksD [OF works_drop s1(2), of "pin_uuids m1", folded m2_def]
    have "cm_io (resetMembership m2) = []" using s2(2) by (simp add: io_plain)
    note s3 = worksD [OF works_ops(3) this, folded m3_def]
    note s4 = worksD [OF works_ops(5) s3(2), folded m4_def]
    note s5 = worksD [OF works_ops(6) s4(2), folded m5_def]
    note s6 = worksD [OF works_ops(7) s5(2), folded m6_def]
    have "cm_io m7 = []" using s6(2) by (simp add: m7_def io_plain)
    then show ?thesis using s1 s2 s3 s4 s5 s6 by (simp add: good_def)
  qed
  then show ?thesis by (simp add: works_def eq io_ok_def put_disk_def io_step_def)
qed

lemma works_rollback: "works m (rollbackIncompleteAdmission m)"
proof -
  let ?d = "drop_pins (pin_uuids m) m"
  have "works m (fst (persistMembersErr (resetMembership (fst ?d))), snd ?d \<and> snd (persistMembersErr (resetMembership (fst ?d))))"
    using works_drop [of m "pin_uuids m"] works_ops(3) [of "resetMembership (fst ?d)"] by (simp add: works_def io_plain)
  then show ?thesis by (simp add: rollbackIncompleteAdmission_def Let_def case_prod_beta works_def split: option.split)
qed

lemma works_adopt: "works m (adopt_admission cy now m)"
  using works_and_then [OF works_migrate works_prune] by (simp add: adopt_admission_def case_prod_beta works_def)

lemma works_replay_proofs: "cm_io m = [] \<Longrightarrow> snd (replay_proofs cy cid ps m c) \<noteq> None \<and> cm_io (fst (replay_proofs cy cid ps m c)) = []"
proof (induction ps arbitrary: m c)
  case (Cons p ps)
  define u where "u = tb_NodeUUID (rp_Tombstone p)"
  define hit where "hit = (case trust_Get u m of None \<Rightarrow> False | Some pin \<Rightarrow> tp_AdmissionEpoch pin = tb_AdmissionEpoch (rp_Tombstone p))"
  define r where "r = (if hit then trust_Remove u m else (m, True))"
  define listed where "listed = (case memberByNodeID u (fst r) of None \<Rightarrow> False | Some n \<Rightarrow> cn_AdmissionEpoch n = tb_AdmissionEpoch (rp_Tombstone p))"
  define g where "g = (if listed then removeMemberByUUID u (fst r) else (fst r, False))"
  have io: "snd r" "cm_io (fst r) = []" using worksD [OF works_ops(1) Cons.prems] Cons.prems by (simp_all add: r_def)
  have ig: "cm_io (fst g) = []" using io(2) by (simp add: g_def io_plain)
  have eq: "replay_proofs cy cid (p # ps) m c =
     (if u = ni_NodeUUID (cm_identity m) \<or> \<not> verifyRemovalProof cy p cid m then replay_proofs cy cid ps m c
      else if \<not> snd r then (fst r, None) else replay_proofs cy cid ps (fst g) (c \<or> hit \<or> snd g))"
    by (simp add: Let_def case_prod_beta g_def listed_def r_def hit_def u_def)
  show ?case unfolding eq using Cons.IH [OF Cons.prems, of c] Cons.IH [OF ig] io(1) by simp
qed simp

lemma replayRemovalProofs_eq:
  "replayRemovalProofs cy m =
     (let r = replay_proofs cy (fst (currentAdmission m)) (sorted_proofs (cm_removalProofs m)) m False in
      if fst (currentAdmission m) = [] then (m, True)
      else if snd r = None then (fst r, False) else if snd r = Some True then persistMembersErr (fst r) else (fst r, True))"
  by (auto simp: replayRemovalProofs_def Let_def split: prod.split option.split)

lemma works_replay: "works m (replayRemovalProofs cy m)"
proof -
  let ?r = "replay_proofs cy (fst (currentAdmission m)) (sorted_proofs (cm_removalProofs m)) m False"
  show ?thesis
    unfolding replayRemovalProofs_eq Let_def using works_replay_proofs [of m cy "fst (currentAdmission m)" "sorted_proofs (cm_removalProofs m)" False]
      works_ops(3) [of "fst ?r"] by (auto simp: works_def)
qed

lemma works_load: "works m (recoverPendingTeardown (load_rest m))"
proof -
  have r: "cm_io (load_rest m) = []" if "cm_io m = []"
    using that worksD(2) [OF works_ops(3)]
    by (simp add: load_rest_def refreshSelfMemberIdentity_def Let_def case_prod_beta io_plain)
  show ?thesis using works_finish [of "load_rest m\<lparr>cm_teardownPending := True\<rparr>"] r
    by (simp add: recoverPendingTeardown_def works_def)
qed

lemma NewManager_works:
  assumes "wf_map (dk_pins d)" "admission_readable d"
  shows "snd (NewManager cy now me port d [])"
proof -
  have "cm_disk (fresh_manager cy me port d []) = d" by (simp add: fresh_manager_def)
  then obtain m where m: "loadAdmission (fresh_manager cy me port d []) = Some m"
    using loadAdmission_iff [of "fresh_manager cy me port d []"] assms(2) by (cases "loadAdmission (fresh_manager cy me port d [])") auto
  have "works (restored m) (NewManager cy now me port d [])"
    using m by (simp add: NewManager_def) (intro works_and_then works_rollback works_adopt works_load works_replay)
  then show ?thesis using restored_stored(3) [OF assms(1) m] worksD(1) by blast
qed

text \<open>
  Starting again and again: each attempt meets its own file failures, the first that succeeds serves, and the
  last one has working files.
\<close>

primrec boot :: "crypto \<Rightarrow> int \<Rightarrow> NodeIdentity \<Rightarrow> int \<Rightarrow> bool list list \<Rightarrow> Disk \<Rightarrow> Manager \<times> bool" where
  "boot cy now me port [] d = NewManager cy now me port d []"
| "boot cy now me port (io # ios) d =
     (case NewManager cy now me port d io of (m, True) \<Rightarrow> (m, True) | (m, False) \<Rightarrow> boot cy now me port ios (cm_disk m))"



subsection \<open>A removed node stays out\<close>

lemma newRemovalProof_target:
  assumes "newRemovalProof cy now u ep m = Some p"
  shows "tb_NodeUUID (rp_Tombstone p) = u" "tb_AdmissionEpoch (rp_Tombstone p) = ep"
  using assms by (auto simp: newRemovalProof_def signTombstone_def Let_def case_prod_beta split: if_splits)

lemma remove_prepare_reaches:
  assumes "remove_prepare cy now rid params m = (m1, Inr r)"
  shows "cm_trust m1 = cm_trust m" "reached (cn_NodeUUID (rv_node r)) (cn_AdmissionEpoch (rv_node r)) m1"
proof -
  obtain q where q: "newRemovalProof cy now (cn_NodeUUID (rv_node r)) (cn_AdmissionEpoch (rv_node r)) m = Some q"
    "snd (putRemovalProof cy now q m) \<noteq> None" "m1 = fst (putTombstone (rp_Tombstone q) (fst (putRemovalProof cy now q m)))"
    using assms by (auto simp: remove_prepare_def Let_def case_prod_beta split: option.splits if_splits prod.splits)
  obtain m' b where put: "putRemovalProof cy now q m = (m', b)" by force
  note eff = putRemovalProof_shrinks [OF put]
  have keep: "cm_trust m1 = cm_trust m'" "cm_removalProofs m1 = cm_removalProofs m'" unfolding q(3) put by (simp_all add: keeps_trust)
  show "cm_trust m1 = cm_trust m" using keep(1) eff(1) by simp
  show "reached (cn_NodeUUID (rv_node r)) (cn_AdmissionEpoch (rv_node r)) m1"
    using eff(4) q(2) put newRemovalProof_target [OF q(1)] proof_epoch_same [OF keep(2)] by (auto simp: reached_def)
qed

lemma emitNodesChanged_keeps:
  "cm_trust (emitNodesChanged m) = cm_trust m" "cm_removalProofs (emitNodesChanged m) = cm_removalProofs m"
  by (simp_all add: emitNodesChanged_def Let_def keeps_trust)

lemma remove_commit_bars:
  assumes ok: "trust_ok cy m" and re: "reached (cn_NodeUUID (rv_node r)) (cn_AdmissionEpoch (rv_node r)) m"
    and c: "remove_commit rid r m = (m', nodes_removed rid (cn_ID (rv_node r)) True)"
  shows "trust_ok cy m'" "barred (cn_NodeUUID (rv_node r)) (cn_AdmissionEpoch (rv_node r)) m'"
proof -
  let ?u = "cn_NodeUUID (rv_node r)" and ?n = "cn_AdmissionEpoch (rv_node r)"
  obtain pin where pin: "trust_Get ?u m = Some pin" "tp_AdmissionEpoch pin = ?n" and rm: "snd (trust_Remove ?u m)"
    and m': "m' = emitNodesChanged (fst (removeMemberByUUID ?u (fst (trust_Remove ?u m))))"
    using c by (auto simp: remove_commit_def nodes_removed_def Let_def case_prod_beta split: if_splits option.splits prod.splits bool.splits)
  have tr: "cm_trust m' = cm_trust (fst (trust_Remove ?u m))" "cm_removalProofs m' = cm_removalProofs (fst (trust_Remove ?u m))"
    unfolding m' by (simp_all add: emitNodesChanged_keeps keeps_trust)
  note eff = trust_Remove_effect [OF ok, of ?u]
  show "trust_ok cy m'" by (rule trust_ok_same [OF tr(1) eff(1)])
  have gone: "cores m' ?u = None" using cores_same [OF tr(1)] eff(4) rm by simp
  have "\<exists>k. proof_epoch m ?u = Some k \<and> ?n \<le> k"
    using re pin by (auto simp: reached_def cores_def core_def trust_Get_def)
  then show "barred ?u ?n m'" using gone tr(2) eff(3) by (simp add: barred_def reached_def proof_epoch_def)
qed

text \<open>
  C16. Removing a peer is final. Between the two critical sections of \<open>nodes:remove\<close>, and after the second, any
  rosters may be merged; once the request was answered with success, the peer is never trusted again under
  the admission that was removed.
\<close>

theorem nodes_remove_is_final:
  assumes "trust_ok cy m" "remove_prepare cy now rid params m = (m1, Inr r)" "mergeAll cy meanwhile m1 = Some m2"
    "remove_commit rid r m2 = (m3, nodes_removed rid (cn_ID (rv_node r)) True)" "mergeAll cy later m3 = Some m4"
    "trust_Get (cn_NodeUUID (rv_node r)) m4 = Some pin"
  shows "cn_AdmissionEpoch (rv_node r) < tp_AdmissionEpoch pin"
proof -
  note prep = remove_prepare_reaches [OF assms(2)]
  have ok1: "trust_ok cy m1" by (rule trust_ok_same [OF prep(1) assms(1)])
  have m2: "trust_ok cy m2" "reached (cn_NodeUUID (rv_node r)) (cn_AdmissionEpoch (rv_node r)) m2"
    using mergeAll_effect [OF ok1 all_vouched_start refl, of meanwhile] assms(3) prep(2) by auto
  note bar = remove_commit_bars [OF m2 assms(4)]
  have "barred (cn_NodeUUID (rv_node r)) (cn_AdmissionEpoch (rv_node r)) m4"
    using mergeAll_effect [OF bar(1) all_vouched_start refl, of later] assms(5) bar(2) by (auto simp: barred_def)
  then show ?thesis using assms(6) by (auto simp: barred_def cores_def core_def trust_Get_def)
qed


subsection \<open>Members after a start\<close>

text \<open>Every peer in the member table is pinned in the same cluster and under the same admission.\<close>

definition all_authenticated :: "string \<Rightarrow> Manager \<Rightarrow> bool" where
  "all_authenticated cid m \<longleftrightarrow> (\<forall>u n. mget (cm_members m) u = Some n \<longrightarrow> u \<noteq> ni_NodeUUID (cm_identity m) \<longrightarrow>
     cn_ClusterID n = cid \<and> cn_AdmissionEpoch n \<noteq> 0 \<and>
     (\<exists>pin. trust_Get u m = Some pin \<and> tp_ClusterID pin = cid \<and> tp_AdmissionEpoch pin = cn_AdmissionEpoch n))"

lemma all_authenticated_mono:
  assumes "all_authenticated cid m" "cm_identity m' = cm_identity m" "cm_trust m' = cm_trust m"
    "\<And>u n. mget (cm_members m') u = Some n \<Longrightarrow> u \<noteq> ni_NodeUUID (cm_identity m) \<Longrightarrow> mget (cm_members m) u = Some n"
  shows "all_authenticated cid m'"
  using assms unfolding all_authenticated_def trust_Get_def by metis

lemma plain_identity:
  "cm_identity (fst (trust_Remove u m)) = cm_identity m" "cm_members (fst (trust_Remove u m)) = cm_members m"
  "cm_identity (fst (persistMembersErr m)) = cm_identity m" "cm_members (fst (persistMembersErr m)) = cm_members m"
  "cm_trust (fst (persistMembersErr m)) = cm_trust m"
  by (simp_all add: trust_Remove_def persistMembersErr_def put_disk_def io_step_def announce_def Let_def)

lemma prune_pins_keeps:
  "cm_identity (fst (prune_pins cid es m)) = cm_identity m \<and> cm_members (fst (prune_pins cid es m)) = cm_members m \<and>
   ((\<forall>t. (u, t) \<in> set es \<longrightarrow> (\<exists>n. memberByNodeID u m = Some n \<and> cn_ClusterID n = cid \<and> cn_AdmissionEpoch n \<noteq> 0 \<and>
       cn_AdmissionEpoch n = tp_AdmissionEpoch (tr_pin t))) \<longrightarrow>
    mget (cm_trust (fst (prune_pins cid es m))) u = mget (cm_trust m) u)"
proof (induction es arbitrary: m)
  case (Cons e es)
  obtain m1 ok where r: "trust_Remove (fst e) m = (m1, ok)" by force
  have m1: "cm_identity m1 = cm_identity m" "cm_members m1 = cm_members m"
    "cm_trust m1 = (if ok then mdel (fst e) (cm_trust m) else cm_trust m)"
    using plain_identity(1,2) [of "fst e" m] remove_fields(1) [of "fst e" m] by (simp_all add: r)
  have mem: "memberByNodeID v m1 = memberByNodeID v m" for v unfolding memberByNodeID_def m1(2) ..
  show ?case
  proof (cases "case memberByNodeID (fst e) m of None \<Rightarrow> False
      | Some n \<Rightarrow> cn_ClusterID n = cid \<and> cn_AdmissionEpoch n \<noteq> 0 \<and> cn_AdmissionEpoch n = tp_AdmissionEpoch (tr_pin (snd e))")
    case True
    then show ?thesis using Cons.IH [of m] by simp
  next
    case False
    have step: "mget (cm_trust m1) u = mget (cm_trust m) u"
      if "\<forall>t. (u, t) \<in> set (e # es) \<longrightarrow> (\<exists>n. memberByNodeID u m = Some n \<and> cn_ClusterID n = cid \<and> cn_AdmissionEpoch n \<noteq> 0 \<and>
        cn_AdmissionEpoch n = tp_AdmissionEpoch (tr_pin t))"
      using that False m1(3) by (cases e) (auto simp: mget_mdel)
    have eq: "fst (prune_pins cid (e # es) m) = (if ok then fst (prune_pins cid es m1) else m1)" using False by (simp add: r)
    show ?thesis
    proof (cases ok)
      case True
      show ?thesis unfolding eq using True Cons.IH [of m1] m1(1,2) mem step by (simp del: prune_pins.simps)
    next
      case False
      then show ?thesis unfolding eq using m1 by simp
    qed
  qed
qed simp

lemma prune_authenticates:
  assumes wf: "wf_map (cm_members m)" "wf_map (cm_trust m)"
  shows "all_authenticated cid (fst (pruneUnauthenticatedMembers cid ep m)) \<or> \<not> snd (pruneUnauthenticatedMembers cid ep m)"
    "cm_identity (fst (pruneUnauthenticatedMembers cid ep m)) = cm_identity m"
proof -
  define m0 where "m0 = m\<lparr>cm_members := mkeep (authenticated_member cid ep m) (cm_members m)\<rparr>"
  let ?p = "prune_pins cid (cm_trust m) m0"
  define m1 where "m1 = (if cm_members m0 \<noteq> cm_members m then fst (persistMembersErr ((fst ?p)\<lparr>cm_clusterGen := cm_clusterGen (fst ?p) + 1\<rparr>)) else fst ?p)"
  have eq: "fst (pruneUnauthenticatedMembers cid ep m) = (if snd ?p then m1 else fst ?p)"
    "snd (pruneUnauthenticatedMembers cid ep m) \<Longrightarrow> snd ?p"
    by (auto simp: pruneUnauthenticatedMembers_def Let_def case_prod_beta m0_def m1_def split: if_splits)
  have p: "cm_identity (fst ?p) = cm_identity m" "cm_members (fst ?p) = cm_members m0"
    using prune_pins_keeps [of cid "cm_trust m" m0] by (simp_all add: m0_def)
  have f: "cm_identity m1 = cm_identity m" "cm_members m1 = cm_members m0" "cm_trust m1 = cm_trust (fst ?p)"
    by (simp_all add: m1_def plain_identity p)
  show "cm_identity (fst (pruneUnauthenticatedMembers cid ep m)) = cm_identity m" using f p by (simp add: eq)
  have "all_authenticated cid m1"
    unfolding all_authenticated_def
  proof (intro allI impI)
    fix u n
    assume n: "mget (cm_members m1) u = Some n" and other: "u \<noteq> ni_NodeUUID (cm_identity m1)"
    have n0: "mget (cm_members m0) u = Some n" using n f(2) by simp
    then have "mget (cm_members m) u = Some n" and au: "authenticated_member cid ep m u n"
      by (auto simp: m0_def mget_mkeep [OF wf(1)] split: option.splits if_splits)
    from au other f(1) obtain t where t: "mget (cm_trust m) u = Some t" "cn_ClusterID n = cid" "tp_ClusterID (tr_pin t) = cid"
      "cn_AdmissionEpoch n \<noteq> 0" "cn_AdmissionEpoch n = tp_AdmissionEpoch (tr_pin t)"
      by (auto simp: authenticated_member_def trust_Get_def split: if_splits option.splits)
    have by_key: "memberByNodeID u m0 = Some n" using n0 by (simp add: memberByNodeID_def)
    have "mget (cm_trust (fst ?p)) u = mget (cm_trust m0) u"
      using prune_pins_keeps [of cid "cm_trust m" m0 u] by_key t mget_in_set [OF wf(2), of u] by fastforce
    then have "trust_Get u m1 = Some (tr_pin t)" using f(3) t(1) by (simp add: trust_Get_def m0_def)
    then show "cn_ClusterID n = cid \<and> cn_AdmissionEpoch n \<noteq> 0 \<and>
       (\<exists>pin. trust_Get u m1 = Some pin \<and> tp_ClusterID pin = cid \<and> tp_AdmissionEpoch pin = cn_AdmissionEpoch n)"
      using t by simp
  qed
  then show "all_authenticated cid (fst (pruneUnauthenticatedMembers cid ep m)) \<or> \<not> snd (pruneUnauthenticatedMembers cid ep m)"
    using eq by auto
qed

lemma replay_authenticated:
  assumes "all_authenticated cid m"
  shows "all_authenticated cid (fst (replay_proofs cy k ps m c))"
  using assms
proof (induction ps arbitrary: m c)
  case (Cons p ps)
  define u where "u = tb_NodeUUID (rp_Tombstone p)"
  define hit where "hit = (case trust_Get u m of None \<Rightarrow> False | Some pin \<Rightarrow> tp_AdmissionEpoch pin = tb_AdmissionEpoch (rp_Tombstone p))"
  define r where "r = (if hit then trust_Remove u m else (m, True))"
  define listed where "listed = (case memberByNodeID u (fst r) of None \<Rightarrow> False | Some n \<Rightarrow> cn_AdmissionEpoch n = tb_AdmissionEpoch (rp_Tombstone p))"
  define g where "g = (if listed then removeMemberByUUID u (fst r) else (fst r, False))"
  have eq: "replay_proofs cy k (p # ps) m c =
     (if u = ni_NodeUUID (cm_identity m) \<or> \<not> verifyRemovalProof cy p k m then replay_proofs cy k ps m c
      else if \<not> snd r then (fst r, None) else replay_proofs cy k ps (fst g) (c \<or> hit \<or> snd g))"
    by (simp add: Let_def case_prod_beta g_def listed_def r_def hit_def u_def)
  have r: "cm_identity (fst r) = cm_identity m" "cm_members (fst r) = cm_members m"
    "cm_trust (fst r) = (if hit \<and> snd r then mdel u (cm_trust m) else cm_trust m)"
    by (simp_all add: r_def plain_identity remove_fields)
  have g: "cm_identity (fst g) = cm_identity m" "cm_members (fst g) = (if listed then mdel u (cm_members m) else cm_members m)"
    "cm_trust (fst g) = cm_trust (fst r)"
    by (simp_all add: g_def removeMemberByUUID_def Let_def r)
  have failed: "all_authenticated cid (fst r)" if "\<not> snd r"
    by (rule all_authenticated_mono [OF Cons.prems r(1)]) (use that r in simp_all)
  have "all_authenticated cid (fst g)" if u: "u \<noteq> ni_NodeUUID (cm_identity m)"
    unfolding all_authenticated_def
  proof (intro allI impI)
    fix v n
    assume n: "mget (cm_members (fst g)) v = Some n" and v: "v \<noteq> ni_NodeUUID (cm_identity (fst g))"
    have nm: "mget (cm_members m) v = Some n" using n g(2) by (auto simp: mget_mdel split: if_splits)
    then obtain pin where pin: "cn_ClusterID n = cid" "cn_AdmissionEpoch n \<noteq> 0" "trust_Get v m = Some pin" "tp_ClusterID pin = cid"
      "tp_AdmissionEpoch pin = cn_AdmissionEpoch n"
      using Cons.prems v g(1) unfolding all_authenticated_def by metis
    have "\<not> (hit \<and> v = u)"
    proof
      assume h: "hit \<and> v = u"
      then have "cn_AdmissionEpoch n = tb_AdmissionEpoch (rp_Tombstone p)" using pin by (simp add: hit_def)
      moreover have "memberByNodeID u (fst r) = Some n" using nm h r(2) by (simp add: memberByNodeID_def)
      ultimately have listed by (simp add: listed_def)
      then show False using n g(2) h by (simp add: mget_mdel)
    qed
    then have "trust_Get v (fst g) = Some pin" using pin(3) g(3) r(3) by (auto simp: trust_Get_def mget_mdel)
    then show "cn_ClusterID n = cid \<and> cn_AdmissionEpoch n \<noteq> 0 \<and>
       (\<exists>pin. trust_Get v (fst g) = Some pin \<and> tp_ClusterID pin = cid \<and> tp_AdmissionEpoch pin = cn_AdmissionEpoch n)"
      using pin by simp
  qed
  then show ?case unfolding eq using Cons.IH [OF Cons.prems] Cons.IH failed by simp
qed simp


lemma members_on_wf: "wf_map (members_on d)"
proof -
  have "wf_map xs \<Longrightarrow> wf_map (fold (\<lambda>n. mput (cn_NodeUUID n) n) ns xs)" for ns :: "ClusterNode list" and xs
    by (induction ns arbitrary: xs) simp_all
  then show ?thesis unfolding members_on_def by simp
qed

lemma AddEndorsements_members:
  "cm_members (fst (AddEndorsements u es m)) = cm_members m" "cm_identity (fst (AddEndorsements u es m)) = cm_identity m"
  by (simp_all add: AddEndorsements_def mergeEndorsementsLocked_def writePinLocked_def put_disk_def io_step_def announce_def Let_def case_prod_beta
      split: option.split)

lemma endorse_pins_members:
  "cm_members (fst (endorse_pins cy now cid ep ps m)) = cm_members m \<and> cm_identity (fst (endorse_pins cy now cid ep ps m)) = cm_identity m"
proof (induction ps arbitrary: m)
  case (Cons p ps)
  show ?case using Cons.IH by (simp add: Let_def case_prod_beta AddEndorsements_members)
qed simp

lemma migrate_pins_members:
  "cm_members (fst (migrate_pins cid ts m c)) = cm_members m \<and> cm_identity (fst (migrate_pins cid ts m c)) = cm_identity m"
proof (induction ts arbitrary: m c)
  case (Cons t ts)
  have "cm_members (fst (writePinLocked p d k m)) = cm_members m" "cm_identity (fst (writePinLocked p d k m)) = cm_identity m" for p d k
    by (simp_all add: writePinLocked_def put_disk_def io_step_def Let_def)
  then show ?case using Cons.IH by (simp add: Let_def case_prod_beta)
qed simp

lemma migrate_keeps:
  assumes "wf_map (cm_members m)"
  shows "wf_map (cm_members (fst (migrateLegacyAdmissions cy now cid ep m)))"
    "cm_identity (fst (migrateLegacyAdmissions cy now cid ep m)) = cm_identity m"
proof -
  let ?g = "MigrateLegacyAdmissions cid m"
  let ?e = "endorse_pins cy now cid ep (map tr_pin (mvals (cm_trust (fst ?g)))) (fst ?g)"
  let ?ms = "map (\<lambda>(u, n). (u, migrated_member cid ep (fst ?e) n)) (cm_members (fst ?e))"
  have g: "cm_members (fst ?g) = cm_members m" "cm_identity (fst ?g) = cm_identity m"
    using migrate_pins_members [of cid "mvals (cm_trust m)" m False]
    by (simp_all add: MigrateLegacyAdmissions_def case_prod_beta announce_def)
  have e: "cm_members (fst ?e) = cm_members m" "cm_identity (fst ?e) = cm_identity m"
    using endorse_pins_members [of cy now cid ep "map tr_pin (mvals (cm_trust (fst ?g)))" "fst ?g"] g by simp_all
  have "map fst ?ms = map fst (cm_members m)" by (simp add: e o_def case_prod_beta)
  then have wf: "wf_map ?ms" using assms by (simp add: wf_map_def)
  have eq: "fst (migrateLegacyAdmissions cy now cid ep m) =
     (if cid = [] \<or> ep = 0 then m else if \<not> snd ?g then fst ?g else if \<not> snd ?e then fst ?e
      else if ?ms \<noteq> cm_members (fst ?e) then fst (persistMembersErr ((fst ?e)\<lparr>cm_members := ?ms\<rparr>)) else fst ?e)"
    by (simp add: migrateLegacyAdmissions_def Let_def case_prod_beta split: prod.split bool.split)
  show "wf_map (cm_members (fst (migrateLegacyAdmissions cy now cid ep m)))"
    unfolding eq using assms g e wf by (auto simp: plain_identity)
  show "cm_identity (fst (migrateLegacyAdmissions cy now cid ep m)) = cm_identity m"
    unfolding eq using g e by (simp add: plain_identity)
qed

lemma load_rest_authenticated:
  assumes "all_authenticated cid m"
  shows "all_authenticated cid (load_rest m)"
proof -
  let ?r = "refreshSelfMemberIdentity m"
  have r: "cm_identity ?r = cm_identity m" "cm_trust ?r = cm_trust m"
    by (simp_all add: refreshSelfMemberIdentity_def updateMemberIdentity_def Let_def case_prod_beta plain_identity split: option.split)
  have mem: "mget (cm_members ?r) u = mget (cm_members m) u" if "u \<noteq> ni_NodeUUID (cm_identity m)" for u
    using that by (simp add: refreshSelfMemberIdentity_def updateMemberIdentity_def Let_def case_prod_beta plain_identity mget_mput
        split: option.split)
  show ?thesis by (rule all_authenticated_mono [OF assms]) (use r mem in \<open>simp_all add: load_rest_def Let_def\<close>)
qed

lemma replayRemovalProofs_authenticated:
  assumes "all_authenticated cid m"
  shows "all_authenticated cid (fst (replayRemovalProofs cy m))"
proof -
  let ?r = "replay_proofs cy (fst (currentAdmission m)) (sorted_proofs (cm_removalProofs m)) m False"
  have "all_authenticated cid (fst (persistMembersErr (fst ?r)))"
    by (rule all_authenticated_mono [OF replay_authenticated [OF assms]]) (simp_all add: plain_identity)
  then show ?thesis using assms replay_authenticated [OF assms] by (simp add: replayRemovalProofs_eq Let_def)
qed

text \<open>The admission a start ends with is the one it began with, unless it completed a teardown.\<close>

lemma replay_admission: "cm_admission (fst (replayRemovalProofs cy m)) = cm_admission m"
proof -
  have p: "cm_admission (fst (replay_proofs cy k ps m c)) = cm_admission m" for k ps c m
  proof (induction ps arbitrary: m c)
    case (Cons p ps)
    show ?case using Cons.IH by (simp add: Let_def case_prod_beta remove_fields removeMemberByUUID_def)
  qed simp
  have "cm_admission (fst (persistMembersErr x)) = cm_admission x" for x
    by (simp add: persistMembersErr_def put_disk_def io_step_def Let_def)
  then show ?thesis using p by (simp add: replayRemovalProofs_eq Let_def)
qed


lemma loaded_admission_active:
  assumes "loadAdmission m = Some m'" "cm_admission m = admissionState0"
  shows "as_ClusterID (cm_admission m') = [] \<longleftrightarrow> as_Epoch (cm_admission m') = 0"
  using assms by (auto simp: loadAdmission_def Let_def admissionState0_def split: option.splits if_splits)

lemma adopt_authenticates:
  assumes ok: "stored_ok cy m" and wf: "wf_map (cm_members m)" and adm: "currentAdmission m = (cid, ep)" "cid \<noteq> []" "ep \<noteq> 0"
    and fin: "snd (adopt_admission cy now m)"
  shows "all_authenticated cid (fst (adopt_admission cy now m))"
proof -
  let ?g = "migrateLegacyAdmissions cy now cid ep m"
  have eq: "adopt_admission cy now m = and_then ?g (pruneUnauthenticatedMembers cid ep)" using adm by (simp add: adopt_admission_def)
  have g: "snd ?g" "snd (pruneUnauthenticatedMembers cid ep (fst ?g))" using fin unfolding eq by (auto simp: and_then_def split: if_splits)
  have "stored_ok cy (fst ?g)" using migrate_steady [OF ok] ok by (simp add: steady_def)
  then have "wf_map (cm_trust (fst ?g))" by (simp add: stored_ok_def)
  from prune_authenticates(1) [OF migrate_keeps(1) [OF wf] this] g show ?thesis unfolding eq and_then_def by auto
qed

text \<open>
  C20. After a start that succeeds in a cluster, whatever crash or failed write the files come from, the member
  table lists no peer that is not pinned in this cluster under the very admission the table shows.
\<close>

theorem start_lists_only_pinned_peers:
  assumes wf: "wf_map (dk_pins d)" and start: "NewManager cy now me port d io = (m, True)"
    and active: "fst (currentAdmission m) \<noteq> []"
    and member: "mget (cm_members m) u = Some n" "u \<noteq> ni_NodeUUID (cm_identity m)"
  shows "\<exists>pin. trust_Get u m = Some pin \<and> tp_ClusterID pin = fst (currentAdmission m) \<and> cn_ClusterID n = fst (currentAdmission m) \<and>
    tp_AdmissionEpoch pin = cn_AdmissionEpoch n \<and> cn_AdmissionEpoch n \<noteq> 0"
proof -
  have unmarked: "\<not> dk_marker d"
  proof
    assume "dk_marker d"
    from NewManager_marked [OF this wf, of cy now me port io] show False using start active by (simp add: cleared_def)
  qed
  obtain m0 where m0: "loadAdmission (fresh_manager cy me port d io) = Some m0"
    using start by (auto simp: NewManager_def split: option.splits)
  note res = restored_stored [OF wf m0]
  let ?M = "restored m0"
  let ?r = "and_then (rollbackIncompleteAdmission ?M) (adopt_admission cy now)"
  have st: "stage cy ?M ?r" by (rule stage_and_then [OF rollback_stage [OF res(1)]]) (rule adopt_stage)
  have okr: "snd ?r" using start m0 by (auto simp: NewManager_def and_then_def split: if_splits)
  let ?l = "load_rest (fst ?r)"
  note lg = ledger_eqD [OF ledger_evidence(5) [of "fst ?r"]]
  have "recoverPendingTeardown ?l = (?l, True)"
    using lg(4) st res(4) unmarked by (simp add: recoverPendingTeardown_def stage_def)
  then have m: "m = fst (replayRemovalProofs cy ?l)" using start m0 okr by (simp add: NewManager_def and_then_def)
  have "cm_admission m = cm_admission ?M" unfolding m replay_admission using lg(2) st by (simp add: stage_def)
  then have adm: "currentAdmission m = currentAdmission ?M" by (simp add: currentAdmission_def)
  obtain cid ep where ce: "currentAdmission ?M = (cid, ep)" by force
  have "as_ClusterID (cm_admission m0) = [] \<longleftrightarrow> as_Epoch (cm_admission m0) = 0"
    by (rule loaded_admission_active [OF m0]) (simp add: fresh_manager_def)
  then have act: "cid \<noteq> []" "ep \<noteq> 0" using ce adm active by (auto simp: currentAdmission_def restored_def)
  have "rollbackIncompleteAdmission ?M = (?M, True)" using ce act by (simp add: rollbackIncompleteAdmission_def)
  then have r: "?r = adopt_admission cy now ?M" by (simp add: and_then_def)
  have "wf_map (cm_members ?M)" by (simp add: restored_def members_on_wf)
  then have "all_authenticated cid (fst ?r)" using adopt_authenticates [OF res(1) _ ce act] okr unfolding r by blast
  then have "all_authenticated cid m" unfolding m by (intro replayRemovalProofs_authenticated load_rest_authenticated)
  then show ?thesis using member adm ce unfolding all_authenticated_def by auto
qed

subsection \<open>Admission epochs\<close>

text \<open>The operations on the admission counter, and a restart of the process; \<open>None\<close> is a refused start.\<close>

datatype admission_op = Reserve | Activate string epoch | Ensure string | Clear | Restart

text \<open>Running them, with the epochs activated on the way.\<close>

fun admission_run :: "admission_op list \<Rightarrow> Manager \<times> epoch list \<Rightarrow> (Manager \<times> epoch list) option" where
  "admission_run [] s = Some s"
| "admission_run (Reserve # ops) (m, es) = admission_run ops (fst (reserveAdmissionEpoch m), es)"
| "admission_run (Activate cid ep # ops) (m, es) =
     (let (m', ok) = activateAdmission cid ep m in admission_run ops (m', if ok then es @ [ep] else es))"
| "admission_run (Ensure cid # ops) (m, es) =
     (let (m', r) = ensureAdmission cid m in
      admission_run ops (m', if r \<noteq> None \<and> as_Epoch (cm_admission m) = 0 then es @ [the r] else es))"
| "admission_run (Clear # ops) (m, es) = admission_run ops (fst (clearAdmission m), es)"
| "admission_run (Restart # ops) (m, es) =
     (case loadAdmission (m\<lparr>cm_admission := admissionState0\<rparr>) of None \<Rightarrow> None | Some m' \<Rightarrow> admission_run ops (m', es))"


text \<open>What a start makes of a stored admission record.\<close>

definition upgraded :: "admissionState \<Rightarrow> admissionState" where
  "upgraded st = (if as_Activated st = 0 \<and> as_Epoch st \<noteq> 0 then st\<lparr>as_Activated := as_Epoch st\<rparr> else st)"

definition admission_synced :: "Manager \<Rightarrow> bool" where
  "admission_synced m \<longleftrightarrow> cm_admission m = (case dk_admission (cm_disk m) of None \<Rightarrow> admissionState0 | Some st \<Rightarrow> upgraded st)"

lemma upgraded_idem [simp]: "upgraded (upgraded st) = upgraded st" "upgraded admissionState0 = admissionState0"
  by (simp_all add: upgraded_def admissionState0_def)

lemma synced_upgraded: "admission_synced m \<Longrightarrow> upgraded (cm_admission m) = cm_admission m"
  by (simp add: admission_synced_def split: option.splits)

lemma synced_replace:
  assumes "admission_synced m" "upgraded a = a"
  shows "admission_synced (fst (replace_admission a m))"
    "cm_admission (fst (replace_admission a m)) = (if snd (replace_admission a m) then a else cm_admission m)"
  using assms by (simp_all add: admission_synced_def replace_admission_def put_disk_def io_step_def Let_def)

lemma synced_load:
  assumes "admission_synced m" "loadAdmission (m\<lparr>cm_admission := admissionState0\<rparr>) = Some m'"
  shows "admission_synced m'" "cm_admission m' = cm_admission m"
  using assms by (auto simp: admission_synced_def loadAdmission_def Let_def upgraded_def [symmetric] split: option.splits if_splits)

lemma reserve_step:
  assumes "admission_synced m"
  shows "admission_synced (fst (reserveAdmissionEpoch m))"
    "as_Activated (cm_admission (fst (reserveAdmissionEpoch m))) = as_Activated (cm_admission m)"
proof -
  let ?a = "(cm_admission m)\<lparr>as_Counter := as_Counter (cm_admission m) + 1\<rparr>"
  have "\<not> (as_Activated (cm_admission m) = 0 \<and> as_Epoch (cm_admission m) \<noteq> 0)"
    using arg_cong [OF synced_upgraded [OF assms], of as_Activated] by (auto simp: upgraded_def split: if_splits)
  then have u: "upgraded ?a = ?a" by (simp add: upgraded_def)
  have "fst (reserveAdmissionEpoch m) = fst (replace_admission ?a m)"
    by (simp add: reserveAdmissionEpoch_def Let_def split: prod.split bool.split)
  then show "admission_synced (fst (reserveAdmissionEpoch m))"
    "as_Activated (cm_admission (fst (reserveAdmissionEpoch m))) = as_Activated (cm_admission m)"
    using synced_replace [OF assms u] by simp_all
qed

lemma activate_step:
  assumes "admission_synced m"
  shows "admission_synced (fst (activateAdmission cid ep m))"
    "snd (activateAdmission cid ep m) \<Longrightarrow> as_Activated (cm_admission m) < ep \<and> as_Activated (cm_admission (fst (activateAdmission cid ep m))) = ep"
    "\<not> snd (activateAdmission cid ep m) \<Longrightarrow> cm_admission (fst (activateAdmission cid ep m)) = cm_admission m"
proof -
  let ?a = "(cm_admission m)\<lparr>as_Activated := ep, as_Retired := False, as_ClusterID := cid, as_Epoch := ep\<rparr>"
  have u: "upgraded ?a = ?a" by (simp add: upgraded_def)
  note r = synced_replace [OF assms u]
  show "admission_synced (fst (activateAdmission cid ep m))" using assms r(1) by (simp add: activateAdmission_def)
  show "as_Activated (cm_admission m) < ep \<and> as_Activated (cm_admission (fst (activateAdmission cid ep m))) = ep"
    if "snd (activateAdmission cid ep m)"
    using that r(2) by (auto simp: activateAdmission_def not_le split: if_splits)
  show "cm_admission (fst (activateAdmission cid ep m)) = cm_admission m" if "\<not> snd (activateAdmission cid ep m)"
    using that r(2) by (auto simp: activateAdmission_def split: if_splits)
qed

lemma clear_step:
  assumes "admission_synced m"
  shows "admission_synced (fst (clearAdmission m))" "as_Activated (cm_admission (fst (clearAdmission m))) = as_Activated (cm_admission m)"
proof -
  let ?a = "(cm_admission m)\<lparr>as_Retired := True, as_ClusterID := [], as_Epoch := 0\<rparr>"
  have "upgraded ?a = ?a" by (simp add: upgraded_def)
  then show "admission_synced (fst (clearAdmission m))" "as_Activated (cm_admission (fst (clearAdmission m))) = as_Activated (cm_admission m)"
    using synced_replace [OF assms, of ?a] by (simp_all add: clearAdmission_def)
qed

lemma ensure_step:
  assumes "admission_synced m"
  shows "admission_synced (fst (ensureAdmission cid m)) \<and>
    (if snd (ensureAdmission cid m) \<noteq> None \<and> as_Epoch (cm_admission m) = 0
     then as_Activated (cm_admission m) < the (snd (ensureAdmission cid m)) \<and>
       as_Activated (cm_admission (fst (ensureAdmission cid m))) = the (snd (ensureAdmission cid m))
     else as_Activated (cm_admission (fst (ensureAdmission cid m))) = as_Activated (cm_admission m))"
proof (cases "(as_ClusterID (cm_admission m) = cid \<and> as_Epoch (cm_admission m) \<noteq> 0) \<or> as_ClusterID (cm_admission m) \<noteq> [] \<or>
    as_Epoch (cm_admission m) \<noteq> 0 \<or> as_Retired (cm_admission m)")
  case True
  then show ?thesis using assms by (auto simp: ensureAdmission_def Let_def)
next
  case False
  obtain m1 r where m1: "reserveAdmissionEpoch m = (m1, r)" by force
  have s1: "admission_synced m1" "as_Activated (cm_admission m1) = as_Activated (cm_admission m)"
    using reserve_step [OF assms] by (simp_all add: m1)
  show ?thesis
  proof (cases r)
    case None
    then show ?thesis using False m1 s1 by (simp add: ensureAdmission_def Let_def)
  next
    case (Some ep)
    obtain m2 ok where m2: "activateAdmission cid ep m1 = (m2, ok)" by force
    have eq: "ensureAdmission cid m = (m2, if ok then Some ep else None)"
      using False m1 Some m2 by (simp add: ensureAdmission_def Let_def split: bool.split)
    show ?thesis unfolding eq using activate_step [OF s1(1), of cid ep] s1(2) False m2 by (cases ok) simp_all
  qed
qed

lemma sorted_snoc: "sorted_wrt (<) (es :: epoch list) \<Longrightarrow> \<forall>e \<in> set es. e \<le> a \<Longrightarrow> a < x \<Longrightarrow> sorted_wrt (<) (es @ [x])"
  by (auto simp: sorted_wrt_append)

lemma admission_run_inv:
  assumes "admission_run ops (m, es) = Some (m', es')" "admission_synced m" "sorted_wrt (<) es"
    "\<forall>e \<in> set es. a < e \<and> e \<le> as_Activated (cm_admission m)" "a \<le> as_Activated (cm_admission m)"
  shows "sorted_wrt (<) es' \<and> (\<forall>e \<in> set es'. a < e)"
  using assms
proof (induction ops "(m, es)" arbitrary: m es rule: admission_run.induct)
  case (3 cid ep ops m es)
  obtain m1 ok where m1: "activateAdmission cid ep m = (m1, ok)" by force
  note st = activate_step [OF "3.prems"(2), of cid ep, unfolded m1 fst_conv snd_conv]
  have run: "admission_run ops (m1, if ok then es @ [ep] else es) = Some (m', es')" using "3.prems"(1) by (simp add: m1)
  show ?case
  proof (cases ok)
    case True
    then have "as_Activated (cm_admission m) < ep" "as_Activated (cm_admission m1) = ep" using st(2) by auto
    then show ?thesis
      using "3.hyps" [OF m1 [symmetric] refl] True run st(1) "3.prems" sorted_snoc [of es "as_Activated (cm_admission m)" ep] by fastforce
  next
    case False
    then show ?thesis using "3.hyps" [OF m1 [symmetric] refl] run st(1,3) "3.prems" by simp
  qed
next
  case (4 cid ops m es)
  obtain m1 r where m1: "ensureAdmission cid m = (m1, r)" by force
  note st = ensure_step [OF "4.prems"(2), of cid, unfolded m1 fst_conv snd_conv]
  have run: "admission_run ops (m1, if r \<noteq> None \<and> as_Epoch (cm_admission m) = 0 then es @ [the r] else es) = Some (m', es')"
    using "4.prems"(1) by (simp add: m1)
  show ?case
  proof (cases "r \<noteq> None \<and> as_Epoch (cm_admission m) = 0")
    case True
    then have "as_Activated (cm_admission m) < the r" "as_Activated (cm_admission m1) = the r" using st by simp_all
    then show ?thesis
      using "4.hyps" [OF m1 [symmetric] refl] True run st "4.prems" sorted_snoc [of es "as_Activated (cm_admission m)" "the r"] by fastforce
  next
    case False
    then show ?thesis using "4.hyps" [OF m1 [symmetric] refl] run st "4.prems" by auto
  qed
next
  case (6 ops m es)
  then obtain m1 where m1: "loadAdmission (m\<lparr>cm_admission := admissionState0\<rparr>) = Some m1" by (auto split: option.splits)
  show ?case using "6.hyps" [OF m1] synced_load [OF "6.prems"(2) m1] "6.prems" m1 by simp
qed (use reserve_step clear_step in \<open>auto intro!: order_trans\<close>)

text \<open>
  C29. Admission epochs are never reused: along any sequence of reservations, activations, departures and
  restarts, with any file failures and even if the 64-bit counter wraps, every epoch that becomes active is
  larger than all before it and than the last one active at the beginning.
\<close>

theorem admission_epochs_increase:
  assumes "admission_synced m" "admission_run ops (m, []) = Some (m', epochs)"
  shows "sorted_wrt (<) epochs \<and> (\<forall>e \<in> set epochs. as_Activated (cm_admission m) < e)"
  using admission_run_inv [OF assms(2,1), of "as_Activated (cm_admission m)"] by simp


subsection \<open>A node that leaves, one that is removed, and a restart\<close>

definition demo_member :: "string \<Rightarrow> ClusterNode" where
  "demo_member u = \<lparr>cn_ID = u, cn_NodeUUID = u, cn_Name = u, cn_IPAddress = ''10.0.0.2'', cn_Port = 5000, cn_ClusterID = ''k'',
     cn_AdmissionEpoch = 1, cn_State = stateMember, cn_JoinedAt = None, cn_LastSeen = None\<rparr>"

definition demo_disk :: "bool \<Rightarrow> Disk" where
  "demo_disk marked = \<lparr>dk_admission = Some (cm_admission demo_mgr), dk_members = Some [demo_member ''a'', demo_member ''b'', demo_member ''c''],
     dk_pins = [(''b'', tr_pin (demo_trusted ''b'' 1))], dk_tombstones = None, dk_proofs = None, dk_marker = marked, dk_invite = None\<rparr>"


definition demo_remove :: raw where
  "demo_remove = Some (JObj [(''nodeUuid'', JStr ''b'')])"

definition demo_members :: Manager where
  "demo_members = demo_mgr\<lparr>cm_members := [(''b'', demo_member ''b'')]\<rparr>"

definition demo_prepared :: "Manager \<times> (answer + removal)" where
  "demo_prepared = remove_prepare demo_cy 9 (Some (JInt 1)) demo_remove demo_members"

definition demo_removal :: removal where
  "demo_removal = (case snd demo_prepared of Inr r \<Rightarrow> r | Inl _ \<Rightarrow> undefined)"

definition demo_removed :: "Manager \<times> answer" where
  "demo_removed = remove_commit (Some (JInt 1)) demo_removal (fst demo_prepared)"

text \<open>The removed peer comes back under a later admission, endorsed by the node itself.\<close>

definition demo_back :: "(int \<times> Roster \<times> string) list" where
  "demo_back = [(10, demo_roster\<lparr>ro_Members := [demo_entry ''a'' ''b'' 2]\<rparr>, ''c'')]"

lemma demo_removal_runs:
  "map_sum (\<lambda>_. ()) (\<lambda>r. cn_NodeUUID (rv_node r)) (snd demo_prepared) = Inr ''b''"
  "snd demo_removed = nodes_removed (Some (JInt 1)) (cn_ID (rv_node demo_removal)) True"
  "map_option (\<lambda>m. map_option tp_AdmissionEpoch (trust_Get ''b'' m)) (mergeAll demo_cy demo_back (fst demo_removed)) = Some (Some 2)"
  by code_simp+

theorem nodes_remove_is_final_witness:
  "\<exists>m4 pin. mergeAll demo_cy demo_back (fst demo_removed) = Some m4 \<and> trust_Get (cn_NodeUUID (rv_node demo_removal)) m4 = Some pin \<and>
     cn_AdmissionEpoch (rv_node demo_removal) < tp_AdmissionEpoch pin"
proof -
  obtain r where r: "snd demo_prepared = Inr r" "cn_NodeUUID (rv_node r) = ''b''"
    using demo_removal_runs(1) by (cases "snd demo_prepared") auto
  then have d: "demo_removal = r" by (simp add: demo_removal_def)
  have ok: "trust_ok demo_cy demo_members"
    by (rule trust_ok_same [OF _ demo_trust_ok(1)]) (simp add: demo_members_def)
  have p: "remove_prepare demo_cy 9 (Some (JInt 1)) demo_remove demo_members = (fst demo_prepared, Inr demo_removal)"
    using r(1) unfolding demo_prepared_def d by (metis prod.collapse)
  have c: "remove_commit (Some (JInt 1)) demo_removal (fst demo_prepared) =
     (fst demo_removed, nodes_removed (Some (JInt 1)) (cn_ID (rv_node demo_removal)) True)"
    using demo_removal_runs(2) unfolding demo_removed_def by (metis prod.collapse)
  obtain m4 pin where m4: "mergeAll demo_cy demo_back (fst demo_removed) = Some m4" and pin: "trust_Get ''b'' m4 = Some pin"
    using demo_removal_runs(3) by auto
  have same: "mergeAll demo_cy [] (fst demo_prepared) = Some (fst demo_prepared)" by simp
  have "trust_Get (cn_NodeUUID (rv_node demo_removal)) m4 = Some pin" using pin r(2) d by simp
  from nodes_remove_is_final [OF ok p same c m4 this] m4 this show ?thesis by blast
qed

definition demo_start :: "Manager \<times> bool" where
  "demo_start = NewManager demo_cy 9 (cm_identity demo_mgr) 5000 (demo_disk False) []"

lemma demo_start_runs:
  "snd demo_start" "fst (currentAdmission (fst demo_start)) = ''k''" "map fst (cm_members (fst demo_start)) = [''a'', ''b'']"
  "ni_NodeUUID (cm_identity (fst demo_start)) = ''a''" "wf_map (dk_pins (demo_disk False))"
  by code_simp+

theorem start_lists_only_pinned_peers_witness:
  "\<exists>n pin. mget (cm_members (fst demo_start)) ''b'' = Some n \<and> trust_Get ''b'' (fst demo_start) = Some pin \<and>
     tp_AdmissionEpoch pin = cn_AdmissionEpoch n"
proof -
  have st: "NewManager demo_cy 9 (cm_identity demo_mgr) 5000 (demo_disk False) [] = (fst demo_start, True)"
    using demo_start_runs(1) unfolding demo_start_def by (metis prod.collapse)
  have "''b'' \<in> set (map fst (cm_members (fst demo_start)))" using demo_start_runs(3) by simp
  then obtain n where n: "mget (cm_members (fst demo_start)) ''b'' = Some n"
    by (metis mget_def map_of_eq_None_iff not_None_eq set_map)
  have "fst (currentAdmission (fst demo_start)) \<noteq> []" "''b'' \<noteq> ni_NodeUUID (cm_identity (fst demo_start))"
    using demo_start_runs(2,4) by simp_all
  from start_lists_only_pinned_peers [OF demo_start_runs(5) st this(1) n this(2)] n show ?thesis by blast
qed

definition demo_ops :: "admission_op list" where
  "demo_ops = [Clear, Reserve, Activate ''x'' 2, Restart, Clear, Reserve, Activate ''y'' 2, Activate ''y'' 3]"

definition demo_synced :: Manager where
  "demo_synced = demo_mgr\<lparr>cm_disk := demo_disk False\<rparr>"

theorem admission_epochs_increase_witness:
  "admission_synced demo_synced \<and> map_option snd (admission_run demo_ops (demo_synced, [])) = Some [2, 3] \<and>
   sorted_wrt (<) ([2, 3] :: epoch list) \<and> list_all (\<lambda>e. as_Activated (cm_admission demo_synced) < e) [2, 3]"
proof -
  have s: "admission_synced demo_synced" by code_simp
  have r: "map_option snd (admission_run demo_ops (demo_synced, [])) = Some [2, 3]" by code_simp
  then obtain m' where "admission_run demo_ops (demo_synced, []) = Some (m', [2, 3])" by auto
  from admission_epochs_increase [OF s this] s r show ?thesis by (simp add: list_all_iff)
qed

end
