(* ===== verification/Reach.thy ===== *)
theory Reach
  imports GoStrings "HOL-Library.Word"
begin

section \<open>Address confirmation and activity throttling\<close>

text \<open>
  \<open>shared/reach\<close>: which of a node's published addresses accepts a connection, and the memory of it
  that the dialers share; \<open>shared/nodeactivity\<close>: the throttle on liveness reports. A connect attempt is
  an argument \<open>dial\<close>, the answer within a timeout. A \<open>Chooser\<close> is used by several goroutines; its
  operations are cut at the points where they give the lock up, so that the steps interleave.
\<close>

subsection \<open>Probing\<close>

definition DefaultTimeout :: duration where "DefaultTimeout = Second"

type_synonym dialer = "string \<Rightarrow> duration \<Rightarrow> bool"

definition accepts :: "dialer \<Rightarrow> string \<Rightarrow> duration \<Rightarrow> bool" where
  "accepts dial address timeout = dial address timeout"

text \<open>The verdict channels, \<open>nil\<close> for an empty address, read in the published order.\<close>

fun read_verdicts :: "string list \<Rightarrow> bool option list \<Rightarrow> string option" where
  "read_verdicts (a # as) (v # vs) =
     (case v of
        None \<Rightarrow> read_verdicts as vs
      | Some accepted \<Rightarrow> if accepted then Some a else read_verdicts as vs)"
| "read_verdicts _ _ = None"

definition first :: "dialer \<Rightarrow> string list \<Rightarrow> duration \<Rightarrow> time \<Rightarrow> time \<Rightarrow> string option" where
  "first dial candidates timeout deadline now =
     (let t0 = (if timeout \<le> 0 then DefaultTimeout else timeout);
          probe = (\<lambda>t. read_verdicts candidates
            (map (\<lambda>a. if a = [] then None else Some (accepts dial a t)) candidates))
      in if IsZero deadline then probe t0
         else let remaining = deadline - now in
           if remaining \<le> 0 then None else probe (min t0 remaining))"

definition First :: "dialer \<Rightarrow> string list \<Rightarrow> duration \<Rightarrow> time \<Rightarrow> string option" where
  "First dial candidates timeout now = first dial candidates timeout zero_time now"

subsection \<open>The chooser\<close>

definition UnconfirmedCooldown :: duration where "UnconfirmedCooldown = 5 * Second"

record choice =
  ch_fingerprint :: string
  ch_address :: string
  ch_settled :: bool
  ch_at :: time

definition choice_reuse :: "choice \<Rightarrow> string list \<Rightarrow> string \<Rightarrow> time \<Rightarrow> string \<times> bool" where
  "choice_reuse c candidates fingerprint now =
     (if ch_fingerprint c = fingerprint
      then (ch_address c, ch_settled c \<or> now - ch_at c < UnconfirmedCooldown)
      else (ch_address c, ch_settled c \<and> ch_address c \<in> set candidates))"

record Chooser =
  cr_timeout :: duration
  cr_cache :: "(string, choice) gomap"
  cr_probing :: "(string, bool) gomap"
  cr_generation :: "(string, 64 word) gomap"

definition NewChooser :: Chooser where
  "NewChooser = \<lparr>cr_timeout = DefaultTimeout, cr_cache = [], cr_probing = [], cr_generation = []\<rparr>"

definition gen :: "string \<Rightarrow> Chooser \<Rightarrow> 64 word" where
  "gen key c = (case mget (cr_generation c) key of None \<Rightarrow> 0 | Some g \<Rightarrow> g)"

definition is_probing :: "string \<Rightarrow> Chooser \<Rightarrow> bool" where
  "is_probing key c = (case mget (cr_probing c) key of None \<Rightarrow> False | Some b \<Rightarrow> b)"

definition reuse :: "string \<Rightarrow> string list \<Rightarrow> string \<Rightarrow> time \<Rightarrow> Chooser \<Rightarrow> Chooser \<times> string option" where
  "reuse key candidates fingerprint now c =
     (case mget (cr_cache c) key of
        None \<Rightarrow> (c, None)
      | Some e \<Rightarrow>
          (let (address, keep) = choice_reuse e candidates fingerprint now in
           if \<not> keep then (c, None)
           else (c\<lparr>cr_cache := mput key (e\<lparr>ch_fingerprint := fingerprint\<rparr>) (cr_cache c)\<rparr>, Some address)))"

text \<open>A confirmation under way: what \<open>confirm\<close>, or a waiting \<open>ChooseWithin\<close>, holds between its locks.\<close>

record probe =
  pb_key :: string
  pb_candidates :: "string list"
  pb_fingerprint :: string
  pb_generation :: "64 word"

definition Prefer :: "string \<Rightarrow> string list \<Rightarrow> time \<Rightarrow> Chooser \<Rightarrow> Chooser \<times> string \<times> probe option" where
  "Prefer key candidates now c =
     (case candidates of
        [] \<Rightarrow> (c, [], None)
      | [a] \<Rightarrow> (c, a, None)
      | a # _ \<Rightarrow>
          (let fingerprint = Join (CHR ''|'') candidates in
           case reuse key candidates fingerprint now c of
             (c', Some address) \<Rightarrow> (c', address, None)
           | (c', None) \<Rightarrow>
               if is_probing key c' then (c', a, None)
               else (c'\<lparr>cr_probing := mput key True (cr_probing c')\<rparr>, a,
                     Some \<lparr>pb_key = key, pb_candidates = candidates, pb_fingerprint = fingerprint,
                           pb_generation = gen key c'\<rparr>)))"

text \<open>\<open>ChooseWithin\<close> up to its probe: an address at once, or the confirmation it waits for.\<close>

definition ChooseWithin :: "string \<Rightarrow> string list \<Rightarrow> time \<Rightarrow> Chooser \<Rightarrow> Chooser \<times> (string + probe)" where
  "ChooseWithin key candidates now c =
     (case candidates of
        [] \<Rightarrow> (c, Inl [])
      | [a] \<Rightarrow> (c, Inl a)
      | _ \<Rightarrow>
          (let fingerprint = Join (CHR ''|'') candidates in
           case reuse key candidates fingerprint now c of
             (c', Some address) \<Rightarrow> (c', Inl address)
           | (c', None) \<Rightarrow>
               (c', Inr \<lparr>pb_key = key, pb_candidates = candidates, pb_fingerprint = fingerprint,
                         pb_generation = gen key c'\<rparr>)))"

definition remember :: "probe \<Rightarrow> string option \<Rightarrow> time \<Rightarrow> Chooser \<Rightarrow> Chooser \<times> string" where
  "remember p found now c =
     (let address = (case found of Some a \<Rightarrow> a | None \<Rightarrow> hd (pb_candidates p)) in
      (if gen (pb_key p) c = pb_generation p
       then c\<lparr>cr_cache := mput (pb_key p)
               \<lparr>ch_fingerprint = pb_fingerprint p, ch_address = address, ch_settled = (found \<noteq> None), ch_at = now\<rparr>
               (cr_cache c)\<rparr>
       else c, address))"

text \<open>The last critical section of \<open>confirm\<close>.\<close>

definition release :: "probe \<Rightarrow> Chooser \<Rightarrow> Chooser" where
  "release p c =
     (if gen (pb_key p) c = pb_generation p then c\<lparr>cr_probing := mdel (pb_key p) (cr_probing c)\<rparr> else c)"

text \<open>\<open>confirm\<close> and a waiting \<open>ChooseWithin\<close>, run without interference.\<close>

definition confirm :: "dialer \<Rightarrow> probe \<Rightarrow> time \<Rightarrow> Chooser \<Rightarrow> Chooser" where
  "confirm dial p now c =
     release p (fst (remember p (first dial (pb_candidates p) (cr_timeout c) zero_time now) now c))"

definition wait_for :: "dialer \<Rightarrow> time \<Rightarrow> probe \<Rightarrow> time \<Rightarrow> Chooser \<Rightarrow> Chooser \<times> string" where
  "wait_for dial deadline p now c =
     remember p (first dial (pb_candidates p) (cr_timeout c) deadline now) now c"

definition Forget :: "string \<Rightarrow> Chooser \<Rightarrow> Chooser" where
  "Forget key c =
     c\<lparr>cr_cache := mdel key (cr_cache c), cr_probing := mdel key (cr_probing c),
       cr_generation := mput key (gen key c + 1) (cr_generation c)\<rparr>"

subsection \<open>Activity reports\<close>

record Reporter =
  rp_last :: "(string, time) gomap"
  rp_interval :: duration

definition NewReporter :: "duration \<Rightarrow> Reporter" where
  "NewReporter interval = \<lparr>rp_last = [], rp_interval = interval\<rparr>"

definition Due :: "time \<Rightarrow> string \<Rightarrow> Reporter \<Rightarrow> Reporter \<times> bool" where
  "Due now nodeID r =
     (if nodeID = [] then (r, False)
      else case mget (rp_last r) nodeID of
        Some at \<Rightarrow>
          if now - at < rp_interval r then (r, False)
          else (r\<lparr>rp_last := mput nodeID now (rp_last r)\<rparr>, True)
      | None \<Rightarrow> (r\<lparr>rp_last := mput nodeID now (rp_last r)\<rparr>, True))"

definition reporter_Forget :: "string \<Rightarrow> Reporter \<Rightarrow> Reporter" where
  "reporter_Forget nodeID r = r\<lparr>rp_last := mdel nodeID (rp_last r)\<rparr>"

subsection \<open>Interleaved use\<close>

text \<open>
  The goroutines over one chooser: confirmations that probe, that have recorded their verdict and not
  yet released their registration, and callers of \<open>ChooseWithin\<close> waiting for a probe. Labels tell the
  steps that start a confirmation and those that retire an answer. Addresses are \<open>host:port\<close> strings,
  which have no bar in them.
\<close>

record sys =
  sy_c :: Chooser
  sy_bg :: "probe list"
  sy_done :: "probe list"
  sy_wait :: "probe list"

definition addresses_ok :: "string list \<Rightarrow> bool" where
  "addresses_ok cands \<longleftrightarrow> (\<forall>a \<in> set cands. CHR ''|'' \<notin> set a)"

datatype label = Start string | Retire string | Other

inductive reach_step :: "sys \<Rightarrow> label \<Rightarrow> sys \<Rightarrow> bool" where
  preferred: "addresses_ok cands \<Longrightarrow> Prefer key cands now (sy_c s) = (c', a, None) \<Longrightarrow>
     reach_step s Other (s\<lparr>sy_c := c'\<rparr>)"
| prefer_spawn: "addresses_ok cands \<Longrightarrow> Prefer key cands now (sy_c s) = (c', a, Some p) \<Longrightarrow>
     reach_step s (Start key) (s\<lparr>sy_c := c', sy_bg := p # sy_bg s\<rparr>)"
| choose: "addresses_ok cands \<Longrightarrow> ChooseWithin key cands now (sy_c s) = (c', Inl a) \<Longrightarrow>
     reach_step s Other (s\<lparr>sy_c := c'\<rparr>)"
| choose_wait: "addresses_ok cands \<Longrightarrow> ChooseWithin key cands now (sy_c s) = (c', Inr p) \<Longrightarrow>
     reach_step s (Start key) (s\<lparr>sy_c := c', sy_wait := p # sy_wait s\<rparr>)"
| verdict: "p \<in> set (sy_bg s) \<Longrightarrow> found = first dial (pb_candidates p) (cr_timeout (sy_c s)) zero_time began \<Longrightarrow>
     reach_step s Other (s\<lparr>sy_c := fst (remember p found now (sy_c s)), sy_bg := remove1 p (sy_bg s),
       sy_done := p # sy_done s\<rparr>)"
| released: "p \<in> set (sy_done s) \<Longrightarrow>
     reach_step s Other (s\<lparr>sy_c := release p (sy_c s), sy_done := remove1 p (sy_done s)\<rparr>)"
| waited: "p \<in> set (sy_wait s) \<Longrightarrow> found = first dial (pb_candidates p) (cr_timeout (sy_c s)) deadline began \<Longrightarrow>
     reach_step s Other (s\<lparr>sy_c := fst (remember p found now (sy_c s)), sy_wait := remove1 p (sy_wait s)\<rparr>)"
| forget: "reach_step s (Retire key) (s\<lparr>sy_c := Forget key (sy_c s)\<rparr>)"

text \<open>States reached with \<open>n\<close> retirements.\<close>

inductive reach_run :: "nat \<Rightarrow> sys \<Rightarrow> bool" where
  init: "reach_run 0 \<lparr>sy_c = NewChooser, sy_bg = [], sy_done = [], sy_wait = []\<rparr>"
| step: "reach_run n s \<Longrightarrow> reach_step s l s' \<Longrightarrow>
     reach_run (case l of Retire _ \<Rightarrow> Suc n | _ \<Rightarrow> n) s'"

subsection \<open>What the operations keep\<close>

lemma reuse_keeps [simp]:
  "cr_generation (fst (reuse key cands fp now c)) = cr_generation c"
  "cr_probing (fst (reuse key cands fp now c)) = cr_probing c"
  by (simp_all add: reuse_def Let_def split: option.split prod.split)

lemma remember_keeps [simp]:
  "cr_generation (fst (remember p found now c)) = cr_generation c"
  "cr_probing (fst (remember p found now c)) = cr_probing c"
  by (simp_all add: remember_def Let_def)

lemma release_keeps [simp]:
  "cr_generation (release p c) = cr_generation c" "cr_cache (release p c) = cr_cache c"
  by (simp_all add: release_def)

lemma gen_cong: "cr_generation c = cr_generation c' \<Longrightarrow> gen k c = gen k c'"
  by (simp add: gen_def)

lemma is_probing_cong: "cr_probing c = cr_probing c' \<Longrightarrow> is_probing k c = is_probing k c'"
  by (simp add: is_probing_def)

lemma gen_Forget: "gen k (Forget key c) = (if k = key then gen key c + 1 else gen k c)"
  by (simp add: gen_def Forget_def gomap)

lemma is_probing_Forget: "is_probing k (Forget key c) = (k \<noteq> key \<and> is_probing k c)"
  by (simp add: is_probing_def Forget_def gomap)

text \<open>The two ways through \<open>Prefer\<close> and \<open>ChooseWithin\<close>.\<close>

definition new_probe :: "string \<Rightarrow> string list \<Rightarrow> Chooser \<Rightarrow> probe" where
  "new_probe key cands c =
     \<lparr>pb_key = key, pb_candidates = cands, pb_fingerprint = Join (CHR ''|'') cands, pb_generation = gen key c\<rparr>"

lemma Prefer_walk:
  "2 \<le> length cands \<Longrightarrow> Prefer key cands now c =
     (case reuse key cands (Join (CHR ''|'') cands) now c of
        (c1, Some a) \<Rightarrow> (c1, a, None)
      | (c1, None) \<Rightarrow> if is_probing key c1 then (c1, hd cands, None)
          else (c1\<lparr>cr_probing := mput key True (cr_probing c1)\<rparr>, hd cands, Some (new_probe key cands c1)))"
  by (cases cands; cases "tl cands") (auto simp: Prefer_def new_probe_def Let_def simp del: Join.simps split: prod.split option.split)

lemma Prefer_short: "length cands \<le> 1 \<Longrightarrow> Prefer key cands now c = (c, if cands = [] then [] else hd cands, None)"
  by (cases cands) (auto simp: Prefer_def)

lemma ChooseWithin_walk:
  "2 \<le> length cands \<Longrightarrow> ChooseWithin key cands now c =
     (case reuse key cands (Join (CHR ''|'') cands) now c of
        (c1, Some a) \<Rightarrow> (c1, Inl a)
      | (c1, None) \<Rightarrow> (c1, Inr (new_probe key cands c1)))"
  by (cases cands; cases "tl cands") (auto simp: ChooseWithin_def new_probe_def Let_def simp del: Join.simps split: prod.split option.split)

lemma ChooseWithin_short: "length cands \<le> 1 \<Longrightarrow> ChooseWithin key cands now c = (c, Inl (if cands = [] then [] else hd cands))"
  by (cases cands) (auto simp: ChooseWithin_def)

lemma reuse_same:
  assumes "reuse key cands fp now c = (c1, r)"
  shows "gen k c1 = gen k c" "is_probing k c1 = is_probing k c" "new_probe k cs c1 = new_probe k cs c"
  using reuse_keeps [of key cands fp now c] assms by (auto simp: new_probe_def gen_def is_probing_def)

lemma Prefer_cases:
  assumes "Prefer key cands now c = (c', a, sp)"
  obtains (short) "length cands \<le> 1" "c' = c" "sp = None" "a = (if cands = [] then [] else hd cands)"
  | (reused) "2 \<le> length cands" "reuse key cands (Join (CHR ''|'') cands) now c = (c', Some a)" "sp = None"
  | (busy) "2 \<le> length cands" "reuse key cands (Join (CHR ''|'') cands) now c = (c', None)" "is_probing key c" "sp = None"
      "a = hd cands"
  | (spawned) c1 where "2 \<le> length cands" "reuse key cands (Join (CHR ''|'') cands) now c = (c1, None)" "\<not> is_probing key c"
      "c' = c1\<lparr>cr_probing := mput key True (cr_probing c1)\<rparr>" "sp = Some (new_probe key cands c)" "a = hd cands"
proof (cases "length cands \<le> 1")
  case True
  show ?thesis using assms Prefer_short [OF True, of key now c] by (intro short [OF True]) auto
next
  case False
  then have two: "2 \<le> length cands" by simp
  obtain c1 r where r: "reuse key cands (Join (CHR ''|'') cands) now c = (c1, r)" by fastforce
  note same = reuse_same [OF r]
  note eq = assms [unfolded Prefer_walk [OF two] r]
  show ?thesis
  proof (cases r)
    case (Some b)
    with eq r show ?thesis by (intro reused [OF two]) simp_all
  next
    case None
    show ?thesis
    proof (cases "is_probing key c")
      case True
      with None eq r same show ?thesis by (intro busy [OF two]) simp_all
    next
      case False
      with None eq r same show ?thesis by (intro spawned [OF two, of c1]) auto
    qed
  qed
qed

lemma ChooseWithin_cases:
  assumes "ChooseWithin key cands now c = (c', r)"
  obtains (short) "length cands \<le> 1" "c' = c" "r = Inl (if cands = [] then [] else hd cands)"
  | (reused) a where "2 \<le> length cands" "reuse key cands (Join (CHR ''|'') cands) now c = (c', Some a)" "r = Inl a"
  | (waits) "2 \<le> length cands" "reuse key cands (Join (CHR ''|'') cands) now c = (c', None)" "r = Inr (new_probe key cands c)"
proof (cases "length cands \<le> 1")
  case True
  show ?thesis using assms ChooseWithin_short [OF True, of key now c] by (intro short [OF True]) auto
next
  case False
  then have two: "2 \<le> length cands" by simp
  obtain c1 q where q: "reuse key cands (Join (CHR ''|'') cands) now c = (c1, q)" by fastforce
  note same = reuse_same [OF q]
  note eq = assms [unfolded ChooseWithin_walk [OF two] q]
  show ?thesis
  proof (cases q)
    case (Some b)
    with eq q show ?thesis by (intro reused [OF two, of b]) simp_all
  next
    case None
    with eq q same show ?thesis by (intro waits [OF two]) simp_all
  qed
qed

subsection \<open>The best-ranked address\<close>

lemma read_verdicts_find:
  "read_verdicts cands (map (\<lambda>a. if a = [] then None else Some (f a)) cands) = List.find (\<lambda>a. a \<noteq> [] \<and> f a) cands"
  by (induction cands) auto

lemma first_member: "first dial cands timeout deadline now = Some a \<Longrightarrow> a \<in> set cands"
  by (auto simp: first_def Let_def read_verdicts_find find_Some_iff split: if_splits)

lemma Join_inj:
  assumes "addresses_ok xs" "addresses_ok ys" "xs \<noteq> []" "ys \<noteq> []" "Join (CHR ''|'') xs = Join (CHR ''|'') ys"
  shows "xs = ys"
  using assms Split_Join [of xs "CHR ''|''"] Split_Join [of ys "CHR ''|''"] unfolding addresses_ok_def by metis

text \<open>What is cached, and what a confirmation will cache, is an address of the list it was chosen from.\<close>

definition probe_shape :: "probe \<Rightarrow> bool" where
  "probe_shape p \<longleftrightarrow> addresses_ok (pb_candidates p) \<and> 2 \<le> length (pb_candidates p) \<and>
     pb_fingerprint p = Join (CHR ''|'') (pb_candidates p)"

definition cache_shape :: "Chooser \<Rightarrow> bool" where
  "cache_shape c \<longleftrightarrow> (\<forall>k e. mget (cr_cache c) k = Some e \<longrightarrow>
     (\<exists>cands. addresses_ok cands \<and> 2 \<le> length cands \<and> ch_fingerprint e = Join (CHR ''|'') cands \<and> ch_address e \<in> set cands))"

definition flights :: "sys \<Rightarrow> probe list" where
  "flights s = sy_bg s @ sy_done s @ sy_wait s"

lemma new_probe_shape: "addresses_ok cands \<Longrightarrow> 2 \<le> length cands \<Longrightarrow> probe_shape (new_probe key cands c)"
  by (simp add: probe_shape_def new_probe_def)

lemma reuse_address:
  assumes "cache_shape c" "addresses_ok cands" "2 \<le> length cands"
    and r: "reuse key cands (Join (CHR ''|'') cands) now c = (c1, Some a)"
  shows "a \<in> set cands"
proof -
  obtain e where e: "mget (cr_cache c) key = Some e" "choice_reuse e cands (Join (CHR ''|'') cands) now = (a, True)"
    using r by (auto simp: reuse_def Let_def split: option.splits prod.splits if_splits)
  from assms(1) e(1) obtain old where old: "addresses_ok old" "2 \<le> length old"
    "ch_fingerprint e = Join (CHR ''|'') old" "ch_address e \<in> set old" unfolding cache_shape_def by blast
  have ne: "old \<noteq> []" "cands \<noteq> []" using old(2) assms(3) by auto
  show ?thesis
  proof (cases "ch_fingerprint e = Join (CHR ''|'') cands")
    case True
    then have "old = cands" using Join_inj [OF old(1) assms(2) ne] old(3) by simp
    with e(2) old(4) True show ?thesis by (simp add: choice_reuse_def)
  next
    case False
    with e(2) show ?thesis by (auto simp: choice_reuse_def)
  qed
qed

lemma reuse_cache_shape:
  assumes "cache_shape c" "addresses_ok cands" "2 \<le> length cands"
    and r: "reuse key cands (Join (CHR ''|'') cands) now c = (c1, q)"
  shows "cache_shape c1"
proof (cases q)
  case None
  with r have "c1 = c" by (auto simp: reuse_def Let_def split: option.splits prod.splits if_splits)
  with assms(1) show ?thesis by simp
next
  case (Some a)
  have a: "a \<in> set cands" using reuse_address [OF assms(1-3)] r Some by simp
  obtain e where c1: "c1 = c\<lparr>cr_cache := mput key (e\<lparr>ch_fingerprint := Join (CHR ''|'') cands\<rparr>) (cr_cache c)\<rparr>" "ch_address e = a"
    using r Some by (auto simp: reuse_def Let_def choice_reuse_def split: option.splits prod.splits if_splits)
  show ?thesis
    unfolding cache_shape_def using assms(1-3) a c1 by (auto simp: cache_shape_def gomap split: if_splits)
qed

lemma remember_address:
  assumes "probe_shape p" "\<And>a. found = Some a \<Longrightarrow> a \<in> set (pb_candidates p)"
  shows "snd (remember p found now c) \<in> set (pb_candidates p)"
proof -
  have "pb_candidates p \<noteq> []" using assms(1) by (auto simp: probe_shape_def)
  with assms(2) show ?thesis by (auto simp: remember_def Let_def split: option.split)
qed

lemma remember_cache_shape:
  assumes "cache_shape c" "probe_shape p" "\<And>a. found = Some a \<Longrightarrow> a \<in> set (pb_candidates p)"
  shows "cache_shape (fst (remember p found now c))"
proof -
  let ?a = "case found of Some a \<Rightarrow> a | None \<Rightarrow> hd (pb_candidates p)"
  have a: "?a \<in> set (pb_candidates p)"
    using remember_address [where p = p and found = found and now = now and c = c, OF assms(2,3)] by (simp add: remember_def Let_def)
  show ?thesis
    using assms(1,2) a
    by (auto simp: cache_shape_def probe_shape_def remember_def Let_def gomap)
qed

lemma step_shape:
  assumes "reach_step s l s'" "cache_shape (sy_c s)" "\<forall>p \<in> set (flights s). probe_shape p"
  shows "cache_shape (sy_c s') \<and> (\<forall>p \<in> set (flights s'). probe_shape p)"
  using assms
proof (induction rule: reach_step.induct)
  case (preferred cands key now s c' a)
  from preferred(2) show ?case
    by (cases rule: Prefer_cases) (use preferred reuse_cache_shape in \<open>auto simp: flights_def\<close>)
next
  case (prefer_spawn cands key now s c' a p)
  from prefer_spawn(2) show ?case
  proof (cases rule: Prefer_cases)
    case (spawned c1)
    then have "cache_shape c1" using reuse_cache_shape prefer_spawn by blast
    with spawned prefer_spawn new_probe_shape show ?thesis by (auto simp: flights_def cache_shape_def)
  qed simp_all
next
  case (choose cands key now s c' a)
  from choose(2) show ?case
    by (cases rule: ChooseWithin_cases) (use choose reuse_cache_shape in \<open>auto simp: flights_def\<close>)
next
  case (choose_wait cands key now s c' p)
  from choose_wait(2) show ?case
  proof (cases rule: ChooseWithin_cases)
    case waits
    then have "cache_shape c'" using reuse_cache_shape choose_wait by blast
    with waits choose_wait new_probe_shape show ?thesis by (auto simp: flights_def)
  qed simp_all
next
  case (verdict p s found dial began now)
  then have p: "probe_shape p" by (auto simp: flights_def)
  have "cache_shape (fst (remember p found now (sy_c s)))"
    using verdict p by (intro remember_cache_shape) (auto intro: first_member [OF sym])
  moreover have "set (remove1 p (sy_bg s)) \<subseteq> set (sy_bg s)" by (rule set_remove1_subset)
  ultimately show ?case using verdict p by (auto simp: flights_def)
next
  case (released p s)
  have "set (remove1 p (sy_done s)) \<subseteq> set (sy_done s)" by (rule set_remove1_subset)
  with released show ?case by (auto simp: flights_def cache_shape_def)
next
  case (waited p s found dial deadline began now)
  then have p: "probe_shape p" by (auto simp: flights_def)
  have "cache_shape (fst (remember p found now (sy_c s)))"
    using waited p by (intro remember_cache_shape) (auto intro: first_member [OF sym])
  moreover have "set (remove1 p (sy_wait s)) \<subseteq> set (sy_wait s)" by (rule set_remove1_subset)
  ultimately show ?case using waited p by (auto simp: flights_def)
next
  case (forget s key)
  then show ?case by (auto simp: flights_def cache_shape_def Forget_def gomap split: if_splits)
qed

lemma run_shape: "reach_run n s \<Longrightarrow> cache_shape (sy_c s) \<and> (\<forall>p \<in> set (flights s). probe_shape p)"
  by (induction rule: reach_run.induct) (use step_shape in \<open>auto simp: cache_shape_def NewChooser_def flights_def\<close>)

subsection \<open>Generations\<close>

definition gen_inv :: "nat \<Rightarrow> sys \<Rightarrow> bool" where
  "gen_inv n s \<longleftrightarrow> (\<forall>k. unat (gen k (sy_c s)) \<le> n) \<and>
     (\<forall>p \<in> set (flights s). pb_generation p \<le> gen (pb_key p) (sy_c s))"

text \<open>The confirmations that are registered: those of the current generation.\<close>

definition current :: "string \<Rightarrow> sys \<Rightarrow> probe list" where
  "current k s = filter (\<lambda>p. pb_key p = k \<and> pb_generation p = gen k (sy_c s)) (sy_bg s @ sy_done s)"

definition probing_inv :: "sys \<Rightarrow> bool" where
  "probing_inv s \<longleftrightarrow> (\<forall>k. length (current k s) = (if is_probing k (sy_c s) then 1 else 0))"

lemma probing_inv_idle: "probing_inv s \<Longrightarrow> \<not> is_probing k (sy_c s) \<Longrightarrow> current k s = []"
  unfolding probing_inv_def by (metis length_0_conv)

lemma word_Suc:
  "unat (g :: 64 word) \<le> n \<Longrightarrow> Suc n < 2 ^ 64 \<Longrightarrow> unat (g + 1) = Suc (unat g)"
  by (simp add: unat_word_ariths)

lemma Prefer_gen: "Prefer key cands now c = (c', a, sp) \<Longrightarrow> gen k c' = gen k c"
  by (erule Prefer_cases) (auto simp: reuse_same(1) gen_def dest: reuse_same(1) [of _ _ _ _ _ _ _ k])

lemma ChooseWithin_gen: "ChooseWithin key cands now c = (c', r) \<Longrightarrow> gen k c' = gen k c"
  by (erule ChooseWithin_cases) (auto dest: reuse_same(1) [of _ _ _ _ _ _ _ k])

lemma remember_same [simp]:
  "gen k (fst (remember p found now c)) = gen k c" "is_probing k (fst (remember p found now c)) = is_probing k c"
  by (simp_all add: gen_def is_probing_def)

lemma release_gen [simp]: "gen k (release p c) = gen k c"
  by (simp add: gen_def)

lemma Prefer_probe:
  "Prefer key cands now c = (c', a, Some p) \<Longrightarrow> p = new_probe key cands c \<and> \<not> is_probing key c \<and>
     is_probing k c' = (k = key \<or> is_probing k c)"
  by (erule Prefer_cases) (auto simp: is_probing_def gomap dest: reuse_same(2) [of _ _ _ _ _ _ _ k])

lemma Prefer_none: "Prefer key cands now c = (c', a, None) \<Longrightarrow> is_probing k c' = is_probing k c"
  by (erule Prefer_cases) (auto dest: reuse_same(2) [of _ _ _ _ _ _ _ k])

lemma ChooseWithin_probing: "ChooseWithin key cands now c = (c', r) \<Longrightarrow> is_probing k c' = is_probing k c"
  by (erule ChooseWithin_cases) (auto dest: reuse_same(2) [of _ _ _ _ _ _ _ k])

lemma ChooseWithin_probe: "ChooseWithin key cands now c = (c', Inr p) \<Longrightarrow> p = new_probe key cands c"
  by (erule ChooseWithin_cases) auto

lemma new_probe_sel [simp]: "pb_key (new_probe key cands c) = key" "pb_generation (new_probe key cands c) = gen key c"
  by (simp_all add: new_probe_def)

lemma remove1_subset: "x \<in> set (remove1 p xs) \<Longrightarrow> x \<in> set xs"
  by (meson notin_set_remove1)

lemma step_gen:
  assumes "reach_step s l s'" "gen_inv n s" "(case l of Retire _ \<Rightarrow> Suc n | _ \<Rightarrow> n) < 2 ^ 64"
  shows "gen_inv (case l of Retire _ \<Rightarrow> Suc n | _ \<Rightarrow> n) s'"
  using assms
proof (induction rule: reach_step.induct)
  case (forget s key)
  have b: "unat (gen key (sy_c s) + 1) = Suc (unat (gen key (sy_c s)))"
    using forget word_Suc [of "gen key (sy_c s)" n] by (simp add: gen_inv_def)
  have "unat (gen k (Forget key (sy_c s))) \<le> Suc n" for k
    using forget b by (auto simp: gen_inv_def gen_Forget le_SucI)
  moreover have "pb_generation p \<le> gen (pb_key p) (Forget key (sy_c s))" if p_in: "p \<in> set (flights s)" for p
  proof (cases "pb_key p = key")
    case True
    have "unat (pb_generation p) \<le> unat (gen key (sy_c s))"
      using forget p_in True by (auto simp: gen_inv_def word_le_nat_alt)
    with True b show ?thesis by (simp add: gen_Forget word_le_nat_alt)
  qed (use forget p_in in \<open>simp add: gen_inv_def gen_Forget\<close>)
  ultimately show ?case by (auto simp: gen_inv_def flights_def)
qed (auto simp: gen_inv_def flights_def Prefer_gen ChooseWithin_gen dest: Prefer_probe ChooseWithin_probe remove1_subset)

lemma filter_remove1: "filter q (remove1 p xs) = (if q p then remove1 p (filter q xs) else filter q xs)"
  by (induction xs) auto

lemma length_filter_move:
  assumes "p \<in> set xs"
  shows "length (filter q (remove1 p xs)) + length (filter q (p # ys)) = length (filter q xs) + length (filter q ys)"
proof (cases "q p")
  case True
  with assms have "p \<in> set (filter q xs)" by simp
  with length_pos_if_in_set [OF this] True show ?thesis by (simp add: filter_remove1 length_remove1)
qed (simp add: filter_remove1)

lemma step_probing:
  assumes "reach_step s l s'" "gen_inv n s" "probing_inv s" "Suc n < 2 ^ 64"
  shows "probing_inv s'"
  using assms
proof (induction rule: reach_step.induct)
  case (preferred cands key now s c' a)
  then show ?case
    by (simp add: probing_inv_def current_def Prefer_gen [OF preferred(2)] Prefer_none [OF preferred(2)])
next
  case (prefer_spawn cands key now s c' a p)
  have pr: "p = new_probe key cands (sy_c s)" "\<not> is_probing key (sy_c s)" "\<And>k. is_probing k c' = (k = key \<or> is_probing k (sy_c s))"
    using Prefer_probe [OF prefer_spawn(2)] by blast+
  have "length (current k (s\<lparr>sy_c := c', sy_bg := p # sy_bg s\<rparr>)) = (if is_probing k c' then 1 else 0)" for k
  proof (cases "k = key")
    case True
    from prefer_spawn(4) pr(2) have "current key s = []" by (rule probing_inv_idle)
    with True pr show ?thesis by (simp add: current_def Prefer_gen [OF prefer_spawn(2)])
  next
    case False
    with prefer_spawn(4) pr show ?thesis by (auto simp: current_def Prefer_gen [OF prefer_spawn(2)] probing_inv_def)
  qed
  then show ?case by (simp add: probing_inv_def)
next
  case (choose cands key now s c' a)
  then show ?case
    by (simp add: probing_inv_def current_def ChooseWithin_gen [OF choose(2)] ChooseWithin_probing [OF choose(2)])
next
  case (choose_wait cands key now s c' p)
  then show ?case
    by (simp add: probing_inv_def current_def ChooseWithin_gen [OF choose_wait(2)] ChooseWithin_probing [OF choose_wait(2)])
next
  case (verdict p s found dial began now)
  have "length (current k (s\<lparr>sy_c := fst (remember p found now (sy_c s)), sy_bg := remove1 p (sy_bg s),
      sy_done := p # sy_done s\<rparr>)) = length (current k s)" for k
    using length_filter_move [OF verdict(1), of "\<lambda>p. pb_key p = k \<and> pb_generation p = gen k (sy_c s)" "sy_done s"]
    by (simp add: current_def split: if_splits)
  with verdict show ?case by (simp add: probing_inv_def)
next
  case (released p s)
  let ?s = "s\<lparr>sy_c := release p (sy_c s), sy_done := remove1 p (sy_done s)\<rparr>"
  have "length (current k ?s) = (if is_probing k (release p (sy_c s)) then 1 else 0)" for k
  proof (cases "pb_key p = k \<and> pb_generation p = gen k (sy_c s)")
    case True
    have "length (current k s) \<le> 1" using released(3) by (simp add: probing_inv_def)
    moreover have "Suc (length (current k ?s)) = length (current k s)"
      using True length_filter_move [OF released(1), of "\<lambda>p. pb_key p = k \<and> pb_generation p = gen k (sy_c s)" "[]"]
      by (simp add: current_def)
    ultimately have "length (current k ?s) = 0" by linarith
    moreover have "\<not> is_probing k (release p (sy_c s))"
      using True by (auto simp: release_def is_probing_def gomap)
    ultimately show ?thesis by simp
  next
    case False
    then have "current k ?s = current k s" by (auto simp: current_def filter_remove1)
    moreover have "is_probing k (release p (sy_c s)) = is_probing k (sy_c s)"
      using False by (auto simp: release_def is_probing_def gomap)
    ultimately show ?thesis using released(3) by (simp add: probing_inv_def)
  qed
  then show ?case by (simp add: probing_inv_def)
next
  case (waited p s found dial deadline began now)
  then show ?case by (simp add: probing_inv_def current_def)
next
  case (forget s key)
  have "current key (s\<lparr>sy_c := Forget key (sy_c s)\<rparr>) = []"
  proof -
    have "unat (gen key (sy_c s) + 1) = Suc (unat (gen key (sy_c s)))"
      using forget word_Suc [of "gen key (sy_c s)" n] by (simp add: gen_inv_def)
    then have "gen key (sy_c s) < gen key (sy_c s) + 1" by (simp add: word_less_nat_alt)
    with forget show ?thesis
      by (auto simp: current_def filter_empty_conv gen_Forget gen_inv_def flights_def not_less)
        (metis Un_iff not_less)+
  qed
  moreover have "current k (s\<lparr>sy_c := Forget key (sy_c s)\<rparr>) = current k s" if "k \<noteq> key" for k
    using that by (simp add: current_def gen_Forget)
  ultimately have "length (current k (s\<lparr>sy_c := Forget key (sy_c s)\<rparr>)) = (if is_probing k (Forget key (sy_c s)) then 1 else 0)" for k
    using forget(2) by (cases "k = key") (simp_all add: probing_inv_def is_probing_Forget)
  then show ?case by (simp add: probing_inv_def)
qed

lemma run_inv: "reach_run n s \<Longrightarrow> Suc n < 2 ^ 64 \<Longrightarrow> gen_inv n s \<and> probing_inv s"
proof (induction rule: reach_run.induct)
  case init
  show ?case by (simp add: gen_inv_def probing_inv_def current_def flights_def NewChooser_def gen_def is_probing_def)
next
  case (step n s l s')
  then have n: "Suc n < 2 ^ 64" by (simp split: label.splits)
  with step.IH have "gen_inv n s" "probing_inv s" by auto
  with step n show ?case using step_gen [of s l s' n] step_probing [of s l s' n] by (auto split: label.splits)
qed

text \<open>Steps none of which starts a confirmation for \<open>k\<close>.\<close>

inductive quiet :: "string \<Rightarrow> nat \<Rightarrow> sys \<Rightarrow> sys \<Rightarrow> bool" for k where
  refl: "quiet k 0 s s"
| more: "quiet k n s s' \<Longrightarrow> reach_step s' l s'' \<Longrightarrow> l \<noteq> Start k \<Longrightarrow>
     quiet k (case l of Retire _ \<Rightarrow> Suc n | _ \<Rightarrow> n) s s''"

text \<open>Nothing remembered for \<open>k\<close>, and every confirmation for it under way is retired.\<close>

definition retired :: "string \<Rightarrow> sys \<Rightarrow> bool" where
  "retired k s \<longleftrightarrow> mget (cr_cache (sy_c s)) k = None \<and> \<not> is_probing k (sy_c s) \<and>
     (\<forall>p \<in> set (flights s). pb_key p = k \<longrightarrow> pb_generation p < gen k (sy_c s))"

lemma reuse_other: "reuse key cands fp now c = (c1, r) \<Longrightarrow> k \<noteq> key \<or> mget (cr_cache c) k = None \<Longrightarrow>
    mget (cr_cache c1) k = mget (cr_cache c) k"
  by (auto simp: reuse_def Let_def gomap split: option.splits prod.splits if_splits)

lemma Prefer_cache: "Prefer key cands now c = (c', a, sp) \<Longrightarrow> mget (cr_cache c) k = None \<Longrightarrow> mget (cr_cache c') k = None"
  by (erule Prefer_cases) (auto dest: reuse_other [of _ _ _ _ _ _ _ k])

lemma ChooseWithin_cache:
  "ChooseWithin key cands now c = (c', r) \<Longrightarrow> mget (cr_cache c) k = None \<Longrightarrow> mget (cr_cache c') k = None"
  by (erule ChooseWithin_cases) (auto dest: reuse_other [of _ _ _ _ _ _ _ k])

lemma remember_retired:
  "mget (cr_cache c) k = None \<Longrightarrow> pb_key p = k \<longrightarrow> pb_generation p < gen k c \<Longrightarrow>
     mget (cr_cache (fst (remember p found now c))) k = None"
  by (auto simp: remember_def Let_def gomap)

lemma step_retired:
  assumes "reach_step s l s'" "retired k s" "l \<noteq> Start k" "gen_inv n s" "Suc n < 2 ^ 64"
  shows "retired k s'"
  using assms
proof (induction rule: reach_step.induct)
  case (preferred cands key now s c' a)
  then show ?case
    using Prefer_gen [OF preferred(2)] Prefer_none [OF preferred(2)] Prefer_cache [OF preferred(2)]
    by (simp add: retired_def flights_def)
next
  case (prefer_spawn cands key now s c' a p)
  then show ?case
    using Prefer_gen [OF prefer_spawn(2)] Prefer_probe [OF prefer_spawn(2)] Prefer_cache [OF prefer_spawn(2)]
    by (auto simp: retired_def flights_def)
next
  case (choose cands key now s c' a)
  then show ?case
    using ChooseWithin_gen [OF choose(2)] ChooseWithin_probing [OF choose(2)] ChooseWithin_cache [OF choose(2)]
    by (simp add: retired_def flights_def)
next
  case (choose_wait cands key now s c' p)
  then show ?case
    using ChooseWithin_gen [OF choose_wait(2)] ChooseWithin_probing [OF choose_wait(2)]
      ChooseWithin_cache [OF choose_wait(2)] ChooseWithin_probe [OF choose_wait(2)]
    by (auto simp: retired_def flights_def)
next
  case (verdict p s found dial began now)
  then show ?case
    by (auto simp: retired_def flights_def intro!: remember_retired dest: remove1_subset)
next
  case (released p s)
  then show ?case
    by (auto simp: retired_def flights_def release_def is_probing_def gen_def gomap dest: remove1_subset)
next
  case (waited p s found dial deadline began now)
  then show ?case
    by (auto simp: retired_def flights_def intro!: remember_retired dest: remove1_subset)
next
  case (forget s key)
  have "unat (gen key (sy_c s) + 1) = Suc (unat (gen key (sy_c s)))"
    using forget word_Suc [of "gen key (sy_c s)" n] by (simp add: gen_inv_def)
  then have "gen key (sy_c s) < gen key (sy_c s) + 1" by (simp add: word_less_nat_alt)
  with forget show ?case
    by (auto simp: retired_def flights_def gen_Forget is_probing_Forget) (auto simp: Forget_def gomap intro: less_trans)
qed

lemma Forget_retires:
  assumes "gen_inv n s" "Suc n < 2 ^ 64"
  shows "retired k (s\<lparr>sy_c := Forget k (sy_c s)\<rparr>)"
proof -
  have "unat (gen k (sy_c s) + 1) = Suc (unat (gen k (sy_c s)))"
    using assms word_Suc [of "gen k (sy_c s)" n] by (simp add: gen_inv_def)
  then have "gen k (sy_c s) < gen k (sy_c s) + 1" by (simp add: word_less_nat_alt)
  with assms(1) show ?thesis
    by (auto simp: retired_def gen_inv_def flights_def gen_Forget is_probing_Forget intro: le_less_trans)
      (simp add: Forget_def gomap)
qed

lemma quiet_run:
  "quiet k n s s' \<Longrightarrow> reach_run m s \<Longrightarrow> reach_run (m + n) s'"
proof (induction rule: quiet.induct)
  case (more n s s' l s'')
  then have "reach_run (m + n) s'" by blast
  from reach_run.step [OF this more(2)] show ?case by (simp split: label.splits)
qed simp

lemma quiet_retired:
  "quiet k n s s' \<Longrightarrow> reach_run m s \<Longrightarrow> retired k s \<Longrightarrow> Suc (m + n) < 2 ^ 64 \<Longrightarrow> retired k s'"
proof (induction rule: quiet.induct)
  case (more n s s' l s'')
  then have b: "Suc (m + n) < 2 ^ 64" by (simp split: label.splits)
  have "gen_inv (m + n) s'" using run_inv [OF quiet_run [OF more(1,5)] b] by blast
  with more b show ?case using step_retired by blast
qed simp

subsection \<open>Properties\<close>


text \<open>
  A burst of requests for an unconfirmed node costs one probe: in every reachable state at most
  one background confirmation of the current generation exists per node, it exists exactly while the
  node is registered as being probed, and a request starts one only when there is none.
\<close>

theorem one_confirmation_per_node:
  assumes "reach_run n s" "n + 1 < 2 ^ 64"
  shows "length (current k s) = (if is_probing k (sy_c s) then 1 else 0)"
    and "Prefer k cands now (sy_c s) = (c', a, Some p) \<Longrightarrow> current k s = []"
proof -
  have inv: "probing_inv s" using run_inv [OF assms(1)] assms(2) by simp
  then show "length (current k s) = (if is_probing k (sy_c s) then 1 else 0)" by (simp add: probing_inv_def)
  assume "Prefer k cands now (sy_c s) = (c', a, Some p)"
  then have "\<not> is_probing k (sy_c s)" using Prefer_probe by blast
  with inv show "current k s = []" by (rule probing_inv_idle)
qed

text \<open>
  The address handed out is one the node publishes now: for every non-empty candidate list, the
  address a request gets at once, the one \<open>ChooseWithin\<close> returns from memory and the one a finished
  probe returns are all members of the list the caller passed, whatever was remembered from earlier
  lists.
\<close>

theorem chosen_address_is_published:
  assumes "reach_run n s" "addresses_ok cands" "cands \<noteq> []"
  shows "fst (snd (Prefer k cands now (sy_c s))) \<in> set cands"
    and "snd (ChooseWithin k cands now (sy_c s)) = Inl a \<Longrightarrow> a \<in> set cands"
    and "snd (ChooseWithin k cands now (sy_c s)) = Inr p \<Longrightarrow> snd (wait_for dial deadline p later c) \<in> set cands"
proof -
  have shape: "cache_shape (sy_c s)" using run_shape [OF assms(1)] by blast
  obtain c1 b sp where pr: "Prefer k cands now (sy_c s) = (c1, b, sp)" by (metis prod_cases3)
  show "fst (snd (Prefer k cands now (sy_c s))) \<in> set cands"
    using pr by (rule Prefer_cases) (use pr assms(3) reuse_address [OF shape assms(2)] in auto)
  obtain c2 r where ch: "ChooseWithin k cands now (sy_c s) = (c2, r)" by fastforce
  show "snd (ChooseWithin k cands now (sy_c s)) = Inl a \<Longrightarrow> a \<in> set cands"
    using ch by (rule ChooseWithin_cases) (use ch assms(3) reuse_address [OF shape assms(2)] in auto)
  assume wt: "snd (ChooseWithin k cands now (sy_c s)) = Inr p"
  from ch have "p = new_probe k cands (sy_c s) \<and> 2 \<le> length cands"
    by (rule ChooseWithin_cases) (use ch wt in auto)
  then have "probe_shape p" "pb_candidates p = cands" using new_probe_shape assms(2) by (auto simp: new_probe_def)
  then show "snd (wait_for dial deadline p later c) \<in> set cands"
    unfolding wait_for_def using remember_address first_member by metis
qed

definition granted :: "duration \<Rightarrow> time \<Rightarrow> time \<Rightarrow> duration" where
  "granted timeout deadline now =
     (let t = (if timeout \<le> 0 then DefaultTimeout else timeout)
      in if IsZero deadline then t else min t (deadline - now))"


subsection \<open>A run\<close>

definition demo_cands :: "string list" where "demo_cands = [''a:1'', ''b:1'']"

definition demo_c :: Chooser where
  "demo_c = NewChooser\<lparr>cr_probing := [(''n'', True)]\<rparr>"

definition demo_p :: probe where
  "demo_p = \<lparr>pb_key = ''n'', pb_candidates = demo_cands, pb_fingerprint = ''a:1|b:1'', pb_generation = 0\<rparr>"

definition demo_sys :: sys where
  "demo_sys = \<lparr>sy_c = demo_c, sy_bg = [demo_p], sy_done = [], sy_wait = []\<rparr>"

lemma demo_prefer: "Prefer ''n'' demo_cands 7 NewChooser = (demo_c, ''a:1'', Some demo_p)"
  by code_simp

lemma demo_ok: "addresses_ok demo_cands"
  by code_simp

lemma demo_run: "reach_run 0 demo_sys"
proof -
  have "reach_step \<lparr>sy_c = NewChooser, sy_bg = [], sy_done = [], sy_wait = []\<rparr> (Start ''n'') demo_sys"
    using reach_step.prefer_spawn [OF demo_ok, of "''n''" 7 "\<lparr>sy_c = NewChooser, sy_bg = [], sy_done = [], sy_wait = []\<rparr>"]
    by (simp add: demo_prefer demo_sys_def)
  from reach_run.step [OF reach_run.init this] show ?thesis by simp
qed


theorem one_confirmation_per_node_witness:
  "length (current ''n'' demo_sys) = 1 \<and> current ''m'' demo_sys = []"
proof -
  have m: "Prefer ''m'' demo_cands 7 (sy_c demo_sys) =
      (demo_c\<lparr>cr_probing := [(''n'', True), (''m'', True)]\<rparr>, ''a:1'', Some (demo_p\<lparr>pb_key := ''m''\<rparr>))"
    by code_simp
  have n: "is_probing ''n'' (sy_c demo_sys)" by code_simp
  show ?thesis
    using one_confirmation_per_node(1) [OF demo_run, of "''n''"] n one_confirmation_per_node(2) [OF demo_run _ m] by simp
qed

theorem chosen_address_is_published_witness:
  "fst (snd (Prefer ''n'' demo_cands 8 (sy_c demo_sys))) \<in> set demo_cands \<and>
   (case snd (ChooseWithin ''n'' demo_cands 8 (sy_c demo_sys)) of
      Inl a \<Rightarrow> a \<in> set demo_cands
    | Inr p \<Rightarrow> snd (wait_for (\<lambda>a t. a = ''b:1'') zero_time p 9 demo_c) \<in> set demo_cands)"
proof -
  have ne: "demo_cands \<noteq> []" by (simp add: demo_cands_def)
  note t = chosen_address_is_published [OF demo_run demo_ok ne]
  show ?thesis
    using t(1) t(2,3) [of "''n''" 8] by (auto split: sum.split)
qed

end
