(* ===== verification/Registers.thy ===== *)
theory Registers
  imports Prelude
begin

section \<open>Registers that only move up a priority\<close>

text \<open>
  Several stores of the router hold one record per identity and merge events that may arrive in
  any order: the workload store orders them by generation and lifecycle rank, the error store by
  timestamp. What makes such a register converge is the same in both: a step never lowers the
  priority of what is held, and what is held was written by one of the events seen. The locale
  states that contract, proves convergence once, and is interpreted on each store.
\<close>

locale max_register =
  fixes step :: "'r option \<Rightarrow> 'e \<Rightarrow> 'r option"
    and rinv :: "'r \<Rightarrow> bool"
    and pr :: "'r \<Rightarrow> 'w::linorder" and pe :: "'e \<Rightarrow> 'w"
    and obs_r :: "'r \<Rightarrow> 'o" and obs_e :: "'e \<Rightarrow> 'o"
  assumes step_None:
      "\<exists>r. step None e = Some r \<and> rinv r \<and> pr r = pe e \<and> obs_r r = obs_e e"
    and step_Some:
      "rinv r \<Longrightarrow> \<exists>r'. step (Some r) e = Some r' \<and> rinv r' \<and> pr r' = max (pr r) (pe e) \<and>
         (pr r' = pe e \<and> obs_r r' = obs_e e \<or> pr r' = pr r \<and> obs_r r' = obs_r r)"
begin

definition run :: "'e list \<Rightarrow> 'r option" where
  "run es = foldl step None es"

lemma run_snoc: "run (es @ [e]) = step (run es) e"
  by (simp add: run_def)

lemma run_highest:
  assumes "es \<noteq> []"
  shows "\<exists>r. run es = Some r \<and> rinv r \<and> pr r = Max (pe ` set es) \<and>
    (\<exists>e \<in> set es. pe e = pr r \<and> obs_r r = obs_e e)"
  using assms
proof (induction es rule: rev_nonempty_induct)
  case (single e)
  then show ?case using step_None [of e] by (auto simp: run_def)
next
  case (snoc e es)
  then obtain r where r: "run es = Some r" "rinv r" "pr r = Max (pe ` set es)"
    "\<exists>e \<in> set es. pe e = pr r \<and> obs_r r = obs_e e" by blast
  obtain r' where r': "step (Some r) e = Some r'" "rinv r'" "pr r' = max (pr r) (pe e)"
    "pr r' = pe e \<and> obs_r r' = obs_e e \<or> pr r' = pr r \<and> obs_r r' = obs_r r"
    using step_Some [OF r(2), of e] by blast
  have "Max (pe ` set (es @ [e])) = max (pe e) (Max (pe ` set es))"
    using snoc.hyps by simp
  then have "pr r' = Max (pe ` set (es @ [e]))"
    using r(3) r'(3) by (simp add: max.commute)
  moreover have "\<exists>x \<in> set (es @ [e]). pe x = pr r' \<and> obs_r r' = obs_e x"
    using r(4) r'(4) by (metis in_set_conv_decomp Un_iff set_append)
  ultimately show ?case
    using r(1) r'(1,2) by (simp add: run_snoc)
qed

text \<open>
  Two histories that carry the same priorities and contents, in any order and with any
  repetitions, agree.
\<close>

lemma run_converges:
  assumes same: "(\<lambda>e. (pe e, obs_e e)) ` set es = (\<lambda>e. (pe e, obs_e e)) ` set es'"
    and functional: "\<And>a b. a \<in> set es \<Longrightarrow> b \<in> set es \<Longrightarrow> pe a = pe b \<Longrightarrow> obs_e a = obs_e b"
  shows "map_option obs_r (run es) = map_option obs_r (run es')"
proof (cases "es = []")
  case True
  then show ?thesis using same by simp
next
  case False
  then have "es' \<noteq> []" using same by auto
  have "fst ` (\<lambda>e. (pe e, obs_e e)) ` set es = fst ` (\<lambda>e. (pe e, obs_e e)) ` set es'"
    using same by simp
  then have prios: "pe ` set es = pe ` set es'"
    by (simp add: image_image)
  obtain r where r: "run es = Some r" "pr r = Max (pe ` set es)"
    "\<exists>e \<in> set es. pe e = pr r \<and> obs_r r = obs_e e"
    using run_highest [OF False] by blast
  obtain r' e' where r': "run es' = Some r'" "pr r' = Max (pe ` set es')"
    "e' \<in> set es'" "pe e' = pr r'" "obs_r r' = obs_e e'"
    using run_highest [OF \<open>es' \<noteq> []\<close>] by blast
  have "(pe e', obs_e e') \<in> (\<lambda>e. (pe e, obs_e e)) ` set es"
    unfolding same using r'(3) by blast
  then obtain e where e: "e \<in> set es" "pe e = pe e'" "obs_e e = obs_e e'" by auto
  obtain d where d: "d \<in> set es" "pe d = pr r" "obs_r r = obs_e d"
    using r(3) by blast
  have "pe d = pe e"
    using d(2) e(2) r(2) r'(2,4) prios by simp
  then have "obs_r r = obs_r r'"
    using functional [OF d(1) e(1)] d(3) e(3) r'(5) by simp
  then show ?thesis using r(1) r'(1) by simp
qed

end

end
