(* ===== verification/ErrorsStore.thy ===== *)
theory ErrorsStore
  imports ClusterTrust Reach JsonRpc Registers
begin

section \<open>The error registry\<close>

text \<open>
  \<open>nvpair-errors\<close>: the store of reported errors keyed by origin node and id, its JSON-RPC interface
  (\<open>manager.go\<close>), the outbound synchronisation with the peers the relay names (\<open>peersync.go\<close>) and the
  inbound endpoint (\<open>httpserver.go\<close>), over the wire types of \<open>shared/errors\<close>. A handler returns what it
  writes in the order it writes it. The network is the argument \<open>net\<close>: what a connect attempt answers
  and what a post returns.
\<close>

subsection \<open>Wire types\<close>

record ServiceError =
  se_ID :: string
  se_Message :: string
  se_Timestamp :: int
  se_NodeID :: string
  se_Severity :: string
  se_Action :: string
  se_EngineType :: string
  se_Operation :: string
  se_ModelName :: string

definition ServiceError0 :: ServiceError where
  "ServiceError0 = \<lparr>se_ID = [], se_Message = [], se_Timestamp = 0, se_NodeID = [], se_Severity = [], se_Action = [],
     se_EngineType = [], se_Operation = [], se_ModelName = []\<rparr>"

definition serviceerror_fields :: "ServiceError field list" where
  "serviceerror_fields =
     [fld ''id'' dec_string se_ID (\<lambda>v r. r\<lparr>se_ID := v\<rparr>),
      fld ''message'' dec_string se_Message (\<lambda>v r. r\<lparr>se_Message := v\<rparr>),
      fld ''timestamp'' dec_int64 se_Timestamp (\<lambda>v r. r\<lparr>se_Timestamp := v\<rparr>),
      fld ''nodeId'' dec_string se_NodeID (\<lambda>v r. r\<lparr>se_NodeID := v\<rparr>),
      fld ''severity'' dec_string se_Severity (\<lambda>v r. r\<lparr>se_Severity := v\<rparr>),
      fld ''action'' dec_string se_Action (\<lambda>v r. r\<lparr>se_Action := v\<rparr>),
      fld ''engineType'' dec_string se_EngineType (\<lambda>v r. r\<lparr>se_EngineType := v\<rparr>),
      fld ''operation'' dec_string se_Operation (\<lambda>v r. r\<lparr>se_Operation := v\<rparr>),
      fld ''modelName'' dec_string se_ModelName (\<lambda>v r. r\<lparr>se_ModelName := v\<rparr>)]"

definition omitempty :: "string \<Rightarrow> string \<Rightarrow> (string \<times> json) list" where
  "omitempty name v = (if v = [] then [] else [(name, JStr v)])"

definition marshalServiceError :: "ServiceError \<Rightarrow> json" where
  "marshalServiceError e =
     JObj ([(''id'', JStr (se_ID e)), (''message'', JStr (se_Message e)), (''timestamp'', JInt (se_Timestamp e))] @
       omitempty ''nodeId'' (se_NodeID e) @ omitempty ''severity'' (se_Severity e) @
       omitempty ''action'' (se_Action e) @ omitempty ''engineType'' (se_EngineType e) @
       omitempty ''operation'' (se_Operation e) @ omitempty ''modelName'' (se_ModelName e))"

record ClearParams =
  cp_ID :: string
  cp_ClearedBy :: string

definition clear_fields :: "ClearParams field list" where
  "clear_fields =
     [fld ''id'' dec_string cp_ID (\<lambda>v r. r\<lparr>cp_ID := v\<rparr>),
      fld ''clearedBy'' dec_string cp_ClearedBy (\<lambda>v r. r\<lparr>cp_ClearedBy := v\<rparr>)]"

record SyncEnvelope =
  sv_NodeID :: string
  sv_Errors :: "ServiceError list"

definition envelope_fields :: "SyncEnvelope field list" where
  "envelope_fields =
     [fld ''nodeId'' dec_string sv_NodeID (\<lambda>v r. r\<lparr>sv_NodeID := v\<rparr>),
      fld ''errors'' (dec_slice (dec_struct serviceerror_fields) ServiceError0) sv_Errors (\<lambda>v r. r\<lparr>sv_Errors := v\<rparr>)]"

definition marshalEnvelope :: "SyncEnvelope \<Rightarrow> json" where
  "marshalEnvelope env =
     JObj [(''nodeId'', JStr (sv_NodeID env)), (''errors'', JArr (map marshalServiceError (sv_Errors env)))]"

subsection \<open>The store\<close>

record errKey =
  ek_nodeID :: string
  ek_id :: string

record RawNode =
  rn_ID :: string
  rn_Host :: string
  rn_Port :: int
  rn_Addresses :: "string list"
  rn_TXT :: "string list"

datatype DiscoveryEvent = Discovered RawNode | Updated RawNode | Removed RawNode

text \<open>\<open>em_sync\<close>: peer sync is wired, that is, \<open>relayEvents\<close> and \<open>onLocalChange\<close> are set.\<close>

record Manager =
  em_localNodeID :: string
  em_sync :: bool
  em_relayPeers :: "(string, RawNode) gomap"
  em_errors :: "(errKey, ServiceError) gomap"
  em_level :: level

text \<open>\<open>hostname\<close> is the answer of \<open>os.Hostname\<close>, \<open>None\<close> an error.\<close>

definition NewManager :: "string option \<Rightarrow> Manager" where
  "NewManager hostname =
     \<lparr>em_localNodeID = (case hostname of None \<Rightarrow> ''unknown'' | Some h \<Rightarrow> if h = [] then ''unknown'' else h),
      em_sync = False, em_relayPeers = [], em_errors = [], em_level = LevelInfo\<rparr>"

definition SetLocalNodeID :: "string \<Rightarrow> Manager \<Rightarrow> Manager" where
  "SetLocalNodeID nid m = (if nid \<noteq> [] then m\<lparr>em_localNodeID := nid\<rparr> else m)"

datatype out =
    Answer answer
  | EmitUpdate "ServiceError list"
  | TriggerPush
  | PeerEvent DiscoveryEvent
  | Cancel

definition upsert :: "ServiceError \<Rightarrow> Manager \<Rightarrow> Manager \<times> bool" where
  "upsert e m =
     (let k = \<lparr>ek_nodeID = se_NodeID e, ek_id = se_ID e\<rparr>;
          put = (m\<lparr>em_errors := mput k e (em_errors m)\<rparr>, True)
      in case mget (em_errors m) k of
           Some existing \<Rightarrow> if se_Timestamp existing > se_Timestamp e then (m, False) else put
         | None \<Rightarrow> put)"

definition clearByID :: "string \<Rightarrow> Manager \<Rightarrow> Manager \<times> bool" where
  "clearByID i m =
     (let k = \<lparr>ek_nodeID = em_localNodeID m, ek_id = i\<rparr> in
      if mget (em_errors m) k = None then (m, False)
      else (m\<lparr>em_errors := mdel k (em_errors m)\<rparr>, True))"

definition less_error :: "ServiceError \<Rightarrow> ServiceError \<Rightarrow> bool" where
  "less_error a b \<longleftrightarrow> (if se_ID a \<noteq> se_ID b then se_ID a < se_ID b else se_NodeID a < se_NodeID b)"

definition sortServiceErrors :: "ServiceError list \<Rightarrow> ServiceError list" where
  "sortServiceErrors out = sort_by less_error out"

definition snapshot :: "Manager \<Rightarrow> ServiceError list" where
  "snapshot m = sortServiceErrors (mvals (em_errors m))"

definition localSnapshot :: "Manager \<Rightarrow> ServiceError list" where
  "localSnapshot m = sortServiceErrors (mvals (mkeep (\<lambda>k e. ek_nodeID k = em_localNodeID m) (em_errors m)))"

definition incoming_set :: "string \<Rightarrow> ServiceError list \<Rightarrow> (string, ServiceError) gomap" where
  "incoming_set nodeID errs =
     mputs (map (\<lambda>e. (se_ID e, e\<lparr>se_NodeID := nodeID\<rparr>)) (filter (\<lambda>e. se_ID e \<noteq> []) errs)) []"

definition reconcile_one ::
  "string \<Rightarrow> string \<times> ServiceError \<Rightarrow> (errKey, ServiceError) gomap \<times> bool \<Rightarrow> (errKey, ServiceError) gomap \<times> bool" where
  "reconcile_one nodeID ie s =
     (let k = \<lparr>ek_nodeID = nodeID, ek_id = fst ie\<rparr>; e = snd ie in
      case mget (fst s) k of
        Some existing \<Rightarrow>
          if se_Timestamp existing > se_Timestamp e then s
          else if existing = e then s
          else (mput k e (fst s), True)
      | None \<Rightarrow> (mput k e (fst s), True))"

definition reconcilePeer :: "string \<Rightarrow> ServiceError list \<Rightarrow> Manager \<Rightarrow> Manager \<times> bool" where
  "reconcilePeer nodeID errs m =
     (if nodeID = [] \<or> nodeID = em_localNodeID m then (m, False)
      else
        (let incoming = incoming_set nodeID errs;
             (errors1, changed1) = fold (reconcile_one nodeID) incoming (em_errors m, False);
             stale = (\<lambda>k (e :: ServiceError). ek_nodeID k = nodeID \<and> \<not> mhas incoming (ek_id k));
             changed = (changed1 \<or> (\<exists>(k, e) \<in> set errors1. stale k e))
         in (m\<lparr>em_errors := mkeep (\<lambda>k e. \<not> stale k e) errors1\<rparr>, changed)))"

definition evictNode :: "string \<Rightarrow> Manager \<Rightarrow> Manager \<times> bool" where
  "evictNode nodeID m =
     (if nodeID = [] \<or> nodeID = em_localNodeID m then (m, False)
      else (m\<lparr>em_errors := mkeep (\<lambda>k e. ek_nodeID k \<noteq> nodeID) (em_errors m)\<rparr>,
            \<exists>(k, e) \<in> set (em_errors m). ek_nodeID k = nodeID))"

definition ReconcilePeer :: "string \<Rightarrow> ServiceError list \<Rightarrow> Manager \<Rightarrow> Manager \<times> out list" where
  "ReconcilePeer nodeID errs m =
     (let (m', changed) = reconcilePeer nodeID errs m
      in (m', if changed then [EmitUpdate (snapshot m')] else []))"

definition EvictNode :: "string \<Rightarrow> Manager \<Rightarrow> Manager \<times> out list" where
  "EvictNode nodeID m =
     (let (m', changed) = evictNode nodeID m
      in (m', if changed then [EmitUpdate (snapshot m')] else []))"

subsection \<open>The message handler\<close>

text \<open>\<open>notifyLocalChange\<close> fires the hook when one is registered.\<close>

definition notifyLocalChange :: "Manager \<Rightarrow> out list" where
  "notifyLocalChange m = (if em_sync m then [TriggerPush] else [])"

text \<open>The id of the request, \<open>None\<close> for a notification.\<close>

definition refuse :: "raw option \<Rightarrow> out list" where
  "refuse rid = (case rid of None \<Rightarrow> [] | Some i \<Rightarrow> [Answer (RespondError i (- 32602))])"

definition acknowledge :: "raw option \<Rightarrow> out list" where
  "acknowledge rid = (case rid of None \<Rightarrow> [] | Some i \<Rightarrow> [Answer (Respond i JNull)])"

definition handleReport :: "raw option \<Rightarrow> raw \<Rightarrow> Manager \<Rightarrow> Manager \<times> out list" where
  "handleReport rid params m =
     (case Unmarshal (dec_struct serviceerror_fields) ServiceError0 params of
        None \<Rightarrow> (m, refuse rid)
      | Some e \<Rightarrow>
          if se_ID e = [] then (m, refuse rid)
          else if se_Message e = [] then (m, refuse rid)
          else (let (m', changed) = upsert e m in
                (m', acknowledge rid @
                     (if changed then EmitUpdate (snapshot m') # notifyLocalChange m' else []))))"

definition handleClear :: "raw option \<Rightarrow> raw \<Rightarrow> Manager \<Rightarrow> Manager \<times> out list" where
  "handleClear rid params m =
     (case Unmarshal (dec_struct clear_fields) \<lparr>cp_ID = [], cp_ClearedBy = []\<rparr> params of
        None \<Rightarrow> (m, refuse rid)
      | Some p \<Rightarrow>
          if cp_ID p = [] then (m, refuse rid)
          else (let (m', changed) = clearByID (cp_ID p) m in
                (m', acknowledge rid @
                     (if changed then EmitUpdate (snapshot m') # notifyLocalChange m' else []))))"

definition directoryToPeer :: "DirectoryNode \<Rightarrow> RawNode option" where
  "directoryToPeer n =
     (case nget (d_Services n) ServiceErrors of
        None \<Rightarrow> None
      | Some svc \<Rightarrow>
          if CandidateIPs n = [] then None
          else Some
            \<lparr>rn_ID = d_HostUUID n, rn_Host = d_Name n, rn_Port = ss_Port svc, rn_Addresses = CandidateIPs n,
             rn_TXT = AddressTXT n @
               (if d_ClusterUUID n \<noteq> [] then [kv ClusterUUIDTXTKey (d_ClusterUUID n)] else [])\<rparr>)"

definition rawNodeEqual :: "RawNode \<Rightarrow> RawNode \<Rightarrow> bool" where
  "rawNodeEqual a b \<longleftrightarrow>
     rn_ID a = rn_ID b \<and> rn_Host a = rn_Host b \<and> rn_Port a = rn_Port b \<and>
     rn_Addresses a = rn_Addresses b \<and> rn_TXT a = rn_TXT b"

definition next_peers :: "DirectoryNode list \<Rightarrow> (string, RawNode) gomap" where
  "next_peers nodes =
     mputs (concat (map (\<lambda>n. case directoryToPeer n of None \<Rightarrow> [] | Some p \<Rightarrow> [(rn_ID p, p)]) nodes)) []"

definition diff_one :: "(string, RawNode) gomap \<Rightarrow> string \<times> RawNode \<Rightarrow> DiscoveryEvent list" where
  "diff_one prevs ip =
     (case mget prevs (fst ip) of
        None \<Rightarrow> [Discovered (snd ip)]
      | Some prev \<Rightarrow> if \<not> rawNodeEqual prev (snd ip) then [Updated (snd ip)] else [])"

definition removed_node :: "string \<Rightarrow> RawNode" where
  "removed_node nid = \<lparr>rn_ID = nid, rn_Host = [], rn_Port = 0, rn_Addresses = [], rn_TXT = []\<rparr>"

definition peer_diff :: "(string, RawNode) gomap \<Rightarrow> (string, RawNode) gomap \<Rightarrow> DiscoveryEvent list" where
  "peer_diff prevs next =
     concat (map (diff_one prevs) next) @
     map (\<lambda>nid. Removed (removed_node nid)) (filter (\<lambda>nid. \<not> mhas next nid) (mkeys prevs))"

definition applyDiscovery :: "Message \<Rightarrow> Manager \<Rightarrow> Manager \<times> out list" where
  "applyDiscovery msg m =
     (if \<not> em_sync m then (m, [])
      else case decode_nodes (msg_Params msg) of
        None \<Rightarrow> (m, [])
      | Some nodes \<Rightarrow>
          (m\<lparr>em_relayPeers := next_peers nodes\<rparr>,
           map PeerEvent (peer_diff (em_relayPeers m) (next_peers nodes))))"

definition handleMessage :: "Message \<Rightarrow> Manager \<Rightarrow> Manager \<times> out list" where
  "handleMessage msg m =
     (if msg_Method msg = SetLevelMethod then
        (let (l, ans) = handle_set_level msg (em_level m) in (m\<lparr>em_level := l\<rparr>, map Answer ans))
      else if IsNotification msg then
        (if msg_Method msg = ''errors:report'' then handleReport None (msg_Params msg) m
         else if msg_Method msg = ''errors:clear'' then handleClear None (msg_Params msg) m
         else if msg_Method msg = NotifyNodes then applyDiscovery msg m
         else (m, []))
      else if \<not> IsRequest msg then (m, [])
      else if msg_Method msg = ''errors:get-initial'' then
        (m, [Answer (Respond (msg_ID msg) (JArr (map marshalServiceError (snapshot m))))])
      else if msg_Method msg = ''errors:report'' then handleReport (Some (msg_ID msg)) (msg_Params msg) m
      else if msg_Method msg = ''errors:clear'' then handleClear (Some (msg_ID msg)) (msg_Params msg) m
      else if msg_Method msg = ''shutdown'' then (m, [Answer (Respond (msg_ID msg) JNull), Cancel])
      else (m, [Answer (RespondError (msg_ID msg) (- 32601))]))"

subsection \<open>Outbound synchronisation\<close>

definition heartbeatInterval :: duration where "heartbeatInterval = 30 * Second"
definition pushTimeout :: duration where "pushTimeout = 3 * Second"

record peerTarget =
  pt_candidates :: "string list"
  pt_uuid :: string

record PeerSync =
  py_localNodeID :: string
  py_mesh :: "Mesh option"
  py_clients :: PeerClientPool
  py_addrs :: Chooser
  py_peers :: "(string, peerTarget) gomap"
  py_trigger :: bool

definition NewPeerSync :: "Manager \<Rightarrow> Mesh option \<Rightarrow> PeerSync" where
  "NewPeerSync mgr mesh =
     \<lparr>py_localNodeID = em_localNodeID mgr, py_mesh = mesh, py_clients = NewPeerClientPool pushTimeout,
      py_addrs = NewChooser, py_peers = [], py_trigger = False\<rparr>"

text \<open>The size-one channel: a send to a full channel is dropped.\<close>

definition ps_TriggerPush :: "PeerSync \<Rightarrow> PeerSync" where
  "ps_TriggerPush ps = ps\<lparr>py_trigger := True\<rparr>"

definition peerHostPorts :: "RawNode \<Rightarrow> string list" where
  "peerHostPorts node =
     (if rn_Port node = 0 then []
      else let hosts = Candidates (rn_TXT node) (rn_Addresses node);
               hosts' = (if hosts = [] \<and> rn_Host node \<noteq> [] then [rn_Host node] else hosts)
           in map (\<lambda>h. JoinHostPort h (Itoa (rn_Port node))) hosts')"

definition snapshotBody :: "Manager \<Rightarrow> PeerSync \<Rightarrow> json" where
  "snapshotBody mgr ps = marshalEnvelope \<lparr>sv_NodeID = py_localNodeID ps, sv_Errors = localSnapshot mgr\<rparr>"

text \<open>\<open>nt_send\<close>: the status a post to a URL returns, \<open>None\<close> when the transport fails.\<close>

record net =
  nt_dial :: dialer
  nt_send :: "http_client \<Rightarrow> string \<Rightarrow> json \<Rightarrow> int option"
  nt_now :: time

record sent =
  st_nodeID :: string
  st_client :: http_client
  st_url :: string
  st_body :: json
  st_status :: "int option"

definition choose_address :: "net \<Rightarrow> string \<Rightarrow> string list \<Rightarrow> Chooser \<Rightarrow> Chooser \<times> string" where
  "choose_address nt key candidates c =
     (case ChooseWithin key candidates (nt_now nt) c of
        (c', Inl a) \<Rightarrow> (c', a)
      | (c', Inr p) \<Rightarrow> wait_for (nt_dial nt) zero_time p (nt_now nt) c')"

definition post :: "net \<Rightarrow> json \<Rightarrow> string \<times> peerTarget \<Rightarrow> PeerSync \<times> sent list \<Rightarrow> PeerSync \<times> sent list" where
  "post nt body it s =
     (let (nodeID, target) = it; (ps, out) = s;
          (pool, client, closed) = Client (py_mesh ps) (pt_uuid target) (py_clients ps);
          ps1 = ps\<lparr>py_clients := pool\<rparr>
      in case client of
           None \<Rightarrow> (ps1, out)
         | Some cl \<Rightarrow>
             (let (addrs, hostport) = choose_address nt nodeID (pt_candidates target) (py_addrs ps1);
                  ps2 = ps1\<lparr>py_addrs := addrs\<rparr>
              in if hostport = [] then (ps2, out)
                 else let url = ''https://'' @ hostport @ ''/v1/errors'';
                          status = nt_send nt cl url body;
                          ps3 = (if status = None then ps2\<lparr>py_addrs := Forget nodeID (py_addrs ps2)\<rparr> else ps2)
                      in (ps3, out @ [\<lparr>st_nodeID = nodeID, st_client = cl, st_url = url, st_body = body,
                                       st_status = status\<rparr>])))"

definition pushAll :: "x509 \<Rightarrow> ClusterDir \<Rightarrow> net \<Rightarrow> Manager \<Rightarrow> PeerSync \<Rightarrow> PeerSync \<times> sent list" where
  "pushAll x d nt mgr ps =
     (let mesh = Refresh x d (py_mesh ps);
          (pool, closed) = DropUnpinned mesh (py_clients ps);
          ps1 = ps\<lparr>py_mesh := mesh, py_clients := pool\<rparr>
      in if py_peers ps1 = [] then (ps1, [])
         else fold (post nt (snapshotBody mgr ps1)) (py_peers ps1) (ps1, []))"

definition pushOne :: "net \<Rightarrow> Manager \<Rightarrow> string \<Rightarrow> peerTarget \<Rightarrow> PeerSync \<Rightarrow> PeerSync \<times> sent list" where
  "pushOne nt mgr nodeID target ps = post nt (snapshotBody mgr ps) (nodeID, target) (ps, [])"

definition event_node :: "DiscoveryEvent \<Rightarrow> RawNode" where
  "event_node ev = (case ev of Discovered n \<Rightarrow> n | Updated n \<Rightarrow> n | Removed n \<Rightarrow> n)"

definition sync_peer ::
  "x509 \<Rightarrow> ClusterDir \<Rightarrow> net \<Rightarrow> RawNode \<Rightarrow> Manager \<Rightarrow> PeerSync \<Rightarrow> PeerSync \<times> sent list" where
  "sync_peer x d nt node mgr ps =
     (let uuid = ClusterUUIDFromTXT (rn_TXT node);
          ps1 = ps\<lparr>py_mesh := Refresh x d (py_mesh ps)\<rparr>
      in if \<not> HasPin uuid (py_mesh ps1) then (ps1\<lparr>py_peers := mdel (rn_ID node) (py_peers ps1)\<rparr>, [])
         else let candidates = peerHostPorts node in
           if candidates = [] then (ps1, [])
           else let target = \<lparr>pt_candidates = candidates, pt_uuid = uuid\<rparr> in
             pushOne nt mgr (rn_ID node) target (ps1\<lparr>py_peers := mput (rn_ID node) target (py_peers ps1)\<rparr>))"

definition handleEvent ::
  "x509 \<Rightarrow> ClusterDir \<Rightarrow> net \<Rightarrow> DiscoveryEvent \<Rightarrow> Manager \<Rightarrow> PeerSync \<Rightarrow> Manager \<times> PeerSync \<times> sent list \<times> out list" where
  "handleEvent x d nt ev mgr ps =
     (if rn_ID (event_node ev) = py_localNodeID ps then (mgr, ps, [], [])
      else case ev of
        Discovered node \<Rightarrow> (let (ps', posts) = sync_peer x d nt node mgr ps in (mgr, ps', posts, []))
      | Updated node \<Rightarrow> (let (ps', posts) = sync_peer x d nt node mgr ps in (mgr, ps', posts, []))
      | Removed node \<Rightarrow>
          (let ps' = ps\<lparr>py_peers := mdel (rn_ID node) (py_peers ps)\<rparr>;
               (mgr', outs) = EvictNode (rn_ID node) mgr
           in (mgr', ps', [], outs)))"

text \<open>
  The loop of \<open>Run\<close> draining the trigger; the heartbeat is \<open>pushAll\<close> itself.
\<close>

definition drain_trigger :: "x509 \<Rightarrow> ClusterDir \<Rightarrow> net \<Rightarrow> Manager \<Rightarrow> PeerSync \<Rightarrow> PeerSync \<times> sent list" where
  "drain_trigger x d nt mgr ps =
     (if py_trigger ps then pushAll x d nt mgr (ps\<lparr>py_trigger := False\<rparr>) else (ps, []))"

subsection \<open>The inter-node endpoint\<close>

text \<open>\<open>hr_Body\<close> is the first JSON document of the body, \<open>None\<close> when it does not parse.\<close>

record http_request =
  hr_TLS :: "Certificate list option"
  hr_Method :: string
  hr_Body :: raw

record http_reply =
  hy_Status :: int
  hy_Body :: raw

definition status_only :: "int \<Rightarrow> http_reply" where
  "status_only s = \<lparr>hy_Status = s, hy_Body = None\<rparr>"

definition handleIngest :: "raw \<Rightarrow> Manager \<Rightarrow> Manager \<times> http_reply \<times> out list" where
  "handleIngest body mgr =
     (case Unmarshal (dec_struct envelope_fields) \<lparr>sv_NodeID = [], sv_Errors = []\<rparr> body of
        None \<Rightarrow> (mgr, status_only 400, [])
      | Some env \<Rightarrow>
          if sv_NodeID env = [] then (mgr, status_only 400, [])
          else (let (mgr', outs) = ReconcilePeer (sv_NodeID env) (sv_Errors env) mgr
                in (mgr', status_only 204, outs)))"

definition handleServeLocal :: "Manager \<Rightarrow> http_reply" where
  "handleServeLocal mgr =
     \<lparr>hy_Status = 200,
      hy_Body = Some (marshalEnvelope \<lparr>sv_NodeID = em_localNodeID mgr, sv_Errors = localSnapshot mgr\<rparr>)\<rparr>"

definition errors_mux ::
  "x509 \<Rightarrow> ClusterDir \<Rightarrow> http_request \<Rightarrow> Mesh option \<Rightarrow> Manager \<Rightarrow> Mesh option \<times> Manager \<times> http_reply \<times> out list" where
  "errors_mux x d r mesh mgr =
     (let mesh' = Refresh x d mesh in
      if VerifyClientPin (hr_TLS r) mesh' = None then (mesh', mgr, status_only 403, [])
      else if hr_Method r = ''POST'' then (mesh', handleIngest (hr_Body r) mgr)
      else if hr_Method r = ''GET'' then (mesh', mgr, handleServeLocal mgr, [])
      else (mesh', mgr, status_only 405, []))"

subsection \<open>The wire format\<close>

lemma error_find [simp]:
  "find_field serviceerror_fields ''id'' = Some (\<lambda>j r. map_option (\<lambda>v. r\<lparr>se_ID := v\<rparr>) (dec_string j (se_ID r)))"
  "find_field serviceerror_fields ''message'' = Some (\<lambda>j r. map_option (\<lambda>v. r\<lparr>se_Message := v\<rparr>) (dec_string j (se_Message r)))"
  "find_field serviceerror_fields ''nodeId'' = Some (\<lambda>j r. map_option (\<lambda>v. r\<lparr>se_NodeID := v\<rparr>) (dec_string j (se_NodeID r)))"
  "find_field serviceerror_fields ''severity'' = Some (\<lambda>j r. map_option (\<lambda>v. r\<lparr>se_Severity := v\<rparr>) (dec_string j (se_Severity r)))"
  "find_field serviceerror_fields ''action'' = Some (\<lambda>j r. map_option (\<lambda>v. r\<lparr>se_Action := v\<rparr>) (dec_string j (se_Action r)))"
  "find_field serviceerror_fields ''engineType'' = Some (\<lambda>j r. map_option (\<lambda>v. r\<lparr>se_EngineType := v\<rparr>) (dec_string j (se_EngineType r)))"
  "find_field serviceerror_fields ''operation'' = Some (\<lambda>j r. map_option (\<lambda>v. r\<lparr>se_Operation := v\<rparr>) (dec_string j (se_Operation r)))"
  "find_field serviceerror_fields ''modelName'' = Some (\<lambda>j r. map_option (\<lambda>v. r\<lparr>se_ModelName := v\<rparr>) (dec_string j (se_ModelName r)))"
  "find_field serviceerror_fields ''timestamp'' = Some (\<lambda>j r. map_option (\<lambda>v. r\<lparr>se_Timestamp := v\<rparr>) (dec_int64 j (se_Timestamp r)))"
  by (simp_all add: find_field_def fld_def serviceerror_fields_def)

lemma dec_omitempty:
  "se_NodeID r = [] \<Longrightarrow> dec_members serviceerror_fields (omitempty ''nodeId'' v @ ms) r = dec_members serviceerror_fields ms (r\<lparr>se_NodeID := v\<rparr>)"
  "se_Severity r = [] \<Longrightarrow> dec_members serviceerror_fields (omitempty ''severity'' v @ ms) r = dec_members serviceerror_fields ms (r\<lparr>se_Severity := v\<rparr>)"
  "se_Action r = [] \<Longrightarrow> dec_members serviceerror_fields (omitempty ''action'' v @ ms) r = dec_members serviceerror_fields ms (r\<lparr>se_Action := v\<rparr>)"
  "se_EngineType r = [] \<Longrightarrow> dec_members serviceerror_fields (omitempty ''engineType'' v @ ms) r = dec_members serviceerror_fields ms (r\<lparr>se_EngineType := v\<rparr>)"
  "se_Operation r = [] \<Longrightarrow> dec_members serviceerror_fields (omitempty ''operation'' v @ ms) r = dec_members serviceerror_fields ms (r\<lparr>se_Operation := v\<rparr>)"
  "se_ModelName r = [] \<Longrightarrow> dec_members serviceerror_fields (omitempty ''modelName'' v) r = Some (r\<lparr>se_ModelName := v\<rparr>)"
  by (cases r; simp add: omitempty_def)+

lemma dec_marshalServiceError:
  assumes "in_int64 (se_Timestamp e)"
  shows "dec_struct serviceerror_fields (marshalServiceError e) ServiceError0 = Some e"
proof -
  let ?r = "ServiceError0\<lparr>se_ID := se_ID e, se_Message := se_Message e, se_Timestamp := se_Timestamp e\<rparr>"
  have "dec_struct serviceerror_fields (marshalServiceError e) ServiceError0 =
      dec_members serviceerror_fields (omitempty ''nodeId'' (se_NodeID e) @ omitempty ''severity'' (se_Severity e) @
       omitempty ''action'' (se_Action e) @ omitempty ''engineType'' (se_EngineType e) @
       omitempty ''operation'' (se_Operation e) @ omitempty ''modelName'' (se_ModelName e)) ?r"
    using assms by (simp add: marshalServiceError_def)
  also have "\<dots> = Some e"
    by (simp add: dec_omitempty ServiceError0_def)
  finally show ?thesis .
qed

lemma dec_elems_marshal:
  "(\<And>e. e \<in> set es \<Longrightarrow> in_int64 (se_Timestamp e)) \<Longrightarrow>
     dec_elems (dec_struct serviceerror_fields) ServiceError0 (map marshalServiceError es) = Some es"
  by (induction es) (simp_all add: dec_marshalServiceError)

lemma dec_marshalEnvelope:
  assumes "\<And>e. e \<in> set (sv_Errors env) \<Longrightarrow> in_int64 (se_Timestamp e)"
  shows "dec_struct envelope_fields (marshalEnvelope env) \<lparr>sv_NodeID = [], sv_Errors = []\<rparr> = Some env"
  using dec_elems_marshal [of "sv_Errors env"] assms
  by (simp add: marshalEnvelope_def envelope_fields_def find_field_def fld_def)

subsection \<open>The store invariant\<close>

definition key_of :: "ServiceError \<Rightarrow> errKey" where
  "key_of e = \<lparr>ek_nodeID = se_NodeID e, ek_id = se_ID e\<rparr>"

definition errors_inv :: "Manager \<Rightarrow> bool" where
  "errors_inv m \<longleftrightarrow> wf_map (em_errors m) \<and>
     (\<forall>k e. mget (em_errors m) k = Some e \<longrightarrow> k = key_of e \<and> se_ID e \<noteq> [] \<and> in_int64 (se_Timestamp e))"

lemma key_of_sel [simp]: "ek_nodeID (key_of e) = se_NodeID e" "ek_id (key_of e) = se_ID e"
  by (simp_all add: key_of_def)

lemma upsert_get:
  "mget (em_errors (fst (upsert e m))) k =
     (if k = key_of e
      then (case mget (em_errors m) k of
              Some x \<Rightarrow> if se_Timestamp x > se_Timestamp e then Some x else Some e
            | None \<Rightarrow> Some e)
      else mget (em_errors m) k)"
  by (simp add: upsert_def Let_def key_of_def gomap split: option.split)

lemma upsert_keeps [simp]:
  "em_localNodeID (fst (upsert e m)) = em_localNodeID m" "em_sync (fst (upsert e m)) = em_sync m"
  "em_relayPeers (fst (upsert e m)) = em_relayPeers m"
  "wf_map (em_errors m) \<Longrightarrow> wf_map (em_errors (fst (upsert e m)))"
  by (simp_all add: upsert_def Let_def split: option.split)

lemma upsert_inv:
  "errors_inv m \<Longrightarrow> se_ID e \<noteq> [] \<Longrightarrow> in_int64 (se_Timestamp e) \<Longrightarrow> errors_inv (fst (upsert e m))"
  unfolding errors_inv_def by (auto simp: upsert_get split: option.splits if_splits)

lemma clear_get:
  "mget (em_errors (fst (clearByID i m))) k =
     (if k = \<lparr>ek_nodeID = em_localNodeID m, ek_id = i\<rparr> then None else mget (em_errors m) k)"
  by (simp add: clearByID_def Let_def gomap)

lemma clear_inv: "errors_inv m \<Longrightarrow> errors_inv (fst (clearByID i m))"
  unfolding errors_inv_def by (auto simp: clear_get) (simp add: clearByID_def Let_def)

lemma evict_get:
  "wf_map (em_errors m) \<Longrightarrow> mget (em_errors (fst (evictNode n m))) k =
     (if n \<noteq> [] \<and> n \<noteq> em_localNodeID m \<and> ek_nodeID k = n then None else mget (em_errors m) k)"
  by (auto simp: evictNode_def gomap split: option.split)

lemma evict_inv: "errors_inv m \<Longrightarrow> errors_inv (fst (evictNode n m))"
  unfolding errors_inv_def by (auto simp: evict_get split: if_splits) (simp add: evictNode_def)

subsection \<open>Reconciling a peer's set\<close>

text \<open>The newer of what is stored and what is pushed; the push wins a tie.\<close>

definition newer :: "ServiceError option \<Rightarrow> ServiceError \<Rightarrow> ServiceError" where
  "newer old e = (case old of Some x \<Rightarrow> if se_Timestamp x > se_Timestamp e then x else e | None \<Rightarrow> e)"

lemma reconcile_one_get:
  "mget (fst (reconcile_one n (i, e) s)) k =
     (if k = \<lparr>ek_nodeID = n, ek_id = i\<rparr> then Some (newer (mget (fst s) k) e) else mget (fst s) k)"
  by (auto simp: reconcile_one_def Let_def newer_def gomap split: option.split)

lemma reconcile_one_changed:
  "snd (reconcile_one n (i, e) s) \<longleftrightarrow> snd s \<or> mget (fst (reconcile_one n (i, e) s)) \<lparr>ek_nodeID = n, ek_id = i\<rparr> \<noteq>
     mget (fst s) \<lparr>ek_nodeID = n, ek_id = i\<rparr>"
  by (auto simp: reconcile_one_def Let_def newer_def gomap split: option.split)

lemma wf_Cons: "wf_map ((i, e) # inc) \<Longrightarrow> wf_map inc \<and> mget inc i = None"
  by (auto simp: wf_map_def mget_None mkeys_def)

lemma reconcile_fold_get:
  "wf_map inc \<Longrightarrow> mget (fst (fold (reconcile_one n) inc s)) k =
     (case mget inc (ek_id k) of
        Some e \<Rightarrow> if ek_nodeID k = n then Some (newer (mget (fst s) k) e) else mget (fst s) k
      | None \<Rightarrow> mget (fst s) k)"
proof (induction inc arbitrary: s)
  case (Cons ie inc)
  obtain i e where ie: "ie = (i, e)" by (cases ie)
  have wf: "wf_map inc" and fresh: "mget inc i = None" using wf_Cons [of i e inc] Cons.prems by (simp_all add: ie)
  show ?case
    using Cons.IH [OF wf, of "reconcile_one n (i, e) s"] fresh
    by (auto simp: ie mget_Cons reconcile_one_get split: option.split)
qed simp

lemma reconcile_fold_wf: "wf_map (fst s) \<Longrightarrow> wf_map (fst (fold (reconcile_one n) inc s))"
proof (induction inc arbitrary: s)
  case (Cons ie inc)
  have "wf_map (fst (reconcile_one n ie s))"
    using Cons.prems by (simp add: reconcile_one_def Let_def split: option.split)
  then show ?case by (simp add: Cons.IH)
qed simp

lemma reconcile_fold_changed:
  "wf_map inc \<Longrightarrow> snd (fold (reconcile_one n) inc s) \<longleftrightarrow>
     snd s \<or> (\<exists>k. mget (fst (fold (reconcile_one n) inc s)) k \<noteq> mget (fst s) k)"
proof (induction inc arbitrary: s)
  case (Cons ie inc)
  obtain i e where ie: "ie = (i, e)" by (cases ie)
  let ?s = "reconcile_one n (i, e) s"
  have wf: "wf_map inc" and fresh: "mget inc i = None" using wf_Cons [of i e inc] Cons.prems by (simp_all add: ie)
  have same: "mget (fst (fold (reconcile_one n) inc ?s)) \<lparr>ek_nodeID = n, ek_id = i\<rparr> = mget (fst ?s) \<lparr>ek_nodeID = n, ek_id = i\<rparr>"
    using reconcile_fold_get [OF wf, of n ?s] fresh by simp
  have other: "k \<noteq> \<lparr>ek_nodeID = n, ek_id = i\<rparr> \<Longrightarrow> mget (fst ?s) k = mget (fst s) k" for k
    by (simp add: reconcile_one_get)
  have "snd (fold (reconcile_one n) (ie # inc) s) \<longleftrightarrow> snd ?s \<or> (\<exists>k. mget (fst (fold (reconcile_one n) inc ?s)) k \<noteq> mget (fst ?s) k)"
    using Cons.IH [OF wf, of ?s] by (simp add: ie)
  also have "\<dots> \<longleftrightarrow> snd s \<or> (\<exists>k. mget (fst (fold (reconcile_one n) inc ?s)) k \<noteq> mget (fst s) k)"
    unfolding reconcile_one_changed [of n i e s] using same other by metis
  finally show ?case by (simp add: ie)
qed simp

lemma incoming_wf: "wf_map (incoming_set n errs)"
  by (simp add: incoming_set_def wf_mputs)

lemma reconcile_get:
  assumes "wf_map (em_errors m)" "n \<noteq> []" "n \<noteq> em_localNodeID m"
  shows "mget (em_errors (fst (reconcilePeer n errs m))) k =
     (if ek_nodeID k \<noteq> n then mget (em_errors m) k
      else map_option (newer (mget (em_errors m) k)) (mget (incoming_set n errs) (ek_id k)))"
proof -
  let ?f = "fold (reconcile_one n) (incoming_set n errs) (em_errors m, False)"
  have wf: "wf_map (fst ?f)" using reconcile_fold_wf assms(1) by simp
  have "mget (em_errors (fst (reconcilePeer n errs m))) k =
      (case mget (fst ?f) k of None \<Rightarrow> None
       | Some v \<Rightarrow> if ek_nodeID k = n \<and> mget (incoming_set n errs) (ek_id k) = None then None else Some v)"
    using assms(2,3) by (simp add: reconcilePeer_def Let_def split_beta mget_mkeep [OF wf] mhas_def split: option.split)
  then show ?thesis
    using reconcile_fold_get [OF incoming_wf, of n n errs "(em_errors m, False)" k]
    by (cases "mget (incoming_set n errs) (ek_id k)"; cases "mget (em_errors m) k"; cases "ek_nodeID k = n") simp_all
qed

lemma reconcile_wf: "wf_map (em_errors m) \<Longrightarrow> wf_map (em_errors (fst (reconcilePeer n errs m)))"
  by (simp add: reconcilePeer_def Let_def split_beta reconcile_fold_wf)

lemma reconcile_keeps [simp]:
  "em_localNodeID (fst (reconcilePeer n errs m)) = em_localNodeID m" "em_sync (fst (reconcilePeer n errs m)) = em_sync m"
  "em_relayPeers (fst (reconcilePeer n errs m)) = em_relayPeers m"
  by (simp_all add: reconcilePeer_def Let_def split_beta)

lemma incoming_get:
  "mget (incoming_set n errs) i = Some e \<Longrightarrow> i \<noteq> [] \<and> se_ID e = i \<and> se_NodeID e = n \<and>
     (\<exists>x \<in> set errs. se_ID x = i \<and> e = x\<lparr>se_NodeID := n\<rparr>)"
  by (auto simp: incoming_set_def dest!: mputs_origin)

lemma reconcile_noop: "n = [] \<or> n = em_localNodeID m \<Longrightarrow> reconcilePeer n errs m = (m, False)"
  by (auto simp: reconcilePeer_def)

lemma reconcile_inv:
  assumes "errors_inv m" "\<And>e. e \<in> set errs \<Longrightarrow> in_int64 (se_Timestamp e)"
  shows "errors_inv (fst (reconcilePeer n errs m))"
proof (cases "n = [] \<or> n = em_localNodeID m")
  case False
  have wf: "wf_map (em_errors m)" using assms(1) by (simp add: errors_inv_def)
  have "k = key_of e \<and> se_ID e \<noteq> [] \<and> in_int64 (se_Timestamp e)"
    if got: "mget (em_errors (fst (reconcilePeer n errs m))) k = Some e" for k e
  proof (cases "ek_nodeID k = n")
    case True
    with got False reconcile_get [OF wf] obtain p where
      p: "mget (incoming_set n errs) (ek_id k) = Some p" "e = newer (mget (em_errors m) k) p" by auto
    note pp = incoming_get [OF p(1)]
    then obtain x where "x \<in> set errs" "p = x\<lparr>se_NodeID := n\<rparr>" by blast
    with assms(2) [of x] have pt: "in_int64 (se_Timestamp p)" by simp
    show ?thesis
    proof (cases "e = p")
      case True
      with pp pt \<open>ek_nodeID k = n\<close> show ?thesis by (simp add: key_of_def)
    next
      case False
      with p(2) have "mget (em_errors m) k = Some e" by (auto simp: newer_def split: option.splits if_splits)
      with assms(1) show ?thesis by (simp add: errors_inv_def)
    qed
  next
    case other: False
    with got False reconcile_get [OF wf] have "mget (em_errors m) k = Some e" by auto
    with assms(1) show ?thesis by (simp add: errors_inv_def)
  qed
  with reconcile_wf [OF wf] show ?thesis by (simp add: errors_inv_def)
qed (use assms(1) in \<open>simp add: reconcile_noop\<close>)

lemma reconcile_changed:
  assumes "wf_map (em_errors m)"
  shows "snd (reconcilePeer n errs m) \<longleftrightarrow> mget (em_errors (fst (reconcilePeer n errs m))) \<noteq> mget (em_errors m)"
proof (cases "n = [] \<or> n = em_localNodeID m")
  case False
  let ?f = "fold (reconcile_one n) (incoming_set n errs) (em_errors m, False)"
  let ?stale = "\<lambda>k. ek_nodeID k = n \<and> mget (incoming_set n errs) (ek_id k) = None"
  have wf: "wf_map (fst ?f)" using reconcile_fold_wf assms by simp
  have "snd (reconcilePeer n errs m) \<longleftrightarrow> snd ?f \<or> (\<exists>k. ?stale k \<and> mget (fst ?f) k \<noteq> None)"
  proof -
    have "(\<exists>(k, e) \<in> set (fst ?f). ?stale k) \<longleftrightarrow> (\<exists>k. ?stale k \<and> mget (fst ?f) k \<noteq> None)"
      by (auto simp: Bex_def simp flip: mget_in_set [OF wf])
    with False show ?thesis by (simp add: reconcilePeer_def Let_def split_beta mhas_def)
  qed
  also have "\<dots> \<longleftrightarrow> (\<exists>k. mget (fst ?f) k \<noteq> mget (em_errors m) k) \<or> (\<exists>k. ?stale k \<and> mget (fst ?f) k \<noteq> None)"
    using reconcile_fold_changed [OF incoming_wf, of n n errs "(em_errors m, False)"] by simp
  also have "\<dots> \<longleftrightarrow> (\<exists>k. mget (em_errors (fst (reconcilePeer n errs m))) k \<noteq> mget (em_errors m) k)"
  proof -
    have "mget (em_errors (fst (reconcilePeer n errs m))) k = (if ?stale k then None else mget (fst ?f) k)" for k
      using False by (simp add: reconcilePeer_def Let_def split_beta mget_mkeep [OF wf] mhas_def split: option.split)
    moreover have "?stale k \<Longrightarrow> mget (fst ?f) k = mget (em_errors m) k" for k
      using reconcile_fold_get [OF incoming_wf, of n n errs "(em_errors m, False)" k] by simp
    ultimately show ?thesis by metis
  qed
  finally show ?thesis by (simp add: fun_eq_iff)
qed (simp add: reconcile_noop)

interpretation by_id_node: key_sort less_error "\<lambda>e. (se_ID e, se_NodeID e)"
  by unfold_locales (auto simp: less_error_def)

lemma inv_key: "errors_inv m \<Longrightarrow> mget (em_errors m) k = Some e \<Longrightarrow> k = key_of e"
  by (simp add: errors_inv_def)

lemma inv_id: "errors_inv m \<Longrightarrow> mget (em_errors m) k = Some e \<Longrightarrow> ek_id k \<noteq> []"
  unfolding errors_inv_def by (metis key_of_sel(2))

lemma set_localSnapshot:
  "errors_inv m \<Longrightarrow> e \<in> set (localSnapshot m) \<longleftrightarrow>
     se_NodeID e = em_localNodeID m \<and> mget (em_errors m) (key_of e) = Some e"
proof -
  assume inv: "errors_inv m"
  let ?m = "mkeep (\<lambda>k e. ek_nodeID k = em_localNodeID m) (em_errors m)"
  have wf: "wf_map (em_errors m)" using inv by (simp add: errors_inv_def)
  have "e \<in> set (localSnapshot m) \<longleftrightarrow> (\<exists>k. mget ?m k = Some e)"
    using wf by (simp add: localSnapshot_def sortServiceErrors_def mvals_iff)
  also have "\<dots> \<longleftrightarrow> (\<exists>k. mget (em_errors m) k = Some e \<and> ek_nodeID k = em_localNodeID m)"
    by (auto simp: mget_mkeep [OF wf] split: option.splits if_splits)
  also have "\<dots> \<longleftrightarrow> se_NodeID e = em_localNodeID m \<and> mget (em_errors m) (key_of e) = Some e"
    using inv_key [OF inv] by (metis key_of_sel(1))
  finally show ?thesis .
qed

lemma incoming_snapshot:
  assumes "errors_inv a" "i \<noteq> []"
  shows "mget (incoming_set (em_localNodeID a) (localSnapshot a)) i =
     mget (em_errors a) \<lparr>ek_nodeID = em_localNodeID a, ek_id = i\<rparr>"
  unfolding incoming_set_def
proof (rule mget_mputs_same [where f = "\<lambda>i. if i = [] then None else mget (em_errors a) \<lparr>ek_nodeID = em_localNodeID a, ek_id = i\<rparr>",
      THEN trans])
  fix k v assume "(k, v) \<in> set (map (\<lambda>e. (se_ID e, e\<lparr>se_NodeID := em_localNodeID a\<rparr>)) (filter (\<lambda>e. se_ID e \<noteq> []) (localSnapshot a)))"
  then obtain e where e: "e \<in> set (localSnapshot a)" "k = se_ID e" "v = e\<lparr>se_NodeID := em_localNodeID a\<rparr>" "se_ID e \<noteq> []" by auto
  then have "se_NodeID e = em_localNodeID a" "mget (em_errors a) (key_of e) = Some e"
    using set_localSnapshot [OF assms(1)] by blast+
  with e show "(if k = [] then None else mget (em_errors a) \<lparr>ek_nodeID = em_localNodeID a, ek_id = k\<rparr>) = Some v"
    by (simp add: key_of_def)
next
  fix v assume v: "(if i = [] then None else mget (em_errors a) \<lparr>ek_nodeID = em_localNodeID a, ek_id = i\<rparr>) = Some v"
  then have k: "\<lparr>ek_nodeID = em_localNodeID a, ek_id = i\<rparr> = key_of v" "mget (em_errors a) (key_of v) = Some v"
    using inv_key [OF assms(1)] assms(2) by force+
  then have "se_NodeID v = em_localNodeID a" "se_ID v = i" by (auto simp: key_of_def)
  with k show "(i, v) \<in> set (map (\<lambda>e. (se_ID e, e\<lparr>se_NodeID := em_localNodeID a\<rparr>)) (filter (\<lambda>e. se_ID e \<noteq> []) (localSnapshot a)))"
    using set_localSnapshot [OF assms(1), of v] assms(2) by (auto intro!: image_eqI [where x = v])
qed (use assms(2) in simp)

subsection \<open>Reachable stores\<close>

lemma dec_error_timestamp:
  assumes "dec_struct serviceerror_fields j ServiceError0 = Some e"
  shows "in_int64 (se_Timestamp e)"
proof (rule dec_struct_keep [where P = "\<lambda>r. in_int64 (se_Timestamp r)", OF _ assms])
  fix n u j r r'
  assume nu: "(n, u) \<in> set serviceerror_fields" and r: "in_int64 (se_Timestamp r)" and u: "u j r = Some r'"
  have "dec_int64 j (se_Timestamp r) = Some v \<Longrightarrow> in_int64 v" for v
    using r by (cases j) (auto split: if_splits)
  with nu r u show "in_int64 (se_Timestamp r')"
    by (auto simp: serviceerror_fields_def fld_def)
qed (simp add: ServiceError0_def in_int64_def)

lemma dec_envelope_timestamps:
  assumes "dec_struct envelope_fields j \<lparr>sv_NodeID = [], sv_Errors = []\<rparr> = Some env" "e \<in> set (sv_Errors env)"
  shows "in_int64 (se_Timestamp e)"
proof -
  have "\<forall>e \<in> set (sv_Errors env). in_int64 (se_Timestamp e)"
  proof (rule dec_struct_keep [where P = "\<lambda>r. \<forall>e \<in> set (sv_Errors r). in_int64 (se_Timestamp e)", OF _ assms(1)])
    fix n u j r r'
    assume nu: "(n, u) \<in> set envelope_fields" and r: "\<forall>e \<in> set (sv_Errors r). in_int64 (se_Timestamp e)" and u: "u j r = Some r'"
    have "dec_slice (dec_struct serviceerror_fields) ServiceError0 j (sv_Errors r) = Some vs \<Longrightarrow> v \<in> set vs \<Longrightarrow> in_int64 (se_Timestamp v)" for v vs
      using dec_elems_keep [where P = "\<lambda>e. in_int64 (se_Timestamp e)", OF dec_error_timestamp] by (cases j) auto
    with nu r u show "\<forall>e \<in> set (sv_Errors r'). in_int64 (se_Timestamp e)"
      by (auto simp: envelope_fields_def fld_def)
  qed simp
  with assms(2) show ?thesis by blast
qed

inductive errors_reachable :: "Manager \<Rightarrow> bool" where
  start: "errors_reachable ((SetLocalNodeID nid (NewManager h))\<lparr>em_sync := b\<rparr>)"
| message: "errors_reachable m \<Longrightarrow> errors_reachable (fst (handleMessage msg m))"
| ingest: "errors_reachable m \<Longrightarrow> errors_reachable (fst (handleIngest body m))"
| evict: "errors_reachable m \<Longrightarrow> errors_reachable (fst (EvictNode n m))"

definition node_inv :: "Manager \<Rightarrow> bool" where
  "node_inv m \<longleftrightarrow> errors_inv m \<and> em_localNodeID m \<noteq> [] \<and> wf_map (em_relayPeers m) \<and>
     (\<forall>i p. mget (em_relayPeers m) i = Some p \<longrightarrow> rn_ID p = i)"

lemma handleReport_state:
  obtains "fst (handleReport rid params m) = m"
  | e where "se_ID e \<noteq> []" "se_Message e \<noteq> []" "in_int64 (se_Timestamp e)" "fst (handleReport rid params m) = fst (upsert e m)"
      "snd (handleReport rid params m) = acknowledge rid @
         (if snd (upsert e m) then EmitUpdate (snapshot (fst (upsert e m))) # notifyLocalChange (fst (upsert e m)) else [])"
proof (cases "Unmarshal (dec_struct serviceerror_fields) ServiceError0 params")
  case (Some e)
  then have t: "in_int64 (se_Timestamp e)" by (cases params) (auto dest: dec_error_timestamp)
  show ?thesis
    using Some t that by (cases "se_ID e = [] \<or> se_Message e = []") (auto simp: handleReport_def split_beta Let_def)
qed (use that in \<open>simp add: handleReport_def\<close>)

lemma handleClear_state:
  obtains "fst (handleClear rid params m) = m"
  | i where "i \<noteq> []" "fst (handleClear rid params m) = fst (clearByID i m)"
      "snd (handleClear rid params m) = acknowledge rid @
         (if snd (clearByID i m) then EmitUpdate (snapshot (fst (clearByID i m))) # notifyLocalChange (fst (clearByID i m)) else [])"
  using that by (cases "Unmarshal (dec_struct clear_fields) \<lparr>cp_ID = [], cp_ClearedBy = []\<rparr> params")
    (fastforce simp: handleClear_def split_beta Let_def split: if_splits)+

lemma next_peers_ok: "wf_map (next_peers nodes)" "mget (next_peers nodes) i = Some p \<Longrightarrow> rn_ID p = i"
  by (auto simp: next_peers_def wf_mputs dest!: mputs_origin split: option.splits)

lemma applyDiscovery_state:
  "fst (applyDiscovery msg m) = m \<or> (\<exists>nodes. fst (applyDiscovery msg m) = m\<lparr>em_relayPeers := next_peers nodes\<rparr>)"
  by (auto simp: applyDiscovery_def split: option.split)

text \<open>What a message does to the state, whatever it is.\<close>

lemma handleMessage_state:
  obtains (report) rid where "fst (handleMessage msg m) = fst (handleReport rid (msg_Params msg) m)"
      "snd (handleMessage msg m) = snd (handleReport rid (msg_Params msg) m)"
  | (clear) rid where "fst (handleMessage msg m) = fst (handleClear rid (msg_Params msg) m)"
      "snd (handleMessage msg m) = snd (handleClear rid (msg_Params msg) m)"
  | (peers) "fst (handleMessage msg m) = fst (applyDiscovery msg m)" "snd (handleMessage msg m) = snd (applyDiscovery msg m)"
  | (quiet) l where "fst (handleMessage msg m) = m\<lparr>em_level := l\<rparr>" "\<forall>s. EmitUpdate s \<notin> set (snd (handleMessage msg m))"
proof (cases "msg_Method msg = SetLevelMethod")
  case True
  show ?thesis by (rule quiet) (use True in \<open>auto simp: handleMessage_def split_beta\<close>)
next
  case n: False
  note H = handleMessage_def n
  show ?thesis
  proof (cases "IsNotification msg")
    case True
    consider "msg_Method msg = ''errors:report''" | "msg_Method msg = ''errors:clear''" | "msg_Method msg = NotifyNodes"
        "msg_Method msg \<noteq> ''errors:report''" "msg_Method msg \<noteq> ''errors:clear''"
      | "msg_Method msg \<notin> {''errors:report'', ''errors:clear'', NotifyNodes}" by blast
    then show ?thesis
    proof cases
      case 1 show ?thesis by (rule report [of None]) (use 1 n True in \<open>simp_all add: H\<close>)
    next
      case 2 show ?thesis by (rule clear [of None]) (use 2 n True in \<open>simp_all add: H\<close>)
    next
      case 3 show ?thesis by (rule peers) (use 3 n True in \<open>simp_all add: H\<close>)
    next
      case 4 show ?thesis by (rule quiet [of "em_level m"]) (use 4 n True in \<open>simp_all add: H\<close>)
    qed
  next
    case False
    consider "IsRequest msg" "msg_Method msg = ''errors:report''" | "IsRequest msg" "msg_Method msg = ''errors:clear''"
      | "\<not> (IsRequest msg \<and> msg_Method msg \<in> {''errors:report'', ''errors:clear''})" by blast
    then show ?thesis
    proof cases
      case 1 show ?thesis by (rule report [of "Some (msg_ID msg)"]) (use 1 n False in \<open>simp_all add: H\<close>)
    next
      case 2 show ?thesis by (rule clear [of "Some (msg_ID msg)"]) (use 2 n False in \<open>simp_all add: H\<close>)
    next
      case 3 show ?thesis by (rule quiet [of "em_level m"]) (use 3 n False in \<open>auto simp: H\<close>)
    qed
  qed
qed

lemma node_inv_cong:
  "em_errors m' = em_errors m \<Longrightarrow> em_localNodeID m' = em_localNodeID m \<Longrightarrow> em_relayPeers m' = em_relayPeers m \<Longrightarrow>
     node_inv m' = node_inv m"
  by (simp add: node_inv_def errors_inv_def)

lemma clear_keeps [simp]:
  "em_localNodeID (fst (clearByID i m)) = em_localNodeID m" "em_relayPeers (fst (clearByID i m)) = em_relayPeers m"
  by (simp_all add: clearByID_def Let_def)

lemma handleMessage_node_inv:
  assumes "node_inv m"
  shows "node_inv (fst (handleMessage msg m)) \<and> em_localNodeID (fst (handleMessage msg m)) = em_localNodeID m"
proof (rule handleMessage_state [of msg m])
  fix rid assume h: "fst (handleMessage msg m) = fst (handleReport rid (msg_Params msg) m)"
  show ?thesis
    by (rule handleReport_state [of rid "msg_Params msg" m])
      (use assms upsert_inv in \<open>auto simp: h node_inv_def\<close>)
next
  fix rid assume h: "fst (handleMessage msg m) = fst (handleClear rid (msg_Params msg) m)"
  show ?thesis
    by (rule handleClear_state [of rid "msg_Params msg" m])
      (use assms clear_inv in \<open>auto simp: h node_inv_def\<close>)
next
  assume h: "fst (handleMessage msg m) = fst (applyDiscovery msg m)"
  show ?thesis
    using applyDiscovery_state [of msg m] assms next_peers_ok by (auto simp: h node_inv_def errors_inv_def)
next
  fix l assume h: "fst (handleMessage msg m) = m\<lparr>em_level := l\<rparr>"
  show ?thesis using assms node_inv_cong [of "m\<lparr>em_level := l\<rparr>" m] by (simp add: h)
qed

lemma handleIngest_cases:
  obtains (bad) "handleIngest body m = (m, status_only 400, [])"
  | (ok) env where "Unmarshal (dec_struct envelope_fields) \<lparr>sv_NodeID = [], sv_Errors = []\<rparr> body = Some env" "sv_NodeID env \<noteq> []"
      "handleIngest body m = (fst (reconcilePeer (sv_NodeID env) (sv_Errors env) m), status_only 204,
         if snd (reconcilePeer (sv_NodeID env) (sv_Errors env) m)
         then [EmitUpdate (snapshot (fst (reconcilePeer (sv_NodeID env) (sv_Errors env) m)))] else [])"
  using that
  by (cases "Unmarshal (dec_struct envelope_fields) \<lparr>sv_NodeID = [], sv_Errors = []\<rparr> body")
    (fastforce simp: handleIngest_def ReconcilePeer_def split_beta Let_def split: if_splits)+

lemma handleIngest_node_inv:
  assumes "node_inv m"
  shows "node_inv (fst (handleIngest body m)) \<and> em_localNodeID (fst (handleIngest body m)) = em_localNodeID m"
proof (rule handleIngest_cases [of body m])
  fix env assume env: "Unmarshal (dec_struct envelope_fields) \<lparr>sv_NodeID = [], sv_Errors = []\<rparr> body = Some env"
    and h: "handleIngest body m = (fst (reconcilePeer (sv_NodeID env) (sv_Errors env) m), status_only 204,
         if snd (reconcilePeer (sv_NodeID env) (sv_Errors env) m)
         then [EmitUpdate (snapshot (fst (reconcilePeer (sv_NodeID env) (sv_Errors env) m)))] else [])"
  have "e \<in> set (sv_Errors env) \<Longrightarrow> in_int64 (se_Timestamp e)" for e
    using env by (cases body) (auto dest: dec_envelope_timestamps)
  then have "errors_inv (fst (reconcilePeer (sv_NodeID env) (sv_Errors env) m))"
    using assms by (intro reconcile_inv) (auto simp: node_inv_def)
  with assms show ?thesis by (simp add: h node_inv_def)
qed (use assms in simp)

lemma EvictNode_fst [simp]: "fst (EvictNode n m) = fst (evictNode n m)"
  by (simp add: EvictNode_def split_beta Let_def)

lemma evict_keeps [simp]:
  "em_localNodeID (fst (evictNode n m)) = em_localNodeID m" "em_relayPeers (fst (evictNode n m)) = em_relayPeers m"
  by (simp_all add: evictNode_def)

lemma errors_reachable_inv: "errors_reachable m \<Longrightarrow> node_inv m"
proof (induction rule: errors_reachable.induct)
  case (start nid h b)
  show ?case by (simp add: node_inv_def errors_inv_def SetLocalNodeID_def NewManager_def split: option.split)
next
  case (evict m n)
  then show ?case using evict_inv [of m n] by (simp add: node_inv_def)
qed (use handleMessage_node_inv handleIngest_node_inv in blast)+

subsection \<open>Equal stores have equal snapshots\<close>

lemma inv_inj_keys:
  assumes "\<And>k e. mget M k = Some e \<Longrightarrow> k = key_of e" "wf_map M"
  shows "inj_on (\<lambda>e. (se_ID e, se_NodeID e)) (set (mvals M))"
proof (rule inj_onI)
  fix a b assume "a \<in> set (mvals M)" "b \<in> set (mvals M)" and eq: "(se_ID a, se_NodeID a) = (se_ID b, se_NodeID b)"
  then obtain ka kb where k: "mget M ka = Some a" "mget M kb = Some b" using mvals_iff [OF assms(2)] by metis
  then have "ka = key_of a" "kb = key_of b" using assms(1) by auto
  with eq have "ka = kb" by (simp add: key_of_def)
  with k show "a = b" by simp
qed

lemma sorted_vals_eq:
  assumes "\<And>k e. mget M k = Some e \<Longrightarrow> k = key_of e" "wf_map M" "wf_map M'" "mget M = mget M'"
  shows "sortServiceErrors (mvals M) = sortServiceErrors (mvals M')"
  unfolding sortServiceErrors_def
  using assms by (intro by_id_node.sort_by_map_vals inv_inj_keys) (auto simp: same_map_def)

lemma snapshot_eq:
  "errors_inv m \<Longrightarrow> errors_inv m' \<Longrightarrow> mget (em_errors m) = mget (em_errors m') \<Longrightarrow> snapshot m = snapshot m'"
  unfolding snapshot_def by (rule sorted_vals_eq) (auto simp: errors_inv_def)

lemma localSnapshot_eq:
  assumes "errors_inv m" "wf_map (em_errors m')" "em_localNodeID m' = em_localNodeID m"
    and "\<And>k. ek_nodeID k = em_localNodeID m \<Longrightarrow> mget (em_errors m') k = mget (em_errors m) k"
  shows "localSnapshot m' = localSnapshot m"
proof -
  let ?p = "\<lambda>k (e :: ServiceError). ek_nodeID k = em_localNodeID m"
  have wf: "wf_map (em_errors m)" using assms(1) by (simp add: errors_inv_def)
  have "mget (mkeep ?p (em_errors m)) k = mget (mkeep ?p (em_errors m')) k" for k
    using assms(4) [of k] by (simp add: mget_mkeep [OF wf] mget_mkeep [OF assms(2)] split: option.split)
  moreover have "mget (mkeep ?p (em_errors m)) k = Some e \<Longrightarrow> k = key_of e" for k e
    using inv_key [OF assms(1)] by (auto simp: mget_mkeep [OF wf] split: option.splits if_splits)
  ultimately show ?thesis
    unfolding localSnapshot_def assms(3) using wf assms(2) by (intro sorted_vals_eq [symmetric]) auto
qed

subsection \<open>Properties\<close>

lemma push_replicates_parts:
  assumes "errors_reachable a" "errors_reachable b" "em_localNodeID a \<noteq> em_localNodeID b"
    and "py_localNodeID ps = em_localNodeID a"
    and "handleIngest (Some (snapshotBody a ps)) b = (b', reply, outs)"
  shows "hy_Status reply = 204"
    and "mget (em_errors b') k =
      (if ek_nodeID k = em_localNodeID a
       then map_option (newer (mget (em_errors b) k)) (mget (em_errors a) k)
       else mget (em_errors b) k)"
    and "(\<And>k x e. mget (em_errors b) k = Some x \<Longrightarrow> mget (em_errors a) k = Some e \<Longrightarrow> se_Timestamp x \<le> se_Timestamp e) \<Longrightarrow>
      ek_nodeID k = em_localNodeID a \<Longrightarrow> mget (em_errors b') k = mget (em_errors a) k"
proof -
  have a: "errors_inv a" "em_localNodeID a \<noteq> []" using errors_reachable_inv [OF assms(1)] by (auto simp: node_inv_def)
  have b: "errors_inv b" using errors_reachable_inv [OF assms(2)] by (simp add: node_inv_def)
  let ?env = "\<lparr>sv_NodeID = em_localNodeID a, sv_Errors = localSnapshot a\<rparr>"
  have "in_int64 (se_Timestamp e)" if "e \<in> set (localSnapshot a)" for e
    using that set_localSnapshot [OF a(1), of e] a(1) by (auto simp: errors_inv_def)
  then have dec: "dec_struct envelope_fields (snapshotBody a ps) \<lparr>sv_NodeID = [], sv_Errors = []\<rparr> = Some ?env"
    unfolding snapshotBody_def assms(4) using dec_marshalEnvelope [of ?env] by simp
  have b': "b' = fst (reconcilePeer (em_localNodeID a) (localSnapshot a) b)" and r: "reply = status_only 204"
    using assms(5) a(2) by (simp_all add: handleIngest_def dec ReconcilePeer_def split_beta Let_def)
  show "hy_Status reply = 204" by (simp add: r status_only_def)
  have get: "mget (em_errors b') k =
      (if ek_nodeID k = em_localNodeID a
       then map_option (newer (mget (em_errors b) k)) (mget (em_errors a) k)
       else mget (em_errors b) k)" for k
  proof -
    have empty: "mget (em_errors a) \<lparr>ek_nodeID = em_localNodeID a, ek_id = []\<rparr> = None"
      using inv_id [OF a(1)] by (metis errKey.select_convs(2) not_None_eq)
    have "mget (incoming_set (em_localNodeID a) (localSnapshot a)) [] = None"
      using incoming_get [of "em_localNodeID a" "localSnapshot a" "[]"]
      by (cases "mget (incoming_set (em_localNodeID a) (localSnapshot a)) []") auto
    then have "mget (incoming_set (em_localNodeID a) (localSnapshot a)) i = mget (em_errors a) \<lparr>ek_nodeID = em_localNodeID a, ek_id = i\<rparr>" for i
      using incoming_snapshot [OF a(1), of i] empty by (cases "i = []") simp_all
    moreover obtain n i where "k = \<lparr>ek_nodeID = n, ek_id = i\<rparr>" by (cases k)
    ultimately show ?thesis
      using reconcile_get [of b "em_localNodeID a" "localSnapshot a" k] b a(2) assms(3) by (simp add: b' errors_inv_def)
  qed
  show "mget (em_errors b') k =
      (if ek_nodeID k = em_localNodeID a
       then map_option (newer (mget (em_errors b) k)) (mget (em_errors a) k)
       else mget (em_errors b) k)" by (rule get)
  assume older: "\<And>k x e. mget (em_errors b) k = Some x \<Longrightarrow> mget (em_errors a) k = Some e \<Longrightarrow> se_Timestamp x \<le> se_Timestamp e"
    and k: "ek_nodeID k = em_localNodeID a"
  have "newer (mget (em_errors b) k) e = e" if e: "mget (em_errors a) k = Some e" for e
  proof (cases "mget (em_errors b) k")
    case (Some x)
    with older [OF Some e] show ?thesis by (simp add: newer_def)
  qed (simp add: newer_def)
  then show "mget (em_errors b') k = mget (em_errors a) k"
    unfolding get using k by (cases "mget (em_errors a) k") simp_all
qed

text \<open>
  C10. A push replicates: when node \<open>a\<close> pushes its snapshot to node \<open>b\<close>, encoded, posted and decoded,
  the receiver answers 204 and its slice for \<open>a\<close> becomes, id by id, the newer of what it held and what
  was pushed, ids \<open>a\<close> no longer has are gone and all other slices are untouched; so the slice equals
  \<open>a\<close>'s own whenever the receiver held nothing with a later timestamp.
\<close>

theorem push_replicates:
  assumes "errors_reachable a" "errors_reachable b" "em_localNodeID a \<noteq> em_localNodeID b"
    and "py_localNodeID ps = em_localNodeID a"
    and "handleIngest (Some (snapshotBody a ps)) b = (b', reply, outs)"
  shows "hy_Status reply = 204 \<and>
      (\<forall>k. mget (em_errors b') k =
        (if ek_nodeID k = em_localNodeID a
         then map_option (newer (mget (em_errors b) k)) (mget (em_errors a) k)
         else mget (em_errors b) k)) \<and>
      ((\<forall>k x e. mget (em_errors b) k = Some x \<longrightarrow> mget (em_errors a) k = Some e \<longrightarrow> se_Timestamp x \<le> se_Timestamp e) \<longrightarrow>
        (\<forall>k. ek_nodeID k = em_localNodeID a \<longrightarrow> mget (em_errors b') k = mget (em_errors a) k))"
  using push_replicates_parts [OF assms] by blast

lemma peers_never_alter_local_errors_parts:
  assumes "errors_reachable m" "errors_mux x d r mesh m = (mesh', m', reply, outs)"
  shows "localSnapshot m' = localSnapshot m"
    and "ek_nodeID k = em_localNodeID m \<Longrightarrow> mget (em_errors m') k = mget (em_errors m) k"
    and "TriggerPush \<notin> set outs"
    and "VerifyClientPin (hr_TLS r) (Refresh x d mesh) = None \<Longrightarrow> m' = m \<and> hy_Status reply = 403 \<and> outs = []"
proof -
  have inv: "errors_inv m" using errors_reachable_inv [OF assms(1)] by (simp add: node_inv_def)
  have wf: "wf_map (em_errors m)" using inv by (simp add: errors_inv_def)
  have st: "(m' = m \<and> TriggerPush \<notin> set outs) \<or> (m', reply, outs) = handleIngest (hr_Body r) m"
    using assms(2) by (auto simp: errors_mux_def Let_def split: if_splits)
  have ing: "wf_map (em_errors (fst (handleIngest (hr_Body r) m))) \<and>
      em_localNodeID (fst (handleIngest (hr_Body r) m)) = em_localNodeID m \<and>
      (\<forall>k. ek_nodeID k = em_localNodeID m \<longrightarrow> mget (em_errors (fst (handleIngest (hr_Body r) m))) k = mget (em_errors m) k) \<and>
      TriggerPush \<notin> set (snd (snd (handleIngest (hr_Body r) m)))"
  proof (rule handleIngest_cases [of "hr_Body r" m])
    fix env assume h: "handleIngest (hr_Body r) m = (fst (reconcilePeer (sv_NodeID env) (sv_Errors env) m), status_only 204,
         if snd (reconcilePeer (sv_NodeID env) (sv_Errors env) m)
         then [EmitUpdate (snapshot (fst (reconcilePeer (sv_NodeID env) (sv_Errors env) m)))] else [])"
    show ?thesis
      using reconcile_wf [OF wf, of "sv_NodeID env" "sv_Errors env"]
        reconcile_get [OF wf, of "sv_NodeID env" "sv_Errors env"] reconcile_noop [of "sv_NodeID env" m "sv_Errors env"]
      by (cases "sv_NodeID env = [] \<or> sv_NodeID env = em_localNodeID m") (auto simp: h)
  qed (use wf in simp)
  have m': "wf_map (em_errors m')" "em_localNodeID m' = em_localNodeID m" "TriggerPush \<notin> set outs"
    "\<And>k. ek_nodeID k = em_localNodeID m \<Longrightarrow> mget (em_errors m') k = mget (em_errors m) k"
    using st ing wf by (auto simp: prod_eq_iff)
  show "localSnapshot m' = localSnapshot m" by (rule localSnapshot_eq [OF inv m'(1,2,4)])
  show "ek_nodeID k = em_localNodeID m \<Longrightarrow> mget (em_errors m') k = mget (em_errors m) k" by (rule m')
  show "TriggerPush \<notin> set outs" by (rule m')
  show "VerifyClientPin (hr_TLS r) (Refresh x d mesh) = None \<Longrightarrow> m' = m \<and> hy_Status reply = 403 \<and> outs = []"
    using assms(2) by (auto simp: errors_mux_def Let_def status_only_def)
qed


subsection \<open>Reports in any order\<close>

definition report_all :: "ServiceError list \<Rightarrow> Manager \<Rightarrow> Manager" where
  "report_all es m = fold (\<lambda>e m. fst (upsert e m)) es m"

definition report_step :: "ServiceError option \<Rightarrow> ServiceError \<Rightarrow> ServiceError option" where
  "report_step old e = Some (newer old e)"

interpretation reports: max_register report_step "\<lambda>_. True" se_Timestamp se_Timestamp id id
  by unfold_locales (auto simp: report_step_def newer_def)

lemma report_all_get:
  "mget (em_errors (report_all es m)) k = foldl report_step (mget (em_errors m) k) (filter (\<lambda>e. key_of e = k) es)"
proof (induction es arbitrary: m)
  case (Cons e es)
  then show ?case
    by (auto simp: report_all_def upsert_get report_step_def newer_def split: option.split)
qed (simp add: report_all_def)

lemma report_all_inv:
  "errors_inv m \<Longrightarrow> (\<And>e. e \<in> set es \<Longrightarrow> se_ID e \<noteq> [] \<and> in_int64 (se_Timestamp e)) \<Longrightarrow> errors_inv (report_all es m)"
  by (induction es arbitrary: m) (auto simp: report_all_def upsert_inv)


subsection \<open>Updates and peer events\<close>

text \<open>
  The display is never stale: whenever a message, a push from a peer or a departed node changes
  the stored errors in any way, an update carrying the complete new list is emitted; every update
  carries that list; and a push that changes nothing emits nothing.
\<close>

theorem every_change_is_published:
  assumes "errors_reachable m"
  shows "mget (em_errors (fst (handleMessage msg m))) \<noteq> mget (em_errors m) \<Longrightarrow>
      EmitUpdate (snapshot (fst (handleMessage msg m))) \<in> set (snd (handleMessage msg m))"
    and "EmitUpdate s \<in> set (snd (handleMessage msg m)) \<Longrightarrow> s = snapshot (fst (handleMessage msg m))"
    and "snd (snd (handleIngest body m)) =
      (if mget (em_errors (fst (handleIngest body m))) = mget (em_errors m) then []
       else [EmitUpdate (snapshot (fst (handleIngest body m)))])"
    and "snd (EvictNode n m) =
      (if mget (em_errors (fst (EvictNode n m))) = mget (em_errors m) then []
       else [EmitUpdate (snapshot (fst (EvictNode n m)))])"
proof -
  have wf: "wf_map (em_errors m)" using errors_reachable_inv [OF assms] by (simp add: node_inv_def errors_inv_def)
  have noans: "EmitUpdate s \<notin> set (acknowledge rid)" "EmitUpdate s \<notin> set (refuse rid)" "EmitUpdate s \<notin> set (notifyLocalChange m)"
    for rid s m by (simp_all add: acknowledge_def refuse_def notifyLocalChange_def split: option.split)
  have up: "\<not> snd (upsert e m) \<Longrightarrow> fst (upsert e m) = m" "\<not> snd (clearByID i m) \<Longrightarrow> fst (clearByID i m) = m" for e i
    by (auto simp: upsert_def clearByID_def Let_def split: option.splits if_splits)
  have report: "(mget (em_errors (fst (handleReport rid p m))) \<noteq> mget (em_errors m) \<longrightarrow>
      EmitUpdate (snapshot (fst (handleReport rid p m))) \<in> set (snd (handleReport rid p m))) \<and>
      (EmitUpdate s \<in> set (snd (handleReport rid p m)) \<longrightarrow> s = snapshot (fst (handleReport rid p m)))" for rid p s
    using noans up by (auto simp: handleReport_def Let_def split_beta split: option.split)
  have clear: "(mget (em_errors (fst (handleClear rid p m))) \<noteq> mget (em_errors m) \<longrightarrow>
      EmitUpdate (snapshot (fst (handleClear rid p m))) \<in> set (snd (handleClear rid p m))) \<and>
      (EmitUpdate s \<in> set (snd (handleClear rid p m)) \<longrightarrow> s = snapshot (fst (handleClear rid p m)))" for rid p s
    using noans up by (auto simp: handleClear_def Let_def split_beta split: option.split)
  have msg: "(mget (em_errors (fst (handleMessage msg m))) \<noteq> mget (em_errors m) \<longrightarrow>
      EmitUpdate (snapshot (fst (handleMessage msg m))) \<in> set (snd (handleMessage msg m))) \<and>
      (EmitUpdate s \<in> set (snd (handleMessage msg m)) \<longrightarrow> s = snapshot (fst (handleMessage msg m)))"
    by (rule handleMessage_state [of msg m])
      (use report clear in \<open>auto simp: applyDiscovery_def split: option.splits\<close>)
  then show "mget (em_errors (fst (handleMessage msg m))) \<noteq> mget (em_errors m) \<Longrightarrow>
      EmitUpdate (snapshot (fst (handleMessage msg m))) \<in> set (snd (handleMessage msg m))"
    and "EmitUpdate s \<in> set (snd (handleMessage msg m)) \<Longrightarrow> s = snapshot (fst (handleMessage msg m))" by blast+
  show "snd (snd (handleIngest body m)) =
      (if mget (em_errors (fst (handleIngest body m))) = mget (em_errors m) then []
       else [EmitUpdate (snapshot (fst (handleIngest body m)))])"
    by (rule handleIngest_cases [of body m]) (use reconcile_changed [OF wf] in auto)
  have "snd (evictNode n m) \<longleftrightarrow> mget (em_errors (fst (evictNode n m))) \<noteq> mget (em_errors m)"
  proof -
    have "snd (evictNode n m) \<longleftrightarrow> n \<noteq> [] \<and> n \<noteq> em_localNodeID m \<and> (\<exists>k. ek_nodeID k = n \<and> mget (em_errors m) k \<noteq> None)"
      by (auto simp: evictNode_def Bex_def simp flip: mget_in_set [OF wf])
    also have "\<dots> \<longleftrightarrow> (\<exists>k. mget (em_errors (fst (evictNode n m))) k \<noteq> mget (em_errors m) k)"
      unfolding evict_get [OF wf] by (metis (full_types))
    finally show ?thesis by (simp add: fun_eq_iff)
  qed
  then show "snd (EvictNode n m) =
      (if mget (em_errors (fst (EvictNode n m))) = mget (em_errors m) then []
       else [EmitUpdate (snapshot (fst (EvictNode n m)))])"
    by (simp add: EvictNode_def split_beta Let_def)
qed

text \<open>A follower of the events.\<close>

fun follow :: "DiscoveryEvent \<Rightarrow> (string, RawNode) gomap \<Rightarrow> (string, RawNode) gomap" where
  "follow (Discovered n) m = mput (rn_ID n) n m"
| "follow (Updated n) m = mput (rn_ID n) n m"
| "follow (Removed n) m = mdel (rn_ID n) m"

lemma rawNodeEqual_eq [simp]: "rawNodeEqual a b \<longleftrightarrow> a = b"
  by (auto simp: rawNodeEqual_def intro: RawNode.equality)

lemma follow_diff:
  assumes "wf_map next" "\<And>i p. (i, p) \<in> set next \<Longrightarrow> rn_ID p = i"
  shows "mget (fold follow (concat (map (diff_one prevs) next)) m) k =
     (case mget next k of Some p \<Rightarrow> if mget prevs k = Some p then mget m k else Some p | None \<Rightarrow> mget m k)"
  using assms
proof (induction "next" arbitrary: m)
  case (Cons ip ips)
  obtain i p where ip: "ip = (i, p)" by (cases ip)
  have wf: "wf_map ips" and fresh: "mget ips i = None" using wf_Cons [of i p ips] Cons.prems(1) by (simp_all add: ip)
  have p: "rn_ID p = i" using Cons.prems(2) by (simp add: ip)
  have IH: "mget (fold follow (concat (map (diff_one prevs) ips)) m') k =
     (case mget ips k of Some p \<Rightarrow> if mget prevs k = Some p then mget m' k else Some p | None \<Rightarrow> mget m' k)" for m'
    by (rule Cons.IH [OF wf]) (use Cons.prems(2) in auto)
  have one: "mget (fold follow (diff_one prevs (i, p)) m) k =
      (if k = i \<and> mget prevs i \<noteq> Some p then Some p else mget m k)" for k
    by (auto simp: diff_one_def p gomap split: option.split)
  show ?case
    using fresh by (auto simp: ip IH one mget_Cons split: option.split)
qed simp

lemma follow_removed:
  "mget (fold follow (map (\<lambda>nid. Removed (removed_node nid)) is) m) k = (if k \<in> set is then None else mget m k)"
  by (induction "is" arbitrary: m) (auto simp: gomap removed_node_def)

lemma peer_diff_silent:
  assumes wf: "wf_map next" and eq: "mget prevs = mget next"
  shows "peer_diff prevs next = []"
proof -
  have "diff_one prevs (i, p) = []" if "(i, p) \<in> set next" for i p
    using that eq mget_in_set [OF wf, of i p] by (simp add: diff_one_def)
  moreover have "filter (\<lambda>nid. \<not> mhas next nid) (mkeys prevs) = []"
    using eq mget_None [of prevs] by (auto simp: filter_empty_conv mhas_def)
  ultimately show ?thesis by (auto simp: peer_diff_def)
qed

text \<open>
  Peer events are the exact difference of two relay snapshots: a follower that starts from the old
  peer set and applies the emitted events ends with the new one; and no event is emitted exactly when
  the sets are the same, so an unchanged peer is never pushed to again.
\<close>

theorem peer_events_exact:
  assumes "node_inv m"
  shows "mget (fold follow (peer_diff (em_relayPeers m) (next_peers nodes)) (em_relayPeers m)) = mget (next_peers nodes)"
    and "peer_diff (em_relayPeers m) (next_peers nodes) = [] \<longleftrightarrow> mget (em_relayPeers m) = mget (next_peers nodes)"
proof -
  let ?prevs = "em_relayPeers m" and ?next = "next_peers nodes"
  have wf: "wf_map ?next" by (rule next_peers_ok)
  have ids: "(i, p) \<in> set ?next \<Longrightarrow> rn_ID p = i" for i p
    using next_peers_ok(2) mget_in_set [OF wf] by blast
  have get: "mget (fold follow (peer_diff ?prevs ?next) ?prevs) k = mget ?next k" for k
  proof -
    have "mget (fold follow (peer_diff ?prevs ?next) ?prevs) k =
        (if k \<in> set (filter (\<lambda>nid. \<not> mhas ?next nid) (mkeys ?prevs)) then None
         else mget (fold follow (concat (map (diff_one ?prevs) ?next)) ?prevs) k)"
      unfolding peer_diff_def fold_append comp_apply by (rule follow_removed)
    also have "\<dots> = mget ?next k"
      using follow_diff [OF wf ids, of ?prevs ?prevs k] mget_None [of ?prevs k]
      by (cases "mget ?next k") (auto simp: mhas_def)
    finally show ?thesis .
  qed
  then show "mget (fold follow (peer_diff ?prevs ?next) ?prevs) = mget ?next" by (rule ext)
  show "peer_diff ?prevs ?next = [] \<longleftrightarrow> mget ?prevs = mget ?next"
  proof
    assume "peer_diff ?prevs ?next = []"
    with get show "mget ?prevs = mget ?next" by (simp add: fun_eq_iff)
  next
    assume "mget ?prevs = mget ?next"
    then show "peer_diff ?prevs ?next = []" by (rule peer_diff_silent [OF wf])
  qed
qed

subsection \<open>Pushing\<close>

lemma post_keeps: "py_peers (fst (post nt body it s)) = py_peers (fst s) \<and> py_mesh (fst (post nt body it s)) = py_mesh (fst s)"
  by (simp add: post_def Let_def split_beta split: option.split)

lemma post_sends:
  "st \<in> set (snd (post nt body it s)) \<Longrightarrow> st \<in> set (snd s) \<or> st_nodeID st = fst it \<and> st_body st = body"
  by (auto simp: post_def Let_def split_beta split: option.splits if_splits)

lemma fold_post_keeps:
  "py_peers (fst (fold (post nt body) its s)) = py_peers (fst s) \<and> py_mesh (fst (fold (post nt body) its s)) = py_mesh (fst s)"
  by (induction its arbitrary: s) (simp_all add: post_keeps)

lemma fold_post_sends:
  "st \<in> set (snd (fold (post nt body) its s)) \<Longrightarrow> st \<in> set (snd s) \<or> st_nodeID st \<in> fst ` set its \<and> st_body st = body"
proof (induction its arbitrary: s)
  case (Cons it its)
  from Cons.IH [of "post nt body it s"] Cons.prems post_sends [of st nt body it s] show ?case by auto
qed simp

lemma pushAll_peers: "py_peers (fst (pushAll x d nt mgr ps)) = py_peers ps"
  by (simp add: pushAll_def Let_def split_beta fold_post_keeps)

lemma pushAll_sends:
  "st \<in> set (snd (pushAll x d nt mgr ps)) \<Longrightarrow> st_nodeID st \<in> set (mkeys (py_peers ps)) \<and> st_body st = snapshotBody mgr ps"
  using fold_post_sends [of st nt "snapshotBody mgr (fst (ps\<lparr>py_mesh := Refresh x d (py_mesh ps), py_clients := fst (DropUnpinned (Refresh x d (py_mesh ps)) (py_clients ps))\<rparr>, []))"]
  by (auto simp: pushAll_def Let_def split_beta mkeys_def snapshotBody_def split: if_splits dest!: fold_post_sends)

text \<open>
  The synchronisation of one node: the relay's snapshots and the other messages reach the manager, the
  peer events are handled, heartbeats, triggers and membership changes push.
\<close>

record sync_node =
  sn_mgr :: Manager
  sn_ps :: PeerSync

definition events_of :: "out list \<Rightarrow> DiscoveryEvent list" where
  "events_of outs = List.map_filter (\<lambda>w. case w of PeerEvent ev \<Rightarrow> Some ev | _ \<Rightarrow> None) outs"

fun handle_events :: "x509 \<Rightarrow> ClusterDir \<Rightarrow> net \<Rightarrow> DiscoveryEvent list \<Rightarrow> sync_node \<Rightarrow> sync_node \<times> sent list" where
  "handle_events x d nt [] n = (n, [])"
| "handle_events x d nt (ev # evs) n =
     (let (mgr, ps, posts, outs) = handleEvent x d nt ev (sn_mgr n) (sn_ps n);
          (n', posts') = handle_events x d nt evs \<lparr>sn_mgr = mgr, sn_ps = ps\<rparr>
      in (n', posts @ posts'))"

definition node_message :: "x509 \<Rightarrow> ClusterDir \<Rightarrow> net \<Rightarrow> Message \<Rightarrow> sync_node \<Rightarrow> sync_node \<times> sent list" where
  "node_message x d nt msg n =
     (let (mgr, outs) = handleMessage msg (sn_mgr n);
          ps = (if TriggerPush \<in> set outs then ps_TriggerPush (sn_ps n) else sn_ps n)
      in handle_events x d nt (events_of outs) \<lparr>sn_mgr = mgr, sn_ps = ps\<rparr>)"

text \<open>Everything that can happen while the relay keeps sending the snapshot \<open>params\<close>.\<close>

inductive same_snapshot :: "x509 \<Rightarrow> raw \<Rightarrow> sync_node \<Rightarrow> sent list \<Rightarrow> sync_node \<Rightarrow> bool" for x params where
  none: "same_snapshot x params n [] n"
| msg: "same_snapshot x params n posts n' \<Longrightarrow>
     msg_Method msg = NotifyNodes \<Longrightarrow> msg_Params msg = params \<Longrightarrow>
     same_snapshot x params n (posts @ snd (node_message x d nt msg n')) (fst (node_message x d nt msg n'))"
| report: "same_snapshot x params n posts n' \<Longrightarrow> msg_Method msg \<noteq> NotifyNodes \<Longrightarrow>
     same_snapshot x params n (posts @ snd (node_message x d nt msg n')) (fst (node_message x d nt msg n'))"
| push: "same_snapshot x params n posts n' \<Longrightarrow>
     same_snapshot x params n (posts @ snd (pushAll x d nt (sn_mgr n') (sn_ps n')))
       (n'\<lparr>sn_ps := fst (pushAll x d nt (sn_mgr n') (sn_ps n'))\<rparr>)"
| drained: "same_snapshot x params n posts n' \<Longrightarrow>
     same_snapshot x params n (posts @ snd (drain_trigger x d nt (sn_mgr n') (sn_ps n')))
       (n'\<lparr>sn_ps := fst (drain_trigger x d nt (sn_mgr n') (sn_ps n'))\<rparr>)"
| ingested: "same_snapshot x params n posts n' \<Longrightarrow>
     same_snapshot x params n posts (n'\<lparr>sn_mgr := fst (handleIngest body (sn_mgr n'))\<rparr>)"

lemma handleMessage_relay:
  assumes "msg_Method msg \<noteq> NotifyNodes"
  shows "em_relayPeers (fst (handleMessage msg m)) = em_relayPeers m" "em_sync (fst (handleMessage msg m)) = em_sync m"
    "events_of (snd (handleMessage msg m)) = []"
proof -
  have r: "em_relayPeers (fst (handleReport rid p m)) = em_relayPeers m \<and> em_sync (fst (handleReport rid p m)) = em_sync m \<and>
      events_of (snd (handleReport rid p m)) = []" for rid p
    by (simp add: handleReport_def Let_def split_beta events_of_def acknowledge_def refuse_def notifyLocalChange_def
        List.map_filter_def split: option.split)
  have c: "em_relayPeers (fst (handleClear rid p m)) = em_relayPeers m \<and> em_sync (fst (handleClear rid p m)) = em_sync m \<and>
      events_of (snd (handleClear rid p m)) = []" for rid p
    by (simp add: handleClear_def Let_def split_beta events_of_def acknowledge_def refuse_def notifyLocalChange_def
        List.map_filter_def clearByID_def split: option.split)
  show "em_relayPeers (fst (handleMessage msg m)) = em_relayPeers m" "em_sync (fst (handleMessage msg m)) = em_sync m"
    "events_of (snd (handleMessage msg m)) = []"
    using assms r c by (simp_all add: handleMessage_def Let_def split_beta events_of_def List.map_filter_def comp_def)
qed

definition settled :: "DirectoryNode list \<Rightarrow> string \<Rightarrow> sync_node \<Rightarrow> bool" where
  "settled nodes u n \<longleftrightarrow> em_sync (sn_mgr n) \<and> mget (em_relayPeers (sn_mgr n)) = mget (next_peers nodes) \<and>
     u \<notin> set (mkeys (py_peers (sn_ps n)))"

lemma node_message_other:
  assumes "msg_Method msg \<noteq> NotifyNodes" "settled nodes u n"
  shows "settled nodes u (fst (node_message x d nt msg n)) \<and> snd (node_message x d nt msg n) = []"
  using assms(2) handleMessage_relay [OF assms(1), of "sn_mgr n"]
  by (simp add: node_message_def Let_def split_beta settled_def ps_TriggerPush_def)

lemma NotifyNodes_names:
  "NotifyNodes \<noteq> SetLevelMethod" "NotifyNodes \<noteq> ''errors:report''" "NotifyNodes \<noteq> ''errors:clear''"
  "NotifyNodes \<noteq> ''errors:get-initial''" "NotifyNodes \<noteq> ''shutdown''"
  by (simp_all add: NotifyNodes_def SetLevelMethod_def)

lemma node_message_same:
  assumes "msg_Method msg = NotifyNodes" "decode_nodes (msg_Params msg) = Some nodes" "settled nodes u n"
  shows "settled nodes u (fst (node_message x d nt msg n)) \<and> snd (node_message x d nt msg n) = []"
proof -
  have silent: "peer_diff (em_relayPeers (sn_mgr n)) (next_peers nodes) = []"
    using assms(3) next_peers_ok(1) by (intro peer_diff_silent) (simp_all add: settled_def)
  show ?thesis
    using assms silent NotifyNodes_names
    by (auto simp: node_message_def handleMessage_def applyDiscovery_def Let_def split_beta settled_def events_of_def
        List.map_filter_def ps_TriggerPush_def)
qed

lemma drain_peers: "py_peers (fst (drain_trigger x d nt mgr ps)) = py_peers ps"
  by (simp add: drain_trigger_def pushAll_peers)

lemma drain_sends:
  "st \<in> set (snd (drain_trigger x d nt mgr ps)) \<Longrightarrow> st_nodeID st \<in> set (mkeys (py_peers ps))"
  using pushAll_sends [of st x d nt mgr "ps\<lparr>py_trigger := False\<rparr>"] by (auto simp: drain_trigger_def split: if_splits)

lemma same_snapshot_settled:
  assumes "same_snapshot x params n posts n'" "decode_nodes params = Some nodes" "settled nodes u n"
  shows "settled nodes u n' \<and> (\<forall>st \<in> set posts. st_nodeID st \<noteq> u)"
  using assms
proof (induction rule: same_snapshot.induct)
  case (msg n posts n' msg d nt)
  then show ?case using node_message_same [of msg nodes u n' x d nt] by auto
next
  case (report n posts n' msg d nt)
  then show ?case using node_message_other [of msg nodes u n' x d nt] by auto
next
  case (push n posts n' d nt)
  then have s: "settled nodes u n'" by blast
  then have "settled nodes u (n'\<lparr>sn_ps := fst (pushAll x d nt (sn_mgr n') (sn_ps n'))\<rparr>)"
    by (simp add: settled_def pushAll_peers)
  moreover have "st \<in> set (snd (pushAll x d nt (sn_mgr n') (sn_ps n'))) \<Longrightarrow> st_nodeID st \<noteq> u" for st
    using s pushAll_sends [of st x d nt "sn_mgr n'" "sn_ps n'"] by (auto simp: settled_def)
  ultimately show ?case using push by auto
next
  case (drained n posts n' d nt)
  then have s: "settled nodes u n'" by blast
  then have "settled nodes u (n'\<lparr>sn_ps := fst (drain_trigger x d nt (sn_mgr n') (sn_ps n'))\<rparr>)"
    by (simp add: settled_def drain_peers)
  moreover have "st \<in> set (snd (drain_trigger x d nt (sn_mgr n') (sn_ps n'))) \<Longrightarrow> st_nodeID st \<noteq> u" for st
    using s drain_sends [of st x d nt "sn_mgr n'" "sn_ps n'"] by (auto simp: settled_def)
  ultimately show ?case using drained by auto
next
  case (ingested n posts n' body)
  have "em_sync (fst (handleIngest body m)) = em_sync m \<and> em_relayPeers (fst (handleIngest body m)) = em_relayPeers m" for m
    by (rule handleIngest_cases [of body m]) simp_all
  with ingested show ?case by (simp add: settled_def)
qed simp

lemma late_pin_never_synced_parts:
  assumes "em_sync (sn_mgr n)" "decode_nodes params = Some nodes"
    and "mget (em_relayPeers (sn_mgr n)) = mget (next_peers nodes)"
    and "\<not> HasPin (ClusterUUIDFromTXT (rn_TXT peer)) (Refresh x d0 (py_mesh ps0))"
    and "sn_ps n = fst (sync_peer x d0 nt0 peer (sn_mgr n) ps0)"
    and "same_snapshot x params n posts n'"
  shows "rn_ID peer \<notin> set (mkeys (py_peers (sn_ps n')))" "\<forall>st \<in> set posts. st_nodeID st \<noteq> rn_ID peer"
proof -
  have "rn_ID peer \<notin> set (mkeys (py_peers (sn_ps n)))"
    using assms(4,5) mget_None [of "mdel (rn_ID peer) (py_peers ps0)" "rn_ID peer"]
    by (simp add: sync_peer_def Let_def mget_mdel)
  then have "settled nodes (rn_ID peer) n" using assms(1,3) by (simp add: settled_def)
  from same_snapshot_settled [OF assms(6,2) this]
  show "rn_ID peer \<notin> set (mkeys (py_peers (sn_ps n')))" "\<forall>st \<in> set posts. st_nodeID st \<noteq> rn_ID peer"
    by (simp_all add: settled_def)
qed


lemma any_member_speaks_for_any_node_parts:
  assumes "errors_reachable m" "VerifyClientPin (hr_TLS r) (Refresh x d mesh) = Some u" "hr_Method r = ''POST''"
    and "hr_Body r = Some (marshalEnvelope \<lparr>sv_NodeID = v, sv_Errors = []\<rparr>)" "v \<noteq> []" "v \<noteq> em_localNodeID m"
    and "errors_mux x d r mesh m = (mesh', m', reply, outs)"
  shows "hy_Status reply = 204" "ek_nodeID k = v \<Longrightarrow> mget (em_errors m') k = None"
proof -
  have wf: "wf_map (em_errors m)" using errors_reachable_inv [OF assms(1)] by (simp add: node_inv_def errors_inv_def)
  have dec: "dec_struct envelope_fields (marshalEnvelope \<lparr>sv_NodeID = v, sv_Errors = []\<rparr>) \<lparr>sv_NodeID = [], sv_Errors = []\<rparr> =
      Some \<lparr>sv_NodeID = v, sv_Errors = []\<rparr>"
    using dec_marshalEnvelope [of "\<lparr>sv_NodeID = v, sv_Errors = []\<rparr>"] by simp
  have m': "m' = fst (reconcilePeer v [] m)" "reply = status_only 204"
    using assms by (simp_all add: errors_mux_def Let_def handleIngest_def dec ReconcilePeer_def split_beta)
  show "hy_Status reply = 204" by (simp add: m' status_only_def)
  show "ek_nodeID k = v \<Longrightarrow> mget (em_errors m') k = None"
    using reconcile_get [OF wf assms(5,6), of "[]" k] by (simp add: m' incoming_set_def)
qed

text \<open>
  C39. The endpoint authenticates the caller and then trusts the name in the body: any accepted member,
  whatever its own principal, erases every error of any third node by posting an empty set in that
  node's name.
\<close>

theorem any_member_speaks_for_any_node:
  assumes "errors_reachable m" "VerifyClientPin (hr_TLS r) (Refresh x d mesh) = Some u" "hr_Method r = ''POST''"
    and "hr_Body r = Some (marshalEnvelope \<lparr>sv_NodeID = v, sv_Errors = []\<rparr>)" "v \<noteq> []" "v \<noteq> em_localNodeID m"
    and "errors_mux x d r mesh m = (mesh', m', reply, outs)"
  shows "hy_Status reply = 204 \<and> (\<forall>k. ek_nodeID k = v \<longrightarrow> mget (em_errors m') k = None)"
  using any_member_speaks_for_any_node_parts [OF assms] by blast

subsection \<open>Examples\<close>

definition demo_error :: "string \<Rightarrow> string \<Rightarrow> int \<Rightarrow> ServiceError" where
  "demo_error node i t = ServiceError0\<lparr>se_ID := i, se_Message := ''m'', se_Timestamp := t, se_NodeID := node\<rparr>"

definition demo_mgr :: "string \<Rightarrow> Manager" where
  "demo_mgr node = (SetLocalNodeID node (NewManager None))\<lparr>em_sync := True\<rparr>"

definition demo_report :: "ServiceError \<Rightarrow> Message" where
  "demo_report e = Message0\<lparr>msg_Method := ''errors:report'', msg_Params := Some (marshalServiceError e)\<rparr>"

definition demo_sync :: "PeerSync" where
  "demo_sync = NewPeerSync (demo_mgr ''a'') (Some demo_mesh)"

lemma demo_mgr_reachable: "errors_reachable (demo_mgr node)"
  unfolding demo_mgr_def by (rule errors_reachable.start)

definition demo_a :: Manager where
  "demo_a = fst (handleMessage (demo_report (demo_error ''a'' ''e'' 5)) (demo_mgr ''a''))"

lemma demo_a_reachable: "errors_reachable demo_a"
  unfolding demo_a_def by (rule errors_reachable.message [OF demo_mgr_reachable])

lemma demo_a_errors: "mget (em_errors demo_a) \<lparr>ek_nodeID = ''a'', ek_id = ''e''\<rparr> = Some (demo_error ''a'' ''e'' 5)"
  by code_simp

theorem push_replicates_witness:
  "mget (em_errors (fst (handleIngest (Some (snapshotBody demo_a demo_sync)) (demo_mgr ''b''))))
     \<lparr>ek_nodeID = ''a'', ek_id = ''e''\<rparr> = Some (demo_error ''a'' ''e'' 5)"
proof -
  obtain b' reply outs where h: "handleIngest (Some (snapshotBody demo_a demo_sync)) (demo_mgr ''b'') = (b', reply, outs)"
    by (metis prod_cases3)
  have i: "em_localNodeID demo_a \<noteq> em_localNodeID (demo_mgr ''b'')" "py_localNodeID demo_sync = em_localNodeID demo_a"
    "em_localNodeID demo_a = ''a''" "mget (em_errors (demo_mgr ''b'')) \<lparr>ek_nodeID = ''a'', ek_id = ''e''\<rparr> = None" by code_simp+
  from push_replicates [OF demo_a_reachable demo_mgr_reachable i(1,2) h, THEN conjunct2, THEN conjunct1, rule_format, of "\<lparr>ek_nodeID = ''a'', ek_id = ''e''\<rparr>"]
  show ?thesis using i(3,4) by (simp add: h demo_a_errors newer_def)
qed

definition demo_push :: "string \<Rightarrow> http_request" where
  "demo_push v = \<lparr>hr_TLS = Some [demo_cert ''peer''], hr_Method = ''POST'',
     hr_Body = Some (marshalEnvelope \<lparr>sv_NodeID = v, sv_Errors = []\<rparr>)\<rparr>"



theorem every_change_is_published_witness:
  "EmitUpdate [demo_error ''a'' ''e'' 5] \<in> set (snd (handleMessage (demo_report (demo_error ''a'' ''e'' 5)) (demo_mgr ''a'')))"
proof -
  have "mget (em_errors demo_a) \<lparr>ek_nodeID = ''a'', ek_id = ''e''\<rparr> \<noteq> mget (em_errors (demo_mgr ''a'')) \<lparr>ek_nodeID = ''a'', ek_id = ''e''\<rparr>"
    by code_simp
  then have "mget (em_errors (fst (handleMessage (demo_report (demo_error ''a'' ''e'' 5)) (demo_mgr ''a'')))) \<noteq> mget (em_errors (demo_mgr ''a''))"
    unfolding demo_a_def by metis
  from every_change_is_published(1) [OF demo_mgr_reachable this]
  have "EmitUpdate (snapshot demo_a) \<in> set (snd (handleMessage (demo_report (demo_error ''a'' ''e'' 5)) (demo_mgr ''a'')))"
    by (simp only: demo_a_def)
  moreover have "snapshot demo_a = [demo_error ''a'' ''e'' 5]" by code_simp
  ultimately show ?thesis by simp
qed

definition demo_er :: DirectoryNode where
  "demo_er = DirectoryNode0\<lparr>d_HostUUID := ''p'', d_ClusterUUID := ''peer'', d_IP := ''10.0.0.2'',
     d_Services := Some [(''er'', \<lparr>ss_Port = 9, ss_Probe = []\<rparr>)]\<rparr>"

definition demo_params :: raw where
  "demo_params = Some (JObj [(''nodes'', JArr [JObj [(''hostUuid'', JStr ''p''), (''clusterUuid'', JStr ''peer''),
     (''ip'', JStr ''10.0.0.2''), (''services'', JObj [(''er'', JObj [(''port'', JInt 9)])])]])])"

definition demo_raw :: RawNode where
  "demo_raw = \<lparr>rn_ID = ''p'', rn_Host = [], rn_Port = 9, rn_Addresses = [''10.0.0.2''],
     rn_TXT = [''ip=10.0.0.2'', ''cluster-uuid=peer'']\<rparr>"

lemma demo_decode: "decode_nodes demo_params = Some [demo_er]"
  by code_simp

lemma demo_next: "next_peers [demo_er] = [(''p'', demo_raw)]"
  by code_simp

theorem peer_events_exact_witness:
  "peer_diff (em_relayPeers (demo_mgr ''a'')) (next_peers [demo_er]) = [Discovered demo_raw] \<and>
   mget (fold follow (peer_diff (em_relayPeers (demo_mgr ''a'')) (next_peers [demo_er])) (em_relayPeers (demo_mgr ''a''))) ''p'' =
     Some demo_raw"
proof -
  have "peer_diff (em_relayPeers (demo_mgr ''a'')) (next_peers [demo_er]) = [Discovered demo_raw]" by code_simp
  moreover have "mget (next_peers [demo_er]) ''p'' = Some demo_raw" by code_simp
  ultimately show ?thesis
    using fun_cong [OF peer_events_exact(1) [OF errors_reachable_inv [OF demo_mgr_reachable [of "''a''"]], of "[demo_er]"], of "''p''"]
    by simp
qed

definition demo_net :: net where
  "demo_net = \<lparr>nt_dial = (\<lambda>a t. True), nt_send = (\<lambda>c u b. Some 204), nt_now = 1\<rparr>"

definition demo_unpinned :: sync_node where
  "demo_unpinned = \<lparr>sn_mgr = (demo_mgr ''a'')\<lparr>em_relayPeers := [(''p'', demo_raw)]\<rparr>,
     sn_ps = fst (sync_peer demo_x (demo_cdir Missing) demo_net demo_raw
       ((demo_mgr ''a'')\<lparr>em_relayPeers := [(''p'', demo_raw)]\<rparr>) demo_sync)\<rparr>"


definition demo_b :: Manager where
  "demo_b = fst (handleIngest (Some (snapshotBody demo_a demo_sync)) (demo_mgr ''b''))"

theorem any_member_speaks_for_any_node_witness:
  "mget (em_errors demo_b) \<lparr>ek_nodeID = ''a'', ek_id = ''e''\<rparr> \<noteq> None \<and>
   mget (em_errors (fst (snd (errors_mux demo_x (demo_cdir (Entries [demo_pin ''peer''])) (demo_push ''a'') (Some demo_mesh) demo_b))))
     \<lparr>ek_nodeID = ''a'', ek_id = ''e''\<rparr> = None"
proof -
  let ?d = "demo_cdir (Entries [demo_pin ''peer''])"
  have r: "errors_reachable demo_b" unfolding demo_b_def by (rule errors_reachable.ingest [OF demo_mgr_reachable])
  have v: "VerifyClientPin (hr_TLS (demo_push ''a'')) (Refresh demo_x ?d (Some demo_mesh)) = Some ''peer''" by code_simp
  have h: "hr_Method (demo_push ''a'') = ''POST''" "hr_Body (demo_push ''a'') = Some (marshalEnvelope \<lparr>sv_NodeID = ''a'', sv_Errors = []\<rparr>)"
    by (simp_all add: demo_push_def)
  have l: "''a'' \<noteq> em_localNodeID demo_b" by code_simp
  have before: "mget (em_errors demo_b) \<lparr>ek_nodeID = ''a'', ek_id = ''e''\<rparr> \<noteq> None" by code_simp
  obtain mesh' m' reply outs where e: "errors_mux demo_x ?d (demo_push ''a'') (Some demo_mesh) demo_b = (mesh', m', reply, outs)"
    by (metis prod_cases4)
  from any_member_speaks_for_any_node [OF r v h _ l e, THEN conjunct2, rule_format, of "\<lparr>ek_nodeID = ''a'', ek_id = ''e''\<rparr>"] before
  show ?thesis by (simp add: e)
qed

end
