(* ===== verification/Deliveries.thy ===== *)
theory Deliveries
  imports Prelude
begin

section \<open>Serialised deliveries of a current value\<close>

text \<open>
  The broker keeps two kinds of receivers up to date from goroutines that run after the lock of the state
  is released: the subscribers of the node directory and the proxies' priorities. Both work alike: a change
  leaves a delivery owed to the receiver, a delivery takes the receiver's lock, captures what is current
  at that moment and hands it over. The locale states that discipline step by step and proves that a
  receiver to which nothing is owed or under way holds what is current.
\<close>

locale settling =
  fixes step :: "'s \<Rightarrow> 's \<Rightarrow> bool" and ok :: "'s \<Rightarrow> bool" and live :: "'s \<Rightarrow> 'k \<Rightarrow> bool"
    and current :: "'s \<Rightarrow> 'k \<Rightarrow> 'v option" and owed :: "'s \<Rightarrow> 'k \<Rightarrow> bool"
    and sending :: "'s \<Rightarrow> 'k \<Rightarrow> 'v option" and held :: "'s \<Rightarrow> 'k \<Rightarrow> 'v option"
  assumes ok_step: "step s s' \<Longrightarrow> ok s \<Longrightarrow> ok s'"
    and discipline: "step s s' \<Longrightarrow> ok s \<Longrightarrow> live s' k \<Longrightarrow> \<not> owed s' k \<Longrightarrow> current s' k = Some v \<Longrightarrow>
        sending s' k = Some v \<or>
        live s k \<and> \<not> owed s k \<and> current s k = Some v \<and>
          (sending s' k = sending s k \<and> held s' k = held s k \<or>
           sending s' k = None \<and> held s' k = sending s k \<and> sending s k \<noteq> None)"
begin

definition settled :: "'s \<Rightarrow> bool" where
  "settled s \<longleftrightarrow> (\<forall>k v. live s k \<and> \<not> owed s k \<and> current s k = Some v \<longrightarrow>
     sending s k = Some v \<or> sending s k = None \<and> held s k = Some v)"

lemma settled_step:
  assumes "step s s'" "ok s" "settled s"
  shows "settled s'"
  unfolding settled_def
proof (intro allI impI)
  fix k v assume k: "live s' k \<and> \<not> owed s' k \<and> current s' k = Some v"
  have "live s k \<and> \<not> owed s k \<and> current s k = Some v \<Longrightarrow>
      sending s k = Some v \<or> sending s k = None \<and> held s k = Some v"
    using assms(3) by (simp add: settled_def)
  with discipline [OF assms(1,2), of k v] k
  show "sending s' k = Some v \<or> sending s' k = None \<and> held s' k = Some v" by auto
qed

lemma settled_run:
  assumes "step\<^sup>*\<^sup>* s s'" "ok s" "settled s"
  shows "ok s' \<and> settled s'"
  using assms
  by (induction rule: rtranclp_induct) (blast intro: ok_step settled_step)+

lemma quiet_holds_current:
  assumes "step\<^sup>*\<^sup>* s s'" "ok s" "settled s"
    and "live s' k" "\<not> owed s' k" "sending s' k = None" "current s' k = Some v"
  shows "held s' k = Some v"
proof -
  have "sending s' k = Some v \<or> sending s' k = None \<and> held s' k = Some v"
    using settled_run [OF assms(1-3)] assms(4,5,7) unfolding settled_def by blast
  then show ?thesis using assms(6) by simp
qed

end

end
