(* ===== verification/Float64.thy ===== *)
theory Float64
  imports
    Prelude
    Complex_Main
begin

section \<open>Non-negative float64 arithmetic\<close>

text \<open>
  The part of IEEE binary64 the services compute with: non-negative numbers as a mantissa and a
  binary exponent, multiplication and addition rounded to 53 bits, ties to even, with the
  subnormal range. Overflow to infinity is not modelled; the values here stay below 200. Go
  permits a compiler to fuse a product and a sum into one operation with a single rounding and
  does so on some architectures, so the fusion is an argument.
\<close>

datatype float64 = F (mant: nat) (expo: int)

text \<open>The number a representation stands for.\<close>

definition fval :: "float64 \<Rightarrow> rat" where
  "fval x = of_nat (mant x) * 2 powi expo x"

text \<open>\<open>m / d\<close> rounded to the nearest integer, ties to even.\<close>

definition rne :: "nat \<Rightarrow> nat \<Rightarrow> nat" where
  "rne m d =
     (let q = m div d; r = m mod d in
      if d < 2 * r \<or> (2 * r = d \<and> odd q) then q + 1 else q)"

fun nbits :: "nat \<Rightarrow> nat" where
  "nbits m = (if m = 0 then 0 else Suc (nbits (m div 2)))"

declare nbits.simps [simp del]

text \<open>The exponent of the last place of the rounded number.\<close>

definition ulp_expo :: "float64 \<Rightarrow> int" where
  "ulp_expo x = max (expo x + int (nbits (mant x)) - 53) (- 1074)"

definition fround :: "float64 \<Rightarrow> float64" where
  "fround x =
     (let u = ulp_expo x in
      if u \<le> expo x then x else F (rne (mant x) (2 ^ nat (u - expo x))) u)"

text \<open>Exact products, sums and comparisons.\<close>

definition fmul :: "float64 \<Rightarrow> float64 \<Rightarrow> float64" where
  "fmul x y = F (mant x * mant y) (expo x + expo y)"

definition at_expo :: "int \<Rightarrow> float64 \<Rightarrow> nat" where
  "at_expo e x = mant x * 2 ^ nat (expo x - e)"

definition fadd :: "float64 \<Rightarrow> float64 \<Rightarrow> float64" where
  "fadd x y = (let e = min (expo x) (expo y) in F (at_expo e x + at_expo e y) e)"

definition fless :: "float64 \<Rightarrow> float64 \<Rightarrow> bool" where
  "fless x y = (let e = min (expo x) (expo y) in at_expo e x < at_expo e y)"

definition of_uint :: "nat \<Rightarrow> float64" where
  "of_uint n = F n 0"

text \<open>\<open>a*x + b*y\<close> as compiled without fusing, or with either product fused into the sum.\<close>

datatype fusing = NoFusing | FuseLeft | FuseRight

definition muladd :: "fusing \<Rightarrow> float64 \<Rightarrow> float64 \<Rightarrow> float64 \<Rightarrow> float64 \<Rightarrow> float64" where
  "muladd f a x b y =
     (case f of
        NoFusing \<Rightarrow> fround (fadd (fround (fmul a x)) (fround (fmul b y)))
      | FuseLeft \<Rightarrow> fround (fadd (fmul a x) (fround (fmul b y)))
      | FuseRight \<Rightarrow> fround (fadd (fround (fmul a x)) (fmul b y)))"

subsection \<open>The values\<close>

lemma fval_F: "fval (F m e) = of_nat m * 2 powi e"
  by (simp add: fval_def)

lemma fval_nonneg [simp]: "0 \<le> fval x"
  by (simp add: fval_def)

lemma two_powi_pos [simp]: "0 < (2::rat) powi e"
  by (simp add: zero_less_power_int)

lemma at_expo_val: "e \<le> expo x \<Longrightarrow> of_nat (at_expo e x) * 2 powi e = fval x"
proof -
  assume "e \<le> expo x"
  then have "(2::rat) powi expo x = 2 ^ nat (expo x - e) * 2 powi e"
    by (metis power_int_add power_int_def diff_add_cancel diff_ge_0_iff_ge zero_neq_numeral)
  then show ?thesis by (simp add: at_expo_def fval_def mult.assoc)
qed

lemma fval_fmul [simp]: "fval (fmul x y) = fval x * fval y"
  by (simp add: fval_def fmul_def power_int_add)

lemma fval_fadd [simp]: "fval (fadd x y) = fval x + fval y"
proof -
  let ?e = "min (expo x) (expo y)"
  have "fval (fadd x y) = of_nat (at_expo ?e x) * 2 powi ?e + of_nat (at_expo ?e y) * 2 powi ?e"
    by (simp add: fadd_def Let_def fval_F distrib_right)
  then show ?thesis by (simp add: at_expo_val)
qed

lemma fless_iff: "fless x y \<longleftrightarrow> fval x < fval y"
proof -
  let ?e = "min (expo x) (expo y)"
  have "fval x < fval y \<longleftrightarrow> of_nat (at_expo ?e x) * (2::rat) powi ?e < of_nat (at_expo ?e y) * 2 powi ?e"
    by (simp add: at_expo_val)
  then show ?thesis by (simp add: fless_def Let_def mult_less_cancel_right_pos)
qed

lemma fval_of_uint [simp]: "fval (of_uint n) = of_nat n"
  by (simp add: of_uint_def fval_F)

subsection \<open>Rounding is monotonic\<close>

lemma nbits_bounds:
  "0 < m \<Longrightarrow> 2 ^ (nbits m - 1) \<le> m \<and> m < 2 ^ nbits m"
proof (induction m rule: nbits.induct)
  case (1 m)
  have rec: "nbits m = Suc (nbits (m div 2))" using 1(2) by (subst nbits.simps) simp
  show ?case
  proof (cases "m div 2 = 0")
    case True
    then have "m = 1" using 1(2) by (simp add: div_eq_0_iff)
    then show ?thesis by (simp add: nbits.simps)
  next
    case False
    then have "2 ^ (nbits (m div 2) - 1) \<le> m div 2" "m div 2 < 2 ^ nbits (m div 2)"
      and "0 < nbits (m div 2)"
      using 1 by (auto simp: nbits.simps [of "m div 2"])
    then show ?thesis unfolding rec
      by (cases "nbits (m div 2)") auto
  qed
qed

text \<open>Rounding at a fixed exponent, over the rationals.\<close>

definition rnd :: "rat \<Rightarrow> int" where
  "rnd q = (if q - of_int \<lfloor>q\<rfloor> > 1 / 2 \<or> (q - of_int \<lfloor>q\<rfloor> = 1 / 2 \<and> odd \<lfloor>q\<rfloor>) then \<lfloor>q\<rfloor> + 1 else \<lfloor>q\<rfloor>)"

lemma rnd_of_int [simp]: "rnd (of_int k) = k"
  by (simp add: rnd_def)

lemma rnd_mono: "p \<le> q \<Longrightarrow> rnd p \<le> rnd q"
proof -
  assume le: "p \<le> q"
  then have "\<lfloor>p\<rfloor> \<le> \<lfloor>q\<rfloor>" by (rule floor_mono)
  then consider "\<lfloor>p\<rfloor> = \<lfloor>q\<rfloor>" | "\<lfloor>p\<rfloor> + 1 \<le> \<lfloor>q\<rfloor>" by linarith
  then show ?thesis
  proof cases
    case 1
    then show ?thesis using le by (auto simp: rnd_def)
  next
    case 2
    then show ?thesis by (simp add: rnd_def)
  qed
qed

lemma rne_rnd:
  assumes "0 < d"
  shows "int (rne m d) = rnd (of_nat m / of_nat d)"
proof -
  have fl: "\<lfloor>(of_nat m :: rat) / of_nat d\<rfloor> = int (m div d)"
    by (simp add: floor_divide_of_nat_eq)
  have "of_nat m = (of_nat d * of_nat (m div d) + of_nat (m mod d) :: rat)"
    by (metis mult_div_mod_eq of_nat_add of_nat_mult)
  then have "(of_nat m :: rat) / of_nat d = of_nat (m div d) + of_nat (m mod d) / of_nat d"
    using assms by (simp add: field_simps)
  then have fr: "of_nat m / of_nat d - of_int (int (m div d)) = (of_nat (m mod d) / of_nat d :: rat)"
    by simp
  have d: "0 < (of_nat d :: rat)" using assms by simp
  have dr: "(2::rat) * of_nat (m mod d) = of_nat (2 * (m mod d))" by simp
  have gt: "1 / 2 < (of_nat (m mod d) / of_nat d :: rat) \<longleftrightarrow> d < 2 * (m mod d)"
  proof -
    have "1 / 2 < (of_nat (m mod d) / of_nat d :: rat) \<longleftrightarrow> (of_nat d :: rat) < 2 * of_nat (m mod d)"
      using pos_less_divide_eq [OF d, of "1 / 2" "of_nat (m mod d)"] by linarith
    then show ?thesis unfolding dr of_nat_less_iff .
  qed
  have eq: "(of_nat (m mod d) / of_nat d :: rat) = 1 / 2 \<longleftrightarrow> 2 * (m mod d) = d"
  proof -
    have "(of_nat (m mod d) / of_nat d :: rat) = 1 / 2 \<longleftrightarrow> 2 * of_nat (m mod d) = (of_nat d :: rat)"
      using d by (auto simp: divide_eq_eq)
    then show ?thesis unfolding dr of_nat_eq_iff .
  qed
  show ?thesis unfolding rnd_def fl fr gt eq by (simp add: rne_def Let_def)
qed

lemma fround_val: "fval (fround x) = of_int (rnd (fval x / 2 powi ulp_expo x)) * 2 powi ulp_expo x"
proof (cases "ulp_expo x \<le> expo x")
  case True
  then have "fval x / 2 powi ulp_expo x = of_int (int (at_expo (ulp_expo x) x))"
    using at_expo_val [of "ulp_expo x" x] by (simp add: field_simps)
  then have "of_int (rnd (fval x / 2 powi ulp_expo x)) = (of_int (int (at_expo (ulp_expo x) x)) :: rat)"
    by (metis rnd_of_int)
  then show ?thesis using at_expo_val [OF True] True by (simp add: fround_def Let_def)
next
  case False
  let ?u = "ulp_expo x" and ?d = "2 ^ nat (ulp_expo x - expo x) :: nat"
  have "(2::rat) powi ?u = 2 powi (?u - expo x) * 2 powi expo x"
    by (simp flip: power_int_add)
  then have "(2::rat) powi ?u = of_nat ?d * 2 powi expo x"
    using False by (simp add: power_int_def)
  then have "fval x / 2 powi ?u = of_nat (mant x) / of_nat ?d"
    by (simp add: fval_def)
  then have "rnd (fval x / 2 powi ?u) = int (rne (mant x) ?d)"
    using rne_rnd [of ?d "mant x"] by simp
  then show ?thesis using False by (simp add: fround_def Let_def fval_F)
qed

lemma fval_bounds:
  assumes "0 < mant x"
  shows "2 powi (expo x + int (nbits (mant x)) - 1) \<le> fval x" and "fval x < 2 powi (expo x + int (nbits (mant x)))"
proof -
  let ?n = "nbits (mant x)"
  have n: "0 < ?n" using assms by (simp add: nbits.simps)
  have "of_nat (2 ^ (?n - 1)) \<le> (of_nat (mant x) :: rat)" "(of_nat (mant x) :: rat) < of_nat (2 ^ ?n)"
    using nbits_bounds [OF assms] unfolding of_nat_le_iff of_nat_less_iff by simp_all
  then have "(2::rat) ^ (?n - 1) \<le> of_nat (mant x)" "of_nat (mant x) < (2::rat) ^ ?n" by simp_all
  then have "2 ^ (?n - 1) * 2 powi expo x \<le> fval x" "fval x < 2 ^ ?n * 2 powi expo x"
    by (simp_all add: fval_def)
  moreover have "(2::rat) ^ (?n - 1) * 2 powi expo x = 2 powi (expo x + int ?n - 1)"
    using n by (cases ?n) (simp_all add: power_int_add algebra_simps)
  moreover have "(2::rat) ^ ?n * 2 powi expo x = 2 powi (expo x + int ?n)"
    by (simp add: power_int_add)
  ultimately show "2 powi (expo x + int ?n - 1) \<le> fval x" "fval x < 2 powi (expo x + int ?n)"
    by simp_all
qed

lemma two_powi_split: "u \<le> k \<Longrightarrow> (2::rat) powi k / 2 powi u = of_int (2 ^ nat (k - u))"
proof -
  assume "u \<le> k"
  have "(2::rat) powi k / 2 powi u = 2 powi (k - u)" by (simp add: power_int_diff)
  then show ?thesis using \<open>u \<le> k\<close> by (simp add: power_int_def)
qed

lemma fround_le_power: "fval x \<le> 2 powi k \<Longrightarrow> ulp_expo x \<le> k \<Longrightarrow> fval (fround x) \<le> 2 powi k"
proof -
  assume le: "fval x \<le> 2 powi k" and u: "ulp_expo x \<le> k"
  let ?u = "ulp_expo x"
  have "fval x / 2 powi ?u \<le> of_int (2 ^ nat (k - ?u))"
    using le divide_right_mono [OF le, of "2 powi ?u"] by (simp add: two_powi_split [OF u])
  then have "rnd (fval x / 2 powi ?u) \<le> 2 ^ nat (k - ?u)" by (metis rnd_mono rnd_of_int)
  then have "of_int (rnd (fval x / 2 powi ?u)) \<le> (2::rat) powi k / 2 powi ?u"
    unfolding two_powi_split [OF u] of_int_le_iff .
  then show ?thesis unfolding fround_val using pos_le_divide_eq [OF two_powi_pos] by blast
qed

lemma fround_ge_power: "2 powi k \<le> fval x \<Longrightarrow> ulp_expo x \<le> k \<Longrightarrow> 2 powi k \<le> fval (fround x)"
proof -
  assume le: "2 powi k \<le> fval x" and u: "ulp_expo x \<le> k"
  let ?u = "ulp_expo x"
  have "of_int (2 ^ nat (k - ?u)) \<le> fval x / 2 powi ?u"
    using divide_right_mono [OF le, of "2 powi ?u"] by (simp add: two_powi_split [OF u])
  then have "2 ^ nat (k - ?u) \<le> rnd (fval x / 2 powi ?u)" by (metis rnd_mono rnd_of_int)
  then have "(2::rat) powi k / 2 powi ?u \<le> of_int (rnd (fval x / 2 powi ?u))"
    unfolding two_powi_split [OF u] of_int_le_iff .
  then show ?thesis unfolding fround_val using pos_divide_le_eq [OF two_powi_pos] by blast
qed

theorem fround_mono:
  assumes "fval x \<le> fval y"
  shows "fval (fround x) \<le> fval (fround y)"
proof (cases "mant x = 0")
  case True
  then have "fval (fround x) = 0" using rnd_of_int [of 0] unfolding fround_val by (simp add: fval_def)
  then show ?thesis by simp
next
  case False
  have x: "0 < mant x" using False by simp
  then have "0 < fval x" by (simp add: fval_def)
  then have "fval y \<noteq> 0" using assms by linarith
  then have y: "0 < mant y" by (auto simp: fval_def)
  let ?bx = "expo x + int (nbits (mant x))" and ?by = "expo y + int (nbits (mant y))"
  have "(2::rat) powi (?bx - 1) < 2 powi ?by"
    using fval_bounds(1) [OF x] assms fval_bounds(2) [OF y] by linarith
  then have bxy: "?bx \<le> ?by"
    using power_int_increasing [of ?by "?bx - 1" "2::rat"] by linarith
  show ?thesis
  proof (cases "ulp_expo x = ulp_expo y")
    case True
    have "rnd (fval x / 2 powi ulp_expo y) \<le> rnd (fval y / 2 powi ulp_expo y)"
      by (intro rnd_mono divide_right_mono assms) simp
    then show ?thesis by (simp add: fround_val True)
  next
    case False
    then have "ulp_expo x < ulp_expo y" "ulp_expo y = ?by - 53" "?bx \<le> ?by - 1"
      using bxy by (auto simp: ulp_expo_def)
    moreover have "fval x \<le> 2 powi (?by - 1)"
      using fval_bounds(2) [OF x] power_int_increasing [of ?bx "?by - 1" "2::rat"] \<open>?bx \<le> ?by - 1\<close> by linarith
    ultimately have "fval (fround x) \<le> 2 powi (?by - 1)" "2 powi (?by - 1) \<le> fval (fround y)"
      by (intro fround_le_power fround_ge_power fval_bounds(1) [OF y]; simp)+
    then show ?thesis by (rule order_trans)
  qed
qed

lemma muladd_mono:
  assumes "fval x \<le> fval x'" and "fval y \<le> fval y'"
  shows "fval (muladd f a x b y) \<le> fval (muladd f a x' b y')"
proof -
  have ax: "fval (fmul a x) \<le> fval (fmul a x')" and cy: "fval (fmul b y) \<le> fval (fmul b y')"
    using assms by (simp_all add: mult_left_mono)
  note rs = ax cy fround_mono [OF ax] fround_mono [OF cy]
  show ?thesis
    by (cases f) (simp only: muladd_def fusing.case fval_fadd; intro fround_mono; simp only: fval_fadd; intro add_mono rs)+
qed

end
