(* ===== verification/Scheduler.thy ===== *)
theory Scheduler
  imports Float64 JsonRpc
begin

section \<open>The job scheduler\<close>

text \<open>
  \<open>nvpair-job-scheduler\<close>: \<open>state.go\<close> (node universe and workload catalog), \<open>telemetry.go\<close> (GPU
  pressure), \<open>schedule.go\<close> (ranking and emission) and \<open>manager.go\<close> (the message handler), with
  the wire types of \<open>shared/schedulerwire\<close>. Every method holds the manager's mutex while it
  touches the state and recomputations are serialised, so a handler and the recomputation it
  triggers are one step; one clock reading stands for the readings within a step. The timer and
  the forced tick are steps of their own.
\<close>

subsection \<open>Wire types\<close>

record NodeRank =
  nr_ID :: string
  nr_Pending :: int
  nr_GPUPressure :: int
  nr_Rank :: int

record EnginePriority =
  ep_Engine :: string
  ep_Nodes :: "string list"
  ep_Ranks :: "NodeRank list"

record Priority =
  p_Nodes :: "string list"
  p_Ranks :: "NodeRank list"

definition MethodTelemetry :: string where "MethodTelemetry = ''scheduler:telemetry''"

definition PrioritySnapshot :: "EnginePriority \<Rightarrow> Priority" where
  "PrioritySnapshot p = \<lparr>p_Nodes = ep_Nodes p, p_Ranks = ep_Ranks p\<rparr>"

definition marshalNodeRank :: "NodeRank \<Rightarrow> json" where
  "marshalNodeRank r =
     JObj [(''id'', JStr (nr_ID r)), (''pending'', JInt (nr_Pending r)),
           (''gpuPressure'', JInt (nr_GPUPressure r)), (''rank'', JInt (nr_Rank r))]"

definition marshalEnginePriority :: "EnginePriority \<Rightarrow> json" where
  "marshalEnginePriority p =
     JObj ([(''engine'', JStr (ep_Engine p)), (''nodes'', JArr (map JStr (ep_Nodes p)))] @
           (if ep_Ranks p = [] then [] else [(''ranks'', JArr (map marshalNodeRank (ep_Ranks p)))]))"

definition NodeRank0 :: NodeRank where
  "NodeRank0 = \<lparr>nr_ID = [], nr_Pending = 0, nr_GPUPressure = 0, nr_Rank = 0\<rparr>"

definition rank_fields :: "NodeRank field list" where
  "rank_fields =
     [fld ''id'' dec_string nr_ID (\<lambda>v r. r\<lparr>nr_ID := v\<rparr>),
      fld ''pending'' dec_int64 nr_Pending (\<lambda>v r. r\<lparr>nr_Pending := v\<rparr>),
      fld ''gpuPressure'' dec_int64 nr_GPUPressure (\<lambda>v r. r\<lparr>nr_GPUPressure := v\<rparr>),
      fld ''rank'' dec_int64 nr_Rank (\<lambda>v r. r\<lparr>nr_Rank := v\<rparr>)]"

definition engine_priority_fields :: "EnginePriority field list" where
  "engine_priority_fields =
     [fld ''engine'' dec_string ep_Engine (\<lambda>v r. r\<lparr>ep_Engine := v\<rparr>),
      fld ''nodes'' (dec_slice dec_string []) ep_Nodes (\<lambda>v r. r\<lparr>ep_Nodes := v\<rparr>),
      fld ''ranks'' (dec_slice (dec_struct rank_fields) NodeRank0) ep_Ranks (\<lambda>v r. r\<lparr>ep_Ranks := v\<rparr>)]"

definition EnginePriority0 :: EnginePriority where
  "EnginePriority0 = \<lparr>ep_Engine = [], ep_Nodes = [], ep_Ranks = []\<rparr>"

subsection \<open>Workloads and nodes\<close>

record workload =
  sw_ID :: string
  sw_Engine :: string
  sw_RunID :: string
  sw_State :: string
  sw_OriginatedFrom :: string
  sw_ScheduledOn :: string

definition workload0 :: workload where
  "workload0 = \<lparr>sw_ID = [], sw_Engine = [], sw_RunID = [], sw_State = [], sw_OriginatedFrom = [], sw_ScheduledOn = []\<rparr>"

definition sched_workload_fields :: "workload field list" where
  "sched_workload_fields =
     [fld ''id'' dec_string sw_ID (\<lambda>v r. r\<lparr>sw_ID := v\<rparr>),
      fld ''engine'' dec_string sw_Engine (\<lambda>v r. r\<lparr>sw_Engine := v\<rparr>),
      fld ''runId'' dec_string sw_RunID (\<lambda>v r. r\<lparr>sw_RunID := v\<rparr>),
      fld ''state'' dec_string sw_State (\<lambda>v r. r\<lparr>sw_State := v\<rparr>),
      fld ''originatedFrom'' dec_string sw_OriginatedFrom (\<lambda>v r. r\<lparr>sw_OriginatedFrom := v\<rparr>),
      fld ''scheduledOn'' dec_string sw_ScheduledOn (\<lambda>v r. r\<lparr>sw_ScheduledOn := v\<rparr>)]"

definition workload_params_fields :: "workload field list" where
  "workload_params_fields = [fld ''workloadInfo'' (dec_struct sched_workload_fields) id (\<lambda>v r. v)]"

record removeParams =
  rp_WorkloadID :: string
  rp_OriginatedFrom :: string

definition sched_remove_fields :: "removeParams field list" where
  "sched_remove_fields =
     [fld ''workloadId'' dec_string rp_WorkloadID (\<lambda>v r. r\<lparr>rp_WorkloadID := v\<rparr>),
      fld ''originatedFrom'' dec_string rp_OriginatedFrom (\<lambda>v r. r\<lparr>rp_OriginatedFrom := v\<rparr>)]"

record availableNode =
  an_ID :: string
  an_HostUUID :: string

definition available_node_fields :: "availableNode field list" where
  "available_node_fields =
     [fld ''id'' dec_string an_ID (\<lambda>v r. r\<lparr>an_ID := v\<rparr>),
      fld ''hostUuid'' dec_string an_HostUUID (\<lambda>v r. r\<lparr>an_HostUUID := v\<rparr>)]"

definition node_key :: "availableNode \<Rightarrow> string" where
  "node_key n = an_HostUUID n"

record wlKey =
  k_origin :: string
  k_engine :: string
  k_runID :: string
  k_id :: string

definition isPending :: "workload \<Rightarrow> bool" where
  "isPending w \<longleftrightarrow> sw_State w = ''queued'' \<or> sw_State w = ''running''"

definition pendingNode :: "workload \<Rightarrow> string" where
  "pendingNode w = (if \<not> isPending w then [] else sw_ScheduledOn w)"

definition sameNodeSet :: "(string, bool) gomap \<Rightarrow> (string, bool) gomap \<Rightarrow> bool" where
  "sameNodeSet a b \<longleftrightarrow> length a = length b \<and> list_all (\<lambda>id. mget b id = Some True) (mkeys a)"

subsection \<open>GPU pressure\<close>

definition gpuTelemetryFreshness :: duration where "gpuTelemetryFreshness = 10 * Second"

text \<open>The constants 0.35 and \<open>1 - 0.35\<close>, exact until they are rounded to \<open>float64\<close>.\<close>

definition gpuEWMAAlpha :: float64 where "gpuEWMAAlpha = F (rne (35 * 2 ^ 54) 100) (- 54)"
definition oneMinusAlpha :: float64 where "oneMinusAlpha = F (rne (65 * 2 ^ 53) 100) (- 53)"
definition unknownGPUPressure :: int where "unknownGPUPressure = 1"

record NodeTelemetry =
  nt_HostUUID :: string
  nt_GPUUtilizationPct :: int
  nt_TelemetryValid :: bool
  nt_MSSince :: int

definition telemetry_fields :: "NodeTelemetry field list" where
  "telemetry_fields =
     [fld ''hostUuid'' dec_string nt_HostUUID (\<lambda>v r. r\<lparr>nt_HostUUID := v\<rparr>),
      fld ''gpuUtilizationPercent'' dec_uint32 nt_GPUUtilizationPct (\<lambda>v r. r\<lparr>nt_GPUUtilizationPct := v\<rparr>),
      fld ''telemetryValid'' dec_bool nt_TelemetryValid (\<lambda>v r. r\<lparr>nt_TelemetryValid := v\<rparr>),
      fld ''msSince'' dec_int64 nt_MSSince (\<lambda>v r. r\<lparr>nt_MSSince := v\<rparr>)]"

record gpuTelemetryState =
  ts_ewma :: float64
  ts_pressure :: int
  ts_hasEWMA :: bool
  ts_valid :: bool
  ts_ageAtReceipt :: duration
  ts_receivedAt :: time

definition gpuTelemetryState0 :: gpuTelemetryState where
  "gpuTelemetryState0 = \<lparr>ts_ewma = F 0 0, ts_pressure = 0, ts_hasEWMA = False, ts_valid = False,
     ts_ageAtReceipt = 0, ts_receivedAt = zero_time\<rparr>"

text \<open>\<open>Time.Sub\<close> saturates.\<close>

definition time_Sub :: "time \<Rightarrow> time \<Rightarrow> duration" where
  "time_Sub a b = max (- (2 ^ 63)) (min (2 ^ 63 - 1) (a - b))"

definition telemetryFreshAt :: "gpuTelemetryState \<Rightarrow> time \<Rightarrow> bool" where
  "telemetryFreshAt st now \<longleftrightarrow> ts_valid st \<and>
     (let elapsed = time_Sub now (ts_receivedAt st); elapsed = (if elapsed < 0 then 0 else elapsed) in
      wrap64 (ts_ageAtReceipt st + elapsed) \<le> gpuTelemetryFreshness)"

definition effectiveGPUPressure :: "gpuTelemetryState option \<Rightarrow> time \<Rightarrow> int" where
  "effectiveGPUPressure st now =
     (case st of
        None \<Rightarrow> unknownGPUPressure
      | Some st \<Rightarrow> if \<not> telemetryFreshAt st now then unknownGPUPressure else ts_pressure st)"

definition normalizedTelemetryAge :: "int \<Rightarrow> duration" where
  "normalizedTelemetryAge ms =
     (if ms \<le> 0 then 0
      else if ms > gpuTelemetryFreshness div Millisecond then gpuTelemetryFreshness + Millisecond
      else wrap64 (ms * Millisecond))"

definition pressureBand :: "float64 \<Rightarrow> int" where
  "pressureBand utilization =
     (if fless utilization (of_uint 40) then 0
      else if fless utilization (of_uint 70) then 1
      else if fless utilization (of_uint 85) then 2
      else 3)"

definition up_at :: "nat list" where "up_at = [40, 70, 85]"
definition down_at :: "nat list" where "down_at = [0, 35, 65, 80]"

function climb :: "float64 \<Rightarrow> int \<Rightarrow> int" where
  "climb u pressure =
     (if pressure < 3 \<and> \<not> fless u (of_uint (up_at ! nat pressure)) then climb u (pressure + 1) else pressure)"
  by pat_completeness auto
termination by (relation "measure (\<lambda>(u, p). nat (3 - p))") auto

function descend :: "float64 \<Rightarrow> int \<Rightarrow> int" where
  "descend u pressure =
     (if pressure > 0 \<and> fless u (of_uint (down_at ! nat pressure)) then descend u (pressure - 1) else pressure)"
  by pat_completeness auto
termination by (relation "measure (\<lambda>(u, p). nat p)") auto

declare climb.simps [simp del] descend.simps [simp del]

definition pressureWithHysteresis :: "float64 \<Rightarrow> int \<Rightarrow> int" where
  "pressureWithHysteresis utilization previous =
     (if previous < 0 \<or> previous > 3 then pressureBand utilization
      else descend utilization (climb utilization previous))"

subsection \<open>The manager's state\<close>

record engineState =
  es_ranks :: "NodeRank list"
  es_lastEmittedAt :: int

definition engineState0 :: engineState where
  "engineState0 = \<lparr>es_ranks = [], es_lastEmittedAt = 0\<rparr>"

text \<open>
  \<open>m_tick\<close> is the one-place buffer of the tick channel and \<open>m_cancelled\<close> the state of the
  context; the log level is process-wide.
\<close>

record Manager =
  m_interval :: duration
  m_nodes :: "(string, bool) gomap"
  m_catalog :: "(wlKey, workload) gomap"
  m_telemetry :: "(string, gpuTelemetryState) gomap"
  m_emitted :: "(string, engineState) gomap"
  m_tick :: bool
  m_cancelled :: bool
  m_level :: level

definition intervalFloor :: duration where "intervalFloor = 200 * Millisecond"

definition NewManager :: "duration \<Rightarrow> Manager" where
  "NewManager interval =
     \<lparr>m_interval = (if interval < intervalFloor then intervalFloor else interval),
      m_nodes = [], m_catalog = [], m_telemetry = [], m_emitted = [], m_tick = False,
      m_cancelled = False, m_level = LevelInfo\<rparr>"

subsection \<open>Applying notifications\<close>

definition applyNodesChanged :: "raw \<Rightarrow> Manager \<Rightarrow> Manager \<times> bool" where
  "applyNodesChanged params m =
     (case Unmarshal (dec_slice (dec_struct available_node_fields) \<lparr>an_ID = [], an_HostUUID = []\<rparr>) [] params of
        None \<Rightarrow> (m, False)
      | Some nodes \<Rightarrow>
          let set = foldl (\<lambda>s n. if node_key n \<noteq> [] then mput (node_key n) True s else s) [] nodes;
              changed = (\<not> sameNodeSet (m_nodes m) set)
          in (m\<lparr>m_nodes := set, m_telemetry := mkeep (\<lambda>h _. mget set h = Some True) (m_telemetry m)\<rparr>, changed))"

definition wl_key :: "workload \<Rightarrow> wlKey" where
  "wl_key w = \<lparr>k_origin = sw_OriginatedFrom w, k_engine = sw_Engine w, k_runID = sw_RunID w, k_id = sw_ID w\<rparr>"

definition applyUpsert :: "raw \<Rightarrow> Manager \<Rightarrow> Manager \<times> bool" where
  "applyUpsert params m =
     (case Unmarshal (dec_struct workload_params_fields) workload0 params of
        None \<Rightarrow> (m, False)
      | Some w \<Rightarrow>
          if sw_ID w = [] then (m, False)
          else
            let key = wl_key w;
                previous = mget (m_catalog m) key;
                previousNode = pendingNode (case previous of None \<Rightarrow> workload0 | Some p \<Rightarrow> p)
            in if \<not> isPending w
               then (m\<lparr>m_catalog := mdel key (m_catalog m)\<rparr>, previous \<noteq> None \<and> previousNode \<noteq> [])
               else (m\<lparr>m_catalog := mput key w (m_catalog m)\<rparr>, previousNode \<noteq> sw_ScheduledOn w))"

definition removes :: "removeParams \<Rightarrow> wlKey \<Rightarrow> bool" where
  "removes p k \<longleftrightarrow> k_origin k = rp_OriginatedFrom p \<and> k_id k = rp_WorkloadID p"

definition applyRemove :: "raw \<Rightarrow> Manager \<Rightarrow> Manager \<times> bool" where
  "applyRemove params m =
     (case Unmarshal (dec_struct sched_remove_fields) \<lparr>rp_WorkloadID = [], rp_OriginatedFrom = []\<rparr> params of
        None \<Rightarrow> (m, False)
      | Some p \<Rightarrow>
          (m\<lparr>m_catalog := mkeep (\<lambda>k _. \<not> removes p k) (m_catalog m)\<rparr>,
           list_ex (\<lambda>(k, w). removes p k \<and> pendingNode w \<noteq> []) (m_catalog m)))"

definition next_telemetry ::
    "fusing \<Rightarrow> NodeTelemetry \<Rightarrow> gpuTelemetryState option \<Rightarrow> time \<Rightarrow> gpuTelemetryState" where
  "next_telemetry f value prev receivedAt =
     (let ageAtReceipt = normalizedTelemetryAge (nt_MSSince value);
          incomingFresh = (nt_TelemetryValid value \<and> ageAtReceipt \<le> gpuTelemetryFreshness);
          utilization = (if nt_GPUUtilizationPct value > 100 then 100 else nt_GPUUtilizationPct value);
          previous = (case prev of None \<Rightarrow> gpuTelemetryState0 | Some st \<Rightarrow> st);
          next = previous\<lparr>ts_valid := incomingFresh, ts_ageAtReceipt := ageAtReceipt, ts_receivedAt := receivedAt\<rparr>
      in if incomingFresh then
           (let previousFresh = (prev \<noteq> None \<and> telemetryFreshAt previous receivedAt) in
            if \<not> previousFresh \<or> \<not> ts_hasEWMA previous
            then (let e = of_uint (nat utilization) in
                  next\<lparr>ts_ewma := e, ts_pressure := pressureBand e, ts_hasEWMA := True\<rparr>)
            else (let e = muladd f gpuEWMAAlpha (of_uint (nat utilization)) oneMinusAlpha (ts_ewma previous) in
                  next\<lparr>ts_ewma := e, ts_pressure := pressureWithHysteresis e (ts_pressure previous), ts_hasEWMA := True\<rparr>))
         else next)"

definition applyTelemetryAt :: "fusing \<Rightarrow> NodeTelemetry \<Rightarrow> time \<Rightarrow> Manager \<Rightarrow> Manager \<times> bool" where
  "applyTelemetryAt f value receivedAt m =
     (if nt_HostUUID value = [] then (m, False)
      else
        let previous = mget (m_telemetry m) (nt_HostUUID value);
            previousPressure = effectiveGPUPressure previous receivedAt;
            next = next_telemetry f value previous receivedAt
        in (m\<lparr>m_telemetry := mput (nt_HostUUID value) next (m_telemetry m)\<rparr>,
            previousPressure \<noteq> effectiveGPUPressure (Some next) receivedAt))"

definition applyTelemetry :: "fusing \<Rightarrow> raw \<Rightarrow> time \<Rightarrow> Manager \<Rightarrow> Manager \<times> bool" where
  "applyTelemetry f params now m =
     (case Unmarshal (dec_struct telemetry_fields)
             \<lparr>nt_HostUUID = [], nt_GPUUtilizationPct = 0, nt_TelemetryValid = False, nt_MSSince = 0\<rparr> params of
        None \<Rightarrow> (m, False)
      | Some value \<Rightarrow> applyTelemetryAt f value now m)"

definition gpuPressureAt :: "Manager \<Rightarrow> string \<Rightarrow> time \<Rightarrow> int" where
  "gpuPressureAt m hostUUID now = effectiveGPUPressure (mget (m_telemetry m) hostUUID) now"

subsection \<open>Ranking and emission\<close>

definition schedulerEngines :: "string list" where "schedulerEngines = [''ollama'', ''lmstudio'']"

definition count_pending :: "(string, bool) gomap \<Rightarrow> (wlKey, workload) gomap \<Rightarrow> (string, int) gomap" where
  "count_pending nodes catalog =
     foldl (\<lambda>p w.
        if \<not> isPending w then p
        else if sw_ScheduledOn w = [] then p
        else if mhas nodes (sw_ScheduledOn w)
             then mput (sw_ScheduledOn w) ((case mget p (sw_ScheduledOn w) of None \<Rightarrow> 0 | Some n \<Rightarrow> n) + 1) p
        else p)
       (foldl (\<lambda>p id. mput id 0 p) [] (mkeys nodes)) (mvals catalog)"

definition rank_less :: "NodeRank \<Rightarrow> NodeRank \<Rightarrow> bool" where
  "rank_less a b =
     (let leftLoad = nr_Pending a + nr_GPUPressure a; rightLoad = nr_Pending b + nr_GPUPressure b in
      if leftLoad \<noteq> rightLoad then leftLoad < rightLoad
      else if nr_GPUPressure a \<noteq> nr_GPUPressure b then nr_GPUPressure a < nr_GPUPressure b
      else nr_ID a < nr_ID b)"

definition number_ranks :: "NodeRank list \<Rightarrow> NodeRank list" where
  "number_ranks rs = map (\<lambda>(i, r). r\<lparr>nr_Rank := int i\<rparr>) (enumerate 0 rs)"

definition rankAt :: "time \<Rightarrow> Manager \<Rightarrow> string list \<times> NodeRank list" where
  "rankAt now m =
     (let pending = count_pending (m_nodes m) (m_catalog m);
          ranks = map (\<lambda>id. \<lparr>nr_ID = id,
                     nr_Pending = (case mget pending id of None \<Rightarrow> 0 | Some n \<Rightarrow> n),
                     nr_GPUPressure = effectiveGPUPressure (mget (m_telemetry m) id) now,
                     nr_Rank = 0\<rparr>) (mkeys (m_nodes m));
          ranks = number_ranks (sort_by rank_less ranks)
      in (map nr_ID ranks, ranks))"

fun equalRanks :: "NodeRank list \<Rightarrow> NodeRank list \<Rightarrow> bool" where
  "equalRanks [] [] \<longleftrightarrow> True"
| "equalRanks (a # as) (b # bs) \<longleftrightarrow> a = b \<and> equalRanks as bs"
| "equalRanks _ _ \<longleftrightarrow> False"

definition emitted_for :: "Manager \<Rightarrow> string \<Rightarrow> engineState" where
  "emitted_for m e = (case mget (m_emitted m) e of None \<Rightarrow> engineState0 | Some st \<Rightarrow> st)"

text \<open>What the process writes: a \<open>schedule:priority\<close> notification or an answer.\<close>

datatype sched_out = NotifyPriority EnginePriority | Answers answer

definition emitIfChanged ::
    "string \<Rightarrow> string list \<Rightarrow> NodeRank list \<Rightarrow> bool \<Rightarrow> time \<Rightarrow> Manager \<Rightarrow> Manager \<times> sched_out list" where
  "emitIfChanged engine order ranks force now m =
     (let changed = (force \<or> \<not> equalRanks (es_ranks (emitted_for m engine)) ranks) in
      if changed
      then (m\<lparr>m_emitted := mput engine \<lparr>es_ranks = ranks, es_lastEmittedAt = UnixMilli now\<rparr> (m_emitted m)\<rparr>,
            [NotifyPriority \<lparr>ep_Engine = engine, ep_Nodes = order, ep_Ranks = ranks\<rparr>])
      else (m, []))"

definition recomputeAll :: "bool \<Rightarrow> time \<Rightarrow> Manager \<Rightarrow> Manager \<times> sched_out list" where
  "recomputeAll force now m =
     (let (order, ranks) = rankAt now m in
      foldl (\<lambda>(m, out) e. let (m', o') = emitIfChanged e order ranks force now m in (m', out @ o'))
        (m, []) schedulerEngines)"

text \<open>The two wake-ups of the schedule loop: a queued tick, or the timer.\<close>

definition loop_tick :: "time \<Rightarrow> Manager \<Rightarrow> Manager \<times> sched_out list" where
  "loop_tick now m = (if m_tick m then recomputeAll True now (m\<lparr>m_tick := False\<rparr>) else (m, []))"

definition loop_timer :: "time \<Rightarrow> Manager \<Rightarrow> Manager \<times> sched_out list" where
  "loop_timer now m = recomputeAll False now m"

definition marshalEngineSchedule :: "string \<Rightarrow> engineState \<Rightarrow> json" where
  "marshalEngineSchedule e st =
     JObj [(''engine'', JStr e), (''emitted'', JArr (map marshalNodeRank (es_ranks st))),
           (''lastEmittedAt'', JInt (es_lastEmittedAt st))]"

text \<open>A \<open>Duration\<close> divided by a millisecond truncates toward zero; intervals are positive.\<close>

definition Milliseconds :: "duration \<Rightarrow> int" where
  "Milliseconds d = sgn d * (\<bar>d\<bar> div Millisecond)"

definition status :: "Manager \<Rightarrow> json" where
  "status m =
     JObj [(''interval_ms'', JInt (Milliseconds (m_interval m))),
           (''engines'', MarshalMap (map (\<lambda>e. (e, marshalEngineSchedule e (emitted_for m e))) schedulerEngines))]"

subsection \<open>The message handler\<close>

definition interval_fields :: "int field list" where
  "interval_fields = [fld ''interval_ms'' dec_int64 id (\<lambda>v r. v)]"

definition handle_notification :: "fusing \<Rightarrow> Message \<Rightarrow> time \<Rightarrow> Manager \<Rightarrow> Manager \<times> bool" where
  "handle_notification f msg now m =
     (if msg_Method msg = ''discovery:nodes-changed'' then applyNodesChanged (msg_Params msg) m
      else if msg_Method msg = ''workloads:upsert'' then applyUpsert (msg_Params msg) m
      else if msg_Method msg = ''workloads:remove'' then applyRemove (msg_Params msg) m
      else if msg_Method msg = MethodTelemetry then applyTelemetry f (msg_Params msg) now m
      else (m, False))"

definition handle_set_interval :: "Message \<Rightarrow> Manager \<Rightarrow> Manager \<times> answer list" where
  "handle_set_interval msg m =
     (case Unmarshal (dec_struct interval_fields) 0 (msg_Params msg) of
        None \<Rightarrow> (m, [RespondError (msg_ID msg) (- 32602)])
      | Some ms \<Rightarrow>
          if ms \<le> 0 then (m, [RespondError (msg_ID msg) (- 32602)])
          else
            let d = wrap64 (ms * Millisecond); d = (if d < intervalFloor then intervalFloor else d)
            in (m\<lparr>m_interval := d\<rparr>, [Respond (msg_ID msg) (JObj [(''interval_ms'', JInt (Milliseconds d))])]))"

definition handle_request :: "Message \<Rightarrow> Manager \<Rightarrow> Manager \<times> answer list" where
  "handle_request msg m =
     (if msg_Method msg = ''scheduler:get-status'' then (m, [Respond (msg_ID msg) (status m)])
      else if msg_Method msg = ''scheduler:get-interval''
        then (m, [Respond (msg_ID msg) (JObj [(''interval_ms'', JInt (Milliseconds (m_interval m)))])])
      else if msg_Method msg = ''scheduler:set-interval'' then handle_set_interval msg m
      else if msg_Method msg = ''scheduler:tick''
        then (m\<lparr>m_tick := True\<rparr>, [Respond (msg_ID msg) (JObj [(''ticked'', JBool True)])])
      else if msg_Method msg = ''shutdown'' then (m\<lparr>m_cancelled := True\<rparr>, [Respond (msg_ID msg) JNull])
      else (m, [RespondError (msg_ID msg) (- 32601)]))"

definition handleMessage :: "fusing \<Rightarrow> Message \<Rightarrow> time \<Rightarrow> Manager \<Rightarrow> Manager \<times> sched_out list" where
  "handleMessage f msg now m =
     (if msg_Method msg = SetLevelMethod
      then (let (l, as) = handle_set_level msg (m_level m) in (m\<lparr>m_level := l\<rparr>, map Answers as))
      else if \<not> IsRequest msg
      then (if IsNotification msg
            then (let (m', changed) = handle_notification f msg now m in
                  if changed then recomputeAll False now m' else (m', []))
            else (m, []))
      else (let (m', as) = handle_request msg m in (m', map Answers as)))"

text \<open>
  The read loop over the lines of standard input, each with the time it is handled. A line that
  does not decode is skipped unless the context is cancelled; the loop ends at end of file or after
  a shutdown.
\<close>

fun readLoop :: "fusing \<Rightarrow> (raw \<times> time) list \<Rightarrow> Manager \<Rightarrow> Manager \<times> sched_out list" where
  "readLoop f [] m = (m, [])"
| "readLoop f ((line, now) # rest) m =
     (case Read line of
        DecodeError \<Rightarrow> if m_cancelled m then (m, []) else readLoop f rest m
      | ReadOk msg \<Rightarrow>
          let (m', out) = handleMessage f msg now m in
          if m_cancelled m' then (m', out)
          else let (m'', out') = readLoop f rest m' in (m'', out @ out'))"

subsection \<open>What a ranking is\<close>

text \<open>The node a catalog key counts for, and the entry of one node.\<close>

definition node_of :: "(wlKey, workload) gomap \<Rightarrow> wlKey \<Rightarrow> string" where
  "node_of catalog k = (case mget catalog k of None \<Rightarrow> [] | Some w \<Rightarrow> pendingNode w)"

definition rank_entry :: "time \<Rightarrow> Manager \<Rightarrow> string \<Rightarrow> NodeRank" where
  "rank_entry now m n =
     \<lparr>nr_ID = n, nr_Pending = int (card {k. node_of (m_catalog m) k = n}),
      nr_GPUPressure = effectiveGPUPressure (mget (m_telemetry m) n) now, nr_Rank = 0\<rparr>"

abbreviation rank_key :: "NodeRank \<Rightarrow> int \<times> int \<times> string" where
  "rank_key r \<equiv> (nr_Pending r + nr_GPUPressure r, nr_GPUPressure r, nr_ID r)"

interpretation node_rank: key_sort rank_less rank_key
  by unfold_locales (auto simp: rank_less_def Let_def less_prod_def')

lemma equalRanks_iff [simp]: "equalRanks as bs \<longleftrightarrow> as = bs"
  by (induction as bs rule: equalRanks.induct) auto

lemma mget_zeros: "mget (foldl (\<lambda>p n. mput n z p) m ns) k = (if k \<in> set ns then Some z else mget m k)"
  by (induction ns arbitrary: m) (auto simp: mget_mput)

lemma count_pending_get:
  assumes "mhas nodes n" and "n \<noteq> []"
  shows "mget (count_pending nodes catalog) n = Some (int (length (filter (\<lambda>w. pendingNode w = n) (mvals catalog))))"
proof -
  let ?step = "\<lambda>p w. if \<not> isPending w then p else if sw_ScheduledOn w = [] then p
        else if mhas nodes (sw_ScheduledOn w)
             then mput (sw_ScheduledOn w) ((case mget p (sw_ScheduledOn w) of None \<Rightarrow> 0 | Some c \<Rightarrow> c) + 1) p
        else p"
  have "mget (foldl ?step p ws) n = Some (c + int (length (filter (\<lambda>w. pendingNode w = n) ws)))"
    if "mget p n = Some c" for p c ws
    using that assms by (induction ws arbitrary: p c) (auto simp: mget_mput pendingNode_def)
  moreover have "mget (foldl (\<lambda>p n. mput n 0 p) [] (mkeys nodes)) n = Some (0::int)"
    using assms(1) by (simp add: mget_zeros mhas_def mget_None)
  ultimately show ?thesis by (simp add: count_pending_def)
qed

lemma count_pending_card:
  assumes "mhas nodes n" and "n \<noteq> []" and "wf_map catalog"
  shows "mget (count_pending nodes catalog) n = Some (int (card {k. node_of catalog k = n}))"
proof -
  have "{k. \<exists>w. mget catalog k = Some w \<and> pendingNode w = n} = {k. node_of catalog k = n}"
    using assms(2) by (auto simp: node_of_def split: option.splits)
  then show ?thesis using assms by (simp add: count_pending_get count_vals)
qed

subsection \<open>Invariant\<close>

definition telemetry_ok :: "gpuTelemetryState \<Rightarrow> bool" where
  "telemetry_ok st \<longleftrightarrow> 0 \<le> ts_pressure st \<and> ts_pressure st \<le> 3 \<and> \<not> fless (of_uint 100) (ts_ewma st) \<and>
     (ts_valid st \<longrightarrow> ts_hasEWMA st \<and> 0 \<le> ts_ageAtReceipt st \<and> ts_ageAtReceipt st \<le> gpuTelemetryFreshness)"

definition sched_inv :: "Manager \<Rightarrow> bool" where
  "sched_inv m \<longleftrightarrow> intervalFloor \<le> m_interval m \<and> m_interval m < 2 ^ 63 \<and>
     wf_map (m_nodes m) \<and> wf_map (m_catalog m) \<and> wf_map (m_telemetry m) \<and>
     (\<forall>n b. mget (m_nodes m) n = Some b \<longrightarrow> n \<noteq> [] \<and> b) \<and>
     (\<forall>k w. mget (m_catalog m) k = Some w \<longrightarrow> k = wl_key w \<and> isPending w \<and> sw_ID w \<noteq> []) \<and>
     (\<forall>h st. mget (m_telemetry m) h = Some st \<longrightarrow> h \<noteq> [] \<and> telemetry_ok st)"

lemma sched_invD:
  assumes "sched_inv m"
  shows "wf_map (m_nodes m)" "wf_map (m_catalog m)" "wf_map (m_telemetry m)"
    "mget (m_nodes m) n = Some b \<Longrightarrow> n \<noteq> [] \<and> b"
    "mget (m_catalog m) k = Some w \<Longrightarrow> k = wl_key w \<and> isPending w \<and> sw_ID w \<noteq> []"
    "mget (m_telemetry m) h = Some st \<Longrightarrow> h \<noteq> [] \<and> telemetry_ok st"
    "intervalFloor \<le> m_interval m" "m_interval m < 2 ^ 63"
  using assms by (auto simp: sched_inv_def)

text \<open>The ranking before it is numbered.\<close>

lemma rankAt_sorted:
  assumes "sched_inv m"
  shows "rankAt now m =
    (let rs = number_ranks (sort_by rank_less (map (rank_entry now m) (mkeys (m_nodes m)))) in (map nr_ID rs, rs))"
proof -
  have "\<lparr>nr_ID = n, nr_Pending = (case mget (count_pending (m_nodes m) (m_catalog m)) n of None \<Rightarrow> 0 | Some c \<Rightarrow> c),
        nr_GPUPressure = effectiveGPUPressure (mget (m_telemetry m) n) now, nr_Rank = 0\<rparr> = rank_entry now m n"
    if "n \<in> set (mkeys (m_nodes m))" for n
  proof -
    have "mhas (m_nodes m) n" using that by (simp add: mhas_def mget_None)
    then have "mhas (m_nodes m) n" "n \<noteq> []" using sched_invD(4) [OF assms] by (auto simp: mhas_def)
    then show ?thesis by (simp add: rank_entry_def count_pending_card sched_invD(2) [OF assms])
  qed
  then show ?thesis by (simp add: rankAt_def Let_def cong: map_cong)
qed

lemma rank_entry_ID [simp]: "nr_ID (rank_entry now m n) = n"
  by (simp add: rank_entry_def)

lemma inj_rank_key: "inj_on rank_key (rank_entry now m ` A)"
  by (auto simp: inj_on_def)

text \<open>A ranking depends on the set of nodes and on each node's entry, not on iteration order.\<close>

lemma rankAt_cong:
  assumes "sched_inv m" and "sched_inv m'" and nodes: "set (mkeys (m_nodes m)) = set (mkeys (m_nodes m'))"
    and entry: "\<And>n. n \<in> set (mkeys (m_nodes m)) \<Longrightarrow> rank_entry now m n = rank_entry now m' n"
  shows "rankAt now m = rankAt now m'"
proof -
  have "distinct (mkeys (m_nodes m))" "distinct (mkeys (m_nodes m'))"
    using sched_invD(1) [OF assms(1)] sched_invD(1) [OF assms(2)] by (simp_all add: wf_map_def mkeys_def)
  then have "mset (mkeys (m_nodes m)) = mset (mkeys (m_nodes m'))"
    using nodes set_eq_iff_mset_eq_distinct by blast
  moreover have "map (rank_entry now m) (mkeys (m_nodes m)) = map (rank_entry now m') (mkeys (m_nodes m))"
    using entry by simp
  ultimately have "mset (map (rank_entry now m) (mkeys (m_nodes m))) = mset (map (rank_entry now m') (mkeys (m_nodes m')))"
    by (metis mset_map)
  moreover have "inj_on rank_key (set (map (rank_entry now m) (mkeys (m_nodes m))))"
    using inj_rank_key by simp
  ultimately have "sort_by rank_less (map (rank_entry now m) (mkeys (m_nodes m))) =
      sort_by rank_less (map (rank_entry now m') (mkeys (m_nodes m')))"
    by (rule node_rank.sort_by_deterministic)
  then show ?thesis by (simp add: rankAt_sorted assms(1,2))
qed

subsection \<open>Pressure\<close>

lemma climb_stop: "pressure \<ge> 3 \<Longrightarrow> climb u pressure = pressure"
  by (simp add: climb.simps)

lemma climb_step:
  "pressure < 3 \<Longrightarrow> climb u pressure = (if fless u (of_uint (up_at ! nat pressure)) then pressure else climb u (pressure + 1))"
  by (simp add: climb.simps [of u pressure])

lemma descend_stop: "pressure \<le> 0 \<Longrightarrow> descend u pressure = pressure"
  by (simp add: descend.simps)

lemma descend_step:
  "pressure > 0 \<Longrightarrow> descend u pressure = (if fless u (of_uint (down_at ! nat pressure)) then descend u (pressure - 1) else pressure)"
  by (simp add: descend.simps [of u pressure])

lemmas pressure_steps = climb_stop climb_step descend_stop descend_step up_at_def down_at_def fless_iff

lemma level_cases:
  fixes p :: int
  assumes "0 \<le> p" and "p \<le> 3"
  obtains "p = 0" | "p = 1" | "p = 2" | "p = 3"
  using assms by linarith

lemma pressureBand_range: "0 \<le> pressureBand u \<and> pressureBand u \<le> 3"
  by (simp add: pressureBand_def)

lemma pressureWithHysteresis_range:
  "0 \<le> pressureWithHysteresis u p \<and> pressureWithHysteresis u p \<le> 3"
proof (cases "0 \<le> p \<and> p \<le> 3")
  case True
  then consider "p = 0" | "p = 1" | "p = 2" | "p = 3" using level_cases by blast
  then show ?thesis by cases (simp_all add: pressureWithHysteresis_def pressure_steps)
next
  case False
  then show ?thesis using pressureBand_range [of u] by (auto simp: pressureWithHysteresis_def)
qed

lemma alpha_eval:
  "gpuEWMAAlpha = F 6305039478318694 (- 54)" "oneMinusAlpha = F 5854679515581645 (- 53)"
  by (simp_all add: gpuEWMAAlpha_def oneMinusAlpha_def rne_def Let_def)

lemmas float_eval = alpha_eval muladd_def fround_def ulp_expo_def Let_def fmul_def fadd_def at_expo_def of_uint_def
  rne_def fless_def nbits.simps

lemma ewma_top: "fval (muladd f gpuEWMAAlpha (of_uint 100) oneMinusAlpha (of_uint 100)) \<le> 100"
proof -
  have "\<not> fless (of_uint 100) (muladd f gpuEWMAAlpha (of_uint 100) oneMinusAlpha (of_uint 100))"
    by (cases f) (simp_all add: float_eval)
  then show ?thesis by (simp add: fless_iff)
qed

lemma ewma_bound:
  assumes "u \<le> 100" and "fval e \<le> 100"
  shows "fval (muladd f gpuEWMAAlpha (of_uint u) oneMinusAlpha e) \<le> 100"
proof -
  have "fval (muladd f gpuEWMAAlpha (of_uint u) oneMinusAlpha e)
      \<le> fval (muladd f gpuEWMAAlpha (of_uint 100) oneMinusAlpha (of_uint 100))"
    using assms by (intro muladd_mono) simp_all
  then show ?thesis using ewma_top [of f] by (rule order_trans)
qed

lemma normalizedTelemetryAge_nonneg: "0 \<le> normalizedTelemetryAge ms"
  by (simp add: normalizedTelemetryAge_def gpuTelemetryFreshness_def wrap64_id in_int64_def)

lemma telemetry0_ok: "telemetry_ok gpuTelemetryState0"
  by (simp add: telemetry_ok_def gpuTelemetryState0_def fless_iff fval_F)

lemma next_telemetry_ok:
  assumes "case prev of None \<Rightarrow> True | Some st \<Rightarrow> telemetry_ok st"
  shows "telemetry_ok (next_telemetry f value prev now)"
proof -
  let ?p = "case prev of None \<Rightarrow> gpuTelemetryState0 | Some st \<Rightarrow> st"
  let ?u = "if nt_GPUUtilizationPct value > 100 then 100 else nt_GPUUtilizationPct value"
  let ?fresh = "nt_TelemetryValid value \<and> normalizedTelemetryAge (nt_MSSince value) \<le> gpuTelemetryFreshness"
  have p: "telemetry_ok ?p" using assms telemetry0_ok by (cases prev) auto
  have u: "nat ?u \<le> 100" by (simp add: nat_le_iff)
  have e: "fval (muladd f gpuEWMAAlpha (of_uint (nat ?u)) oneMinusAlpha (ts_ewma ?p)) \<le> 100"
    using p by (intro ewma_bound u) (simp add: telemetry_ok_def fless_iff)
  have e0: "of_nat (nat ?u) \<le> (100 :: rat)" using u of_nat_mono [OF u, where 'a = rat] by simp
  show ?thesis
  proof (cases ?fresh)
    case True
    then show ?thesis
      using e e0 normalizedTelemetryAge_nonneg pressureBand_range pressureWithHysteresis_range
      by (cases "nt_GPUUtilizationPct value > 100") (simp_all add: next_telemetry_def Let_def telemetry_ok_def fless_iff not_less)
  next
    case False
    then have "next_telemetry f value prev now = ?p\<lparr>ts_valid := False,
        ts_ageAtReceipt := normalizedTelemetryAge (nt_MSSince value), ts_receivedAt := now\<rparr>"
      unfolding next_telemetry_def Let_def by (subst if_not_P) simp_all
    then show ?thesis using p by (simp add: telemetry_ok_def)
  qed
qed

subsection \<open>Every operation keeps the invariant\<close>

lemma NewManager_sched_inv: "in_int64 interval \<Longrightarrow> sched_inv (NewManager interval)"
  by (simp add: sched_inv_def NewManager_def in_int64_def intervalFloor_def)

text \<open>The node set built from a discovery snapshot.\<close>

definition node_set :: "availableNode list \<Rightarrow> (string, bool) gomap" where
  "node_set nodes = foldl (\<lambda>s n. if node_key n \<noteq> [] then mput (node_key n) True s else s) [] nodes"

lemma node_set_get:
  "mget (node_set nodes) h = (if h \<noteq> [] \<and> h \<in> node_key ` set nodes then Some True else None)"
proof -
  have "mget (foldl (\<lambda>s n. if node_key n \<noteq> [] then mput (node_key n) True s else s) s nodes) h =
      (if h \<noteq> [] \<and> h \<in> node_key ` set nodes then Some True else mget s h)" for s
    by (induction nodes arbitrary: s) (auto simp: mget_mput)
  then show ?thesis by (simp add: node_set_def)
qed

lemma node_set_wf: "wf_map (node_set nodes)"
proof -
  have "wf_map s \<Longrightarrow> wf_map (foldl (\<lambda>s n. if node_key n \<noteq> [] then mput (node_key n) True s else s) s nodes)" for s
    by (induction nodes arbitrary: s) auto
  then show ?thesis by (simp add: node_set_def)
qed

lemma applyNodesChanged_inv:
  assumes "sched_inv m"
  shows "sched_inv (fst (applyNodesChanged params m))"
proof (cases "Unmarshal (dec_slice (dec_struct available_node_fields) \<lparr>an_ID = [], an_HostUUID = []\<rparr>) [] params")
  case None
  then show ?thesis using assms by (simp add: applyNodesChanged_def)
next
  case (Some nodes)
  let ?m = "m\<lparr>m_nodes := node_set nodes,
      m_telemetry := mkeep (\<lambda>h _. mget (node_set nodes) h = Some True) (m_telemetry m)\<rparr>"
  have "sched_inv ?m"
    using assms by (auto simp: sched_inv_def mget_mkeep node_set_wf node_set_get split: option.splits if_splits)
  then show ?thesis using Some by (simp add: applyNodesChanged_def Let_def node_set_def)
qed

lemma catalog_inv:
  assumes "sched_inv m" and "wf_map c"
    and "\<And>k w. mget c k = Some w \<Longrightarrow> k = wl_key w \<and> isPending w \<and> sw_ID w \<noteq> []"
  shows "sched_inv (m\<lparr>m_catalog := c\<rparr>)"
  using assms unfolding sched_inv_def by auto

lemma applyUpsert_inv:
  assumes "sched_inv m"
  shows "sched_inv (fst (applyUpsert params m))"
proof (cases "Unmarshal (dec_struct workload_params_fields) workload0 params")
  case None
  then show ?thesis using assms by (simp add: applyUpsert_def)
next
  case (Some w)
  have "sched_inv (m\<lparr>m_catalog := mdel (wl_key w) (m_catalog m)\<rparr>)"
    by (rule catalog_inv [OF assms]) (use sched_invD [OF assms] in \<open>auto simp: mget_mdel split: if_splits\<close>)
  moreover have "sched_inv (m\<lparr>m_catalog := mput (wl_key w) w (m_catalog m)\<rparr>)"
    if "isPending w" "sw_ID w \<noteq> []"
    by (rule catalog_inv [OF assms]) (use sched_invD [OF assms] that in \<open>auto simp: mget_mput split: if_splits\<close>)
  ultimately show ?thesis using Some assms by (simp add: applyUpsert_def Let_def)
qed

lemma applyRemove_inv:
  assumes "sched_inv m"
  shows "sched_inv (fst (applyRemove params m))"
proof (cases "Unmarshal (dec_struct sched_remove_fields) \<lparr>rp_WorkloadID = [], rp_OriginatedFrom = []\<rparr> params")
  case None
  then show ?thesis using assms by (simp add: applyRemove_def)
next
  case (Some p)
  have "sched_inv (m\<lparr>m_catalog := mkeep (\<lambda>k _. \<not> removes p k) (m_catalog m)\<rparr>)"
    by (rule catalog_inv [OF assms])
      (use sched_invD [OF assms] in \<open>auto simp: mget_mkeep split: option.splits if_splits\<close>)
  then show ?thesis using Some by (simp add: applyRemove_def)
qed

lemma applyTelemetry_inv:
  assumes "sched_inv m"
  shows "sched_inv (fst (applyTelemetry f params now m))"
proof -
  have "sched_inv (fst (applyTelemetryAt f v now m))" for v
  proof -
    let ?n = "next_telemetry f v (mget (m_telemetry m) (nt_HostUUID v)) now"
    have "telemetry_ok ?n"
      using sched_invD(6) [OF assms] by (intro next_telemetry_ok) (auto split: option.splits)
    then have "sched_inv (m\<lparr>m_telemetry := mput (nt_HostUUID v) ?n (m_telemetry m)\<rparr>)" if "nt_HostUUID v \<noteq> []"
      using assms that by (auto simp: sched_inv_def mget_mput)
    then show ?thesis using assms by (simp add: applyTelemetryAt_def Let_def)
  qed
  then show ?thesis using assms by (simp add: applyTelemetry_def split: option.splits)
qed

lemma handle_notification_inv: "sched_inv m \<Longrightarrow> sched_inv (fst (handle_notification f msg now m))"
  by (simp add: handle_notification_def applyNodesChanged_inv applyUpsert_inv applyRemove_inv applyTelemetry_inv)

lemma sched_frame_inv:
  "sched_inv (m\<lparr>m_emitted := e\<rparr>) = sched_inv m" "sched_inv (m\<lparr>m_tick := t\<rparr>) = sched_inv m"
  "sched_inv (m\<lparr>m_cancelled := c\<rparr>) = sched_inv m" "sched_inv (m\<lparr>m_level := l\<rparr>) = sched_inv m"
  by (simp_all add: sched_inv_def)

lemma emitIfChanged_inv: "sched_inv (fst (emitIfChanged e order ranks force now m)) = sched_inv m"
  by (simp add: emitIfChanged_def Let_def sched_frame_inv)

lemma recomputeAll_inv: "sched_inv (fst (recomputeAll force now m)) = sched_inv m"
  by (simp add: recomputeAll_def schedulerEngines_def split_beta emitIfChanged_inv)

lemma handle_set_interval_inv: "sched_inv m \<Longrightarrow> sched_inv (fst (handle_set_interval msg m))"
proof -
  assume inv: "sched_inv m"
  have "sched_inv (m\<lparr>m_interval := d\<rparr>)" if "intervalFloor \<le> d" "d < 2 ^ 63" for d
    using inv that unfolding sched_inv_def by auto
  moreover have "wrap64 x < 2 ^ 63" for x using wrap64_in_int64 [of x] by (simp add: in_int64_def)
  moreover have "intervalFloor < 2 ^ 63" by (simp add: intervalFloor_def)
  ultimately show ?thesis using inv
    by (simp add: handle_set_interval_def Let_def split: option.split)
qed

lemma handleMessage_sched_inv: "sched_inv m \<Longrightarrow> sched_inv (fst (handleMessage f msg now m))"
  using handle_notification_inv [of m f msg now] handle_set_interval_inv [of m msg]
  by (simp add: handleMessage_def split_beta Let_def sched_frame_inv recomputeAll_inv handle_request_def)

subsection \<open>A handler that reports no change leaves the ranking alone\<close>

text \<open>What the ranking at a time can see of the state.\<close>

definition same_load :: "time \<Rightarrow> Manager \<Rightarrow> Manager \<Rightarrow> bool" where
  "same_load now m m' \<longleftrightarrow> set (mkeys (m_nodes m)) = set (mkeys (m_nodes m')) \<and>
     node_of (m_catalog m) = node_of (m_catalog m') \<and>
     (\<forall>h \<in> set (mkeys (m_nodes m)). gpuPressureAt m h now = gpuPressureAt m' h now)"

lemma same_load_refl [simp]: "same_load now m m"
  by (simp add: same_load_def)

lemma same_load_rankAt:
  assumes "sched_inv m" and "sched_inv m'" and "same_load now m m'"
  shows "rankAt now m = rankAt now m'"
  using assms by (intro rankAt_cong) (auto simp: same_load_def rank_entry_def gpuPressureAt_def)

lemma sameNodeSet_iff:
  assumes "wf_map a" and "wf_map b" and "\<And>h. mget b h \<noteq> Some False"
  shows "sameNodeSet a b \<longleftrightarrow> set (mkeys a) = set (mkeys b)"
proof -
  have d: "distinct (mkeys a)" "distinct (mkeys b)" using assms by (simp_all add: wf_map_def mkeys_def)
  have "mget b h = Some True \<longleftrightarrow> h \<in> set (mkeys b)" for h
    using mget_None [of b h] assms(3) [of h] by (cases "mget b h") auto
  then have "sameNodeSet a b \<longleftrightarrow> length (mkeys a) = length (mkeys b) \<and> set (mkeys a) \<subseteq> set (mkeys b)"
    by (auto simp: sameNodeSet_def list_all_iff mkeys_def)
  also have "\<dots> \<longleftrightarrow> set (mkeys a) = set (mkeys b)"
    using d by (metis card_subset_eq distinct_card finite_set subset_refl)
  finally show ?thesis .
qed

lemma applyNodesChanged_quiet:
  assumes "sched_inv m" and "applyNodesChanged params m = (m', False)"
  shows "same_load now m m'"
proof (cases "Unmarshal (dec_slice (dec_struct available_node_fields) \<lparr>an_ID = [], an_HostUUID = []\<rparr>) [] params")
  case None
  then show ?thesis using assms by (simp add: applyNodesChanged_def)
next
  case (Some nodes)
  then have m': "m' = m\<lparr>m_nodes := node_set nodes,
        m_telemetry := mkeep (\<lambda>h _. mget (node_set nodes) h = Some True) (m_telemetry m)\<rparr>"
    and same: "sameNodeSet (m_nodes m) (node_set nodes)"
    using assms(2) by (auto simp: applyNodesChanged_def Let_def node_set_def)
  have eq: "set (mkeys (m_nodes m)) = set (mkeys (node_set nodes))"
    using same by (subst (asm) sameNodeSet_iff) (simp_all add: sched_invD(1) [OF assms(1)] node_set_wf node_set_get)
  have "mget (node_set nodes) h = Some True" if "h \<in> set (mkeys (node_set nodes))" for h
    using that mget_None [of "node_set nodes" h] by (simp add: node_set_get split: if_splits)
  then show ?thesis
    by (simp add: same_load_def m' eq gpuPressureAt_def mget_mkeep sched_invD(3) [OF assms(1)] split: option.split)
qed

lemma applyUpsert_quiet:
  assumes "applyUpsert params m = (m', False)"
  shows "same_load now m m'"
proof (cases "Unmarshal (dec_struct workload_params_fields) workload0 params")
  case None
  then show ?thesis using assms by (simp add: applyUpsert_def)
next
  case (Some w)
  let ?prev = "node_of (m_catalog m) (wl_key w)"
  have prev: "?prev = pendingNode (case mget (m_catalog m) (wl_key w) of None \<Rightarrow> workload0 | Some p \<Rightarrow> p)"
    by (simp add: node_of_def pendingNode_def isPending_def workload0_def split: option.split)
  have "?prev \<noteq> [] \<Longrightarrow> mget (m_catalog m) (wl_key w) \<noteq> None" by (auto simp: node_of_def split: option.splits)
  then have "applyUpsert params m = (if sw_ID w = [] then (m, False)
      else if \<not> isPending w then (m\<lparr>m_catalog := mdel (wl_key w) (m_catalog m)\<rparr>, ?prev \<noteq> [])
      else (m\<lparr>m_catalog := mput (wl_key w) w (m_catalog m)\<rparr>, ?prev \<noteq> sw_ScheduledOn w))"
    using Some by (auto simp: applyUpsert_def Let_def simp flip: prev)
  then consider "sw_ID w = []" "m' = m"
    | "\<not> isPending w" "m' = m\<lparr>m_catalog := mdel (wl_key w) (m_catalog m)\<rparr>" "?prev = []"
    | "isPending w" "m' = m\<lparr>m_catalog := mput (wl_key w) w (m_catalog m)\<rparr>" "?prev = sw_ScheduledOn w"
    using assms by (auto split: if_splits)
  then show ?thesis
  proof cases
    case 2
    then have "node_of (m_catalog m') = node_of (m_catalog m)"
      by (auto simp: fun_eq_iff node_of_def mget_mdel)
    then show ?thesis by (simp add: same_load_def 2(2) gpuPressureAt_def)
  next
    case 3
    then have "node_of (m_catalog m') k = node_of (m_catalog m) k" for k
      by (cases "k = wl_key w") (simp_all add: node_of_def mget_mput pendingNode_def)
    then show ?thesis by (simp add: same_load_def 3(2) gpuPressureAt_def fun_eq_iff)
  qed simp
qed

lemma applyRemove_quiet:
  assumes "sched_inv m" and "applyRemove params m = (m', False)"
  shows "same_load now m m'"
proof (cases "Unmarshal (dec_struct sched_remove_fields) \<lparr>rp_WorkloadID = [], rp_OriginatedFrom = []\<rparr> params")
  case None
  then show ?thesis using assms by (simp add: applyRemove_def)
next
  case (Some p)
  then have m': "m' = m\<lparr>m_catalog := mkeep (\<lambda>k _. \<not> removes p k) (m_catalog m)\<rparr>"
    and "\<not> list_ex (\<lambda>(k, w). removes p k \<and> pendingNode w \<noteq> []) (m_catalog m)"
    using assms(2) by (auto simp: applyRemove_def)
  then have none: "pendingNode w = []" if "mget (m_catalog m) k = Some w" "removes p k" for k w
    using mget_SomeD [OF that(1)] that(2) by (auto simp: list_ex_iff)
  have "node_of (m_catalog m') k = node_of (m_catalog m) k" for k
    using none by (auto simp: m' node_of_def mget_mkeep sched_invD(2) [OF assms(1)] split: option.split)
  then show ?thesis by (simp add: same_load_def m' gpuPressureAt_def fun_eq_iff)
qed

lemma applyTelemetry_quiet:
  assumes "applyTelemetry f params now m = (m', False)"
  shows "same_load now m m'"
proof (cases "Unmarshal (dec_struct telemetry_fields)
    \<lparr>nt_HostUUID = [], nt_GPUUtilizationPct = 0, nt_TelemetryValid = False, nt_MSSince = 0\<rparr> params")
  case None
  then show ?thesis using assms by (simp add: applyTelemetry_def)
next
  case (Some v)
  let ?n = "next_telemetry f v (mget (m_telemetry m) (nt_HostUUID v)) now"
  show ?thesis
  proof (cases "nt_HostUUID v = []")
    case True
    then show ?thesis using Some assms by (simp add: applyTelemetry_def applyTelemetryAt_def)
  next
    case False
    then have "m' = m\<lparr>m_telemetry := mput (nt_HostUUID v) ?n (m_telemetry m)\<rparr>"
      and "effectiveGPUPressure (mget (m_telemetry m) (nt_HostUUID v)) now = effectiveGPUPressure (Some ?n) now"
      using Some assms by (simp_all add: applyTelemetry_def applyTelemetryAt_def Let_def)
    then show ?thesis by (simp add: same_load_def gpuPressureAt_def mget_mput)
  qed
qed

lemma handle_notification_quiet:
  assumes "sched_inv m" and "handle_notification f msg now m = (m', False)"
  shows "same_load now m m'"
  using assms applyNodesChanged_quiet [OF assms(1)] applyUpsert_quiet applyRemove_quiet [OF assms(1)] applyTelemetry_quiet
  by (simp add: handle_notification_def split: if_splits)

subsection \<open>Recomputation\<close>

definition announces :: "string list \<times> NodeRank list \<Rightarrow> string \<Rightarrow> sched_out" where
  "announces r e = NotifyPriority \<lparr>ep_Engine = e, ep_Nodes = fst r, ep_Ranks = snd r\<rparr>"

text \<open>Both engines were last sent the ranking of this moment.\<close>

definition current :: "time \<Rightarrow> Manager \<Rightarrow> bool" where
  "current now m \<longleftrightarrow> list_all (\<lambda>e. es_ranks (emitted_for m e) = snd (rankAt now m)) schedulerEngines"

lemma rankAt_emitted [simp]: "rankAt now (m\<lparr>m_emitted := e\<rparr>) = rankAt now m"
  by (simp add: rankAt_def)

lemma emitted_for_put [simp]:
  "emitted_for (m\<lparr>m_emitted := mput e st (m_emitted m)\<rparr>) e' = (if e' = e then st else emitted_for m e')"
  by (simp add: emitted_for_def mget_mput)

lemma emitIfChanged_emitted:
  "es_ranks (emitted_for (fst (emitIfChanged e order ranks force now m)) e') =
     (if e' = e then ranks else es_ranks (emitted_for m e'))"
  by (simp add: emitIfChanged_def Let_def)

lemma emitIfChanged_out:
  "snd (emitIfChanged e order ranks force now m) =
     (if force \<or> es_ranks (emitted_for m e) \<noteq> ranks then [announces (order, ranks) e] else [])"
  by (simp add: emitIfChanged_def Let_def announces_def)

lemma emitIfChanged_rankAt [simp]: "rankAt t (fst (emitIfChanged e order ranks force now m)) = rankAt t m"
  by (simp add: emitIfChanged_def Let_def)

lemma recomputeAll_rankAt [simp]: "rankAt t (fst (recomputeAll force now m)) = rankAt t m"
  by (simp add: recomputeAll_def schedulerEngines_def split_beta)

lemma recomputeAll_out:
  "snd (recomputeAll force now m) =
     map (announces (rankAt now m))
       (filter (\<lambda>e. force \<or> es_ranks (emitted_for m e) \<noteq> snd (rankAt now m)) schedulerEngines)"
  by (simp add: recomputeAll_def schedulerEngines_def split_beta emitIfChanged_out emitIfChanged_emitted)

lemma recomputeAll_current: "current now (fst (recomputeAll force now m))"
  by (simp add: current_def) (simp add: recomputeAll_def schedulerEngines_def split_beta emitIfChanged_emitted)

lemma current_cong:
  assumes "current now m" and "m_emitted m' = m_emitted m" and "rankAt now m' = rankAt now m"
  shows "current now m'"
  using assms by (simp add: current_def emitted_for_def)

lemma applies_keep_emitted: "m_emitted (fst (handle_notification f msg now m)) = m_emitted m"
  by (simp add: handle_notification_def applyNodesChanged_def applyUpsert_def applyRemove_def applyTelemetry_def
      applyTelemetryAt_def Let_def split: option.split)


text \<open>
  C24. A ranking lists every known node exactly once, numbered in order; each entry carries the
  number of queued and running workloads placed on the node and its effective pressure; entries
  are ordered by load, then pressure, then identifier; and the ranking does not depend on the
  iteration order of the three maps.
\<close>

theorem rankAt_exact:
  assumes inv: "sched_inv m"
  shows "(let (order, ranks) = rankAt now m in
      distinct order \<and> set order = set (mkeys (m_nodes m)) \<and> order = map nr_ID ranks \<and>
      ranks = map (\<lambda>i. (rank_entry now m (order ! i))\<lparr>nr_Rank := int i\<rparr>) [0..<length order] \<and>
      sorted (map rank_key ranks)) \<and>
    (same_map (m_nodes m) ns \<and> same_map (m_catalog m) c \<and> same_map (m_telemetry m) t \<longrightarrow>
      rankAt now (m\<lparr>m_nodes := ns, m_catalog := c, m_telemetry := t\<rparr>) = rankAt now m)"
proof -
  define rs where "rs = sort_by rank_less (map (rank_entry now m) (mkeys (m_nodes m)))"
  have ids: "map nr_ID (number_ranks xs) = map nr_ID xs" for xs
    by (rule nth_equalityI) (simp_all add: number_ranks_def nth_enumerate_eq)
  have r: "rankAt now m = (map nr_ID rs, number_ranks rs)" by (simp add: rankAt_sorted inv rs_def Let_def ids)
  have "mset (map nr_ID rs) = mset (mkeys (m_nodes m))"
    by (simp add: rs_def multiset.map_comp comp_def)
  then have order: "distinct (map nr_ID rs)" "set (map nr_ID rs) = set (mkeys (m_nodes m))"
    using sched_invD(1) [OF inv] unfolding wf_map_def mkeys_def
    by (metis mset_eq_imp_distinct_iff, metis set_mset_mset)
  have "rank_entry now m (nr_ID r') = r'" if "r' \<in> set rs" for r'
    using that by (auto simp: rs_def)
  then have "rank_entry now m (nr_ID (rs ! i)) = rs ! i" if "i < length rs" for i using that by simp
  then have ranks: "number_ranks rs = map (\<lambda>i. (rank_entry now m (map nr_ID rs ! i))\<lparr>nr_Rank := int i\<rparr>) [0..<length (map nr_ID rs)]"
    by (intro nth_equalityI) (simp_all add: number_ranks_def nth_enumerate_eq)
  have "map rank_key (number_ranks rs) = map rank_key rs"
    by (rule nth_equalityI) (simp_all add: number_ranks_def nth_enumerate_eq)
  then have sorted: "sorted (map rank_key (number_ranks rs))"
    by (simp add: rs_def node_rank.sorted_sort_by)
  have "rankAt now (m\<lparr>m_nodes := ns, m_catalog := c, m_telemetry := t\<rparr>) = rankAt now m"
    if "same_map (m_nodes m) ns" "same_map (m_catalog m) c" "same_map (m_telemetry m) t"
  proof (rule rankAt_cong [symmetric, OF inv])
    show "sched_inv (m\<lparr>m_nodes := ns, m_catalog := c, m_telemetry := t\<rparr>)"
      using that inv unfolding sched_inv_def same_map_def by auto
    show "set (mkeys (m_nodes m)) = set (mkeys (m_nodes (m\<lparr>m_nodes := ns, m_catalog := c, m_telemetry := t\<rparr>)))"
      using same_map_set [OF that(1)] by (simp add: mkeys_def)
    show "rank_entry now m h = rank_entry now (m\<lparr>m_nodes := ns, m_catalog := c, m_telemetry := t\<rparr>) h" for h
      using that by (simp add: rank_entry_def same_map_def node_of_def)
  qed
  then have same: "same_map (m_nodes m) ns \<and> same_map (m_catalog m) c \<and> same_map (m_telemetry m) t \<longrightarrow>
      rankAt now (m\<lparr>m_nodes := ns, m_catalog := c, m_telemetry := t\<rparr>) = rankAt now m" by blast
  show ?thesis unfolding r Let_def prod.case
    by (intro conjI order sorted ids [symmetric] ranks same [unfolded r])
qed

text \<open>A universe of two nodes and one queued workload on the first.\<close>

definition demo_nodes_msg :: Message where
  "demo_nodes_msg = Message0\<lparr>msg_Method := ''discovery:nodes-changed'',
     msg_Params := Some (JArr [JObj [(''hostUuid'', JStr ''a'')], JObj [(''hostUuid'', JStr ''b'')]])\<rparr>"

definition demo_upsert_msg :: "string \<Rightarrow> Message" where
  "demo_upsert_msg st = Message0\<lparr>msg_Method := ''workloads:upsert'',
     msg_Params := Some (JObj [(''workloadInfo'', JObj [(''id'', JStr ''1''), (''state'', JStr st), (''scheduledOn'', JStr ''a'')])])\<rparr>"

definition demo_universe :: Manager where
  "demo_universe = fst (handleMessage NoFusing demo_nodes_msg 0 (NewManager 0))"

lemma demo_universe_inv: "sched_inv demo_universe"
  unfolding demo_universe_def by (intro handleMessage_sched_inv NewManager_sched_inv) (simp add: in_int64_def)


theorem rankAt_exact_witness:
  "rankAt 5 (demo_universe\<lparr>m_nodes := rev (m_nodes demo_universe)\<rparr>) = rankAt 5 demo_universe \<and>
   set (fst (rankAt 5 demo_universe)) = {''a'', ''b''} \<and> m_nodes demo_universe \<noteq> rev (m_nodes demo_universe)"
proof -
  have n: "m_nodes demo_universe = [(''a'', True), (''b'', True)]" "m_catalog demo_universe = []"
    "m_telemetry demo_universe = []" by code_simp+
  have sm: "same_map (m_nodes demo_universe) [(''b'', True), (''a'', True)]"
    "same_map (m_catalog demo_universe) []" "same_map (m_telemetry demo_universe) []"
    unfolding n by (auto simp: same_map_def wf_map_def mget_def fun_eq_iff)
  have eq: "demo_universe\<lparr>m_nodes := [(''b'', True), (''a'', True)]\<rparr> =
      demo_universe\<lparr>m_nodes := [(''b'', True), (''a'', True)], m_catalog := [], m_telemetry := []\<rparr>"
    using n by simp
  obtain order ranks where r: "rankAt 5 demo_universe = (order, ranks)" by (meson surj_pair)
  note ex = rankAt_exact [OF demo_universe_inv, of 5 "[(''b'', True), (''a'', True)]" "[]" "[]", unfolded r Let_def prod.case]
  have "set order = set (mkeys (m_nodes demo_universe))" using ex by blast
  moreover have "rankAt 5 (demo_universe\<lparr>m_nodes := [(''b'', True), (''a'', True)], m_catalog := [], m_telemetry := []\<rparr>) =
      rankAt 5 demo_universe"
    unfolding r using ex sm by blast
  then have "rankAt 5 (demo_universe\<lparr>m_nodes := [(''b'', True), (''a'', True)]\<rparr>) = rankAt 5 demo_universe"
    using arg_cong [OF eq, of "rankAt 5"] by (rule trans [rotated])
  ultimately show ?thesis using r n by (simp add: mkeys_def)
qed

subsection \<open>Reachable states\<close>

text \<open>The steps of the process: messages from the broker, queued ticks and the timer.\<close>

inductive sched_reachable :: "fusing \<Rightarrow> Manager \<Rightarrow> bool" for f where
  Start: "in_int64 interval \<Longrightarrow> sched_reachable f (NewManager interval)"
| Handle: "sched_reachable f m \<Longrightarrow> sched_reachable f (fst (handleMessage f msg now m))"
| Tick: "sched_reachable f m \<Longrightarrow> sched_reachable f (fst (loop_tick now m))"
| Timer: "sched_reachable f m \<Longrightarrow> sched_reachable f (fst (loop_timer now m))"

lemma sched_reachable_inv: "sched_reachable f m \<Longrightarrow> sched_inv m"
  by (induction rule: sched_reachable.induct)
    (simp_all add: NewManager_sched_inv handleMessage_sched_inv loop_tick_def loop_timer_def recomputeAll_inv sched_frame_inv)

lemma effectiveGPUPressure_range:
  assumes "sched_inv m"
  shows "0 \<le> effectiveGPUPressure (mget (m_telemetry m) h) now \<and> effectiveGPUPressure (mget (m_telemetry m) h) now \<le> 3"
  using sched_invD(6) [OF assms, of h]
  by (auto simp: effectiveGPUPressure_def unknownGPUPressure_def telemetry_ok_def split: option.split)

lemma number_ranks_member: "r \<in> set (number_ranks rs) \<Longrightarrow> \<exists>x \<in> set rs. \<exists>i. r = x\<lparr>nr_Rank := i\<rparr>"
  by (force simp: number_ranks_def enumerate_eq_zip dest: set_zip_rightD)

text \<open>
  In every state the process can reach, the recompute interval is at least 200 ms, every
  ranked pressure lies between 0 and the wire's maximum 3, a node's pending count never exceeds
  the number of workloads known, the smoothed utilization, as computed in binary floating point
  with or without fused operations, stays within 0 and 100, and the catalog holds exactly one
  entry per workload identity, all of them queued or running.
\<close>

theorem reachable_bounds:
  assumes "sched_reachable f m"
  shows "intervalFloor \<le> m_interval m \<and> m_interval m < 2 ^ 63 \<and>
    (\<forall>r \<in> set (snd (rankAt now m)). 0 \<le> nr_GPUPressure r \<and> nr_GPUPressure r \<le> 3 \<and>
       0 \<le> nr_Pending r \<and> nr_Pending r \<le> int (length (m_catalog m))) \<and>
    (\<forall>h st. mget (m_telemetry m) h = Some st \<longrightarrow> 0 \<le> fval (ts_ewma st) \<and> fval (ts_ewma st) \<le> 100) \<and>
    distinct (mkeys (m_catalog m)) \<and>
    (\<forall>k w. mget (m_catalog m) k = Some w \<longrightarrow> k = wl_key w \<and> isPending w)"
proof -
  have inv: "sched_inv m" by (rule sched_reachable_inv [OF assms])
  have "0 \<le> nr_GPUPressure r \<and> nr_GPUPressure r \<le> 3 \<and> 0 \<le> nr_Pending r \<and> nr_Pending r \<le> int (length (m_catalog m))"
    if r_in: "r \<in> set (snd (rankAt now m))" for r
  proof -
    obtain h i where h: "h \<in> set (mkeys (m_nodes m))" and r: "r = (rank_entry now m h)\<lparr>nr_Rank := i\<rparr>"
      using r_in number_ranks_member by (fastforce simp: rankAt_sorted [OF inv] Let_def)
    have "h \<noteq> []" using h sched_invD(4) [OF inv, of h] by (cases "mget (m_nodes m) h") (auto simp: mget_None)
    then have "{k. node_of (m_catalog m) k = h} \<subseteq> set (mkeys (m_catalog m))"
      using mget_None [of "m_catalog m"] by (force simp: node_of_def split: option.splits)
    then have "card {k. node_of (m_catalog m) k = h} \<le> length (m_catalog m)"
      by (metis List.finite_set card_length card_mono le_trans length_map mkeys_def)
    then show ?thesis using effectiveGPUPressure_range [OF inv] by (simp add: r rank_entry_def)
  qed
  moreover have "0 \<le> fval (ts_ewma st) \<and> fval (ts_ewma st) \<le> 100" if "mget (m_telemetry m) h = Some st" for h st
    using sched_invD(6) [OF inv that] by (simp add: telemetry_ok_def fless_iff)
  ultimately show ?thesis
    using sched_invD(5,7,8) [OF inv] sched_invD(2) [OF inv] by (auto simp: wf_map_def mkeys_def)
qed

theorem reachable_bounds_witness:
  "intervalFloor \<le> m_interval demo_universe \<and> rankAt 0 demo_universe \<noteq> ([], [])"
proof -
  have "sched_reachable NoFusing demo_universe"
    unfolding demo_universe_def by (intro sched_reachable.Handle sched_reachable.Start) (simp add: in_int64_def)
  moreover have "rankAt 0 demo_universe \<noteq> ([], [])" by code_simp
  ultimately show ?thesis using reachable_bounds [of NoFusing demo_universe 0] by blast
qed

subsection \<open>Hysteresis\<close>

text \<open>The level a utilization lifts to at least, and the level it lets stand.\<close>

definition keepBand :: "float64 \<Rightarrow> int" where
  "keepBand u = (if fval u < 35 then 0 else if fval u < 65 then 1 else if fval u < 80 then 2 else 3)"

lemma pressureBand_val:
  "pressureBand u = (if fval u < 40 then 0 else if fval u < 70 then 1 else if fval u < 85 then 2 else 3)"
  by (simp add: pressureBand_def fless_iff)

lemma band_le_keep: "fval u - 5 < fval v \<Longrightarrow> pressureBand u \<le> keepBand v"
  by (simp add: pressureBand_val keepBand_def)

lemma hysteresis_closed:
  assumes "0 \<le> p" and "p \<le> 3"
  shows "pressureWithHysteresis u p = max (pressureBand u) (min p (keepBand u))"
proof -
  consider "p = 0" | "p = 1" | "p = 2" | "p = 3" using assms level_cases by blast
  then show ?thesis
    by cases (simp_all add: pressureWithHysteresis_def pressure_steps pressureBand_val keepBand_def)
qed

lemma hysteresis_mono:
  assumes "fval u \<le> fval v" and "0 \<le> p" and "p \<le> q" and "q \<le> 3"
  shows "pressureWithHysteresis u p \<le> pressureWithHysteresis v q"
proof -
  have "pressureBand u \<le> pressureBand v" "keepBand u \<le> keepBand v"
    using assms(1) by (simp_all add: pressureBand_val keepBand_def)
  then show ?thesis
    using hysteresis_closed [of p u] hysteresis_closed [of q v] assms by linarith
qed

text \<open>
  No flapping. When a sample raises the pressure level, the level falls again only once the
  smoothed utilization has dropped at least five points below the value that raised it; and a
  level the hysteresis has settled on is kept as long as the utilization stays the same.
\<close>

theorem hysteresis_does_not_flap:
  assumes "0 \<le> p" and "p \<le> 3"
  shows "(p < pressureWithHysteresis u p \<and> fval u - 5 < fval v \<longrightarrow>
      pressureWithHysteresis u p \<le> pressureWithHysteresis v (pressureWithHysteresis u p)) \<and>
    pressureWithHysteresis u (pressureWithHysteresis u p) = pressureWithHysteresis u p"
proof -
  let ?q = "pressureWithHysteresis u p"
  have q: "0 \<le> ?q" "?q \<le> 3" using pressureWithHysteresis_range [of u p] by simp_all
  have "?q \<le> pressureWithHysteresis v ?q" if "p < ?q" "fval u - 5 < fval v"
    using that band_le_keep [OF that(2)] hysteresis_closed [OF assms, of u] hysteresis_closed [OF q, of v] by linarith
  moreover have "pressureWithHysteresis u ?q = ?q"
    using band_le_keep [of u u] hysteresis_closed [OF assms, of u] hysteresis_closed [OF q, of u] by linarith
  ultimately show ?thesis by blast
qed

theorem hysteresis_does_not_flap_witness:
  "pressureWithHysteresis (of_uint 72) 1 = 2 \<and> pressureWithHysteresis (of_uint 68) 2 = 2 \<and> pressureBand (of_uint 68) = 1"
proof -
  have r: "pressureWithHysteresis (of_uint 72) 1 = 2" "pressureBand (of_uint 68) = 1"
    by (simp_all add: pressureWithHysteresis_def pressureBand_def pressure_steps)
  then show ?thesis
    using hysteresis_does_not_flap [of 1 "of_uint 72" "of_uint 68"] pressureWithHysteresis_range [of "of_uint 68" 2]
    by (auto simp: pressureWithHysteresis_def pressure_steps)
qed

subsection \<open>An idle node is offered again\<close>

definition idle_sample :: "string \<Rightarrow> NodeTelemetry \<Rightarrow> bool" where
  "idle_sample h v \<longleftrightarrow> nt_HostUUID v = h \<and> nt_GPUUtilizationPct v = 0 \<and> nt_TelemetryValid v \<and> nt_MSSince v \<le> 10000"

text \<open>A node's state is below a utilization and a level, with a sample to decay from.\<close>

definition below :: "nat \<Rightarrow> int \<Rightarrow> gpuTelemetryState \<Rightarrow> bool" where
  "below n p st \<longleftrightarrow> fval (ts_ewma st) \<le> of_nat n \<and> 0 \<le> ts_pressure st \<and> ts_pressure st \<le> p"

lemma idle_age: "ms \<le> 10000 \<Longrightarrow> normalizedTelemetryAge ms \<le> gpuTelemetryFreshness"
  by (auto simp: normalizedTelemetryAge_def gpuTelemetryFreshness_def wrap64_id in_int64_def)

lemma decay:
  "fval (muladd f gpuEWMAAlpha (of_uint 0) oneMinusAlpha (of_uint 100)) \<le> 65"
  "fval (muladd f gpuEWMAAlpha (of_uint 0) oneMinusAlpha (of_uint 65)) \<le> 43"
  "fval (muladd f gpuEWMAAlpha (of_uint 0) oneMinusAlpha (of_uint 43)) \<le> 28"
proof -
  have "\<not> fless (of_uint 65) (muladd f gpuEWMAAlpha (of_uint 0) oneMinusAlpha (of_uint 100))"
    "\<not> fless (of_uint 43) (muladd f gpuEWMAAlpha (of_uint 0) oneMinusAlpha (of_uint 65))"
    "\<not> fless (of_uint 28) (muladd f gpuEWMAAlpha (of_uint 0) oneMinusAlpha (of_uint 43))"
    by (cases f; simp add: float_eval)+
  then show "fval (muladd f gpuEWMAAlpha (of_uint 0) oneMinusAlpha (of_uint 100)) \<le> 65"
    "fval (muladd f gpuEWMAAlpha (of_uint 0) oneMinusAlpha (of_uint 65)) \<le> 43"
    "fval (muladd f gpuEWMAAlpha (of_uint 0) oneMinusAlpha (of_uint 43)) \<le> 28"
    by (simp_all add: fless_iff)
qed

lemma idle_step:
  assumes "idle_sample h v" and "case prev of None \<Rightarrow> True | Some st \<Rightarrow> below n p st" and "p \<le> 3"
    and "fval (muladd f gpuEWMAAlpha (of_uint 0) oneMinusAlpha (of_uint n)) \<le> of_nat n'"
    and "pressureWithHysteresis (of_uint n') p \<le> p'" and "0 \<le> p"
  shows "below n' p' (next_telemetry f v prev now) \<and> telemetryFreshAt (next_telemetry f v prev now) now"
proof -
  let ?prev = "case prev of None \<Rightarrow> gpuTelemetryState0 | Some st \<Rightarrow> st"
  let ?e = "muladd f gpuEWMAAlpha (of_uint 0) oneMinusAlpha (ts_ewma ?prev)"
  have age: "normalizedTelemetryAge (nt_MSSince v) \<le> gpuTelemetryFreshness"
    using assms(1) by (intro idle_age) (simp add: idle_sample_def)
  have p: "below n p ?prev"
    using assms(2,6) by (cases prev) (simp_all add: below_def gpuTelemetryState0_def fval_F)
  have e: "fval ?e \<le> of_nat n'"
    using p by (intro order_trans [OF muladd_mono assms(4)]) (simp_all add: below_def)
  have "pressureWithHysteresis ?e (ts_pressure ?prev) \<le> pressureWithHysteresis (of_uint n') p"
    using p e assms(3) by (intro hysteresis_mono) (simp_all add: below_def)
  then have q: "pressureWithHysteresis ?e (ts_pressure ?prev) \<le> p'" using assms(5) by linarith
  have z: "0 \<le> p'" using pressureWithHysteresis_range [of "of_uint n'" p] assms(5) by linarith
  have n: "next_telemetry f v prev now =
      (if prev = None \<or> \<not> telemetryFreshAt ?prev now \<or> \<not> ts_hasEWMA ?prev
       then ?prev\<lparr>ts_valid := True, ts_ageAtReceipt := normalizedTelemetryAge (nt_MSSince v), ts_receivedAt := now,
                  ts_ewma := of_uint 0, ts_pressure := pressureBand (of_uint 0), ts_hasEWMA := True\<rparr>
       else ?prev\<lparr>ts_valid := True, ts_ageAtReceipt := normalizedTelemetryAge (nt_MSSince v), ts_receivedAt := now,
                  ts_ewma := ?e, ts_pressure := pressureWithHysteresis ?e (ts_pressure ?prev), ts_hasEWMA := True\<rparr>)"
    using assms(1) age by (cases prev) (simp_all add: next_telemetry_def Let_def idle_sample_def)
  have fresh: "wrap64 (normalizedTelemetryAge (nt_MSSince v)) \<le> gpuTelemetryFreshness"
    using age normalizedTelemetryAge_nonneg [of "nt_MSSince v"]
    by (subst wrap64_id) (simp_all add: in_int64_def gpuTelemetryFreshness_def)
  show ?thesis unfolding n
    using e q z fresh pressureWithHysteresis_range [of ?e "ts_pressure ?prev"]
    by (simp add: below_def telemetryFreshAt_def time_Sub_def pressureBand_val)
qed

lemma applyTelemetryAt_get:
  "idle_sample h v \<Longrightarrow> h \<noteq> [] \<Longrightarrow>
     mget (m_telemetry (fst (applyTelemetryAt f v now m))) h = Some (next_telemetry f v (mget (m_telemetry m) h) now)"
  by (simp add: applyTelemetryAt_def Let_def idle_sample_def mget_mput)

text \<open>
  C33. Whatever pressure a node had built up, three idle samples in a row bring it down to zero,
  at whatever times they arrive, so a node that finished its work is ranked as unloaded again.
\<close>

theorem idle_node_recovers:
  assumes "sched_inv m" and "h \<noteq> []" and "idle_sample h v1" and "idle_sample h v2" and "idle_sample h v3"
  shows "gpuPressureAt (fst (applyTelemetryAt f v3 t3 (fst (applyTelemetryAt f v2 t2 (fst (applyTelemetryAt f v1 t1 m)))))) h t3 = 0"
proof -
  define s1 where "s1 = next_telemetry f v1 (mget (m_telemetry m) h) t1"
  define s2 where "s2 = next_telemetry f v2 (Some s1) t2"
  define s3 where "s3 = next_telemetry f v3 (Some s2) t3"
  have lift: "pressureWithHysteresis (of_uint 65) 3 \<le> 2" "pressureWithHysteresis (of_uint 43) 2 \<le> 1"
    "pressureWithHysteresis (of_uint 28) 1 \<le> 0"
    by (simp_all add: hysteresis_closed pressureBand_val keepBand_def)
  have "case mget (m_telemetry m) h of None \<Rightarrow> True | Some st \<Rightarrow> below 100 3 st"
    using sched_invD(6) [OF assms(1), of h] by (auto simp: below_def telemetry_ok_def fless_iff split: option.split)
  then have "below 65 2 s1"
    unfolding s1_def using idle_step [OF assms(3), where n' = 65 and n = 100 and p = 3] decay(1) [of f] lift(1) by simp
  then have "below 43 1 s2"
    unfolding s2_def using idle_step [OF assms(4), where prev = "Some s1" and n = 65 and p = 2 and n' = 43] decay(2) [of f] lift(2) by simp
  then have "below 28 0 s3 \<and> telemetryFreshAt s3 t3"
    unfolding s3_def using idle_step [OF assms(5), where prev = "Some s2" and n = 43 and p = 1 and n' = 28] decay(3) [of f] lift(3) by simp
  then have "effectiveGPUPressure (Some s3) t3 = 0" by (simp add: effectiveGPUPressure_def below_def)
  then show ?thesis
    using assms(2-5) by (simp add: gpuPressureAt_def applyTelemetryAt_get s1_def s2_def s3_def)
qed

definition demo_sample :: "int \<Rightarrow> NodeTelemetry" where
  "demo_sample u = \<lparr>nt_HostUUID = ''a'', nt_GPUUtilizationPct = u, nt_TelemetryValid = True, nt_MSSince = 0\<rparr>"

theorem idle_node_recovers_witness:
  "gpuPressureAt (fst (applyTelemetryAt NoFusing (demo_sample 100) 0 demo_universe)) ''a'' 0 = 3 \<and>
   gpuPressureAt (fst (applyTelemetryAt NoFusing (demo_sample 0) 3 (fst (applyTelemetryAt NoFusing (demo_sample 0) 2
     (fst (applyTelemetryAt NoFusing (demo_sample 0) 1
       (fst (applyTelemetryAt NoFusing (demo_sample 100) 0 demo_universe)))))))) ''a'' 3 = 0"
proof -
  let ?m = "fst (applyTelemetryAt NoFusing (demo_sample 100) 0 demo_universe)"
  have t: "m_telemetry demo_universe = []" by code_simp
  have g: "mget (m_telemetry ?m) ''a'' = Some (gpuTelemetryState0\<lparr>ts_valid := True, ts_ageAtReceipt := 0,
      ts_receivedAt := 0, ts_ewma := of_uint 100, ts_pressure := 3, ts_hasEWMA := True\<rparr>)"
    by (simp add: applyTelemetryAt_def demo_sample_def Let_def t mget_mput next_telemetry_def
        normalizedTelemetryAge_def gpuTelemetryFreshness_def pressureBand_val)
  have "sched_inv ?m"
    using applyTelemetry_inv [OF demo_universe_inv, of NoFusing "Some (JObj [(''hostUuid'', JStr ''a''),
        (''gpuUtilizationPercent'', JInt 100), (''telemetryValid'', JBool True)])" 0]
    by (simp add: applyTelemetry_def telemetry_fields_def json_simps demo_sample_def)
  moreover have "idle_sample ''a'' (demo_sample 0)" by (simp add: idle_sample_def demo_sample_def)
  ultimately show ?thesis
    using idle_node_recovers [of ?m "''a''" "demo_sample 0" "demo_sample 0" "demo_sample 0" NoFusing 3 2 1] g
    by (simp add: gpuPressureAt_def effectiveGPUPressure_def telemetryFreshAt_def time_Sub_def
        gpuTelemetryFreshness_def wrap64_def)
qed

text \<open>
  \<open>scheduler:set-interval\<close> refuses a missing, malformed or non-positive value; a positive
  one of at most 9223372036854 ms is stored, raised to 200 ms if shorter, and reported back. The
  conversion to a \<open>Duration\<close> wraps around above that, and the value is then whatever the
  wrapped product gives, or 200 ms.
\<close>

theorem set_interval_exact:
  "handle_set_interval msg m =
     (case Unmarshal (dec_struct interval_fields) 0 (msg_Params msg) of
        Some ms \<Rightarrow>
          if ms \<le> 0 then (m, [RespondError (msg_ID msg) (- 32602)])
          else if ms \<le> 9223372036854
          then (m\<lparr>m_interval := max 200 ms * Millisecond\<rparr>,
                [Respond (msg_ID msg) (JObj [(''interval_ms'', JInt (max 200 ms))])])
          else (let d = max intervalFloor (wrap64 (ms * Millisecond)) in
                (m\<lparr>m_interval := d\<rparr>, [Respond (msg_ID msg) (JObj [(''interval_ms'', JInt (d div Millisecond))])]))
      | None \<Rightarrow> (m, [RespondError (msg_ID msg) (- 32602)]))"
proof (cases "Unmarshal (dec_struct interval_fields) 0 (msg_Params msg)")
  case (Some ms)
  have ms: "wrap64 (ms * Millisecond) = ms * Millisecond" if "0 < ms" "ms \<le> 9223372036854"
    using that by (intro wrap64_id) (simp add: in_int64_def)
  have pos: "Milliseconds d = d div Millisecond" if "200 * Millisecond \<le> d" for d
    using that by (simp add: Milliseconds_def sgn_if)
  consider "ms \<le> 0" | "0 < ms" "ms < 200" | "200 \<le> ms" "ms \<le> 9223372036854" | "9223372036854 < ms" by linarith
  then show ?thesis
  proof cases
    case 4
    let ?d = "if wrap64 (ms * Millisecond) < intervalFloor then intervalFloor else wrap64 (ms * Millisecond)"
    have "?d = max intervalFloor (wrap64 (ms * Millisecond))" by simp
    moreover have "Milliseconds (max intervalFloor x) = max intervalFloor x div Millisecond" for x
      by (rule pos) (simp add: intervalFloor_def)
    ultimately show ?thesis using 4 Some by (simp add: handle_set_interval_def Let_def)
  qed (simp_all add: handle_set_interval_def Let_def Some ms pos intervalFloor_def max_def)
qed (simp add: handle_set_interval_def)

end
