(* ===== verification/BrokerDirectory.thy ===== *)
theory BrokerDirectory
  imports Deliveries NetPick Scheduler "HOL-Library.Word"
begin

section \<open>The broker's node directory\<close>

text \<open>
  \<open>nvpair-ui-broker\<close>: the client-facing discovery store fed by the scanner and by the manual nodes
  (\<open>discovery.go\<close>, \<open>manualnodes.go\<close> and the manual-node handlers of \<open>broker.go\<close>), the telemetry cache
  (\<open>telemetry.go\<close>), the relay of the node directory to the workers (\<open>relay/relay.go\<close>), the delivery of
  scheduler priorities to the proxies and the relay of activity reports (\<open>broker.go\<close>). Handlers return
  what they send; a pointer that would be dereferenced while \<open>nil\<close> panics.
\<close>

subsection \<open>Nodes\<close>

record EnrichedNode =
  en_ID :: string
  en_HostUUID :: string
  en_Host :: string
  en_Port :: int
  en_Addresses :: "string list"
  en_TXT :: "string list"
  en_GPUs :: "GPUInfo list"
  en_CPU :: "CPUInfo option"
  en_Memory :: "MemoryInfo option"
  en_Trusted :: bool
  en_Clustered :: bool
  en_Models :: "string list"
  en_ModelsByEngine :: "(string, string list) gomap option"
  en_LoadedByEngine :: "(string, string list) gomap option"

definition directoryToEnriched :: "DirectoryNode \<Rightarrow> EnrichedNode" where
  "directoryToEnriched n =
     \<lparr>en_ID = d_Name n, en_HostUUID = d_HostUUID n, en_Host = d_Name n,
      en_Port = (case nget (d_Services n) ServiceNodeInfo of None \<Rightarrow> 0 | Some ni \<Rightarrow> ss_Port ni),
      en_Addresses = CandidateIPs n,
      en_TXT = AddressTXT n @ (if d_HostUUID n \<noteq> [] then [''uuid='' @ d_HostUUID n] else []),
      en_GPUs = d_GPUs n, en_CPU = d_CPU n, en_Memory = d_Memory n, en_Trusted = d_Trusted n,
      en_Clustered = d_Clustered n, en_Models = d_Models n, en_ModelsByEngine = d_ModelsByEngine n,
      en_LoadedByEngine = d_LoadedByEngine n\<rparr>"

definition storeKey :: "EnrichedNode \<Rightarrow> string" where
  "storeKey n = en_HostUUID n"

datatype nodeSource = sourceScanner | sourceManual

record storedNode =
  sd_scanner :: "EnrichedNode option"
  sd_manual :: "EnrichedNode option"
  sd_lastSeen :: time

definition storedNode0 :: storedNode where
  "storedNode0 = \<lparr>sd_scanner = None, sd_manual = None, sd_lastSeen = zero_time\<rparr>"

definition projected :: "storedNode \<Rightarrow> EnrichedNode go" where
  "projected sn =
     (case sd_scanner sn of
        Some n \<Rightarrow> Returns n
      | None \<Rightarrow> (case sd_manual sn of Some n \<Rightarrow> Returns n | None \<Rightarrow> Panics))"

definition claimed :: "storedNode \<Rightarrow> bool" where
  "claimed sn \<longleftrightarrow> sd_scanner sn \<noteq> None \<or> sd_manual sn \<noteq> None"

definition setSource :: "nodeSource \<Rightarrow> EnrichedNode option \<Rightarrow> storedNode \<Rightarrow> storedNode" where
  "setSource source n sn =
     (case source of sourceScanner \<Rightarrow> sn\<lparr>sd_scanner := n\<rparr> | sourceManual \<Rightarrow> sn\<lparr>sd_manual := n\<rparr>)"

definition hasSource :: "nodeSource \<Rightarrow> storedNode \<Rightarrow> bool" where
  "hasSource source sn =
     (case source of sourceScanner \<Rightarrow> sd_scanner sn \<noteq> None | sourceManual \<Rightarrow> sd_manual sn \<noteq> None)"

subsection \<open>The discovery store\<close>

type_synonym discoveryStore = "(string, storedNode) gomap"

text \<open>The flag tells whether the change hook was invoked.\<close>

definition Upsert :: "time \<Rightarrow> EnrichedNode \<Rightarrow> nodeSource \<Rightarrow> discoveryStore \<Rightarrow> discoveryStore \<times> bool" where
  "Upsert now n source s =
     (let key = storeKey n in
      if key = [] then (s, False)
      else let sn = (case mget s key of None \<Rightarrow> storedNode0 | Some sn \<Rightarrow> sn)
           in (mput key ((setSource source (Some n) sn)\<lparr>sd_lastSeen := now\<rparr>) s, True))"

text \<open>\<open>Remove\<close> returns the store, whether that was the final claim, and whether the hook was invoked.\<close>

definition Remove :: "time \<Rightarrow> string \<Rightarrow> nodeSource \<Rightarrow> discoveryStore \<Rightarrow> discoveryStore \<times> bool \<times> bool" where
  "Remove now key source s =
     (if key = [] then (s, False, False)
      else case mget s key of
        None \<Rightarrow> (s, False, False)
      | Some sn \<Rightarrow>
          if \<not> hasSource source sn then (s, False, False)
          else let sn' = setSource source None sn in
            if \<not> claimed sn' then (mdel key s, True, True)
            else (mput key (sn'\<lparr>sd_lastSeen := now\<rparr>) s, False, True))"

record AvailableNode =
  av_ID :: string
  av_Name :: string
  av_HostUUID :: string
  av_IPAddress :: string
  av_IPAddresses :: "string list"
  av_Port :: int
  av_LastSeen :: int
  av_Trusted :: bool
  av_Clustered :: bool
  av_Models :: "string list"
  av_ModelsByEngine :: "(string, string list) gomap option"
  av_LoadedByEngine :: "(string, string list) gomap option"

definition available_of :: "EnrichedNode \<Rightarrow> time \<Rightarrow> AvailableNode" where
  "available_of n lastSeen =
     (let candidates = Candidates (en_TXT n) (en_Addresses n) in
      \<lparr>av_ID = en_ID n, av_Name = en_ID n, av_HostUUID = en_HostUUID n,
       av_IPAddress = (if candidates = [] then [] else hd candidates),
       av_IPAddresses = (if length candidates < 2 then [] else candidates),
       av_Port = en_Port n, av_LastSeen = lastSeen div Second, av_Trusted = en_Trusted n,
       av_Clustered = en_Clustered n, av_Models = en_Models n, av_ModelsByEngine = en_ModelsByEngine n,
       av_LoadedByEngine = en_LoadedByEngine n\<rparr>)"

definition toAvailable :: "storedNode \<Rightarrow> AvailableNode go" where
  "toAvailable sn =
     (case projected sn of Panics \<Rightarrow> Panics | Returns n \<Rightarrow> Returns (available_of n (sd_lastSeen sn)))"

fun collect :: "storedNode list \<Rightarrow> AvailableNode list go" where
  "collect [] = Returns []"
| "collect (sn # sns) =
     (case toAvailable sn of
        Panics \<Rightarrow> Panics
      | Returns a \<Rightarrow> (case collect sns of Panics \<Rightarrow> Panics | Returns as \<Rightarrow> Returns (a # as)))"

definition store_Snapshot :: "discoveryStore \<Rightarrow> AvailableNode list go" where
  "store_Snapshot s =
     (case collect (mvals s) of
        Panics \<Rightarrow> Panics
      | Returns out \<Rightarrow> Returns (sort_by (\<lambda>a b. av_ID a < av_ID b) out))"

subsection \<open>Telemetry\<close>

definition maxTelemetryMilliseconds :: int where "maxTelemetryMilliseconds = 2 ^ 63 - 1"

record telemetryObservation =
  ob_value :: NodeTelemetry
  ob_receivedAt :: time

record telemetrySources =
  ts_scanner :: "telemetryObservation option"
  ts_manual :: "telemetryObservation option"

definition tele_set :: "nodeSource \<Rightarrow> telemetryObservation option \<Rightarrow> telemetrySources \<Rightarrow> telemetrySources" where
  "tele_set source ob s =
     (case source of sourceScanner \<Rightarrow> s\<lparr>ts_scanner := ob\<rparr> | sourceManual \<Rightarrow> s\<lparr>ts_manual := ob\<rparr>)"

definition tele_source :: "nodeSource \<Rightarrow> telemetrySources \<Rightarrow> telemetryObservation option" where
  "tele_source source s = (case source of sourceScanner \<Rightarrow> ts_scanner s | sourceManual \<Rightarrow> ts_manual s)"

definition tele_projected :: "telemetrySources \<Rightarrow> telemetryObservation option" where
  "tele_projected s = (case ts_scanner s of Some ob \<Rightarrow> Some ob | None \<Rightarrow> ts_manual s)"

text \<open>
  \<open>Milliseconds()\<close> truncates towards zero; a negative age has already been rejected when it is used.
\<close>

definition observedTelemetryAt :: "telemetryObservation \<Rightarrow> time \<Rightarrow> NodeTelemetry" where
  "observedTelemetryAt ob now =
     (let v0 = ob_value ob in
      if \<not> nt_TelemetryValid v0 then v0\<lparr>nt_MSSince := 0\<rparr>
      else
        (let v = (if nt_MSSince v0 < 0 then v0\<lparr>nt_MSSince := 0\<rparr> else v0);
             elapsed = (now - ob_receivedAt ob) div Millisecond
         in if elapsed \<le> 0 then v
            else if elapsed > maxTelemetryMilliseconds - nt_MSSince v
            then v\<lparr>nt_MSSince := maxTelemetryMilliseconds\<rparr>
            else v\<lparr>nt_MSSince := nt_MSSince v + elapsed\<rparr>))"

type_synonym telemetryCache = "(string, telemetrySources) gomap"

definition tele_Upsert ::
  "nodeSource \<Rightarrow> NodeTelemetry \<Rightarrow> time \<Rightarrow> telemetryCache \<Rightarrow> telemetryCache \<times> NodeTelemetry option" where
  "tele_Upsert source v receivedAt c =
     (if nt_HostUUID v = [] then (c, None)
      else
        (let s = tele_set source (Some \<lparr>ob_value = v, ob_receivedAt = receivedAt\<rparr>)
                   (case mget c (nt_HostUUID v) of None \<Rightarrow> \<lparr>ts_scanner = None, ts_manual = None\<rparr> | Some s \<Rightarrow> s)
         in (mput (nt_HostUUID v) s c,
             (case tele_projected s of None \<Rightarrow> None | Some ob \<Rightarrow> Some (observedTelemetryAt ob receivedAt)))))"

definition tele_Remove ::
  "string \<Rightarrow> nodeSource \<Rightarrow> time \<Rightarrow> telemetryCache \<Rightarrow> telemetryCache \<times> NodeTelemetry option" where
  "tele_Remove hostUUID source now c =
     (if hostUUID = [] then (c, None)
      else case mget c hostUUID of
        None \<Rightarrow> (c, None)
      | Some s \<Rightarrow>
          if tele_source source s = None then (c, None)
          else let s' = tele_set source None s in
            (case tele_projected s' of
               None \<Rightarrow> (mdel hostUUID c, Some \<lparr>nt_HostUUID = hostUUID, nt_GPUUtilizationPct = 0, nt_TelemetryValid = False, nt_MSSince = 0\<rparr>)
             | Some ob \<Rightarrow> (mput hostUUID s' c, Some (observedTelemetryAt ob now))))"

definition tele_Snapshot :: "time \<Rightarrow> telemetryCache \<Rightarrow> NodeTelemetry list" where
  "tele_Snapshot now c =
     sort_by (\<lambda>a b. nt_HostUUID a < nt_HostUUID b)
       (concat (map (\<lambda>s. case tele_projected s of None \<Rightarrow> [] | Some ob \<Rightarrow> [observedTelemetryAt ob now]) (mvals c)))"

subsection \<open>Manual nodes\<close>

record manualNodeStatus =
  mn_ID :: string
  mn_Address :: string
  mn_OllamaUp :: bool
  mn_OllamaPort :: int
  mn_OllamaModels :: "string list"
  mn_LMStudioUp :: bool
  mn_LMStudioPort :: int
  mn_LMStudioModels :: "string list"
  mn_NodeInfoPort :: int
  mn_GPUs :: "GPUInfo list"
  mn_CPU :: "CPUInfo option"
  mn_Memory :: "MemoryInfo option"
  mn_TelemetryValid :: bool
  mn_MSSince :: int
  mn_HostUUID :: string

definition manualNodeStatus0 :: manualNodeStatus where
  "manualNodeStatus0 = \<lparr>mn_ID = [], mn_Address = [], mn_OllamaUp = False, mn_OllamaPort = 0, mn_OllamaModels = [],
     mn_LMStudioUp = False, mn_LMStudioPort = 0, mn_LMStudioModels = [], mn_NodeInfoPort = 0, mn_GPUs = [],
     mn_CPU = None, mn_Memory = None, mn_TelemetryValid = False, mn_MSSince = 0, mn_HostUUID = []\<rparr>"

definition manual_fields :: "manualNodeStatus field list" where
  "manual_fields =
     [fld ''id'' dec_string mn_ID (\<lambda>v r. r\<lparr>mn_ID := v\<rparr>),
      fld ''address'' dec_string mn_Address (\<lambda>v r. r\<lparr>mn_Address := v\<rparr>),
      fld ''ollama_up'' dec_bool mn_OllamaUp (\<lambda>v r. r\<lparr>mn_OllamaUp := v\<rparr>),
      fld ''ollama_port'' dec_int64 mn_OllamaPort (\<lambda>v r. r\<lparr>mn_OllamaPort := v\<rparr>),
      fld ''ollama_models'' (dec_slice dec_string []) mn_OllamaModels (\<lambda>v r. r\<lparr>mn_OllamaModels := v\<rparr>),
      fld ''lmstudio_up'' dec_bool mn_LMStudioUp (\<lambda>v r. r\<lparr>mn_LMStudioUp := v\<rparr>),
      fld ''lmstudio_port'' dec_int64 mn_LMStudioPort (\<lambda>v r. r\<lparr>mn_LMStudioPort := v\<rparr>),
      fld ''lmstudio_models'' (dec_slice dec_string []) mn_LMStudioModels (\<lambda>v r. r\<lparr>mn_LMStudioModels := v\<rparr>),
      fld ''node_info_port'' dec_int64 mn_NodeInfoPort (\<lambda>v r. r\<lparr>mn_NodeInfoPort := v\<rparr>),
      fld ''gpus'' (dec_slice (dec_struct gpu_fields)
          \<lparr>g_Name = [], g_VramBytes = 0, g_VramUsedBytes = 0, g_UtilizationPercent = 0\<rparr>)
        mn_GPUs (\<lambda>v r. r\<lparr>mn_GPUs := v\<rparr>),
      fld ''cpu'' (dec_ptr (dec_struct cpu_fields) \<lparr>c_Name = [], c_Cores = 0, c_UtilizationPercent = 0\<rparr>)
        mn_CPU (\<lambda>v r. r\<lparr>mn_CPU := v\<rparr>),
      fld ''memory'' (dec_ptr (dec_struct memory_fields) \<lparr>mem_TotalBytes = 0, mem_UsedBytes = 0\<rparr>)
        mn_Memory (\<lambda>v r. r\<lparr>mn_Memory := v\<rparr>),
      fld ''telemetryValid'' dec_bool mn_TelemetryValid (\<lambda>v r. r\<lparr>mn_TelemetryValid := v\<rparr>),
      fld ''msSince'' dec_int64 mn_MSSince (\<lambda>v r. r\<lparr>mn_MSSince := v\<rparr>),
      fld ''hostUuid'' dec_string mn_HostUUID (\<lambda>v r. r\<lparr>mn_HostUUID := v\<rparr>)]"

definition manualNodeTelemetry :: "manualNodeStatus \<Rightarrow> string \<Rightarrow> NodeTelemetry" where
  "manualNodeTelemetry st hostUUID =
     \<lparr>nt_HostUUID = hostUUID,
      nt_GPUUtilizationPct = foldl (\<lambda>u g. if g_UtilizationPercent g > u then g_UtilizationPercent g else u) 0 (mn_GPUs st),
      nt_TelemetryValid = mn_TelemetryValid st, nt_MSSince = mn_MSSince st\<rparr>"

fun merge_into :: "string list \<Rightarrow> string list \<Rightarrow> string list" where
  "merge_into out [] = out"
| "merge_into out (m # ms) = merge_into (if m \<noteq> [] \<and> m \<notin> set out then out @ [m] else out) ms"

definition mergeModels :: "string list list \<Rightarrow> string list" where
  "mergeModels ls = foldl merge_into [] ls"

definition manualModelsByEngine :: "manualNodeStatus \<Rightarrow> (string, string list) gomap option" where
  "manualModelsByEngine s =
     (let byEngine = (if mn_OllamaModels s \<noteq> [] then [(''ollama'', mn_OllamaModels s)] else []) @
                     (if mn_LMStudioModels s \<noteq> [] then [(''lmstudio'', mn_LMStudioModels s)] else [])
      in if byEngine = [] then None else Some byEngine)"

definition manualToEnriched :: "manualNodeStatus \<Rightarrow> EnrichedNode" where
  "manualToEnriched s =
     \<lparr>en_ID = mn_ID s, en_HostUUID = (if mn_HostUUID s = [] then mn_ID s else mn_HostUUID s), en_Host = mn_Address s,
      en_Port = mn_NodeInfoPort s, en_Addresses = (if mn_Address s \<noteq> [] then [mn_Address s] else []), en_TXT = [],
      en_GPUs = mn_GPUs s, en_CPU = mn_CPU s, en_Memory = mn_Memory s, en_Trusted = False, en_Clustered = False,
      en_Models = mergeModels [mn_OllamaModels s, mn_LMStudioModels s],
      en_ModelsByEngine = manualModelsByEngine s, en_LoadedByEngine = None\<rparr>"

record proxyManualNode =
  pm_ID :: string
  pm_Host :: string
  pm_Port :: int
  pm_Addresses :: "string list"
  pm_Models :: "string list"

text \<open>What the directory handlers of the broker send.\<close>

datatype dir_out =
    NodesChanged
  | TelemetryOut NodeTelemetry
  | AddManual string proxyManualNode
  | RemoveManual string string
  | NodeLost string string
  | RelayNodes int "DirectoryNode list"

record manualNodeStatusEntry =
  mx_status :: manualNodeStatus
  mx_receivedAt :: time

text \<open>
  The directory state of the broker. \<open>dr_ollama\<close> and \<open>dr_lmstudio\<close> tell whether the proxy is supervised.
\<close>

record BrokerDir =
  dr_store :: discoveryStore
  dr_telemetry :: telemetryCache
  dr_manualNodeKeys :: "(string, string) gomap"
  dr_manualNodeStatuses :: "(string, manualNodeStatusEntry) gomap"
  dr_ollama :: bool
  dr_lmstudio :: bool

definition bridgeToProxy ::
  "bool \<Rightarrow> string \<Rightarrow> manualNodeStatus \<Rightarrow> string \<Rightarrow> bool \<Rightarrow> int \<Rightarrow> string list \<Rightarrow> dir_out list" where
  "bridgeToProxy present engine s key up port models =
     (if \<not> present then []
      else if up \<and> mn_Address s \<noteq> [] \<and> port > 0 then
        [AddManual engine \<lparr>pm_ID = key, pm_Host = mn_Address s, pm_Port = port, pm_Addresses = [mn_Address s], pm_Models = models\<rparr>]
      else [RemoveManual engine key])"

definition bridgeManualNode :: "BrokerDir \<Rightarrow> manualNodeStatus \<Rightarrow> string \<Rightarrow> dir_out list" where
  "bridgeManualNode b s key =
     bridgeToProxy (dr_ollama b) ''ollama'' s key (mn_OllamaUp s) (mn_OllamaPort s) (mn_OllamaModels s) @
     bridgeToProxy (dr_lmstudio b) ''lmstudio'' s key (mn_LMStudioUp s) (mn_LMStudioPort s) (mn_LMStudioModels s)"

definition removeManualNodeFromProxies :: "BrokerDir \<Rightarrow> string \<Rightarrow> dir_out list" where
  "removeManualNodeFromProxies b key =
     (if dr_ollama b then [RemoveManual ''ollama'' key] else []) @
     (if dr_lmstudio b then [RemoveManual ''lmstudio'' key] else [])"

definition store_Upsert :: "time \<Rightarrow> EnrichedNode \<Rightarrow> nodeSource \<Rightarrow> BrokerDir \<Rightarrow> BrokerDir \<times> dir_out list" where
  "store_Upsert now n source b =
     (let (s, changed) = Upsert now n source (dr_store b)
      in (b\<lparr>dr_store := s\<rparr>, if changed then [NodesChanged] else []))"

definition store_Remove :: "time \<Rightarrow> string \<Rightarrow> nodeSource \<Rightarrow> BrokerDir \<Rightarrow> BrokerDir \<times> bool \<times> dir_out list" where
  "store_Remove now key source b =
     (let (s, gone, changed) = Remove now key source (dr_store b)
      in (b\<lparr>dr_store := s\<rparr>, gone, if changed then [NodesChanged] else []))"

definition ingestTelemetryAt :: "nodeSource \<Rightarrow> NodeTelemetry \<Rightarrow> time \<Rightarrow> BrokerDir \<Rightarrow> BrokerDir \<times> dir_out list" where
  "ingestTelemetryAt source v receivedAt b =
     (let (c, out) = tele_Upsert source v receivedAt (dr_telemetry b)
      in (b\<lparr>dr_telemetry := c\<rparr>, case out of None \<Rightarrow> [] | Some t \<Rightarrow> [TelemetryOut t]))"

definition removeTelemetry :: "time \<Rightarrow> nodeSource \<Rightarrow> string \<Rightarrow> BrokerDir \<Rightarrow> BrokerDir \<times> dir_out list" where
  "removeTelemetry now source hostUUID b =
     (let (c, out) = tele_Remove hostUUID source now (dr_telemetry b)
      in (b\<lparr>dr_telemetry := c\<rparr>, case out of None \<Rightarrow> [] | Some t \<Rightarrow> [TelemetryOut t]))"

definition surviving_alias :: "string \<Rightarrow> (string, string) gomap \<Rightarrow> string" where
  "surviving_alias key keys =
     foldl (\<lambda>best (i, k). if k = key \<and> (best = [] \<or> i < best) then i else best) [] keys"

definition survivingAliasLocked :: "string \<Rightarrow> BrokerDir \<Rightarrow> manualNodeStatusEntry option" where
  "survivingAliasLocked key b =
     (let best = surviving_alias key (dr_manualNodeKeys b) in
      if best = [] then None
      else Some (case mget (dr_manualNodeStatuses b) best of
                   Some e \<Rightarrow> e
                 | None \<Rightarrow> \<lparr>mx_status = manualNodeStatus0, mx_receivedAt = zero_time\<rparr>))"

definition reprojectOrRelease :: "time \<Rightarrow> string \<Rightarrow> BrokerDir \<Rightarrow> BrokerDir \<times> dir_out list" where
  "reprojectOrRelease now key b =
     (if key = [] then (b, [])
      else case survivingAliasLocked key b of
        Some e \<Rightarrow>
          (let (b1, o1) = store_Upsert now (manualToEnriched (mx_status e)) sourceManual b;
               o2 = bridgeManualNode b1 (mx_status e) key;
               (b2, o3) = ingestTelemetryAt sourceManual (manualNodeTelemetry (mx_status e) key) (mx_receivedAt e) b1
           in (b2, o1 @ o2 @ o3))
      | None \<Rightarrow>
          (let (b1, gone, o1) = store_Remove now key sourceManual b;
               o2 = removeManualNodeFromProxies b1 key;
               (b2, o3) = removeTelemetry now sourceManual key b1
           in (b2, o1 @ o2 @ o3)))"

definition upsertManualNode :: "time \<Rightarrow> manualNodeStatus \<Rightarrow> BrokerDir \<Rightarrow> BrokerDir \<times> dir_out list" where
  "upsertManualNode now s b =
     (let en = manualToEnriched s; key = storeKey en;
          old = mget (dr_manualNodeKeys b) (mn_ID s);
          b0 = b\<lparr>dr_manualNodeKeys := mput (mn_ID s) key (dr_manualNodeKeys b),
                 dr_manualNodeStatuses := mput (mn_ID s) \<lparr>mx_status = s, mx_receivedAt = now\<rparr> (dr_manualNodeStatuses b)\<rparr>;
          (b1, o1) = store_Upsert now en sourceManual b0;
          (b2, o2) = ingestTelemetryAt sourceManual (manualNodeTelemetry s key) now b1;
          o3 = bridgeManualNode b2 s key;
          (b3, o4) = (case old of
             Some oldKey \<Rightarrow> if oldKey \<noteq> key then reprojectOrRelease now oldKey b2 else (b2, [])
           | None \<Rightarrow> (b2, []))
      in (b3, o1 @ o2 @ o3 @ o4))"

definition removeManualNode :: "time \<Rightarrow> string \<Rightarrow> BrokerDir \<Rightarrow> BrokerDir \<times> dir_out list" where
  "removeManualNode now i b =
     (let b0 = b\<lparr>dr_manualNodeKeys := mdel i (dr_manualNodeKeys b),
                 dr_manualNodeStatuses := mdel i (dr_manualNodeStatuses b)\<rparr>
      in case mget (dr_manualNodeKeys b) i of
           None \<Rightarrow> (b0, [])
         | Some key \<Rightarrow> reprojectOrRelease now key b0)"

definition drop_manual_claim :: "time \<Rightarrow> string \<Rightarrow> BrokerDir \<times> dir_out list \<Rightarrow> BrokerDir \<times> dir_out list" where
  "drop_manual_claim now key bo =
     (let (b, out) = bo;
          (b1, gone, o1) = store_Remove now key sourceManual b;
          (b2, o2) = removeTelemetry now sourceManual key b1
      in (b2, out @ o1 @ o2 @ removeManualNodeFromProxies b2 key))"

definition clearManualNodesState :: "time \<Rightarrow> BrokerDir \<Rightarrow> BrokerDir \<times> dir_out list" where
  "clearManualNodesState now b =
     fold (drop_manual_claim now) (remdups (mvals (dr_manualNodeKeys b)))
       (b\<lparr>dr_manualNodeKeys := [], dr_manualNodeStatuses := []\<rparr>, [])"

definition forwardManualNodesNotification :: "time \<Rightarrow> string \<Rightarrow> raw \<Rightarrow> BrokerDir \<Rightarrow> BrokerDir \<times> dir_out list" where
  "forwardManualNodesNotification now meth params b =
     (if meth = ''node/discovered'' \<or> meth = ''node/updated'' then
        (case Unmarshal (dec_struct manual_fields) manualNodeStatus0 params of
           None \<Rightarrow> (b, [])
         | Some s \<Rightarrow> if mn_ID s = [] then (b, []) else upsertManualNode now s b)
      else if meth = ''node/removed'' then
        (case Unmarshal (dec_struct manual_fields) manualNodeStatus0 params of
           None \<Rightarrow> (b, [])
         | Some s \<Rightarrow> removeManualNode now (mn_ID s) b)
      else (b, []))"

subsection \<open>The relay\<close>

record RegisterParams =
  rg_Service :: ServiceKey
  rg_Port :: int
  rg_TXT :: "string list"

type_synonym RegistrationCache = "(ServiceKey, RegisterParams) gomap"

definition registerEqual :: "RegisterParams \<Rightarrow> RegisterParams \<Rightarrow> bool" where
  "registerEqual a b \<longleftrightarrow> rg_Service a = rg_Service b \<and> rg_Port a = rg_Port b \<and>
     length (rg_TXT a) = length (rg_TXT b) \<and> (\<forall>i < length (rg_TXT a). rg_TXT a ! i = rg_TXT b ! i)"

definition Register :: "RegisterParams \<Rightarrow> RegistrationCache \<Rightarrow> RegistrationCache \<times> bool" where
  "Register p c =
     (if rg_Service p = [] \<or> rg_Port p = 0 then (c, False)
      else case mget c (rg_Service p) of
        Some prev \<Rightarrow> if registerEqual prev p then (c, False) else (mput (rg_Service p) p c, True)
      | None \<Rightarrow> (mput (rg_Service p) p c, True))"

definition Unregister :: "ServiceKey \<Rightarrow> RegistrationCache \<Rightarrow> RegistrationCache \<times> bool" where
  "Unregister s c = (if mget c s = None then (c, False) else (mdel s c, True))"

definition reg_Snapshot :: "RegistrationCache \<Rightarrow> RegisterParams list" where
  "reg_Snapshot c = sort_by (\<lambda>a b. rg_Service a < rg_Service b) (mvals c)"

record Directory =
  di_nodes :: "(string, DirectoryNode) gomap"
  di_subs :: "(int, ServiceKey list) gomap"
  di_nextID :: int

definition NewDirectory :: Directory where
  "NewDirectory = \<lparr>di_nodes = [], di_subs = [], di_nextID = 0\<rparr>"

definition Subscribe :: "ServiceKey list \<Rightarrow> Directory \<Rightarrow> Directory \<times> int" where
  "Subscribe filt d =
     (let i = di_nextID d + 1 in (d\<lparr>di_nextID := i, di_subs := mput i filt (di_subs d)\<rparr>, i))"

definition Unsubscribe :: "int \<Rightarrow> Directory \<Rightarrow> Directory" where
  "Unsubscribe i d = d\<lparr>di_subs := mdel i (di_subs d)\<rparr>"

definition less_host :: "DirectoryNode \<Rightarrow> DirectoryNode \<Rightarrow> bool" where
  "less_host a b \<longleftrightarrow> d_HostUUID a < d_HostUUID b"

definition filteredLocked :: "ServiceKey list \<Rightarrow> Directory \<Rightarrow> DirectoryNode list" where
  "filteredLocked filt d = sort_by less_host (filter (Matches filt) (mvals (di_nodes d)))"

definition dir_Snapshot :: "ServiceKey \<Rightarrow> Directory \<Rightarrow> DirectoryNode list" where
  "dir_Snapshot filt d =
     sort_by less_host (filter (\<lambda>n. filt = [] \<or> HasService filt n) (mvals (di_nodes d)))"

definition NotifyNodeRemoved :: string where "NotifyNodeRemoved = ''discovery:node-removed''"
definition NotifyNodeDiscovered :: string where "NotifyNodeDiscovered = ''discovery:node-discovered''"
definition NotifyNodeUpdated :: string where "NotifyNodeUpdated = ''discovery:node-updated''"
definition NotifyNodeTelemetry :: string where "NotifyNodeTelemetry = ''discovery:node-telemetry''"

text \<open>The first critical section of \<open>Apply\<close>: the new directory and the subscribers to deliver to.\<close>

definition Apply :: "string \<Rightarrow> DirectoryNode \<Rightarrow> Directory \<Rightarrow> Directory \<times> (int \<times> ServiceKey list) list" where
  "Apply meth node d =
     (let d' = d\<lparr>di_nodes := (if meth = NotifyNodeRemoved then mdel (d_HostUUID node) (di_nodes d)
                              else mput (d_HostUUID node) node (di_nodes d))\<rparr>
      in (d', di_subs d'))"

definition node_event_fields :: "DirectoryNode field list" where
  "node_event_fields = [fld ''node'' (dec_struct node_fields) id (\<lambda>v r. v)]"

text \<open>
  The scanner's notifications, run without interference: directory, telemetry, store and lost nodes.
\<close>

definition handleNotify ::
  "time \<Rightarrow> string \<Rightarrow> raw \<Rightarrow> Directory \<Rightarrow> BrokerDir \<Rightarrow> Directory \<times> BrokerDir \<times> dir_out list" where
  "handleNotify now meth params d b =
     (if meth = NotifyNodeDiscovered \<or> meth = NotifyNodeUpdated \<or> meth = NotifyNodeRemoved then
        (case Unmarshal (dec_struct node_event_fields) DirectoryNode0 params of
           None \<Rightarrow> (d, b, [])
         | Some node \<Rightarrow>
             (let (d', subs) = Apply meth node d;
                  o1 = map (\<lambda>(i, f). RelayNodes i (filteredLocked f d')) subs;
                  (b1, o2) = (if meth = NotifyNodeRemoved then removeTelemetry now sourceScanner (d_HostUUID node) b else (b, []))
              in if meth = NotifyNodeRemoved then
                   (let (b2, gone, o3) = store_Remove now (storeKey (directoryToEnriched node)) sourceScanner b1
                    in (d', b2, o1 @ o2 @ o3 @ (if gone then [NodeLost (d_HostUUID node) (d_Name node)] else [])))
                 else
                   (let (b2, o3) = store_Upsert now (directoryToEnriched node) sourceScanner b1
                    in (d', b2, o1 @ o2 @ o3))))
      else if meth = NotifyNodeTelemetry then
        (case Unmarshal (dec_struct telemetry_fields)
            \<lparr>nt_HostUUID = [], nt_GPUUtilizationPct = 0, nt_TelemetryValid = False, nt_MSSince = 0\<rparr> params of
           None \<Rightarrow> (d, b, [])
         | Some t \<Rightarrow>
             if nt_HostUUID t = [] then (d, b, [])
             else let (b1, o1) = ingestTelemetryAt sourceScanner t now b in (d, b1, o1))
      else (d, b, []))"

subsection \<open>The relay under concurrency\<close>

text \<open>
  \<open>Apply\<close> and \<open>subscribeRelay\<close> leave deliveries to run after the directory lock is released.
  \<open>Deliver\<close> takes the subscriber's \<open>sendMu\<close>, captures the filtered set under the directory lock and
  hands it to \<open>Send\<close>; what a worker holds is the set it was handed last. \<open>rl_pending\<close> are the calls of
  \<open>Deliver\<close> that have not started, with the subscriber's filter; \<open>rl_sending\<close> the set captured by the call
  that holds \<open>sendMu\<close>.
\<close>

record RelaySys =
  rl_dir :: Directory
  rl_pending :: "(int \<times> ServiceKey list) list"
  rl_sending :: "(int, DirectoryNode list) gomap"
  rl_view :: "(int, DirectoryNode list) gomap"

definition relay_apply :: "string \<Rightarrow> DirectoryNode \<Rightarrow> RelaySys \<Rightarrow> RelaySys" where
  "relay_apply meth node s =
     (let (d, subs) = Apply meth node (rl_dir s)
      in s\<lparr>rl_dir := d, rl_pending := rl_pending s @ subs\<rparr>)"

definition subscribeRelay :: "raw \<Rightarrow> RelaySys \<Rightarrow> RelaySys option" where
  "subscribeRelay params s =
     (case Unmarshal (dec_struct [fld ''services'' (dec_slice dec_string []) id (\<lambda>v r. v)]) [] params of
        None \<Rightarrow> None
      | Some sp \<Rightarrow>
          (let (d, i) = Subscribe sp (rl_dir s)
           in Some (s\<lparr>rl_dir := d, rl_pending := rl_pending s @ [(i, sp)]\<rparr>)))"

definition relay_unsubscribe :: "int \<Rightarrow> RelaySys \<Rightarrow> RelaySys" where
  "relay_unsubscribe i s = s\<lparr>rl_dir := Unsubscribe i (rl_dir s)\<rparr>"

definition Deliver_locked :: "int \<Rightarrow> ServiceKey list \<Rightarrow> RelaySys \<Rightarrow> RelaySys option" where
  "Deliver_locked i filt s =
     (if (i, filt) \<in> set (rl_pending s) \<and> mget (rl_sending s) i = None
      then Some (s\<lparr>rl_pending := remove1 (i, filt) (rl_pending s),
                   rl_sending := mput i (filteredLocked filt (rl_dir s)) (rl_sending s)\<rparr>)
      else None)"

definition Deliver_sent :: "int \<Rightarrow> RelaySys \<Rightarrow> RelaySys option" where
  "Deliver_sent i s =
     (case mget (rl_sending s) i of
        None \<Rightarrow> None
      | Some nodes \<Rightarrow> Some (s\<lparr>rl_view := mput i nodes (rl_view s), rl_sending := mdel i (rl_sending s)\<rparr>))"

definition RelaySys0 :: RelaySys where
  "RelaySys0 = \<lparr>rl_dir = NewDirectory, rl_pending = [], rl_sending = [], rl_view = []\<rparr>"

inductive relay_step :: "RelaySys \<Rightarrow> RelaySys \<Rightarrow> bool" where
  event: "relay_step s (relay_apply meth node s)"
| join: "subscribeRelay params s = Some s' \<Longrightarrow> relay_step s s'"
| leave: "relay_step s (relay_unsubscribe i s)"
| capture: "Deliver_locked i filt s = Some s' \<Longrightarrow> relay_step s s'"
| hand: "Deliver_sent i s = Some s' \<Longrightarrow> relay_step s s'"

subsection \<open>Delivery of priorities\<close>

text \<open>
  The scheduler's reader caches a snapshot and starts a goroutine that delivers it; a proxy that reports
  ready starts one that delivers the cached snapshot again. A delivery holds the engine's apply mutex for
  the whole round trip to the proxy process it found. \<open>ps_tasks\<close> are the goroutines that have not passed
  their first critical section, \<open>ps_sending\<close> the round trip that holds the mutex, with the process it is
  addressed to. A round trip to a process that is gone fails; one to a live process is answered.
\<close>

datatype prio_task = ApplyTask string "64 word" | RepushTask string

record ProxyHandle =
  px_process :: nat
  px_ready :: bool
  px_priority :: "Priority option"

record PrioritySys =
  ps_lastPriority :: "(string, Priority) gomap"
  ps_priorityGeneration :: "(string, 64 word) gomap"
  ps_tasks :: "prio_task list"
  ps_sending :: "(string, nat \<times> Priority) gomap"
  ps_proxies :: "(string, ProxyHandle) gomap"
  ps_spawned :: nat

definition priorityGeneration :: "string \<Rightarrow> PrioritySys \<Rightarrow> 64 word" where
  "priorityGeneration engine s = (case mget (ps_priorityGeneration s) engine of None \<Rightarrow> 0 | Some g \<Rightarrow> g)"

definition cachePrioritySnapshot :: "string \<Rightarrow> Priority \<Rightarrow> PrioritySys \<Rightarrow> PrioritySys \<times> 64 word" where
  "cachePrioritySnapshot engine p s =
     (let g = priorityGeneration engine s + 1
      in (s\<lparr>ps_lastPriority := mput engine p (ps_lastPriority s),
            ps_priorityGeneration := mput engine g (ps_priorityGeneration s)\<rparr>, g))"

definition proxyForEngine :: "string \<Rightarrow> PrioritySys \<Rightarrow> ProxyHandle option" where
  "proxyForEngine engine s =
     (if engine = ''ollama'' \<or> engine = ''lmstudio'' then mget (ps_proxies s) engine else None)"

definition forwardSchedulerNotification :: "string \<Rightarrow> raw \<Rightarrow> PrioritySys \<Rightarrow> PrioritySys" where
  "forwardSchedulerNotification meth params s =
     (if meth = ''schedule:priority'' then
        (case Unmarshal (dec_struct engine_priority_fields) EnginePriority0 params of
           None \<Rightarrow> s
         | Some p \<Rightarrow>
             (let (s', g) = cachePrioritySnapshot (ep_Engine p) (PrioritySnapshot p) s
              in s'\<lparr>ps_tasks := ps_tasks s' @ [ApplyTask (ep_Engine p) g]\<rparr>))
      else s)"

definition deliverPrioritySnapshot :: "string \<Rightarrow> 64 word \<Rightarrow> PrioritySys \<Rightarrow> PrioritySys option" where
  "deliverPrioritySnapshot engine g s =
     (if ApplyTask engine g \<in> set (ps_tasks s) \<and> mget (ps_sending s) engine = None then
        (let s' = s\<lparr>ps_tasks := remove1 (ApplyTask engine g) (ps_tasks s)\<rparr> in
         if priorityGeneration engine s \<noteq> g then Some s'
         else case proxyForEngine engine s of
           None \<Rightarrow> Some s'
         | Some px \<Rightarrow>
             (let p = (case mget (ps_lastPriority s) engine of None \<Rightarrow> \<lparr>p_Nodes = [], p_Ranks = []\<rparr> | Some p \<Rightarrow> p)
              in Some (s'\<lparr>ps_sending := mput engine (px_process px, p) (ps_sending s)\<rparr>)))
      else None)"

definition setPriorityAnswered :: "string \<Rightarrow> PrioritySys \<Rightarrow> PrioritySys option" where
  "setPriorityAnswered engine s =
     (case mget (ps_sending s) engine of
        None \<Rightarrow> None
      | Some (process, p) \<Rightarrow>
          (let s' = s\<lparr>ps_sending := mdel engine (ps_sending s)\<rparr> in
           case mget (ps_proxies s) engine of
             None \<Rightarrow> Some s'
           | Some px \<Rightarrow>
               Some (if px_process px = process
                     then s'\<lparr>ps_proxies := mput engine (px\<lparr>px_priority := Some p\<rparr>) (ps_proxies s)\<rparr>
                     else s')))"

definition repushPriority :: "string \<Rightarrow> PrioritySys \<Rightarrow> PrioritySys option" where
  "repushPriority engine s =
     (if RepushTask engine \<in> set (ps_tasks s) then
        (let ts = remove1 (RepushTask engine) (ps_tasks s) in
         Some (s\<lparr>ps_tasks := (if mget (ps_lastPriority s) engine = None then ts
                              else ts @ [ApplyTask engine (priorityGeneration engine s)])\<rparr>))
      else None)"

definition proxySpawned :: "string \<Rightarrow> PrioritySys \<Rightarrow> PrioritySys" where
  "proxySpawned engine s =
     s\<lparr>ps_proxies := mput engine \<lparr>px_process = ps_spawned s, px_ready = False, px_priority = None\<rparr> (ps_proxies s),
       ps_spawned := ps_spawned s + 1\<rparr>"

definition proxyReady :: "string \<Rightarrow> PrioritySys \<Rightarrow> PrioritySys" where
  "proxyReady engine s =
     (case proxyForEngine engine s of
        None \<Rightarrow> s
      | Some px \<Rightarrow> s\<lparr>ps_proxies := mput engine (px\<lparr>px_ready := True\<rparr>) (ps_proxies s),
                      ps_tasks := ps_tasks s @ [RepushTask engine]\<rparr>)"

definition proxyExited :: "string \<Rightarrow> PrioritySys \<Rightarrow> PrioritySys" where
  "proxyExited engine s = s\<lparr>ps_proxies := mdel engine (ps_proxies s)\<rparr>"

definition PrioritySys0 :: PrioritySys where
  "PrioritySys0 = \<lparr>ps_lastPriority = [], ps_priorityGeneration = [], ps_tasks = [], ps_sending = [],
     ps_proxies = [], ps_spawned = 0\<rparr>"

inductive priority_step :: "PrioritySys \<Rightarrow> PrioritySys \<Rightarrow> bool" where
  notify: "priority_step s (forwardSchedulerNotification meth params s)"
| deliver: "deliverPrioritySnapshot engine g s = Some s' \<Longrightarrow> priority_step s s'"
| answered: "setPriorityAnswered engine s = Some s' \<Longrightarrow> priority_step s s'"
| repush: "repushPriority engine s = Some s' \<Longrightarrow> priority_step s s'"
| spawned: "priority_step s (proxySpawned engine s)"
| ready: "priority_step s (proxyReady engine s)"
| exited: "priority_step s (proxyExited engine s)"

subsection \<open>Activity reports\<close>

definition activityAgeCeiling :: duration where "activityAgeCeiling = 3600 * Second"

text \<open>The product is computed in 64 bits.\<close>

definition clampActivityAge :: "int \<Rightarrow> duration" where
  "clampActivityAge msSince =
     (if msSince \<le> 0 then 0
      else if msSince > activityAgeCeiling div Millisecond then activityAgeCeiling
      else wrap64 (msSince * Millisecond))"

definition activityQueueDepth :: nat where "activityQueueDepth = 64"

record nodeActivityReport =
  ar_hostUUID :: string
  ar_observedAt :: time

definition reportNodeActivity :: "string \<Rightarrow> time \<Rightarrow> nodeActivityReport list \<Rightarrow> nodeActivityReport list" where
  "reportNodeActivity hostUUID observedAt q =
     (if length q < activityQueueDepth then q @ [\<lparr>ar_hostUUID = hostUUID, ar_observedAt = observedAt\<rparr>] else q)"

record NodeActivityParams =
  na_HostUUID :: string
  na_MSSince :: int

definition activity_fields :: "NodeActivityParams field list" where
  "activity_fields = [fld ''hostUuid'' dec_string na_HostUUID (\<lambda>v r. r\<lparr>na_HostUUID := v\<rparr>),
     fld ''msSince'' dec_int64 na_MSSince (\<lambda>v r. r\<lparr>na_MSSince := v\<rparr>)]"

definition routeNodeActivity :: "time \<Rightarrow> raw \<Rightarrow> nodeActivityReport list \<Rightarrow> nodeActivityReport list" where
  "routeNodeActivity now params q =
     (case Unmarshal (dec_struct activity_fields) \<lparr>na_HostUUID = [], na_MSSince = 0\<rparr> params of
        None \<Rightarrow> q
      | Some p \<Rightarrow> if na_HostUUID p = [] then q
                  else reportNodeActivity (na_HostUUID p) (now - clampActivityAge (na_MSSince p)) q)"

definition drainNodeActivity :: "time \<Rightarrow> nodeActivityReport list \<Rightarrow> nodeActivityReport list \<times> NodeActivityParams option" where
  "drainNodeActivity now q =
     (case q of
        [] \<Rightarrow> ([], None)
      | r # rs \<Rightarrow> (rs, Some \<lparr>na_HostUUID = ar_hostUUID r, na_MSSince = (now - ar_observedAt r) div Millisecond\<rparr>))"

section \<open>Deliveries settle\<close>

lemma in_remove1: "x \<in> set (remove1 y xs) \<or> x = y \<or> x \<notin> set xs"
  by (induction xs) auto

text \<open>A delivery carries the filter of the subscriber it was started for.\<close>

definition subs_ok :: "(int, ServiceKey list) gomap \<Rightarrow> int \<Rightarrow> (int \<times> ServiceKey list) list \<Rightarrow> bool" where
  "subs_ok subs n pending \<longleftrightarrow> wf_map subs \<and>
     (\<forall>(i, f) \<in> set subs. i \<le> n) \<and>
     (\<forall>(i, f) \<in> set pending. i \<le> n \<and> (\<forall>f'. mget subs i = Some f' \<longrightarrow> f' = f))"

lemma subs_ok_pending: "subs_ok subs n pending \<Longrightarrow> subs_ok subs n (pending @ subs)"
  by (auto simp: subs_ok_def mget_in_set wf_map_def eq_key_imp_eq_value)

lemma subs_ok_subset: "subs_ok subs n pending \<Longrightarrow> set pending' \<subseteq> set pending \<Longrightarrow> subs_ok subs n pending'"
  unfolding subs_ok_def by blast

lemma subs_ok_join:
  assumes "subs_ok subs n pending"
  shows "subs_ok (mput (n + 1) f subs) (n + 1) (pending @ [(n + 1, f)])"
proof -
  have wf: "wf_map subs" "wf_map (mput (n + 1) f subs)" using assms by (auto simp: subs_ok_def)
  have "i \<le> n + 1" if "(i, g) \<in> set (mput (n + 1) f subs)" for i g
  proof -
    have "mget (mput (n + 1) f subs) i = Some g" using that wf by (simp add: mget_in_set)
    then have "i = n + 1 \<or> (i, g) \<in> set subs" using wf by (auto simp: mget_mput mget_in_set split: if_splits)
    then show ?thesis using assms by (fastforce simp: subs_ok_def)
  qed
  moreover have "i \<le> n \<and> (\<forall>g'. mget (mput (n + 1) f subs) i = Some g' \<longrightarrow> g' = g)"
    if "(i, g) \<in> set pending" for i g
  proof -
    have "i \<le> n" "\<forall>g'. mget subs i = Some g' \<longrightarrow> g' = g" using assms that by (auto simp: subs_ok_def)
    then show ?thesis by (simp add: mget_mput)
  qed
  ultimately show ?thesis using wf by (fastforce simp: subs_ok_def mget_mput)
qed

lemma subs_ok_leave:
  assumes "subs_ok subs n pending"
  shows "subs_ok (mdel i subs) n pending"
proof -
  have "\<forall>(j, f) \<in> set (mdel i subs). j \<le> n" using assms by (auto simp: subs_ok_def mdel_def)
  moreover have "j \<le> n \<and> (\<forall>f'. mget (mdel i subs) j = Some f' \<longrightarrow> f' = f)" if "(j, f) \<in> set pending" for j f
  proof -
    have "j \<le> n" "\<forall>f'. mget subs j = Some f' \<longrightarrow> f' = f" using assms that by (auto simp: subs_ok_def)
    then show ?thesis by (simp add: mget_mdel)
  qed
  ultimately show ?thesis using assms by (fastforce simp: subs_ok_def)
qed

definition relay_ok :: "RelaySys \<Rightarrow> bool" where
  "relay_ok s \<longleftrightarrow> subs_ok (di_subs (rl_dir s)) (di_nextID (rl_dir s)) (rl_pending s)"

definition relay_live :: "RelaySys \<Rightarrow> int \<Rightarrow> bool" where
  "relay_live s i \<longleftrightarrow> mget (di_subs (rl_dir s)) i \<noteq> None"

definition relay_current :: "RelaySys \<Rightarrow> int \<Rightarrow> DirectoryNode list option" where
  "relay_current s i = map_option (\<lambda>f. filteredLocked f (rl_dir s)) (mget (di_subs (rl_dir s)) i)"

definition relay_owed :: "RelaySys \<Rightarrow> int \<Rightarrow> bool" where
  "relay_owed s i \<longleftrightarrow> (\<exists>f. (i, f) \<in> set (rl_pending s))"

lemma subscribed:
  assumes "subscribeRelay params s = Some s'"
  obtains sp where "s' = s\<lparr>rl_dir := (rl_dir s)\<lparr>di_nextID := di_nextID (rl_dir s) + 1,
      di_subs := mput (di_nextID (rl_dir s) + 1) sp (di_subs (rl_dir s))\<rparr>,
      rl_pending := rl_pending s @ [(di_nextID (rl_dir s) + 1, sp)]\<rparr>"
  using assms by (auto simp: subscribeRelay_def Subscribe_def Let_def split: option.splits)

lemma relay_ok_step:
  assumes "relay_step s s'" "relay_ok s"
  shows "relay_ok s'"
  using assms(1)
proof cases
  case (event meth node)
  then show ?thesis using assms(2)
    by (simp add: relay_apply_def Apply_def Let_def relay_ok_def subs_ok_pending)
next
  case (join params)
  then show ?thesis using assms(2)
    by (elim subscribed) (simp add: relay_ok_def subs_ok_join)
next
  case (leave i)
  then show ?thesis using assms(2)
    by (simp add: relay_unsubscribe_def Unsubscribe_def relay_ok_def subs_ok_leave)
next
  case (capture i filt)
  then have "rl_pending s' = remove1 (i, filt) (rl_pending s)" "rl_dir s' = rl_dir s"
    by (auto simp: Deliver_locked_def split: if_splits)
  then show ?thesis using assms(2) subs_ok_subset [OF _ set_remove1_subset]
    by (simp add: relay_ok_def)
next
  case (hand i)
  then show ?thesis using assms(2)
    by (auto simp: Deliver_sent_def relay_ok_def split: option.splits)
qed

lemma apply_owes_all: "relay_live s i \<Longrightarrow> relay_owed (relay_apply meth node s) i"
  by (auto simp: relay_live_def relay_owed_def relay_apply_def Apply_def Let_def dest: mget_SomeD)

lemma apply_live: "relay_live (relay_apply meth node s) i = relay_live s i"
  by (simp add: relay_live_def relay_apply_def Apply_def Let_def)

lemma relay_discipline:
  assumes "relay_step s s'" "relay_ok s" "relay_live s' k" "\<not> relay_owed s' k" "relay_current s' k = Some v"
  shows "mget (rl_sending s') k = Some v \<or>
    relay_live s k \<and> \<not> relay_owed s k \<and> relay_current s k = Some v \<and>
      (mget (rl_sending s') k = mget (rl_sending s) k \<and> mget (rl_view s') k = mget (rl_view s) k \<or>
       mget (rl_sending s') k = None \<and> mget (rl_view s') k = mget (rl_sending s) k \<and> mget (rl_sending s) k \<noteq> None)"
  using assms(1)
proof cases
  case (event meth node)
  then show ?thesis using assms(3,4) apply_owes_all apply_live by simp
next
  case (join params)
  from subscribed [OF this] obtain sp where s': "s' = s\<lparr>rl_dir := (rl_dir s)\<lparr>di_nextID := di_nextID (rl_dir s) + 1,
      di_subs := mput (di_nextID (rl_dir s) + 1) sp (di_subs (rl_dir s))\<rparr>,
      rl_pending := rl_pending s @ [(di_nextID (rl_dir s) + 1, sp)]\<rparr>" by blast
  have "k \<noteq> di_nextID (rl_dir s) + 1" using assms(4) by (auto simp: s' relay_owed_def)
  then show ?thesis using assms(3-5)
    by (auto simp: s' relay_live_def relay_owed_def relay_current_def mget_mput filteredLocked_def)
next
  case (leave i)
  then show ?thesis using assms(3-5)
    by (auto simp: relay_unsubscribe_def Unsubscribe_def relay_live_def relay_owed_def relay_current_def
        mget_mdel filteredLocked_def split: if_splits)
next
  case (capture i filt)
  then have pend: "(i, filt) \<in> set (rl_pending s)" and
    s': "s' = s\<lparr>rl_pending := remove1 (i, filt) (rl_pending s),
                rl_sending := mput i (filteredLocked filt (rl_dir s)) (rl_sending s)\<rparr>"
    by (auto simp: Deliver_locked_def split: if_splits)
  show ?thesis
  proof (cases "k = i")
    case True
    obtain f' where f': "mget (di_subs (rl_dir s)) k = Some f'"
      using assms(3) by (auto simp: s' relay_live_def)
    then have "f' = filt" using assms(2) pend True by (fastforce simp: relay_ok_def subs_ok_def)
    then show ?thesis using f' assms(5) True by (simp add: s' relay_current_def mget_mput)
  next
    case False
    then have "\<not> relay_owed s k"
      using assms(4) in_remove1 [of _ "(i, filt)" "rl_pending s"] by (fastforce simp: s' relay_owed_def)
    then show ?thesis using assms(3,5) False
      by (simp add: s' relay_live_def relay_current_def mget_mput)
  qed
next
  case (hand i)
  then obtain nodes where "mget (rl_sending s) i = Some nodes" and
    s': "s' = s\<lparr>rl_view := mput i nodes (rl_view s), rl_sending := mdel i (rl_sending s)\<rparr>"
    by (auto simp: Deliver_sent_def split: option.splits)
  then show ?thesis using assms(3-5)
    by (auto simp: relay_live_def relay_owed_def relay_current_def mget_mput mget_mdel)
qed

interpretation relay: settling relay_step relay_ok relay_live relay_current relay_owed
  "\<lambda>s. mget (rl_sending s)" "\<lambda>s. mget (rl_view s)"
  by unfold_locales (fact relay_ok_step, fact relay_discipline)

lemma relay_initially: "relay_ok RelaySys0" "relay.settled RelaySys0"
  by (simp_all add: relay.settled_def relay_ok_def subs_ok_def relay_live_def RelaySys0_def NewDirectory_def)

text \<open>
  C12. A worker subscribed to the node directory, to which no delivery is outstanding or under way, holds
  exactly the current nodes that match its filter: however the scanner's events, the initial delivery, the
  fan-outs of concurrent events and the unsubscribing of other workers interleave.
\<close>

theorem subscriber_holds_current_set:
  assumes "relay_step\<^sup>*\<^sup>* RelaySys0 s" and "mget (di_subs (rl_dir s)) i = Some filt"
    and "i \<notin> fst ` set (rl_pending s)" and "mget (rl_sending s) i = None"
  shows "mget (rl_view s) i = Some (filteredLocked filt (rl_dir s))"
  using relay.quiet_holds_current [OF assms(1) relay_initially, of i "filteredLocked filt (rl_dir s)"] assms(2-4)
  by (force simp: relay_live_def relay_current_def relay_owed_def)

text \<open>A worker joins while the directory is empty and a node arrives between its first delivery and the next.\<close>

definition demo_node :: DirectoryNode where
  "demo_node = DirectoryNode0\<lparr>d_HostUUID := ''u'', d_Name := ''box''\<rparr>"

definition demo_relay :: RelaySys where
  "demo_relay = \<lparr>rl_dir = \<lparr>di_nodes = [(''u'', demo_node)], di_subs = [(1, [])], di_nextID = 1\<rparr>,
     rl_pending = [], rl_sending = [], rl_view = [(1, [demo_node])]\<rparr>"

lemma demo_relay_reached: "relay_step\<^sup>*\<^sup>* RelaySys0 demo_relay"
proof -
  let ?s1 = "\<lparr>rl_dir = \<lparr>di_nodes = [], di_subs = [(1, [])], di_nextID = 1\<rparr>, rl_pending = [(1, [])],
    rl_sending = [], rl_view = []\<rparr>"
  let ?s2 = "?s1\<lparr>rl_pending := [], rl_sending := [(1, [])]\<rparr>"
  let ?s3 = "relay_apply NotifyNodeDiscovered demo_node ?s2"
  let ?s4 = "?s3\<lparr>rl_sending := [], rl_view := [(1, [])]\<rparr>"
  let ?s5 = "?s4\<lparr>rl_pending := [], rl_sending := [(1, [demo_node])]\<rparr>"
  have "relay_step RelaySys0 ?s1" by (rule join [where params = "Some (JObj [])"]) code_simp
  moreover have "relay_step ?s1 ?s2" by (rule capture [where i = 1 and filt = "[]"]) code_simp
  moreover have "relay_step ?s2 ?s3" by (rule event)
  moreover have "relay_step ?s3 ?s4" by (rule hand [where i = 1]) code_simp
  moreover have "relay_step ?s4 ?s5" by (rule capture [where i = 1 and filt = "[]"]) code_simp
  moreover have "relay_step ?s5 demo_relay" by (rule hand [where i = 1]) code_simp
  ultimately show ?thesis by (meson rtranclp.intros)
qed

theorem subscriber_holds_current_set_witness:
  "mget (rl_view demo_relay) 1 = Some (filteredLocked [] (rl_dir demo_relay))"
  by (rule subscriber_holds_current_set [OF demo_relay_reached]) (simp_all add: demo_relay_def mget_Cons)

subsection \<open>Priorities\<close>

definition prio_live :: "PrioritySys \<Rightarrow> string \<Rightarrow> bool" where
  "prio_live s e \<longleftrightarrow> (\<exists>px. proxyForEngine e s = Some px \<and> px_ready px)"

definition prio_owed :: "PrioritySys \<Rightarrow> string \<Rightarrow> bool" where
  "prio_owed s e \<longleftrightarrow> ApplyTask e (priorityGeneration e s) \<in> set (ps_tasks s) \<or> RepushTask e \<in> set (ps_tasks s)"

definition prio_sending :: "PrioritySys \<Rightarrow> string \<Rightarrow> Priority option" where
  "prio_sending s e =
     (case (mget (ps_sending s) e, mget (ps_proxies s) e) of
        (Some (process, p), Some px) \<Rightarrow> if px_process px = process then Some p else None
      | _ \<Rightarrow> None)"

definition prio_held :: "PrioritySys \<Rightarrow> string \<Rightarrow> Priority option" where
  "prio_held s e = (case mget (ps_proxies s) e of None \<Rightarrow> None | Some px \<Rightarrow> px_priority px)"

lemmas prio_defs = prio_live_def prio_owed_def prio_sending_def prio_held_def proxyForEngine_def priorityGeneration_def

lemma prio_same:
  assumes "mget (ps_lastPriority s') e = mget (ps_lastPriority s) e" "mget (ps_priorityGeneration s') e = mget (ps_priorityGeneration s) e"
    "mget (ps_sending s') e = mget (ps_sending s) e" "mget (ps_proxies s') e = mget (ps_proxies s) e"
  shows "prio_live s' e = prio_live s e" "priorityGeneration e s' = priorityGeneration e s"
    "prio_sending s' e = prio_sending s e" "prio_held s' e = prio_held s e"
  using assms by (simp_all add: prio_defs)

text \<open>A step is \<open>quiet\<close> for an engine when nothing of the engine changes and no delivery of it goes away.\<close>

definition prio_disciplined :: "PrioritySys \<Rightarrow> PrioritySys \<Rightarrow> string \<Rightarrow> Priority \<Rightarrow> bool" where
  "prio_disciplined s s' e v \<longleftrightarrow>
     (prio_live s' e \<longrightarrow> \<not> prio_owed s' e \<longrightarrow> mget (ps_lastPriority s') e = Some v \<longrightarrow>
      prio_sending s' e = Some v \<or>
      prio_live s e \<and> \<not> prio_owed s e \<and> mget (ps_lastPriority s) e = Some v \<and>
        (prio_sending s' e = prio_sending s e \<and> prio_held s' e = prio_held s e \<or>
         prio_sending s' e = None \<and> prio_held s' e = prio_sending s e \<and> prio_sending s e \<noteq> None))"

definition prio_agree :: "PrioritySys \<Rightarrow> PrioritySys \<Rightarrow> string \<Rightarrow> bool" where
  "prio_agree s s' e \<longleftrightarrow>
     mget (ps_lastPriority s') e = mget (ps_lastPriority s) e \<and>
     mget (ps_priorityGeneration s') e = mget (ps_priorityGeneration s) e \<and>
     mget (ps_sending s') e = mget (ps_sending s) e \<and> mget (ps_proxies s') e = mget (ps_proxies s) e"

lemma prio_quiet:
  assumes "prio_agree s s' e"
    and "\<And>t. t \<in> {ApplyTask e (priorityGeneration e s), RepushTask e} \<Longrightarrow> t \<in> set (ps_tasks s) \<Longrightarrow> t \<in> set (ps_tasks s')"
  shows "prio_disciplined s s' e v"
proof -
  have "prio_owed s e \<Longrightarrow> prio_owed s' e"
    using assms prio_same(2) [of s' e s] by (auto simp: prio_owed_def prio_agree_def)
  then show ?thesis
    using assms(1) prio_same [of s' e s] by (auto simp: prio_disciplined_def prio_agree_def)
qed

lemma prio_owed_disciplined: "prio_owed s' e \<Longrightarrow> prio_disciplined s s' e v"
  by (simp add: prio_disciplined_def)

lemma prio_dead_disciplined: "\<not> prio_live s' e \<Longrightarrow> prio_disciplined s s' e v"
  by (simp add: prio_disciplined_def)

lemma notify_disciplined: "prio_disciplined s (forwardSchedulerNotification meth params s) e v"
proof (cases "meth = ''schedule:priority''")
  case True
  show ?thesis
  proof (cases "Unmarshal (dec_struct engine_priority_fields) EnginePriority0 params")
    case None
    then show ?thesis by (intro prio_quiet) (simp_all add: forwardSchedulerNotification_def prio_agree_def)
  next
    case (Some p)
    let ?s' = "forwardSchedulerNotification meth params s"
    let ?g = "priorityGeneration (ep_Engine p) s + 1"
    have s': "?s' = s\<lparr>ps_lastPriority := mput (ep_Engine p) (PrioritySnapshot p) (ps_lastPriority s),
        ps_priorityGeneration := mput (ep_Engine p) ?g (ps_priorityGeneration s),
        ps_tasks := ps_tasks s @ [ApplyTask (ep_Engine p) ?g]\<rparr>"
      using True Some by (simp add: forwardSchedulerNotification_def cachePrioritySnapshot_def Let_def)
    show ?thesis
    proof (cases "e = ep_Engine p")
      case True
      then have "prio_owed ?s' e" by (simp add: s' prio_owed_def priorityGeneration_def mget_mput)
      then show ?thesis by (rule prio_owed_disciplined)
    next
      case False
      then show ?thesis by (intro prio_quiet) (auto simp: s' prio_agree_def mget_mput)
    qed
  qed
qed (simp add: forwardSchedulerNotification_def prio_quiet prio_agree_def)

lemma delivered_cases:
  assumes "deliverPrioritySnapshot engine g s = Some s'"
  obtains (skipped) "priorityGeneration engine s \<noteq> g \<or> proxyForEngine engine s = None"
      "s' = s\<lparr>ps_tasks := remove1 (ApplyTask engine g) (ps_tasks s)\<rparr>"
    | (sent) px where "priorityGeneration engine s = g" "proxyForEngine engine s = Some px"
      "s' = s\<lparr>ps_tasks := remove1 (ApplyTask engine g) (ps_tasks s),
         ps_sending := mput engine (px_process px, case mget (ps_lastPriority s) engine of
           None \<Rightarrow> \<lparr>p_Nodes = [], p_Ranks = []\<rparr> | Some p \<Rightarrow> p) (ps_sending s)\<rparr>"
  using assms unfolding deliverPrioritySnapshot_def Let_def
  by (cases "proxyForEngine engine s") (simp_all split: if_splits)

lemma deliver_disciplined:
  assumes "deliverPrioritySnapshot engine g s = Some s'"
  shows "prio_disciplined s s' e v"
  using assms
proof (cases rule: delivered_cases)
  case skipped
  show ?thesis
  proof (cases "e = engine \<and> proxyForEngine engine s = None")
    case True
    then have "proxyForEngine e s' = None" by (auto simp: skipped(2) proxyForEngine_def split: if_splits)
    then have "\<not> prio_live s' e" by (simp add: prio_live_def)
    then show ?thesis by (rule prio_dead_disciplined)
  next
    case False
    then have "ApplyTask engine g \<notin> {ApplyTask e (priorityGeneration e s), RepushTask e}" using skipped(1) by auto
    then show ?thesis using in_remove1 [of _ "ApplyTask engine g" "ps_tasks s"]
      by (intro prio_quiet) (auto simp: skipped(2) prio_agree_def)
  qed
next
  case (sent px)
  have px: "mget (ps_proxies s) engine = Some px" using sent(2) by (simp add: proxyForEngine_def split: if_splits)
  show ?thesis
  proof (cases "e = engine")
    case True
    have "prio_sending s' e = Some v" if "mget (ps_lastPriority s') e = Some v"
      using that px True by (simp add: sent(3) prio_sending_def mget_mput)
    then show ?thesis by (simp add: prio_disciplined_def)
  next
    case False
    then show ?thesis using in_remove1 [of _ "ApplyTask engine g" "ps_tasks s"]
      by (intro prio_quiet) (auto simp: sent(3) prio_agree_def mget_mput)
  qed
qed

lemma answered_disciplined:
  assumes "setPriorityAnswered engine s = Some s'"
  shows "prio_disciplined s s' e v"
proof -
  from assms obtain process p where sent: "mget (ps_sending s) engine = Some (process, p)"
    by (auto simp: setPriorityAnswered_def split: option.splits)
  have tasks: "ps_tasks s' = ps_tasks s" "ps_lastPriority s' = ps_lastPriority s"
    "ps_priorityGeneration s' = ps_priorityGeneration s" "ps_sending s' = mdel engine (ps_sending s)"
    using assms sent by (auto simp: setPriorityAnswered_def Let_def split: option.splits)
  have proxies: "ps_proxies s' = (case mget (ps_proxies s) engine of
      None \<Rightarrow> ps_proxies s
    | Some px \<Rightarrow> if px_process px = process then mput engine (px\<lparr>px_priority := Some p\<rparr>) (ps_proxies s) else ps_proxies s)"
    using assms sent by (auto simp: setPriorityAnswered_def Let_def split: option.splits)
  show ?thesis
  proof (cases "e = engine")
    case False
    then show ?thesis
      by (intro prio_quiet) (auto simp: tasks proxies prio_agree_def mget_mput mget_mdel split: option.splits)
  next
    case True
    show ?thesis
    proof (cases "mget (ps_proxies s) engine")
      case None
      then have "\<not> prio_live s' e" using True by (simp add: prio_live_def proxyForEngine_def proxies)
      then show ?thesis by (rule prio_dead_disciplined)
    next
      case (Some px)
      have owed: "prio_owed s' e = prio_owed s e" by (simp add: prio_owed_def priorityGeneration_def tasks)
      have live: "prio_live s' e = prio_live s e"
        using Some True by (auto simp: prio_live_def proxyForEngine_def proxies mget_mput split: if_splits)
      have none: "prio_sending s' e = None" using True by (simp add: prio_sending_def tasks mget_mdel)
      have "prio_sending s e = (if px_process px = process then Some p else None)"
        "prio_held s' e = (if px_process px = process then Some p else prio_held s e)"
        using Some True sent by (simp_all add: prio_sending_def prio_held_def proxies mget_mput)
      then show ?thesis using owed live none tasks(2) by (simp add: prio_disciplined_def)
    qed
  qed
qed

lemma repush_disciplined:
  assumes "repushPriority engine s = Some s'"
  shows "prio_disciplined s s' e v"
proof -
  have s': "s' = s\<lparr>ps_tasks := (if mget (ps_lastPriority s) engine = None then remove1 (RepushTask engine) (ps_tasks s)
      else remove1 (RepushTask engine) (ps_tasks s) @ [ApplyTask engine (priorityGeneration engine s)])\<rparr>"
    using assms by (auto simp: repushPriority_def Let_def split: if_splits)
  show ?thesis
  proof (cases "e = engine")
    case True
    then show ?thesis by (auto simp: s' prio_disciplined_def prio_owed_def priorityGeneration_def)
  next
    case False
    then show ?thesis using in_remove1 [of _ "RepushTask engine" "ps_tasks s"]
      by (intro prio_quiet) (auto simp: s' prio_agree_def)
  qed
qed

lemma proxy_disciplined:
  "prio_disciplined s (proxySpawned engine s) e v"
  "prio_disciplined s (proxyReady engine s) e v"
  "prio_disciplined s (proxyExited engine s) e v"
proof -
  show "prio_disciplined s (proxySpawned engine s) e v"
  proof (cases "e = engine")
    case True
    then show ?thesis by (intro prio_dead_disciplined) (simp add: proxySpawned_def prio_live_def proxyForEngine_def mget_mput)
  qed (simp add: prio_quiet prio_agree_def proxySpawned_def mget_mput)
  show "prio_disciplined s (proxyExited engine s) e v"
  proof (cases "e = engine")
    case True
    then show ?thesis by (intro prio_dead_disciplined) (simp add: proxyExited_def prio_live_def proxyForEngine_def mget_mdel)
  qed (simp add: prio_quiet prio_agree_def proxyExited_def mget_mdel)
  show "prio_disciplined s (proxyReady engine s) e v"
  proof (cases "e = engine \<and> proxyForEngine engine s \<noteq> None")
    case True
    then show ?thesis by (intro prio_owed_disciplined) (auto simp: proxyReady_def prio_owed_def)
  next
    case False
    then show ?thesis
      by (intro prio_quiet) (auto simp: proxyReady_def prio_agree_def mget_mput split: option.splits)
  qed
qed

lemma prio_step_disciplined: "priority_step s s' \<Longrightarrow> prio_disciplined s s' e v"
  by (cases rule: priority_step.cases)
    (auto simp only: notify_disciplined proxy_disciplined
      intro: deliver_disciplined answered_disciplined repush_disciplined)

interpretation prio: settling priority_step "\<lambda>_. True" prio_live "\<lambda>s. mget (ps_lastPriority s)" prio_owed prio_sending prio_held
  proof unfold_locales
  fix s s' k v
  assume "priority_step s s'" "prio_live s' k" "\<not> prio_owed s' k" "mget (ps_lastPriority s') k = Some v"
  then show "prio_sending s' k = Some v \<or>
    prio_live s k \<and> \<not> prio_owed s k \<and> mget (ps_lastPriority s) k = Some v \<and>
      (prio_sending s' k = prio_sending s k \<and> prio_held s' k = prio_held s k \<or>
       prio_sending s' k = None \<and> prio_held s' k = prio_sending s k \<and> prio_sending s k \<noteq> None)"
    using prio_step_disciplined [of s s' k v] by (simp add: prio_disciplined_def)
qed

lemma prio_initially: "prio.settled PrioritySys0"
  by (simp add: prio.settled_def prio_live_def proxyForEngine_def PrioritySys0_def)


text \<open>
  A ranking arrives while no proxy runs; the proxy starts, reports ready and is sent the cached ranking.
\<close>

definition demo_priority :: Priority where
  "demo_priority = \<lparr>p_Nodes = [''a'', ''b''], p_Ranks = []\<rparr>"

definition demo_prio :: PrioritySys where
  "demo_prio = \<lparr>ps_lastPriority = [(''ollama'', demo_priority)], ps_priorityGeneration = [(''ollama'', 1)], ps_tasks = [],
     ps_sending = [], ps_proxies = [(''ollama'', \<lparr>px_process = 0, px_ready = True, px_priority = Some demo_priority\<rparr>)], ps_spawned = 1\<rparr>"

lemma demo_prio_reached: "priority_step\<^sup>*\<^sup>* PrioritySys0 demo_prio"
proof -
  let ?s1 = "PrioritySys0\<lparr>ps_lastPriority := [(''ollama'', demo_priority)], ps_priorityGeneration := [(''ollama'', 1)],
    ps_tasks := [ApplyTask ''ollama'' 1]\<rparr>"
  let ?s2 = "?s1\<lparr>ps_tasks := []\<rparr>"
  let ?s3 = "proxyReady ''ollama'' (proxySpawned ''ollama'' ?s2)"
  let ?s4 = "?s3\<lparr>ps_tasks := [ApplyTask ''ollama'' 1]\<rparr>"
  let ?s5 = "?s3\<lparr>ps_tasks := [], ps_sending := [(''ollama'', 0, demo_priority)]\<rparr>"
  have "forwardSchedulerNotification ''schedule:priority''
      (Some (JObj [(''engine'', JStr ''ollama''), (''nodes'', JArr [JStr ''a'', JStr ''b''])])) PrioritySys0 = ?s1"
    by code_simp
  then have "priority_step PrioritySys0 ?s1" by (metis priority_step.notify)
  moreover have "priority_step ?s1 ?s2" by (rule priority_step.deliver [where engine = "''ollama''" and g = 1]) code_simp
  moreover have "priority_step ?s2 (proxySpawned ''ollama'' ?s2)" by (rule priority_step.spawned)
  moreover have "priority_step (proxySpawned ''ollama'' ?s2) ?s3" by (rule priority_step.ready)
  moreover have "priority_step ?s3 ?s4" by (rule priority_step.repush [where engine = "''ollama''"]) code_simp
  moreover have "priority_step ?s4 ?s5" by (rule priority_step.deliver [where engine = "''ollama''" and g = 1]) code_simp
  moreover have "priority_step ?s5 demo_prio" by (rule priority_step.answered [where engine = "''ollama''"]) code_simp
  ultimately show ?thesis by (meson rtranclp.intros)
qed


section \<open>Claims on the discovery store\<close>

text \<open>
  What a source holds for a key. The store and the telemetry cache refine one map per source: an operation
  of one source never touches the other's entry, and a record exists as long as one of them claims it.
\<close>

definition slot :: "nodeSource \<Rightarrow> discoveryStore \<Rightarrow> string \<Rightarrow> EnrichedNode option" where
  "slot src s k =
     (case mget s k of
        None \<Rightarrow> None
      | Some sn \<Rightarrow> (case src of sourceScanner \<Rightarrow> sd_scanner sn | sourceManual \<Rightarrow> sd_manual sn))"

definition tele_slot :: "nodeSource \<Rightarrow> telemetryCache \<Rightarrow> string \<Rightarrow> telemetryObservation option" where
  "tele_slot src c k = (case mget c k of None \<Rightarrow> None | Some s \<Rightarrow> tele_source src s)"

lemma slot_Upsert:
  "slot src' (fst (Upsert now n src s)) k =
     (if storeKey n \<noteq> [] \<and> k = storeKey n \<and> src' = src then Some n else slot src' s k)"
  by (cases src; cases src'; cases "mget s (storeKey n)")
    (simp_all add: slot_def Upsert_def Let_def mget_mput setSource_def storedNode0_def)

lemma slot_Remove:
  "slot src' (fst (Remove now key src s)) k =
     (if key \<noteq> [] \<and> k = key \<and> src' = src then None else slot src' s k)"
  by (cases src; cases src'; cases "mget s key")
    (auto simp: slot_def Remove_def Let_def mget_mput mget_mdel setSource_def hasSource_def claimed_def)

lemma Remove_final:
  "fst (snd (Remove now key src s)) \<longleftrightarrow>
     key \<noteq> [] \<and> slot src s key \<noteq> None \<and> (\<forall>src'. src' \<noteq> src \<longrightarrow> slot src' s key = None)"
  by (cases src; cases "mget s key")
    (auto simp: slot_def Remove_def Let_def setSource_def hasSource_def claimed_def split: nodeSource.splits)

lemma tele_slot_Upsert:
  "tele_slot src' (fst (tele_Upsert src v t c)) k =
     (if nt_HostUUID v \<noteq> [] \<and> k = nt_HostUUID v \<and> src' = src then Some \<lparr>ob_value = v, ob_receivedAt = t\<rparr>
      else tele_slot src' c k)"
  by (cases src; cases src'; cases "mget c (nt_HostUUID v)")
    (simp_all add: tele_slot_def tele_Upsert_def Let_def mget_mput tele_set_def tele_source_def)

lemma tele_slot_Remove:
  "tele_slot src' (fst (tele_Remove key src now c)) k =
     (if key \<noteq> [] \<and> k = key \<and> src' = src then None else tele_slot src' c k)"
proof (cases "key = [] \<or> tele_slot src c key = None")
  case True
  then show ?thesis by (auto simp: tele_Remove_def tele_slot_def split: option.splits)
next
  case False
  then obtain s where s: "mget c key = Some s" "tele_source src s \<noteq> None"
    by (cases "mget c key") (auto simp: tele_slot_def)
  then show ?thesis using False
    by (cases src; cases src'; cases "tele_projected (tele_set src None s)")
      (auto simp: tele_Remove_def tele_slot_def Let_def mget_mput mget_mdel tele_set_def tele_source_def tele_projected_def
        split: option.splits)
qed

text \<open>Every record of the store is claimed, so reading it never dereferences a missing source.\<close>

definition all_claimed :: "discoveryStore \<Rightarrow> bool" where
  "all_claimed s \<longleftrightarrow> wf_map s \<and> (\<forall>(k, sn) \<in> set s. claimed sn \<and> k \<noteq> [])"

lemma claimed_set: "claimed (setSource src (Some n) sn)"
  by (cases src) (simp_all add: claimed_def setSource_def)

lemma claimed_lastSeen [simp]: "claimed (sn\<lparr>sd_lastSeen := t\<rparr>) = claimed sn"
  by (simp add: claimed_def)

lemma all_claimed_mput: "all_claimed s \<Longrightarrow> claimed sn \<Longrightarrow> k \<noteq> [] \<Longrightarrow> all_claimed (mput k sn s)"
  unfolding all_claimed_def
  by (auto simp: mget_in_set [symmetric] mget_mput split: if_splits)

lemma all_claimed_Upsert: "all_claimed s \<Longrightarrow> all_claimed (fst (Upsert now n src s))"
  by (simp add: Upsert_def Let_def all_claimed_mput claimed_set)

lemma all_claimed_Remove:
  assumes "all_claimed s"
  shows "all_claimed (fst (Remove now key src s))"
proof -
  have "all_claimed (mdel key s)" using assms by (auto simp: all_claimed_def mdel_def wf_filter)
  then show ?thesis using assms
    by (auto simp: Remove_def Let_def all_claimed_mput split: option.splits)
qed

definition view_of :: "storedNode \<Rightarrow> EnrichedNode" where
  "view_of sn = (case sd_scanner sn of Some n \<Rightarrow> n | None \<Rightarrow> the (sd_manual sn))"

lemma collect_returns:
  "\<forall>sn \<in> set sns. claimed sn \<Longrightarrow> collect sns = Returns (map (\<lambda>sn. available_of (view_of sn) (sd_lastSeen sn)) sns)"
  by (induction sns) (auto simp: toAvailable_def projected_def view_of_def claimed_def split: option.splits)

interpretation by_av_id: key_sort "\<lambda>a b. av_ID a < av_ID b" av_ID
  by unfold_locales simp

section \<open>Manual aliases\<close>

text \<open>Several aliases of one machine share its key; the manual entry of the key comes from one of them.\<close>

definition aliases_ok :: "(string, string) gomap \<Rightarrow> (string, manualNodeStatusEntry) gomap \<Rightarrow> bool" where
  "aliases_ok keys sts \<longleftrightarrow> wf_map keys \<and>
     (\<forall>i k. mget keys i = Some k \<longrightarrow> i \<noteq> [] \<and> k \<noteq> [] \<and>
        (\<exists>e. mget sts i = Some e \<and> storeKey (manualToEnriched (mx_status e)) = k))"

definition alias_observation :: "manualNodeStatusEntry \<Rightarrow> string \<Rightarrow> telemetryObservation" where
  "alias_observation e k = \<lparr>ob_value = manualNodeTelemetry (mx_status e) k, ob_receivedAt = mx_receivedAt e\<rparr>"

text \<open>The manual claim on a key is exact: it is there iff an alias has the key, and it is that alias's.\<close>

definition claim_exact :: "(string, string) gomap \<Rightarrow> (string, manualNodeStatusEntry) gomap \<Rightarrow> string \<Rightarrow>
    EnrichedNode option \<Rightarrow> telemetryObservation option \<Rightarrow> bool" where
  "claim_exact keys sts k n ob \<longleftrightarrow>
     (if \<forall>i. mget keys i \<noteq> Some k then n = None \<and> ob = None
      else \<exists>i e. mget keys i = Some k \<and> mget sts i = Some e \<and>
             n = Some (manualToEnriched (mx_status e)) \<and> ob = Some (alias_observation e k))"

definition manual_ok :: "BrokerDir \<Rightarrow> bool" where
  "manual_ok b \<longleftrightarrow> aliases_ok (dr_manualNodeKeys b) (dr_manualNodeStatuses b) \<and>
     (\<forall>k. claim_exact (dr_manualNodeKeys b) (dr_manualNodeStatuses b) k
        (slot sourceManual (dr_store b) k) (tele_slot sourceManual (dr_telemetry b) k))"

lemma surviving_alias_fold:
  assumes "\<forall>(i, k) \<in> set keys. i \<noteq> []"
    and "foldl (\<lambda>best (i, k). if k = key \<and> (best = [] \<or> i < best) then i else best) b0 keys = best"
  shows "(best = b0 \<or> (best, key) \<in> set keys) \<and> (best = [] \<longrightarrow> b0 = [] \<and> (\<forall>i. (i, key) \<notin> set keys))"
  using assms
proof (induction keys arbitrary: b0)
  case (Cons ik keys)
  obtain i k where ik: "ik = (i, k)" by (cases ik)
  let ?b = "if k = key \<and> (b0 = [] \<or> i < b0) then i else b0"
  have "(best = ?b \<or> (best, key) \<in> set keys) \<and> (best = [] \<longrightarrow> ?b = [] \<and> (\<forall>i. (i, key) \<notin> set keys))"
    using Cons.IH [of ?b] Cons.prems by (simp add: ik)
  moreover have "i \<noteq> []" using Cons.prems(1) by (simp add: ik)
  ultimately show ?case by (auto simp: ik split: if_splits)
qed simp

lemma surviving_alias_cases:
  assumes "aliases_ok keys sts"
  obtains (none) "surviving_alias key keys = []" "\<forall>i. mget keys i \<noteq> Some key"
    | (some) "surviving_alias key keys \<noteq> []" "mget keys (surviving_alias key keys) = Some key"
proof -
  have wf: "wf_map keys" using assms by (simp add: aliases_ok_def)
  have "i \<noteq> []" if "(i, k) \<in> set keys" for i k
    using that assms wf by (auto simp: aliases_ok_def mget_in_set)
  then have "\<forall>(i, k) \<in> set keys. i \<noteq> []" by blast
  from surviving_alias_fold [OF this, of key "[]" "surviving_alias key keys"]
  show ?thesis using that wf by (auto simp: surviving_alias_def mget_in_set)
qed

subsection \<open>What each operation does to the claims\<close>

lemma store_ops [simp]:
  "dr_store (fst (store_Upsert now n src b)) = fst (Upsert now n src (dr_store b))"
  "dr_store (fst (store_Remove now key src b)) = fst (Remove now key src (dr_store b))"
  "dr_store (fst (ingestTelemetryAt src v t b)) = dr_store b"
  "dr_store (fst (removeTelemetry now src key b)) = dr_store b"
  "dr_telemetry (fst (store_Upsert now n src b)) = dr_telemetry b"
  "dr_telemetry (fst (store_Remove now key src b)) = dr_telemetry b"
  "dr_telemetry (fst (ingestTelemetryAt src v t b)) = fst (tele_Upsert src v t (dr_telemetry b))"
  "dr_telemetry (fst (removeTelemetry now src key b)) = fst (tele_Remove key src now (dr_telemetry b))"
  by (simp_all add: store_Upsert_def store_Remove_def ingestTelemetryAt_def removeTelemetry_def Let_def split: prod.splits)

lemma alias_ops [simp]:
  "dr_manualNodeKeys (fst (store_Upsert now n src b)) = dr_manualNodeKeys b"
  "dr_manualNodeKeys (fst (store_Remove now key src b)) = dr_manualNodeKeys b"
  "dr_manualNodeKeys (fst (ingestTelemetryAt src v t b)) = dr_manualNodeKeys b"
  "dr_manualNodeKeys (fst (removeTelemetry now src key b)) = dr_manualNodeKeys b"
  "dr_manualNodeStatuses (fst (store_Upsert now n src b)) = dr_manualNodeStatuses b"
  "dr_manualNodeStatuses (fst (store_Remove now key src b)) = dr_manualNodeStatuses b"
  "dr_manualNodeStatuses (fst (ingestTelemetryAt src v t b)) = dr_manualNodeStatuses b"
  "dr_manualNodeStatuses (fst (removeTelemetry now src key b)) = dr_manualNodeStatuses b"
  by (simp_all add: store_Upsert_def store_Remove_def ingestTelemetryAt_def removeTelemetry_def Let_def split: prod.splits)

lemma reproject_aliases [simp]:
  "dr_manualNodeKeys (fst (reprojectOrRelease now key b)) = dr_manualNodeKeys b"
  "dr_manualNodeStatuses (fst (reprojectOrRelease now key b)) = dr_manualNodeStatuses b"
  by (simp_all add: reprojectOrRelease_def Let_def case_prod_beta split: option.splits)

lemma manual_telemetry_host [simp]: "nt_HostUUID (manualNodeTelemetry st k) = k"
  by (simp add: manualNodeTelemetry_def)

text \<open>The entries a source holds, and the aliases; everything the manual handlers change.\<close>

definition same_aliases :: "BrokerDir \<Rightarrow> BrokerDir \<Rightarrow> bool" where
  "same_aliases b b' \<longleftrightarrow> dr_manualNodeKeys b' = dr_manualNodeKeys b \<and> dr_manualNodeStatuses b' = dr_manualNodeStatuses b"

definition only_key :: "string \<Rightarrow> BrokerDir \<Rightarrow> BrokerDir \<Rightarrow> bool" where
  "only_key key b b' \<longleftrightarrow>
     (\<forall>k. slot sourceScanner (dr_store b') k = slot sourceScanner (dr_store b) k \<and>
          tele_slot sourceScanner (dr_telemetry b') k = tele_slot sourceScanner (dr_telemetry b) k) \<and>
     (\<forall>k. k \<noteq> key \<longrightarrow> slot sourceManual (dr_store b') k = slot sourceManual (dr_store b) k \<and>
          tele_slot sourceManual (dr_telemetry b') k = tele_slot sourceManual (dr_telemetry b) k) \<and>
     (all_claimed (dr_store b) \<longrightarrow> all_claimed (dr_store b'))"

definition claim_at :: "BrokerDir \<Rightarrow> string \<Rightarrow> bool" where
  "claim_at b k \<longleftrightarrow> claim_exact (dr_manualNodeKeys b) (dr_manualNodeStatuses b) k
     (slot sourceManual (dr_store b) k) (tele_slot sourceManual (dr_telemetry b) k)"

lemma reproject_exact:
  assumes "aliases_ok (dr_manualNodeKeys b) (dr_manualNodeStatuses b)" "key \<noteq> []"
  shows "same_aliases b (fst (reprojectOrRelease now key b)) \<and> only_key key b (fst (reprojectOrRelease now key b)) \<and>
    claim_at (fst (reprojectOrRelease now key b)) key"
  using assms(1)
proof (cases rule: surviving_alias_cases [where key = key])
  case none
  then have b': "fst (reprojectOrRelease now key b) =
      fst (removeTelemetry now sourceManual key (fst (store_Remove now key sourceManual b)))"
    using assms(2) by (simp add: reprojectOrRelease_def survivingAliasLocked_def Let_def split: prod.splits)
  show ?thesis using none(2) assms(2)
    by (simp add: b' same_aliases_def only_key_def claim_at_def claim_exact_def slot_Remove tele_slot_Remove all_claimed_Remove)
next
  case some
  let ?i = "surviving_alias key (dr_manualNodeKeys b)"
  obtain e where e: "mget (dr_manualNodeStatuses b) ?i = Some e" "storeKey (manualToEnriched (mx_status e)) = key"
    using assms(1) some(2) by (auto simp: aliases_ok_def)
  then have b': "fst (reprojectOrRelease now key b) =
      fst (ingestTelemetryAt sourceManual (manualNodeTelemetry (mx_status e) key) (mx_receivedAt e)
        (fst (store_Upsert now (manualToEnriched (mx_status e)) sourceManual b)))"
    using assms(2) some by (simp add: reprojectOrRelease_def survivingAliasLocked_def Let_def split: prod.splits)
  have "\<not> (\<forall>i. mget (dr_manualNodeKeys b) i \<noteq> Some key)" using some(2) by blast
  then have "claim_exact (dr_manualNodeKeys b) (dr_manualNodeStatuses b) key
      (Some (manualToEnriched (mx_status e))) (Some (alias_observation e key))"
    using some(2) e(1) unfolding claim_exact_def by auto
  then show ?thesis using assms(2) e(2)
    by (simp add: b' same_aliases_def only_key_def claim_at_def slot_Upsert tele_slot_Upsert all_claimed_Upsert alias_observation_def)
qed

lemma manual_ok_alt: "manual_ok b \<longleftrightarrow> aliases_ok (dr_manualNodeKeys b) (dr_manualNodeStatuses b) \<and> (\<forall>k. claim_at b k)"
  by (simp add: manual_ok_def claim_at_def)

lemma claim_at_other:
  assumes "claim_at b k" "only_key key b b'" "same_aliases b b'" "k \<noteq> key"
  shows "claim_at b' k"
  using assms by (simp add: claim_at_def only_key_def same_aliases_def)

text \<open>Changing one alias concerns only the key it had and the key it gets.\<close>

lemma claim_exact_alias:
  assumes "claim_exact keys sts k n ob" "mget keys i \<noteq> Some k" "mget keys' i \<noteq> Some k"
    and "\<And>j. j \<noteq> i \<Longrightarrow> mget keys' j = mget keys j" "\<And>j. j \<noteq> i \<Longrightarrow> mget sts' j = mget sts j"
  shows "claim_exact keys' sts' k n ob"
proof -
  have same: "mget keys' j = Some k \<longleftrightarrow> mget keys j = Some k" for j
    using assms(2-4) by (cases "j = i") auto
  show ?thesis
  proof (cases "\<forall>j. mget keys j \<noteq> Some k")
    case True
    then show ?thesis using assms(1) same by (simp add: claim_exact_def)
  next
    case False
    then obtain j e where j: "mget keys j = Some k" "mget sts j = Some e"
      "n = Some (manualToEnriched (mx_status e))" "ob = Some (alias_observation e k)"
      using assms(1) by (auto simp: claim_exact_def split: if_splits)
    then have "mget sts' j = Some e" using assms(2,5) by metis
    then show ?thesis using j same unfolding claim_exact_def by auto
  qed
qed

lemma manualKey_nonempty: "mn_ID st \<noteq> [] \<Longrightarrow> storeKey (manualToEnriched st) \<noteq> []"
  by (simp add: storeKey_def manualToEnriched_def)

lemma aliases_ok_mput:
  assumes "aliases_ok keys sts" "mn_ID st \<noteq> []"
  shows "aliases_ok (mput (mn_ID st) (storeKey (manualToEnriched st)) keys)
    (mput (mn_ID st) \<lparr>mx_status = st, mx_receivedAt = now\<rparr> sts)"
  using assms manualKey_nonempty [OF assms(2)] by (auto simp: aliases_ok_def mget_mput)

lemma aliases_ok_mdel: "aliases_ok keys sts \<Longrightarrow> aliases_ok (mdel i keys) (mdel i sts)"
  by (auto simp: aliases_ok_def mget_mdel)

text \<open>The alias recorded and its new key claimed; what is left is the key it had before.\<close>

definition alias_stored :: "time \<Rightarrow> manualNodeStatus \<Rightarrow> BrokerDir \<Rightarrow> BrokerDir" where
  "alias_stored now st b =
     (let key = storeKey (manualToEnriched st) in
      fst (ingestTelemetryAt sourceManual (manualNodeTelemetry st key) now
        (fst (store_Upsert now (manualToEnriched st) sourceManual
          (b\<lparr>dr_manualNodeKeys := mput (mn_ID st) key (dr_manualNodeKeys b),
             dr_manualNodeStatuses := mput (mn_ID st) \<lparr>mx_status = st, mx_receivedAt = now\<rparr> (dr_manualNodeStatuses b)\<rparr>)))))"

lemma upsertManualNode_stages:
  "fst (upsertManualNode now st b) =
     (case mget (dr_manualNodeKeys b) (mn_ID st) of
        None \<Rightarrow> alias_stored now st b
      | Some old \<Rightarrow>
          if old = storeKey (manualToEnriched st) then alias_stored now st b
          else fst (reprojectOrRelease now old (alias_stored now st b)))"
  by (simp add: upsertManualNode_def alias_stored_def Let_def case_prod_beta split: option.splits)

lemma alias_stored_exact:
  assumes "manual_ok b" "mn_ID st \<noteq> []"
  shows "only_key (storeKey (manualToEnriched st)) b (alias_stored now st b)"
    and "aliases_ok (dr_manualNodeKeys (alias_stored now st b)) (dr_manualNodeStatuses (alias_stored now st b))"
    and "claim_at (alias_stored now st b) (storeKey (manualToEnriched st))"
    and "k \<noteq> storeKey (manualToEnriched st) \<Longrightarrow> mget (dr_manualNodeKeys b) (mn_ID st) \<noteq> Some k \<Longrightarrow>
      claim_at (alias_stored now st b) k"
proof -
  let ?key = "storeKey (manualToEnriched st)" and ?b2 = "alias_stored now st b"
  let ?keys = "mput (mn_ID st) ?key (dr_manualNodeKeys b)"
  let ?sts = "mput (mn_ID st) \<lparr>mx_status = st, mx_receivedAt = now\<rparr> (dr_manualNodeStatuses b)"
  have al: "dr_manualNodeKeys ?b2 = ?keys" "dr_manualNodeStatuses ?b2 = ?sts"
    by (simp_all add: alias_stored_def Let_def)
  show only: "only_key ?key b ?b2"
    by (simp add: alias_stored_def Let_def only_key_def slot_Upsert tele_slot_Upsert all_claimed_Upsert)
  show "aliases_ok (dr_manualNodeKeys ?b2) (dr_manualNodeStatuses ?b2)"
    using assms aliases_ok_mput by (simp add: manual_ok_def al)
  have "claim_exact ?keys ?sts ?key (Some (manualToEnriched st))
      (Some (alias_observation \<lparr>mx_status = st, mx_receivedAt = now\<rparr> ?key))"
    unfolding claim_exact_def by (auto simp: mget_mput)
  then show "claim_at ?b2 ?key"
    using manualKey_nonempty [OF assms(2)] unfolding claim_at_def al
    by (simp add: alias_stored_def Let_def slot_Upsert tele_slot_Upsert alias_observation_def)
  show "claim_at ?b2 k" if "k \<noteq> ?key" "mget (dr_manualNodeKeys b) (mn_ID st) \<noteq> Some k"
  proof -
    have "claim_exact (dr_manualNodeKeys b) (dr_manualNodeStatuses b) k
        (slot sourceManual (dr_store b) k) (tele_slot sourceManual (dr_telemetry b) k)"
      using assms(1) by (simp add: manual_ok_def)
    then have "claim_exact ?keys ?sts k (slot sourceManual (dr_store b) k) (tele_slot sourceManual (dr_telemetry b) k)"
      by (rule claim_exact_alias [where i = "mn_ID st"]) (use that in \<open>auto simp: mget_mput\<close>)
    then show ?thesis using only that(1) by (simp add: claim_at_def al only_key_def)
  qed
qed

text \<open>What every handler keeps: exact manual claims, a readable store, and the scanner's entries.\<close>

definition keeps :: "BrokerDir \<Rightarrow> BrokerDir \<Rightarrow> bool" where
  "keeps b b' \<longleftrightarrow> manual_ok b' \<and> (all_claimed (dr_store b) \<longrightarrow> all_claimed (dr_store b')) \<and>
     slot sourceScanner (dr_store b') = slot sourceScanner (dr_store b)"

lemma reproject_keeps:
  assumes "aliases_ok (dr_manualNodeKeys b) (dr_manualNodeStatuses b)" "key \<noteq> []" "\<And>k. k \<noteq> key \<Longrightarrow> claim_at b k"
  shows "keeps b (fst (reprojectOrRelease now key b))" (is "keeps b ?b'")
proof -
  have r: "same_aliases b ?b'" "only_key key b ?b'" "claim_at ?b' key"
    using reproject_exact [OF assms(1,2), of now] by blast+
  have "claim_at ?b' k" for k
    using r claim_at_other [of b k key ?b'] assms(3) [of k] by (cases "k = key") auto
  then show ?thesis using assms(1) r(1,2)
    by (simp add: keeps_def manual_ok_alt same_aliases_def only_key_def fun_eq_iff)
qed

lemma upsertManualNode_keeps:
  assumes "manual_ok b" "mn_ID st \<noteq> []"
  shows "keeps b (fst (upsertManualNode now st b))"
proof -
  note stage = alias_stored_exact [OF assms, where now = now]
  let ?b2 = "alias_stored now st b"
  have scan: "slot sourceScanner (dr_store ?b2) = slot sourceScanner (dr_store b)"
    "all_claimed (dr_store b) \<longrightarrow> all_claimed (dr_store ?b2)"
    using stage(1) by (simp_all add: only_key_def fun_eq_iff)
  consider (stays) "fst (upsertManualNode now st b) = ?b2"
      "\<And>k. mget (dr_manualNodeKeys b) (mn_ID st) = Some k \<Longrightarrow> k = storeKey (manualToEnriched st)"
    | (moves) old where "mget (dr_manualNodeKeys b) (mn_ID st) = Some old" "old \<noteq> storeKey (manualToEnriched st)"
      "fst (upsertManualNode now st b) = fst (reprojectOrRelease now old ?b2)"
    by (cases "mget (dr_manualNodeKeys b) (mn_ID st)") (auto simp: upsertManualNode_stages split: if_splits)
  then show ?thesis
  proof cases
    case stays
    have "claim_at ?b2 k" for k using stage(3,4) stays(2) by (cases "k = storeKey (manualToEnriched st)") auto
    then show ?thesis using stage(2) scan by (simp add: keeps_def stays(1) manual_ok_alt)
  next
    case moves
    have "old \<noteq> []" using assms(1) moves(1) by (auto simp: manual_ok_def aliases_ok_def)
    moreover have "claim_at ?b2 k" if "k \<noteq> old" for k
      using stage(3,4) that moves(1) by (cases "k = storeKey (manualToEnriched st)") auto
    ultimately have "keeps ?b2 (fst (upsertManualNode now st b))"
      using reproject_keeps [OF stage(2)] by (simp add: moves(3))
    then show ?thesis using scan by (simp add: keeps_def)
  qed
qed

lemma removeManualNode_keeps:
  assumes "manual_ok b"
  shows "keeps b (fst (removeManualNode now i b))"
proof -
  let ?keys = "mdel i (dr_manualNodeKeys b)" and ?sts = "mdel i (dr_manualNodeStatuses b)"
  let ?b0 = "b\<lparr>dr_manualNodeKeys := ?keys, dr_manualNodeStatuses := ?sts\<rparr>"
  have ok0: "aliases_ok ?keys ?sts" using assms by (simp add: manual_ok_def aliases_ok_mdel)
  have elsewhere: "claim_at ?b0 k" if "mget (dr_manualNodeKeys b) i \<noteq> Some k" for k
  proof -
    have "claim_exact (dr_manualNodeKeys b) (dr_manualNodeStatuses b) k
        (slot sourceManual (dr_store b) k) (tele_slot sourceManual (dr_telemetry b) k)"
      using assms by (simp add: manual_ok_def)
    then have "claim_exact ?keys ?sts k (slot sourceManual (dr_store b) k) (tele_slot sourceManual (dr_telemetry b) k)"
      by (rule claim_exact_alias [where i = i]) (use that in \<open>auto simp: mget_mdel\<close>)
    then show ?thesis by (simp add: claim_at_def)
  qed
  show ?thesis
  proof (cases "mget (dr_manualNodeKeys b) i")
    case None
    then show ?thesis using ok0 elsewhere by (simp add: keeps_def removeManualNode_def manual_ok_alt)
  next
    case (Some key)
    have "key \<noteq> []" using assms Some by (auto simp: manual_ok_def aliases_ok_def)
    then have "keeps ?b0 (fst (removeManualNode now i b))"
      using reproject_keeps [of ?b0 key now] ok0 elsewhere Some by (simp add: removeManualNode_def)
    then show ?thesis by (simp add: keeps_def)
  qed
qed

lemma drop_manual_claims:
  "dr_manualNodeKeys (fst (fold (drop_manual_claim now) ks bo)) = dr_manualNodeKeys (fst bo) \<and>
   dr_manualNodeStatuses (fst (fold (drop_manual_claim now) ks bo)) = dr_manualNodeStatuses (fst bo) \<and>
   slot sourceScanner (dr_store (fst (fold (drop_manual_claim now) ks bo))) = slot sourceScanner (dr_store (fst bo)) \<and>
   (all_claimed (dr_store (fst bo)) \<longrightarrow> all_claimed (dr_store (fst (fold (drop_manual_claim now) ks bo)))) \<and>
   slot sourceManual (dr_store (fst (fold (drop_manual_claim now) ks bo))) k =
     (if k \<in> set ks \<and> k \<noteq> [] then None else slot sourceManual (dr_store (fst bo)) k) \<and>
   tele_slot sourceManual (dr_telemetry (fst (fold (drop_manual_claim now) ks bo))) k =
     (if k \<in> set ks \<and> k \<noteq> [] then None else tele_slot sourceManual (dr_telemetry (fst bo)) k)"
proof (induction ks arbitrary: bo)
  case (Cons key ks)
  have "fst (drop_manual_claim now key bo) =
      fst (removeTelemetry now sourceManual key (fst (store_Remove now key sourceManual (fst bo))))"
    by (simp add: drop_manual_claim_def Let_def case_prod_beta)
  then show ?case using Cons [of "drop_manual_claim now key bo"]
    by (auto simp: slot_Remove tele_slot_Remove all_claimed_Remove fun_eq_iff)
qed simp

lemma clearManualNodesState_keeps:
  assumes "manual_ok b"
  shows "keeps b (fst (clearManualNodesState now b))"
proof -
  let ?b0 = "b\<lparr>dr_manualNodeKeys := [], dr_manualNodeStatuses := []\<rparr>"
  let ?b' = "fst (clearManualNodesState now b)"
  note drop = drop_manual_claims [of now "remdups (mvals (dr_manualNodeKeys b))" "(?b0, [])",
      folded clearManualNodesState_def, simplified]
  have "claim_at ?b' k" for k
  proof (cases "\<forall>i. mget (dr_manualNodeKeys b) i \<noteq> Some k")
    case True
    have "claim_at b k" using assms by (simp add: manual_ok_alt)
    then have "slot sourceManual (dr_store b) k = None \<and> tele_slot sourceManual (dr_telemetry b) k = None"
      using True by (simp add: claim_at_def claim_exact_def)
    then show ?thesis using drop [of k] by (simp add: claim_at_def claim_exact_def)
  next
    case False
    then have "k \<in> set (mvals (dr_manualNodeKeys b))" "k \<noteq> []"
      using assms by (auto simp: manual_ok_def aliases_ok_def mvals_iff)
    then show ?thesis using drop [of k] by (simp add: claim_at_def claim_exact_def)
  qed
  then show ?thesis using drop
    by (simp add: keeps_def manual_ok_alt aliases_ok_def)
qed

subsection \<open>Reachable directories\<close>

definition BrokerDir0 :: "bool \<Rightarrow> bool \<Rightarrow> BrokerDir" where
  "BrokerDir0 ollama lmstudio = \<lparr>dr_store = [], dr_telemetry = [], dr_manualNodeKeys = [], dr_manualNodeStatuses = [],
     dr_ollama = ollama, dr_lmstudio = lmstudio\<rparr>"

inductive dir_reach :: "BrokerDir \<Rightarrow> bool" where
  start: "dir_reach (BrokerDir0 ollama lmstudio)"
| scanner: "dir_reach b \<Longrightarrow> dir_reach (fst (snd (handleNotify now meth params d b)))"
| manual: "dir_reach b \<Longrightarrow> dir_reach (fst (forwardManualNodesNotification now meth params b))"
| crash: "dir_reach b \<Longrightarrow> dir_reach (fst (clearManualNodesState now b))"

text \<open>What the scanner's notifications do to the state: nothing of the manual side changes.\<close>

definition scanner_only :: "BrokerDir \<Rightarrow> BrokerDir \<Rightarrow> bool" where
  "scanner_only b b' \<longleftrightarrow> same_aliases b b' \<and>
     slot sourceManual (dr_store b') = slot sourceManual (dr_store b) \<and>
     tele_slot sourceManual (dr_telemetry b') = tele_slot sourceManual (dr_telemetry b) \<and>
     (all_claimed (dr_store b) \<longrightarrow> all_claimed (dr_store b'))"

lemma scanner_only_ops:
  "scanner_only b b"
  "scanner_only b (fst (store_Upsert now n sourceScanner b))"
  "scanner_only b (fst (store_Remove now key sourceScanner b))"
  "scanner_only b (fst (ingestTelemetryAt sourceScanner v t b))"
  "scanner_only b (fst (removeTelemetry now sourceScanner key b))"
  by (simp_all add: scanner_only_def same_aliases_def slot_Upsert slot_Remove tele_slot_Upsert tele_slot_Remove
      all_claimed_Upsert all_claimed_Remove fun_eq_iff)

lemma scanner_only_trans: "scanner_only b b' \<Longrightarrow> scanner_only b' b'' \<Longrightarrow> scanner_only b b''"
  by (simp add: scanner_only_def same_aliases_def)

text \<open>The node and telemetry notifications, with the effect on the state and the outputs.\<close>

lemma handleNotify_upsert:
  assumes "meth = NotifyNodeDiscovered \<or> meth = NotifyNodeUpdated"
    and "Unmarshal (dec_struct node_event_fields) DirectoryNode0 params = Some node"
  shows "fst (snd (handleNotify now meth params d b)) = fst (store_Upsert now (directoryToEnriched node) sourceScanner b)"
    and "NodeLost u nm \<notin> set (snd (snd (handleNotify now meth params d b)))"
proof -
  have "meth \<noteq> NotifyNodeRemoved" using assms(1)
    by (auto simp: NotifyNodeDiscovered_def NotifyNodeUpdated_def NotifyNodeRemoved_def)
  then show "fst (snd (handleNotify now meth params d b)) = fst (store_Upsert now (directoryToEnriched node) sourceScanner b)"
    "NodeLost u nm \<notin> set (snd (snd (handleNotify now meth params d b)))"
    using assms by (auto simp: handleNotify_def Let_def case_prod_beta store_Upsert_def)
qed

lemma handleNotify_removed:
  assumes "Unmarshal (dec_struct node_event_fields) DirectoryNode0 params = Some node"
  shows "fst (snd (handleNotify now NotifyNodeRemoved params d b)) =
      fst (store_Remove now (d_HostUUID node) sourceScanner (fst (removeTelemetry now sourceScanner (d_HostUUID node) b)))"
    and "NodeLost u nm \<in> set (snd (snd (handleNotify now NotifyNodeRemoved params d b))) \<longleftrightarrow>
      u = d_HostUUID node \<and> nm = d_Name node \<and> fst (snd (Remove now (d_HostUUID node) sourceScanner (dr_store b)))"
proof -
  have key: "storeKey (directoryToEnriched node) = d_HostUUID node" by (simp add: storeKey_def directoryToEnriched_def)
  have "NotifyNodeRemoved \<noteq> NotifyNodeTelemetry" by (simp add: NotifyNodeRemoved_def NotifyNodeTelemetry_def)
  then show "fst (snd (handleNotify now NotifyNodeRemoved params d b)) =
      fst (store_Remove now (d_HostUUID node) sourceScanner (fst (removeTelemetry now sourceScanner (d_HostUUID node) b)))"
    "NodeLost u nm \<in> set (snd (snd (handleNotify now NotifyNodeRemoved params d b))) \<longleftrightarrow>
      u = d_HostUUID node \<and> nm = d_Name node \<and> fst (snd (Remove now (d_HostUUID node) sourceScanner (dr_store b)))"
    using assms key
    by (auto simp: handleNotify_def Let_def case_prod_beta store_Remove_def removeTelemetry_def split: option.splits if_splits)
qed

lemma handleNotify_other:
  assumes "meth \<noteq> NotifyNodeRemoved \<and> meth \<noteq> NotifyNodeDiscovered \<and> meth \<noteq> NotifyNodeUpdated \<or>
    Unmarshal (dec_struct node_event_fields) DirectoryNode0 params = None"
  shows "fst (snd (handleNotify now meth params d b)) = b \<or>
      (\<exists>t. fst (snd (handleNotify now meth params d b)) = fst (ingestTelemetryAt sourceScanner t now b))"
    and "NodeLost u nm \<notin> set (snd (snd (handleNotify now meth params d b)))"
  using assms
  by (auto simp: handleNotify_def Let_def case_prod_beta ingestTelemetryAt_def split: option.splits if_splits)

lemma handleNotify_scanner_only: "scanner_only b (fst (snd (handleNotify now meth params d b)))"
proof (cases "Unmarshal (dec_struct node_event_fields) DirectoryNode0 params")
  case None
  then show ?thesis using handleNotify_other(1) [of meth params now d b] scanner_only_ops(1,4) by metis
next
  case (Some node)
  show ?thesis
  proof (cases "meth = NotifyNodeRemoved")
    case True
    then show ?thesis using handleNotify_removed(1) [OF Some] scanner_only_ops(3,5) scanner_only_trans by metis
  next
    case False
    then show ?thesis
      using handleNotify_upsert(1) [OF _ Some] handleNotify_other(1) [of meth params now d b] scanner_only_ops(1,2,4) by metis
  qed
qed

lemma manual_ok_scanner_only: "manual_ok b \<Longrightarrow> scanner_only b b' \<Longrightarrow> manual_ok b'"
  by (simp add: manual_ok_def scanner_only_def same_aliases_def)

lemma manual_notification_cases:
  "forwardManualNodesNotification now meth params b \<in>
     {(b, [])} \<union> {upsertManualNode now st b | st. mn_ID st \<noteq> []} \<union> {removeManualNode now i b | i. True}"
  by (auto simp: forwardManualNodesNotification_def split: option.splits)

lemma manual_notification_keeps:
  assumes "manual_ok b"
  shows "keeps b (fst (forwardManualNodesNotification now meth params b))"
  using manual_notification_cases [of now meth params b] assms
    upsertManualNode_keeps [OF assms] removeManualNode_keeps [OF assms]
  by (auto simp: keeps_def)

lemma reach_ok: "dir_reach b \<Longrightarrow> manual_ok b \<and> all_claimed (dr_store b)"
proof (induction rule: dir_reach.induct)
  case (start ollama lmstudio)
  show ?case by (simp add: BrokerDir0_def manual_ok_def aliases_ok_def claim_exact_def slot_def tele_slot_def all_claimed_def)
next
  case (scanner b now meth params d)
  then show ?case using handleNotify_scanner_only manual_ok_scanner_only by (metis scanner_only_def)
next
  case (manual b now meth params)
  then show ?case using manual_notification_keeps by (simp add: keeps_def)
next
  case (crash b now)
  then show ?case using clearManualNodesState_keeps by (simp add: keeps_def)
qed


text \<open>Two aliases of one machine, the second of which learns the identity the first already has.\<close>

definition demo_alias :: "string \<Rightarrow> string \<Rightarrow> string \<Rightarrow> manualNodeStatus" where
  "demo_alias i addr uuid = manualNodeStatus0\<lparr>mn_ID := i, mn_Address := addr, mn_HostUUID := uuid, mn_OllamaUp := True, mn_OllamaPort := 11434\<rparr>"

definition alias_json :: "string \<Rightarrow> string \<Rightarrow> string \<Rightarrow> raw" where
  "alias_json i addr uuid = Some (JObj [(''id'', JStr i), (''address'', JStr addr), (''hostUuid'', JStr uuid)])"

definition demo_dir :: BrokerDir where
  "demo_dir = fst (forwardManualNodesNotification 7 ''node/removed'' (alias_json ''a'' [] [])
     (fst (forwardManualNodesNotification 5 ''node/updated'' (alias_json ''b'' ''10.0.0.2'' ''u'')
       (fst (forwardManualNodesNotification 3 ''node/discovered'' (alias_json ''b'' ''10.0.0.2'' [])
         (fst (forwardManualNodesNotification 2 ''node/discovered'' (alias_json ''a'' ''10.0.0.1'' ''u'')
           (BrokerDir0 True False))))))))"

lemma demo_dir_reached: "dir_reach demo_dir"
  unfolding demo_dir_def by (intro dir_reach.intros)


lemma handleNotify_lost:
  "NodeLost u nm \<in> set (snd (snd (handleNotify now meth params d b))) \<longleftrightarrow>
     (\<exists>node. meth = NotifyNodeRemoved \<and> Unmarshal (dec_struct node_event_fields) DirectoryNode0 params = Some node \<and>
        u = d_HostUUID node \<and> nm = d_Name node \<and> fst (snd (Remove now u sourceScanner (dr_store b))))"
proof (cases "Unmarshal (dec_struct node_event_fields) DirectoryNode0 params")
  case None
  then show ?thesis using handleNotify_other(2) [of meth params u nm now d b] by simp
next
  case (Some node)
  show ?thesis
  proof (cases "meth = NotifyNodeRemoved")
    case True
    then show ?thesis using handleNotify_removed(2) [OF Some, of u nm now d b] Some by auto
  next
    case False
    then have "NodeLost u nm \<notin> set (snd (snd (handleNotify now meth params d b)))"
      using handleNotify_upsert(2) [OF _ Some] handleNotify_other(2) by metis
    then show ?thesis using False by simp
  qed
qed

lemma manual_slot_iff:
  assumes "dir_reach b"
  shows "slot sourceManual (dr_store b) k = None \<longleftrightarrow> (\<forall>i. mget (dr_manualNodeKeys b) i \<noteq> Some k)"
  using reach_ok [OF assms] by (auto simp: manual_ok_def claim_exact_def split: if_splits)

lemma scanner_final:
  assumes "dir_reach b"
  shows "fst (snd (Remove now k sourceScanner (dr_store b))) \<longleftrightarrow>
      k \<noteq> [] \<and> slot sourceScanner (dr_store b) k \<noteq> None \<and> (\<forall>i. mget (dr_manualNodeKeys b) i \<noteq> Some k)"
  unfolding Remove_final manual_slot_iff [OF assms, symmetric] by (metis nodeSource.distinct(1) nodeSource.exhaust)

lemma Remove_final_gone: "fst (snd (Remove now k src s)) \<Longrightarrow> mget (fst (Remove now k src s)) k = None"
  by (auto simp: Remove_def Let_def mget_mdel split: option.splits if_splits)

lemma node_lost_exactly_when_unclaimed_parts:
  assumes "dir_reach b"
  shows "NodeLost u nm \<in> set (snd (snd (handleNotify now meth params d b))) \<longleftrightarrow>
      (\<exists>node. meth = NotifyNodeRemoved \<and> Unmarshal (dec_struct node_event_fields) DirectoryNode0 params = Some node \<and>
         u = d_HostUUID node \<and> nm = d_Name node \<and> u \<noteq> [] \<and> slot sourceScanner (dr_store b) u \<noteq> None \<and>
         (\<forall>i. mget (dr_manualNodeKeys b) i \<noteq> Some u))"
    and "NodeLost u nm \<in> set (snd (snd (handleNotify now meth params d b))) \<Longrightarrow>
      mget (dr_store (fst (snd (handleNotify now meth params d b)))) u = None"
proof -
  show "NodeLost u nm \<in> set (snd (snd (handleNotify now meth params d b))) \<longleftrightarrow>
      (\<exists>node. meth = NotifyNodeRemoved \<and> Unmarshal (dec_struct node_event_fields) DirectoryNode0 params = Some node \<and>
         u = d_HostUUID node \<and> nm = d_Name node \<and> u \<noteq> [] \<and> slot sourceScanner (dr_store b) u \<noteq> None \<and>
         (\<forall>i. mget (dr_manualNodeKeys b) i \<noteq> Some u))"
    unfolding handleNotify_lost scanner_final [OF assms] by blast
next
  assume "NodeLost u nm \<in> set (snd (snd (handleNotify now meth params d b)))"
  then obtain node where "meth = NotifyNodeRemoved" "Unmarshal (dec_struct node_event_fields) DirectoryNode0 params = Some node"
    "u = d_HostUUID node" "fst (snd (Remove now u sourceScanner (dr_store b)))" unfolding handleNotify_lost by blast
  then show "mget (dr_store (fst (snd (handleNotify now meth params d b)))) u = None"
    using handleNotify_removed(1) Remove_final_gone by simp
qed


definition node_json :: "string \<Rightarrow> string \<Rightarrow> raw" where
  "node_json uuid nm = Some (JObj [(''node'', JObj [(''hostUuid'', JStr uuid), (''name'', JStr nm)])])"

definition demo_scanned :: BrokerDir where
  "demo_scanned = fst (snd (handleNotify 1 NotifyNodeDiscovered (node_json ''u'' ''box'') NewDirectory (BrokerDir0 True True)))"


lemma manual_departure_silent:
  "NodeLost u nm \<notin> set (snd (forwardManualNodesNotification now meth params b))"
proof -
  have ops: "NodeLost u nm \<notin> set (snd (store_Upsert now n src b))" "NodeLost u nm \<notin> set (snd (snd (store_Remove now key src b)))"
    "NodeLost u nm \<notin> set (snd (ingestTelemetryAt src v tm b))" "NodeLost u nm \<notin> set (snd (removeTelemetry now src key b))"
    "NodeLost u nm \<notin> set (bridgeManualNode b st key)" "NodeLost u nm \<notin> set (removeManualNodeFromProxies b key)"
    for n src b key v tm st
    by (auto simp: store_Upsert_def store_Remove_def ingestTelemetryAt_def removeTelemetry_def bridgeManualNode_def
        bridgeToProxy_def removeManualNodeFromProxies_def Let_def case_prod_beta split: option.splits)
  have rep: "NodeLost u nm \<notin> set (snd (reprojectOrRelease now key b))" for key b
    by (auto simp: reprojectOrRelease_def Let_def case_prod_beta ops split: option.splits)
  have "NodeLost u nm \<notin> set (snd (upsertManualNode now st b))" "NodeLost u nm \<notin> set (snd (removeManualNode now i b))" for st i
    by (auto simp: upsertManualNode_def removeManualNode_def Let_def case_prod_beta ops rep split: option.splits)
  then show ?thesis using manual_notification_cases [of now meth params b] by auto
qed

text \<open>
  When the last alias of a machine the scanner does not see is removed, its record leaves the directory
  without a report that the node is lost, so the workloads pinned to it stay in progress.
\<close>

theorem last_alias_departs_unreported:
  assumes "dir_reach b" and "mget (dr_manualNodeKeys b) i = Some k" and "\<forall>j. j \<noteq> i \<longrightarrow> mget (dr_manualNodeKeys b) j \<noteq> Some k"
    and "slot sourceScanner (dr_store b) k = None"
    and "Unmarshal (dec_struct manual_fields) manualNodeStatus0 params = Some st" and "mn_ID st = i"
  shows "\<exists>sn. mget (dr_store b) k = Some sn"
    and "mget (dr_store (fst (forwardManualNodesNotification now ''node/removed'' params b))) k = None"
    and "NodeLost u nm \<notin> set (snd (forwardManualNodesNotification now ''node/removed'' params b))"
proof -
  let ?b' = "fst (forwardManualNodesNotification now ''node/removed'' params b)"
  have ok: "manual_ok b" "all_claimed (dr_store b)" using reach_ok [OF assms(1)] by blast+
  have b': "?b' = fst (removeManualNode now i b)"
    using assms(5,6) by (simp add: forwardManualNodesNotification_def)
  have keys': "dr_manualNodeKeys ?b' = mdel i (dr_manualNodeKeys b)"
    using assms(2) by (simp add: b' removeManualNode_def)
  have keeps: "keeps b ?b'" using removeManualNode_keeps [OF ok(1)] by (simp add: b')
  show "\<exists>sn. mget (dr_store b) k = Some sn"
    using manual_slot_iff [OF assms(1), of k] assms(2) by (cases "mget (dr_store b) k") (auto simp: slot_def)
  have "slot sourceManual (dr_store ?b') k = None"
    using keeps keys' assms(3) by (simp add: keeps_def manual_ok_def claim_exact_def mget_mdel split: if_splits)
  moreover have "slot sourceScanner (dr_store ?b') k = None" using keeps assms(4) by (simp add: keeps_def)
  moreover have "claimed sn" if "mget (dr_store ?b') k = Some sn" for sn
    using that keeps ok(2) by (auto simp: keeps_def all_claimed_def dest: mget_SomeD)
  ultimately show "mget (dr_store ?b') k = None"
    by (cases "mget (dr_store ?b') k") (auto simp: slot_def claimed_def)
  show "NodeLost u nm \<notin> set (snd (forwardManualNodesNotification now ''node/removed'' params b))"
    by (rule manual_departure_silent)
qed

theorem last_alias_departs_unreported_witness:
  "mget (dr_store (fst (forwardManualNodesNotification 9 ''node/removed'' (alias_json ''b'' [] []) demo_dir))) ''u'' = None"
proof (rule last_alias_departs_unreported(2) [OF demo_dir_reached])
  have keys: "dr_manualNodeKeys demo_dir = [(''b'', ''u'')]" by code_simp
  then show "mget (dr_manualNodeKeys demo_dir) ''b'' = Some ''u''"
    "\<forall>j. j \<noteq> ''b'' \<longrightarrow> mget (dr_manualNodeKeys demo_dir) j \<noteq> Some ''u''" by (simp_all add: mget_Cons)
  show "slot sourceScanner (dr_store demo_dir) ''u'' = None" by code_simp
  show "Unmarshal (dec_struct manual_fields) manualNodeStatus0 (alias_json ''b'' [] []) = Some (manualNodeStatus0\<lparr>mn_ID := ''b''\<rparr>)"
    by code_simp
qed simp

lemma scanner_keyed: "dir_reach b \<Longrightarrow> slot sourceScanner (dr_store b) k = Some n \<Longrightarrow> storeKey n = k"
proof (induction arbitrary: k n rule: dir_reach.induct)
  case (start ollama lmstudio)
  then show ?case by (simp add: BrokerDir0_def slot_def)
next
  case (scanner b now meth params d)
  show ?case
  proof (cases "Unmarshal (dec_struct node_event_fields) DirectoryNode0 params")
    case None
    then show ?thesis using scanner handleNotify_other(1) [of meth params now d b] by auto
  next
    case (Some node)
    consider "meth = NotifyNodeRemoved" | "meth = NotifyNodeDiscovered \<or> meth = NotifyNodeUpdated"
      | "meth \<noteq> NotifyNodeRemoved \<and> meth \<noteq> NotifyNodeDiscovered \<and> meth \<noteq> NotifyNodeUpdated" by blast
    then show ?thesis
    proof cases
      case 1
      then show ?thesis using scanner handleNotify_removed(1) [OF Some] by (simp add: slot_Remove split: if_splits)
    next
      case 2
      then show ?thesis using scanner handleNotify_upsert(1) [OF 2 Some] by (simp add: slot_Upsert split: if_splits)
    next
      case 3
      then show ?thesis using scanner handleNotify_other(1) [of meth params now d b] by auto
    qed
  qed
next
  case (manual b now meth params)
  then show ?case using manual_notification_keeps [of b now meth params] reach_ok [OF manual.hyps] by (simp add: keeps_def)
next
  case (crash b now)
  then show ?case using clearManualNodesState_keeps [of b now] reach_ok [OF crash.hyps] by (simp add: keeps_def)
qed

lemma stored_keyed:
  assumes "dir_reach b" "(k, sn) \<in> set (dr_store b)"
  shows "storeKey (view_of sn) = k"
proof -
  have ok: "manual_ok b" "all_claimed (dr_store b)" using reach_ok [OF assms(1)] by blast+
  then have sn: "mget (dr_store b) k = Some sn" "claimed sn"
    using assms(2) by (auto simp: all_claimed_def mget_in_set)
  show ?thesis
  proof (cases "sd_scanner sn")
    case (Some n)
    then have "slot sourceScanner (dr_store b) k = Some n" using sn(1) by (simp add: slot_def)
    then show ?thesis using scanner_keyed [OF assms(1)] Some by (simp add: view_of_def)
  next
    case None
    then obtain n where n: "sd_manual sn = Some n" using sn(2) by (auto simp: claimed_def)
    then have "slot sourceManual (dr_store b) k = Some n" using sn(1) by (simp add: slot_def)
    moreover have "claim_exact (dr_manualNodeKeys b) (dr_manualNodeStatuses b) k
        (slot sourceManual (dr_store b) k) (tele_slot sourceManual (dr_telemetry b) k)"
      using ok(1) by (simp add: manual_ok_def)
    ultimately obtain i e where "mget (dr_manualNodeKeys b) i = Some k" "mget (dr_manualNodeStatuses b) i = Some e"
      "n = manualToEnriched (mx_status e)"
      by (auto simp: claim_exact_def split: if_splits)
    moreover from this have "storeKey (manualToEnriched (mx_status e)) = k" using ok(1) unfolding manual_ok_def aliases_ok_def by force
    ultimately show ?thesis using None n by (simp add: view_of_def)
  qed
qed

lemma store_keys_claimed:
  assumes "all_claimed s"
  shows "k \<in> set (mkeys s) \<longleftrightarrow> slot sourceScanner s k \<noteq> None \<or> slot sourceManual s k \<noteq> None"
proof (cases "mget s k")
  case None
  then show ?thesis using mget_None [of s k] by (simp add: slot_def)
next
  case (Some sn)
  then have "claimed sn" using assms by (auto simp: all_claimed_def dest: mget_SomeD)
  then show ?thesis using Some mget_None [of s k] by (simp add: slot_def claimed_def)
qed

definition listed :: "discoveryStore \<Rightarrow> AvailableNode list" where
  "listed s = sort_by (\<lambda>a b. av_ID a < av_ID b) (map (\<lambda>sn. available_of (view_of sn) (sd_lastSeen sn)) (mvals s))"

lemma Snapshot_listed:
  assumes "all_claimed s"
  shows "store_Snapshot s = Returns (listed s)"
proof -
  have "\<forall>sn \<in> set (mvals s). claimed sn" using assms unfolding all_claimed_def mvals_def by auto
  then show ?thesis unfolding store_Snapshot_def listed_def by (simp only: collect_returns go.case)
qed

lemma listed_sorted: "sorted (map av_ID (listed s))"
  unfolding listed_def by (rule by_av_id.sorted_sort_by)

lemma listed_uuids:
  assumes "dir_reach b"
  shows "mset (map av_HostUUID (listed (dr_store b))) = mset (mkeys (dr_store b))"
proof -
  have uuid: "av_HostUUID (available_of (view_of (snd ks)) (sd_lastSeen (snd ks))) = fst ks" if "ks \<in> set (dr_store b)" for ks
    using stored_keyed [OF assms, of "fst ks" "snd ks"] that by (simp add: available_of_def storeKey_def Let_def)
  have "map av_HostUUID (map (\<lambda>sn. available_of (view_of sn) (sd_lastSeen sn)) (map snd (dr_store b))) = map fst (dr_store b)"
    unfolding map_map by (rule map_cong [OF refl]) (simp only: comp_apply uuid)
  then have "mset (map av_HostUUID (map (\<lambda>sn. available_of (view_of sn) (sd_lastSeen sn)) (map snd (dr_store b)))) = mset (map fst (dr_store b))"
    by (rule arg_cong)
  then show ?thesis unfolding listed_def mvals_def mkeys_def by (simp only: mset_map mset_sort_by)
qed

text \<open>
  C28. A client's snapshot of the directory never fails on a record without a source, lists every machine
  once, in the order of the names, and lists exactly the machines that the scanner sees or that a manual
  alias resolves to: a machine both discovered and added by hand, even under several aliases, is one entry.
\<close>

theorem snapshot_lists_each_machine_once:
  assumes "dir_reach b"
  shows "\<exists>as. store_Snapshot (dr_store b) = Returns as \<and> sorted (map av_ID as) \<and> distinct (map av_HostUUID as) \<and>
    set (map av_HostUUID as) = {k. slot sourceScanner (dr_store b) k \<noteq> None \<or> (\<exists>i. mget (dr_manualNodeKeys b) i = Some k)}"
proof (intro exI conjI)
  have claimed: "all_claimed (dr_store b)" using reach_ok [OF assms] by blast
  note same = listed_uuids [OF assms]
  show "store_Snapshot (dr_store b) = Returns (listed (dr_store b))" by (rule Snapshot_listed [OF claimed])
  show "sorted (map av_ID (listed (dr_store b)))" by (rule listed_sorted)
  have "distinct (mkeys (dr_store b))" using claimed by (simp add: all_claimed_def wf_map_def mkeys_def)
  then show "distinct (map av_HostUUID (listed (dr_store b)))" using mset_eq_imp_distinct_iff [OF same] by blast
  have "set (map av_HostUUID (listed (dr_store b))) = set (mkeys (dr_store b))" by (rule mset_eq_setD [OF same])
  also have "\<dots> = {k. slot sourceScanner (dr_store b) k \<noteq> None \<or> (\<exists>i. mget (dr_manualNodeKeys b) i = Some k)}"
    using store_keys_claimed [OF claimed] manual_slot_iff [OF assms] by blast
  finally show "set (map av_HostUUID (listed (dr_store b))) =
      {k. slot sourceScanner (dr_store b) k \<noteq> None \<or> (\<exists>i. mget (dr_manualNodeKeys b) i = Some k)}" .
qed

definition demo_both :: BrokerDir where
  "demo_both = fst (snd (handleNotify 8 NotifyNodeDiscovered (node_json ''u'' ''box'') NewDirectory demo_dir))"

theorem snapshot_lists_each_machine_once_witness:
  "\<exists>as. store_Snapshot (dr_store demo_both) = Returns as \<and> set (map av_HostUUID as) = {''u''}"
proof -
  have reach: "dir_reach demo_both" unfolding demo_both_def by (rule dir_reach.scanner [OF demo_dir_reached])
  have keys: "mkeys (dr_store demo_both) = [''u'']" by code_simp
  have aliases: "dr_manualNodeKeys demo_both = [(''b'', ''u'')]" by code_simp
  have "k = ''u''" if "slot sourceScanner (dr_store demo_both) k \<noteq> None" for k
  proof -
    have "mget (dr_store demo_both) k \<noteq> None" using that by (cases "mget (dr_store demo_both) k") (simp_all add: slot_def)
    then show ?thesis unfolding mget_None keys by simp
  qed
  moreover have "(\<exists>i. mget (dr_manualNodeKeys demo_both) i = Some k) \<longleftrightarrow> k = ''u''" for k
    unfolding aliases by (auto simp: mget_Cons split: if_splits)
  ultimately have "{k. slot sourceScanner (dr_store demo_both) k \<noteq> None \<or> (\<exists>i. mget (dr_manualNodeKeys demo_both) i = Some k)} = {''u''}"
    by blast
  then show ?thesis using snapshot_lists_each_machine_once [OF reach] by auto
qed

section \<open>Telemetry and activity\<close>

text \<open>
  The age the broker forwards with a utilisation is never negative and never exceeds what 64 bits hold:
  it is the reported age, with a negative one read as fresh, plus the whole milliseconds since it arrived,
  and stops at the largest value instead of wrapping round to a negative, fresh-looking age. Looking
  later never makes an observation look fresher.
\<close>

theorem telemetry_age_saturates:
  assumes "in_int64 (nt_MSSince (ob_value ob))" "nt_TelemetryValid (ob_value ob)" "ob_receivedAt ob \<le> now"
  shows "nt_MSSince (observedTelemetryAt ob now) =
      min maxTelemetryMilliseconds (max 0 (nt_MSSince (ob_value ob)) + (now - ob_receivedAt ob) div Millisecond)"
    and "0 \<le> nt_MSSince (observedTelemetryAt ob now)" "in_int64 (nt_MSSince (observedTelemetryAt ob now))"
    and "now \<le> later \<Longrightarrow> nt_MSSince (observedTelemetryAt ob now) \<le> nt_MSSince (observedTelemetryAt ob later)"
proof -
  have age: "nt_MSSince (observedTelemetryAt ob t) =
      min maxTelemetryMilliseconds (max 0 (nt_MSSince (ob_value ob)) + (t - ob_receivedAt ob) div Millisecond)"
    if "ob_receivedAt ob \<le> t" for t
  proof -
    have "0 \<le> (t - ob_receivedAt ob) div Millisecond" using that by (simp add: pos_imp_zdiv_nonneg_iff)
    then show ?thesis using assms(1,2)
      by (auto simp: observedTelemetryAt_def Let_def maxTelemetryMilliseconds_def in_int64_def)
  qed
  show exact: "nt_MSSince (observedTelemetryAt ob now) =
      min maxTelemetryMilliseconds (max 0 (nt_MSSince (ob_value ob)) + (now - ob_receivedAt ob) div Millisecond)"
    using age assms(3) by simp
  have "0 \<le> (now - ob_receivedAt ob) div Millisecond" using assms(3) by (simp add: pos_imp_zdiv_nonneg_iff)
  then show "0 \<le> nt_MSSince (observedTelemetryAt ob now)" "in_int64 (nt_MSSince (observedTelemetryAt ob now))"
    unfolding exact by (auto simp: maxTelemetryMilliseconds_def in_int64_def)
  show "nt_MSSince (observedTelemetryAt ob now) \<le> nt_MSSince (observedTelemetryAt ob later)" if "now \<le> later"
  proof -
    have "(now - ob_receivedAt ob) div Millisecond \<le> (later - ob_receivedAt ob) div Millisecond"
      using that by (intro zdiv_mono1) auto
    then show ?thesis using age [of now] age [of later] assms(3) that by linarith
  qed
qed

definition demo_observation :: telemetryObservation where
  "demo_observation = \<lparr>ob_value = \<lparr>nt_HostUUID = ''u'', nt_GPUUtilizationPct = 40, nt_TelemetryValid = True,
     nt_MSSince = 2 ^ 63 - 10\<rparr>, ob_receivedAt = 0\<rparr>"

theorem telemetry_age_saturates_witness:
  "nt_MSSince (observedTelemetryAt demo_observation (30 * Millisecond)) = 2 ^ 63 - 1"
  using telemetry_age_saturates(1) [of demo_observation "30 * Millisecond"]
  by (simp add: demo_observation_def in_int64_def maxTelemetryMilliseconds_def)

text \<open>
  An activity report never vouches for a node from the future: whatever age a proxy reports, the time
  the broker attributes to it lies between an hour ago and now, and it is the reported time when the age is
  within the hour. The age handed to the scanner includes the wait in the queue.
\<close>

theorem activity_age_bounded:
  shows "0 \<le> clampActivityAge ms" "clampActivityAge ms \<le> activityAgeCeiling"
    and "clampActivityAge ms = min activityAgeCeiling (max 0 ms * Millisecond)"
proof -
  show exact: "clampActivityAge ms = min activityAgeCeiling (max 0 ms * Millisecond)"
  proof (cases "0 < ms \<and> ms \<le> activityAgeCeiling div Millisecond")
    case True
    then have "in_int64 (ms * Millisecond)" by (simp add: activityAgeCeiling_def in_int64_def)
    then show ?thesis using True by (simp add: clampActivityAge_def wrap64_id activityAgeCeiling_def)
  next
    case False
    then show ?thesis by (auto simp: clampActivityAge_def activityAgeCeiling_def)
  qed
  show "0 \<le> clampActivityAge ms" "clampActivityAge ms \<le> activityAgeCeiling"
    unfolding exact by (simp_all add: activityAgeCeiling_def)
qed

lemma activity_queue_bounded: "length q \<le> activityQueueDepth \<Longrightarrow> length (routeNodeActivity now params q) \<le> activityQueueDepth"
  by (auto simp: routeNodeActivity_def reportNodeActivity_def split: option.splits)

end
