(* ===== verification/WorkloadStore.thy ===== *)
theory WorkloadStore
  imports GoJson GoStrings Registers
begin

section \<open>The broker's workload store\<close>

text \<open>
  \<open>nvpair-ui-broker/workloadstore/store.go\<close>: the index of cluster workloads and its
  provenance-aware merge. The store's mutex makes every exported method one atomic step, so an
  operation is a function from the store to the store and its results. The store clock is an
  argument: an operation that changes a record writes one clock reading into it.
\<close>

subsection \<open>Data\<close>

record Key =
  k_Origin :: string
  k_Engine :: string
  k_RunID :: string
  k_ID :: string

record Record =
  r_Origin :: string
  r_ID :: string
  r_State :: string
  r_CreatedAt :: int
  r_CompletedAt :: int
  r_ScheduledOn :: string
  r_Terminal :: bool
  r_Inferred :: bool
  r_Info :: raw
  r_LastUpdated :: int
  r_LastSeen :: time

record Incoming =
  i_Origin :: string
  i_Engine :: string
  i_RunID :: string
  i_ID :: string
  i_State :: string
  i_CreatedAt :: int
  i_CompletedAt :: int
  i_ScheduledOn :: string
  i_Info :: raw

record Store =
  s_records :: "(Key, Record) gomap"
  s_path :: string
  s_rotations :: int
  s_historyCap :: int
  s_maxAgeMs :: int
  s_dirty :: bool

definition New :: Store where
  "New = \<lparr>s_records = [], s_path = [], s_rotations = 0, s_historyCap = 0, s_maxAgeMs = 0,
     s_dirty = False\<rparr>"

definition isTerminal :: "string \<Rightarrow> bool" where
  "isTerminal state \<longleftrightarrow> state = ''completed'' \<or> state = ''failed''"

definition rank :: "string \<Rightarrow> int" where
  "rank state =
     (if state = ''queued'' then 1
      else if state = ''running'' then 2
      else if state = ''completed'' \<or> state = ''failed'' then 3
      else 0)"

definition keyOf :: "Incoming \<Rightarrow> Key" where
  "keyOf i = \<lparr>k_Origin = i_Origin i, k_Engine = i_Engine i, k_RunID = i_RunID i, k_ID = i_ID i\<rparr>"

definition recordFrom :: "Incoming \<Rightarrow> time \<Rightarrow> Record" where
  "recordFrom i now =
     \<lparr>r_Origin = i_Origin i, r_ID = i_ID i, r_State = i_State i, r_CreatedAt = i_CreatedAt i,
      r_CompletedAt = i_CompletedAt i, r_ScheduledOn = i_ScheduledOn i,
      r_Terminal = isTerminal (i_State i), r_Inferred = False, r_Info = i_Info i,
      r_LastUpdated = UnixMilli now, r_LastSeen = now\<rparr>"

subsection \<open>ParseIncoming\<close>

record header =
  h_ID :: string
  h_Engine :: string
  h_RunID :: string
  h_State :: string
  h_OriginatedFrom :: string
  h_ScheduledOn :: string
  h_CreatedAt :: int
  h_CompletedAt :: "int option"

definition header0 :: header where
  "header0 = \<lparr>h_ID = [], h_Engine = [], h_RunID = [], h_State = [], h_OriginatedFrom = [],
     h_ScheduledOn = [], h_CreatedAt = 0, h_CompletedAt = None\<rparr>"

definition header_fields :: "header field list" where
  "header_fields =
     [fld ''id'' dec_string h_ID (\<lambda>v r. r\<lparr>h_ID := v\<rparr>),
      fld ''engine'' dec_string h_Engine (\<lambda>v r. r\<lparr>h_Engine := v\<rparr>),
      fld ''runId'' dec_string h_RunID (\<lambda>v r. r\<lparr>h_RunID := v\<rparr>),
      fld ''state'' dec_string h_State (\<lambda>v r. r\<lparr>h_State := v\<rparr>),
      fld ''originatedFrom'' dec_string h_OriginatedFrom (\<lambda>v r. r\<lparr>h_OriginatedFrom := v\<rparr>),
      fld ''scheduledOn'' dec_string h_ScheduledOn (\<lambda>v r. r\<lparr>h_ScheduledOn := v\<rparr>),
      fld ''createdAt'' dec_int64 h_CreatedAt (\<lambda>v r. r\<lparr>h_CreatedAt := v\<rparr>),
      fld ''completedAt'' (dec_ptr dec_int64 0) h_CompletedAt (\<lambda>v r. r\<lparr>h_CompletedAt := v\<rparr>)]"

definition ParseIncoming :: "raw \<Rightarrow> Incoming option" where
  "ParseIncoming info =
     (case Unmarshal (dec_struct header_fields) header0 info of
        None \<Rightarrow> None
      | Some h \<Rightarrow>
          if h_ID h = [] \<or> h_OriginatedFrom h = [] then None
          else Some
            \<lparr>i_Origin = h_OriginatedFrom h, i_Engine = h_Engine h, i_RunID = h_RunID h,
             i_ID = h_ID h, i_State = h_State h, i_CreatedAt = h_CreatedAt h,
             i_CompletedAt = (case h_CompletedAt h of None \<Rightarrow> 0 | Some c \<Rightarrow> c),
             i_ScheduledOn = h_ScheduledOn h, i_Info = info\<rparr>)"

subsection \<open>The merge\<close>

definition putLocked :: "time \<Rightarrow> Key \<Rightarrow> Incoming \<Rightarrow> bool \<Rightarrow> Store \<Rightarrow> Store" where
  "putLocked now key i inferred s =
     (let (prevPersistable, prevLastSeen) =
            (case mget (s_records s) key of
               Some prev \<Rightarrow> (r_Terminal prev \<and> \<not> r_Inferred prev, r_LastSeen prev)
             | None \<Rightarrow> (False, zero_time));
          rec0 = (recordFrom i now)\<lparr>r_Inferred := inferred\<rparr>;
          rec = (if inferred \<and> \<not> IsZero prevLastSeen then rec0\<lparr>r_LastSeen := prevLastSeen\<rparr> else rec0)
      in s\<lparr>s_records := mput key rec (s_records s),
           s_dirty := s_dirty s \<or> (r_Terminal rec \<and> \<not> r_Inferred rec) \<or> prevPersistable\<rparr>)"

definition applyLocked :: "time \<Rightarrow> Incoming \<Rightarrow> bool \<Rightarrow> Store \<Rightarrow> Store \<times> bool" where
  "applyLocked now i inferred s =
     (if i_ID i = [] \<or> i_Origin i = [] then (s, False)
      else let key = keyOf i in
      case mget (s_records s) key of
        None \<Rightarrow> (putLocked now key i inferred s, True)
      | Some cur \<Rightarrow>
         (let sighted = (\<not> inferred \<and> i_CreatedAt i \<ge> r_CreatedAt cur);
              cur = (if sighted then cur\<lparr>r_LastSeen := now\<rparr> else cur);
              s = (if sighted then s\<lparr>s_records := mput key cur (s_records s)\<rparr> else s)
          in if i_CreatedAt i > r_CreatedAt cur then (putLocked now key i inferred s, True)
             else if i_CreatedAt i < r_CreatedAt cur then (s, False)
             else if \<not> inferred \<and> r_Inferred cur then (putLocked now key i False s, True)
             else if inferred \<and> \<not> r_Inferred cur then
               (if r_Terminal cur then (s, False) else (putLocked now key i True s, True))
             else if rank (i_State i) > rank (r_State cur) then (putLocked now key i inferred s, True)
             else if rank (i_State i) < rank (r_State cur) then (s, False)
             else if i_ScheduledOn i \<noteq> r_ScheduledOn cur then (putLocked now key i inferred s, True)
             else (s, False)))"

definition apply_event :: "time \<Rightarrow> Incoming \<Rightarrow> bool \<Rightarrow> Store \<Rightarrow> Store \<times> bool" where
  "apply_event now i inferred s = applyLocked now i inferred s"

definition Apply :: "time \<Rightarrow> Incoming \<Rightarrow> Store \<Rightarrow> Store \<times> bool" where
  "Apply now i s = apply_event now i False s"

definition ApplyInferred :: "time \<Rightarrow> Incoming \<Rightarrow> Store \<Rightarrow> Store \<times> bool" where
  "ApplyInferred now i s = apply_event now i True s"

definition ApplyInferredUnchangedSince ::
    "time \<Rightarrow> Incoming \<Rightarrow> time \<Rightarrow> Store \<Rightarrow> Store \<times> bool" where
  "ApplyInferredUnchangedSince now i seenAt s =
     (case mget (s_records s) (keyOf i) of
        None \<Rightarrow> (s, False)
      | Some cur \<Rightarrow>
          if r_LastSeen cur \<noteq> seenAt then (s, False) else applyLocked now i True s)"

subsection \<open>Removal and queries\<close>

definition matches_pair :: "string \<Rightarrow> string \<Rightarrow> Record \<Rightarrow> bool" where
  "matches_pair origin wid r \<longleftrightarrow> r_Origin r = origin \<and> r_ID r = wid"

definition Remove :: "string \<Rightarrow> string \<Rightarrow> Store \<Rightarrow> Store \<times> bool" where
  "Remove origin wid s =
     (let hit = filter (matches_pair origin wid) (mvals (s_records s))
      in (s\<lparr>s_records := mkeep (\<lambda>k r. \<not> matches_pair origin wid r) (s_records s),
            s_dirty := s_dirty s \<or> list_ex (\<lambda>r. r_Terminal r \<and> \<not> r_Inferred r) hit\<rparr>,
          hit \<noteq> []))"

definition Get :: "string \<Rightarrow> string \<Rightarrow> Store \<Rightarrow> Record option" where
  "Get origin wid s = find (matches_pair origin wid) (mvals (s_records s))"

definition Len :: "Store \<Rightarrow> nat" where
  "Len s = length (s_records s)"

definition snapshot_less :: "Record \<Rightarrow> Record \<Rightarrow> bool" where
  "snapshot_less a b =
     (if r_CreatedAt a \<noteq> r_CreatedAt b then r_CreatedAt a < r_CreatedAt b
      else if r_Origin a \<noteq> r_Origin b then r_Origin a < r_Origin b
      else r_ID a < r_ID b)"

definition snapshotRecords :: "Record list \<Rightarrow> raw list" where
  "snapshotRecords recs = map r_Info (sort_by snapshot_less recs)"

definition Snapshot :: "Store \<Rightarrow> raw list" where
  "Snapshot s = snapshotRecords (mvals (s_records s))"

definition ActiveSnapshot :: "Store \<Rightarrow> raw list" where
  "ActiveSnapshot s = snapshotRecords (filter (\<lambda>r. \<not> r_Terminal r) (mvals (s_records s)))"

definition ActiveForNode :: "string \<Rightarrow> Store \<Rightarrow> Record list" where
  "ActiveForNode node s =
     filter (\<lambda>r. \<not> r_Terminal r \<and> (r_Origin r = node \<or> r_ScheduledOn r = node)) (mvals (s_records s))"

text \<open>How many live generations share a client-visible pair.\<close>

definition liveByClientKey :: "Record list \<Rightarrow> string \<Rightarrow> string \<Rightarrow> nat" where
  "liveByClientKey recs origin wid =
     length (filter (\<lambda>r. \<not> r_Terminal r \<and> r_Origin r \<noteq> [] \<and> matches_pair origin wid r) recs)"

definition StaleForeign :: "time \<Rightarrow> string \<Rightarrow> duration \<Rightarrow> Store \<Rightarrow> Record list" where
  "StaleForeign now selfNode staleAfter s =
     (let recs = mvals (s_records s) in
      filter (\<lambda>r. \<not> (r_Terminal r \<or> r_Origin r = []) \<and> r_Origin r \<noteq> selfNode \<and>
                 \<not> liveByClientKey recs (r_Origin r) (r_ID r) > 1 \<and>
                 \<not> now - r_LastSeen r < staleAfter) recs)"

definition completionOrder :: "Record \<Rightarrow> int" where
  "completionOrder r = (if r_CompletedAt r > 0 then r_CompletedAt r else r_LastUpdated r)"

definition ReplayForNode :: "time \<Rightarrow> string \<Rightarrow> int \<Rightarrow> Store \<Rightarrow> Record list" where
  "ReplayForNode now node terminalWindowMs s =
     (let cutoff = UnixMilli now - terminalWindowMs in
      filter (\<lambda>r. r_Origin r = node \<and>
                 \<not> (r_Terminal r \<and> (r_Inferred r \<or> completionOrder r < cutoff)))
        (mvals (s_records s)))"

subsection \<open>The merge as a rule on one record\<close>

text \<open>
  What the package comment promises, written as one acceptance test on the record held: a newer
  generation wins; within a generation an authoritative event replaces a guess, a guess replaces
  only a live authoritative record, and within one provenance a higher rank, or a moved target
  at the same rank, wins.
\<close>

definition accepts :: "Incoming \<Rightarrow> bool \<Rightarrow> Record \<Rightarrow> bool" where
  "accepts i inferred cur \<longleftrightarrow>
     r_CreatedAt cur < i_CreatedAt i \<or>
     r_CreatedAt cur = i_CreatedAt i \<and>
       (\<not> inferred \<and> r_Inferred cur \<or>
        inferred \<and> \<not> r_Inferred cur \<and> \<not> r_Terminal cur \<or>
        inferred = r_Inferred cur \<and>
          (rank (r_State cur) < rank (i_State i) \<or>
           rank (r_State cur) = rank (i_State i) \<and> i_ScheduledOn i \<noteq> r_ScheduledOn cur))"

definition written :: "time \<Rightarrow> Incoming \<Rightarrow> bool \<Rightarrow> Record option \<Rightarrow> Record" where
  "written now i inferred prev = (recordFrom i now)\<lparr>r_Inferred := inferred, r_LastSeen :=
     (case prev of
        Some p \<Rightarrow> if inferred \<and> \<not> IsZero (r_LastSeen p) then r_LastSeen p else now
      | None \<Rightarrow> now)\<rparr>"

definition merge_cell :: "time \<Rightarrow> Incoming \<Rightarrow> bool \<Rightarrow> Record option \<Rightarrow> Record" where
  "merge_cell now i inferred c =
     (case c of
        None \<Rightarrow> written now i inferred None
      | Some cur \<Rightarrow>
          if accepts i inferred cur then written now i inferred (Some cur)
          else if \<not> inferred \<and> r_CreatedAt cur = i_CreatedAt i then cur\<lparr>r_LastSeen := now\<rparr>
          else cur)"

definition valid_incoming :: "Incoming \<Rightarrow> bool" where
  "valid_incoming i \<longleftrightarrow> i_ID i \<noteq> [] \<and> i_Origin i \<noteq> []"

lemma zero_IsZero [simp]: "IsZero zero_time"
  by (simp add: IsZero_def)

lemma putLocked_get:
  "mget (s_records (putLocked now key i inferred s)) k =
     (if k = key then Some (written now i inferred (mget (s_records s) key)) else mget (s_records s) k)"
  by (auto simp: putLocked_def written_def Let_def recordFrom_def gomap split: option.splits)

lemma putLocked_wf: "wf_map (s_records s) \<Longrightarrow> wf_map (s_records (putLocked now key i inferred s))"
  by (auto simp: putLocked_def Let_def split: option.splits)

lemma written_sighted:
  "written now i inferred (Some (cur\<lparr>r_LastSeen := t\<rparr>)) =
     (if inferred then written now i True (Some (cur\<lparr>r_LastSeen := t\<rparr>)) else written now i False (Some cur))"
  by (simp add: written_def)

lemma applyLocked_get:
  "mget (s_records (fst (applyLocked now i inferred s))) k =
     (if valid_incoming i \<and> k = keyOf i
      then Some (merge_cell now i inferred (mget (s_records s) (keyOf i)))
      else mget (s_records s) k)"
  by (auto simp: applyLocked_def valid_incoming_def merge_cell_def accepts_def putLocked_get Let_def
      written_sighted gomap split: option.splits)

lemma applyLocked_result:
  "snd (applyLocked now i inferred s) \<longleftrightarrow>
     valid_incoming i \<and>
     (case mget (s_records s) (keyOf i) of None \<Rightarrow> True | Some cur \<Rightarrow> accepts i inferred cur)"
  by (auto simp: applyLocked_def valid_incoming_def accepts_def Let_def split: option.splits)

lemma applyLocked_wf: "wf_map (s_records s) \<Longrightarrow> wf_map (s_records (fst (applyLocked now i inferred s)))"
  by (auto simp: applyLocked_def Let_def putLocked_wf split: option.splits)

text \<open>What clients see of a record: everything but the store's own clock readings.\<close>

definition view_r :: "Record \<Rightarrow> string \<times> string \<times> string \<times> int \<times> int \<times> string \<times> bool \<times> bool \<times> raw" where
  "view_r r = (r_Origin r, r_ID r, r_State r, r_CreatedAt r, r_CompletedAt r, r_ScheduledOn r,
     r_Terminal r, r_Inferred r, r_Info r)"

definition view_i :: "bool \<Rightarrow> Incoming \<Rightarrow> string \<times> string \<times> string \<times> int \<times> int \<times> string \<times> bool \<times> bool \<times> raw" where
  "view_i inferred i = (i_Origin i, i_ID i, i_State i, i_CreatedAt i, i_CompletedAt i,
     i_ScheduledOn i, isTerminal (i_State i), inferred, i_Info i)"

lemma view_written [simp]: "view_r (written now i inferred c) = view_i inferred i"
  by (simp add: view_r_def view_i_def written_def recordFrom_def)

lemma written_fields [simp]:
  "r_Inferred (written now i inferred c) = inferred"
  "r_CreatedAt (written now i inferred c) = i_CreatedAt i"
  "r_State (written now i inferred c) = i_State i"
  "r_Terminal (written now i inferred c) = isTerminal (i_State i)"
  "r_ScheduledOn (written now i inferred c) = i_ScheduledOn i"
  "r_Origin (written now i inferred c) = i_Origin i"
  "r_ID (written now i inferred c) = i_ID i"
  "r_Info (written now i inferred c) = i_Info i"
  "r_CompletedAt (written now i inferred c) = i_CompletedAt i"
  "r_LastUpdated (written now i inferred c) = UnixMilli now"
  by (simp_all add: written_def recordFrom_def)

lemma view_sighted [simp]: "view_r (cur\<lparr>r_LastSeen := t\<rparr>) = view_r cur"
  by (simp add: view_r_def)

subsection \<open>Convergence\<close>

definition auth_step :: "Record option \<Rightarrow> time \<times> Incoming \<Rightarrow> Record option" where
  "auth_step c e = Some (merge_cell (fst e) (snd e) False c)"

text \<open>The record of one identity, fed by its origin, is a register over (generation, rank).\<close>

interpretation origin: max_register auth_step "\<lambda>r. \<not> r_Inferred r"
  "\<lambda>r. (r_CreatedAt r, rank (r_State r))" "\<lambda>e. (i_CreatedAt (snd e), rank (i_State (snd e)))"
  view_r "\<lambda>e. view_i False (snd e)"
proof (unfold_locales, goal_cases)
  case (1 e)
  then show ?case by (simp add: auth_step_def merge_cell_def)
next
  case (2 r e)
  then show ?case
    by (auto simp: auth_step_def merge_cell_def accepts_def max_def)
qed

definition apply_all :: "(time \<times> Incoming) list \<Rightarrow> Store \<Rightarrow> Store" where
  "apply_all es s = foldl (\<lambda>s (now, i). fst (Apply now i s)) s es"

lemma Apply_get:
  "mget (s_records (fst (Apply now i s))) k =
     (if valid_incoming i \<and> k = keyOf i then auth_step (mget (s_records s) k) (now, i)
      else mget (s_records s) k)"
  by (simp add: Apply_def apply_event_def applyLocked_get auth_step_def)

lemma apply_all_get:
  "mget (s_records (apply_all es s)) k =
     foldl auth_step (mget (s_records s) k) (filter (\<lambda>(now, i). valid_incoming i \<and> keyOf i = k) es)"
  by (induction es arbitrary: s) (simp_all add: apply_all_def Apply_get split_def eq_commute)

subsection \<open>Guesses and the origin's truth\<close>

text \<open>Any mix of authoritative events and guesses.\<close>

definition mixed_all :: "(time \<times> bool \<times> Incoming) list \<Rightarrow> Store \<Rightarrow> Store" where
  "mixed_all es s = foldl (\<lambda>s (now, inferred, i). fst (apply_event now i inferred s)) s es"

lemma mixed_all_simps [simp]:
  "mixed_all [] s = s"
  "mixed_all ((now, inferred, i) # es) s = mixed_all es (fst (apply_event now i inferred s))"
  by (simp_all add: mixed_all_def)

lemma apply_event_get:
  "mget (s_records (fst (apply_event now i inferred s))) k =
     (if valid_incoming i \<and> k = keyOf i
      then Some (merge_cell now i inferred (mget (s_records s) (keyOf i))) else mget (s_records s) k)"
  by (simp add: apply_event_def applyLocked_get)

text \<open>A property of one record that every merge into it keeps holds after every history.\<close>

lemma mixed_all_cell:
  assumes "P (mget (s_records s) k)"
    and "\<And>now inferred i c. (now, inferred, i) \<in> set es \<Longrightarrow> valid_incoming i \<Longrightarrow> keyOf i = k \<Longrightarrow> P c \<Longrightarrow>
           P (Some (merge_cell now i inferred c))"
  shows "P (mget (s_records (mixed_all es s)) k)"
  using assms
proof (induction es arbitrary: s)
  case Nil
  then show ?case by simp
next
  case (Cons e es)
  obtain now inferred i where e: "e = (now, inferred, i)" by (cases e)
  have "P (mget (s_records (fst (apply_event now i inferred s))) k)"
    using Cons.prems e by (auto simp: apply_event_get)
  then show ?case
    using Cons.IH Cons.prems(2) by (simp add: e)
qed

text \<open>A record still open to the origin's event \<open>i\<close>: nothing authoritative beats it.\<close>

definition open_to :: "Incoming \<Rightarrow> Record option \<Rightarrow> bool" where
  "open_to i c \<longleftrightarrow> (\<forall>cur. c = Some cur \<longrightarrow>
     r_CreatedAt cur \<le> i_CreatedAt i \<and>
     (\<not> r_Inferred cur \<and> r_CreatedAt cur = i_CreatedAt i \<longrightarrow>
        rank (r_State cur) < rank (i_State i) \<or> view_r cur = view_i False i))"

lemma open_to_merge:
  assumes "open_to i c" and "i_CreatedAt j \<le> i_CreatedAt i"
    and "\<not> inferred \<Longrightarrow> i_CreatedAt j = i_CreatedAt i \<Longrightarrow>
           rank (i_State j) < rank (i_State i) \<or> view_i False j = view_i False i"
  shows "open_to i (Some (merge_cell now j inferred c))"
  using assms by (auto simp: open_to_def merge_cell_def split: option.splits)

lemma open_to_accept:
  assumes "open_to i c"
  shows "view_r (merge_cell now i False c) = view_i False i"
  using assms
  by (auto simp: open_to_def merge_cell_def accepts_def view_r_def view_i_def split: option.splits)

subsection \<open>Well-formed stores\<close>

text \<open>
  Every record sits under the key its own info parses to, and its projected fields are those of
  the info: the projection never drifts from the workload object it stands for.
\<close>

definition info_ok :: "Key \<Rightarrow> Record \<Rightarrow> bool" where
  "info_ok k r \<longleftrightarrow>
     (case ParseIncoming (r_Info r) of
        None \<Rightarrow> False
      | Some i \<Rightarrow> keyOf i = k \<and> view_i (r_Inferred r) i = view_r r)"

definition store_inv :: "Store \<Rightarrow> bool" where
  "store_inv s \<longleftrightarrow> wf_map (s_records s) \<and> list_all (\<lambda>(k, r). info_ok k r) (s_records s)"

lemma store_inv_iff:
  "store_inv s \<longleftrightarrow> wf_map (s_records s) \<and> (\<forall>k r. mget (s_records s) k = Some r \<longrightarrow> info_ok k r)"
  by (auto simp: store_inv_def list_all_iff mget_in_set)

lemma store_invI:
  assumes "wf_map (s_records s)" and "\<And>k r. mget (s_records s) k = Some r \<Longrightarrow> info_ok k r"
  shows "store_inv s"
  using assms by (simp add: store_inv_iff)

lemma store_invD:
  assumes "store_inv s"
  shows "wf_map (s_records s)" and "mget (s_records s) k = Some r \<Longrightarrow> info_ok k r"
  using assms by (simp_all add: store_inv_iff)

lemma ParseIncoming_SomeD:
  assumes "ParseIncoming info = Some i"
  shows "i_Info i = info" and "valid_incoming i"
  using assms by (auto simp: ParseIncoming_def valid_incoming_def split: option.splits if_splits)

lemma info_okD:
  assumes "info_ok k r"
  shows "r_Origin r = k_Origin k" and "r_ID r = k_ID k" and "r_Origin r \<noteq> []" and "r_ID r \<noteq> []"
    and "r_Terminal r = isTerminal (r_State r)"
proof -
  obtain i where i: "ParseIncoming (r_Info r) = Some i" "keyOf i = k" "view_i (r_Inferred r) i = view_r r"
    using assms by (auto simp: info_ok_def split: option.splits)
  have "valid_incoming i" by (rule ParseIncoming_SomeD) (rule i)
  then show "r_Origin r = k_Origin k" "r_ID r = k_ID k" "r_Origin r \<noteq> []" "r_ID r \<noteq> []"
    "r_Terminal r = isTerminal (r_State r)"
    using i(2,3) by (auto simp: keyOf_def view_r_def view_i_def valid_incoming_def)
qed

lemma info_ok_written:
  assumes "ParseIncoming info = Some i"
  shows "info_ok (keyOf i) (written now i inferred c)"
  using assms ParseIncoming_SomeD(1) [OF assms] by (simp add: info_ok_def)

lemma info_ok_sighted [simp]: "info_ok k (r\<lparr>r_LastSeen := t\<rparr>) = info_ok k r"
  by (simp add: info_ok_def split: option.splits)

lemma info_ok_merge:
  assumes "ParseIncoming info = Some i" and "\<And>cur. c = Some cur \<Longrightarrow> info_ok (keyOf i) cur"
  shows "info_ok (keyOf i) (merge_cell now i inferred c)"
  using assms by (auto simp: merge_cell_def info_ok_written split: option.splits)

lemma applyLocked_inv:
  assumes "ParseIncoming info = Some i" and "store_inv s"
  shows "store_inv (fst (applyLocked now i inferred s))"
proof (rule store_invI)
  show "wf_map (s_records (fst (applyLocked now i inferred s)))"
    using assms(2) by (intro applyLocked_wf store_invD)
next
  fix k r
  assume "mget (s_records (fst (applyLocked now i inferred s))) k = Some r"
  then show "info_ok k r"
    using store_invD(2) [OF assms(2)] info_ok_merge [OF assms(1)]
    by (auto simp: applyLocked_get split: if_splits)
qed

lemma ApplyInferredUnchangedSince_cases:
  "ApplyInferredUnchangedSince now i seenAt s = (s, False) \<or>
   ApplyInferredUnchangedSince now i seenAt s = applyLocked now i True s"
  by (auto simp: ApplyInferredUnchangedSince_def split: option.splits)

lemma mkeep_inv:
  assumes "store_inv s"
  shows "store_inv (s\<lparr>s_records := mkeep p (s_records s)\<rparr>)"
  using assms by (auto simp: store_inv_iff mget_mkeep split: option.splits if_splits)

lemma Remove_inv: "store_inv s \<Longrightarrow> store_inv (fst (Remove origin wid s))"
  using mkeep_inv [of s "\<lambda>k r. \<not> matches_pair origin wid r"]
  by (simp add: Remove_def Let_def store_inv_def)

lemma New_inv: "store_inv New"
  by (simp add: New_def store_inv_def)

subsection \<open>Sightings, removal and sweeps\<close>

lemma Apply_sighting:
  assumes "valid_incoming i" and "mget (s_records s) (keyOf i) = Some cur" and "r_CreatedAt cur \<le> i_CreatedAt i"
  shows "\<exists>r. mget (s_records (fst (Apply now i s))) (keyOf i) = Some r \<and> r_LastSeen r = now"
  using assms
  by (auto simp: Apply_get auth_step_def merge_cell_def accepts_def written_def recordFrom_def)

lemma Remove_get:
  assumes "wf_map (s_records s)"
  shows "mget (s_records (fst (Remove origin wid s))) k =
    (case mget (s_records s) k of
       None \<Rightarrow> None | Some r \<Rightarrow> if matches_pair origin wid r then None else Some r)"
  using assms by (auto simp: Remove_def Let_def mget_mkeep split: option.splits)

lemma Remove_result:
  assumes "wf_map (s_records s)"
  shows "snd (Remove origin wid s) \<longleftrightarrow> (\<exists>k r. mget (s_records s) k = Some r \<and> matches_pair origin wid r)"
proof -
  have "snd (Remove origin wid s) \<longleftrightarrow> (\<exists>r \<in> set (mvals (s_records s)). matches_pair origin wid r)"
    by (auto simp: Remove_def Let_def filter_empty_conv)
  then show ?thesis using mvals_iff [OF assms] by metis
qed

text \<open>Two live records under one client-visible pair make the count exceed one.\<close>

lemma liveByClientKey_two:
  assumes wf: "wf_map m" and k: "mget m k = Some r" "mget m k' = Some r'" "k \<noteq> k'"
    and live: "\<not> r_Terminal r" "\<not> r_Terminal r'" "r_Origin r \<noteq> []"
    and pair: "r_Origin r' = r_Origin r" "r_ID r' = r_ID r"
  shows "1 < liveByClientKey (mvals m) (r_Origin r) (r_ID r)"
proof -
  let ?p = "\<lambda>x. \<not> r_Terminal x \<and> r_Origin x \<noteq> [] \<and> matches_pair (r_Origin r) (r_ID r) x"
  let ?L = "filter (?p \<circ> snd) m"
  have "(k, r) \<in> set ?L" "(k', r') \<in> set ?L"
    using mget_SomeD [OF k(1)] mget_SomeD [OF k(2)] live pair by (simp_all add: matches_pair_def)
  then have "1 < length ?L"
    by (rule two_elems) (simp add: k(3))
  then show ?thesis
    by (simp add: liveByClientKey_def mvals_def filter_map)
qed

lemma liveByClientKey_one:
  assumes wf: "wf_map m"
    and only: "\<And>k' r'. mget m k' = Some r' \<Longrightarrow> \<not> r_Terminal r' \<Longrightarrow> r_Origin r' = origin \<Longrightarrow> r_ID r' = wid \<Longrightarrow> k' = k"
  shows "\<not> 1 < liveByClientKey (mvals m) origin wid"
proof -
  let ?p = "\<lambda>x. \<not> r_Terminal x \<and> r_Origin x \<noteq> [] \<and> matches_pair origin wid x"
  have "length (filter ?p (mvals m)) \<le> 1"
  proof (rule at_most_one_entry [OF wf])
    fix k' x assume x: "(k', x) \<in> set m" "?p x"
    have "mget m k' = Some x" using x(1) mget_in_set [OF wf] by blast
    then show "k' = k" using x(2) only [of k' x] unfolding matches_pair_def by blast
  qed
  then show ?thesis by (simp add: liveByClientKey_def)
qed

interpretation snapshot: key_sort snapshot_less "\<lambda>r. (r_CreatedAt r, r_Origin r, r_ID r)"
  by unfold_locales (auto simp: snapshot_less_def)

subsection \<open>Examples\<close>

definition demo :: "string \<Rightarrow> string \<Rightarrow> Incoming" where
  "demo st target = \<lparr>i_Origin = ''a'', i_Engine = ''ollama'', i_RunID = ''r1'', i_ID = ''1'',
     i_State = st, i_CreatedAt = 100, i_CompletedAt = 0, i_ScheduledOn = target,
     i_Info = Some (JObj [(''id'', JStr ''1''), (''originatedFrom'', JStr ''a''), (''engine'', JStr ''ollama''),
       (''runId'', JStr ''r1''), (''state'', JStr st), (''scheduledOn'', JStr target), (''createdAt'', JInt 100)])\<rparr>"

lemma demo_valid: "valid_incoming (demo st target)"
  by (simp add: demo_def valid_incoming_def)

lemma demo_key: "keyOf (demo st target) = \<lparr>k_Origin = ''a'', k_Engine = ''ollama'', k_RunID = ''r1'', k_ID = ''1''\<rparr>"
  by (simp add: demo_def keyOf_def)

lemma demo_parse: "ParseIncoming (i_Info (demo st target)) = Some (demo st target)"
  by (simp add: demo_def ParseIncoming_def header_fields_def header0_def json_simps)

subsection \<open>Theorems\<close>




text \<open>
  C7. A finished workload is never resurrected: once the store holds an authoritative terminal
  record, no sequence of authoritative events or guesses of that generation or an older one makes
  it live, makes it a guess, or moves its generation.
\<close>

theorem terminal_never_resurrected:
  assumes "store_inv s" and "mget (s_records s) k = Some r" and "r_Terminal r" and "\<not> r_Inferred r"
    and "\<forall>(now, inferred, i) \<in> set es. keyOf i = k \<longrightarrow> i_CreatedAt i \<le> r_CreatedAt r"
  shows "\<exists>r'. mget (s_records (mixed_all es s)) k = Some r' \<and> r_Terminal r' \<and> \<not> r_Inferred r' \<and>
    r_CreatedAt r' = r_CreatedAt r"
proof -
  let ?P = "\<lambda>c :: Record option. \<exists>r'. c = Some r' \<and> r_Terminal r' \<and> isTerminal (r_State r') \<and> \<not> r_Inferred r' \<and>
    r_CreatedAt r' = r_CreatedAt r"
  have "?P (mget (s_records (mixed_all es s)) k)"
  proof (rule mixed_all_cell)
    show "?P (mget (s_records s) k)"
      using assms info_okD(5) [OF store_invD(2) [OF assms(1,2)]] by simp
  next
    fix now inferred i c
    assume "(now, inferred, i) \<in> set es" "keyOf i = k" and P: "?P c"
    then have le: "i_CreatedAt i \<le> r_CreatedAt r" using assms(5) by auto
    show "?P (Some (merge_cell now i inferred c))"
      using P le by (auto simp: merge_cell_def accepts_def isTerminal_def rank_def split: if_splits)
  qed
  then show ?thesis by blast
qed

theorem terminal_never_resurrected_witness:
  "\<exists>r'. mget (s_records (mixed_all [(40, False, demo ''running'' ''b''), (50, True, demo ''failed'' ''c'')]
     (fst (Apply 30 (demo ''completed'' ''b'') New)))) (keyOf (demo '''' '''')) = Some r' \<and> r_Terminal r' \<and>
     \<not> r_Inferred r' \<and> r_CreatedAt r' = 100"
proof -
  let ?s = "fst (Apply 30 (demo ''completed'' ''b'') New)"
  have inv: "store_inv ?s"
    unfolding Apply_def apply_event_def by (rule applyLocked_inv [OF demo_parse New_inv])
  have rec: "mget (s_records ?s) (keyOf (demo '''' '''')) = Some (written 30 (demo ''completed'' ''b'') False None)"
    by (simp add: Apply_get auth_step_def merge_cell_def demo_valid demo_key New_def)
  show ?thesis
    using terminal_never_resurrected [OF inv rec,
        of "[(40, False, demo ''running'' ''b''), (50, True, demo ''failed'' ''c'')]"]
    by (simp add: isTerminal_def demo_def)
qed



text \<open>
  The staleness sweep never overwrites news: a guess selected from the sighting \<open>seenAt\<close> is
  dropped, leaving the store untouched, when the origin has re-asserted the workload at another
  time since, even if that re-assertion changed nothing; and it never re-creates a workload that
  was retired in between.
\<close>

theorem stale_guess_guarded:
  assumes "mget (s_records s) (keyOf g) = Some cur" and "valid_incoming i" and "keyOf i = keyOf g"
    and "r_CreatedAt cur \<le> i_CreatedAt i" and "t \<noteq> seenAt" and "mget (s_records s') (keyOf g) = None"
  shows "ApplyInferredUnchangedSince now g seenAt (fst (Apply t i s)) = (fst (Apply t i s), False) \<and>
    ApplyInferredUnchangedSince now g seenAt s' = (s', False)"
proof -
  obtain r where "mget (s_records (fst (Apply t i s))) (keyOf g) = Some r" "r_LastSeen r = t"
    using Apply_sighting [OF assms(2), of s cur t] assms(1,3,4) by auto
  then show ?thesis
    using assms(5,6) by (simp add: ApplyInferredUnchangedSince_def)
qed

theorem stale_guess_guarded_witness:
  "ApplyInferredUnchangedSince 99 (demo ''failed'' ''b'') 20
     (fst (Apply 50 (demo ''running'' ''b'') (fst (Apply 20 (demo ''running'' ''b'') New)))) =
   (fst (Apply 50 (demo ''running'' ''b'') (fst (Apply 20 (demo ''running'' ''b'') New))), False) \<and>
   ApplyInferredUnchangedSince 99 (demo ''failed'' ''b'') 20 New = (New, False)"
proof (rule stale_guess_guarded)
  show "mget (s_records (fst (Apply 20 (demo ''running'' ''b'') New))) (keyOf (demo ''failed'' ''b'')) =
      Some (written 20 (demo ''running'' ''b'') False None)"
    by (simp add: Apply_get auth_step_def merge_cell_def demo_valid demo_key New_def)
qed (simp_all add: demo_valid demo_key New_def)

text \<open>
  The staleness sweep selects exactly the live records of other nodes whose origin has been
  silent for the whole window and whose client-visible pair is not shared by another live record.
\<close>

theorem StaleForeign_exact:
  assumes "store_inv s"
  shows "r \<in> set (StaleForeign now self staleAfter s) \<longleftrightarrow>
    (\<exists>k. mget (s_records s) k = Some r \<and> \<not> r_Terminal r \<and> r_Origin r \<noteq> self \<and> staleAfter \<le> now - r_LastSeen r \<and>
       (\<forall>k' r'. mget (s_records s) k' = Some r' \<and> \<not> r_Terminal r' \<and> r_Origin r' = r_Origin r \<and> r_ID r' = r_ID r
          \<longrightarrow> k' = k))" (is "?l \<longleftrightarrow> ?r")
proof -
  have wf: "wf_map (s_records s)" using assms by (rule store_invD)
  let ?n = "liveByClientKey (mvals (s_records s)) (r_Origin r) (r_ID r)"
  have unique: "\<not> 1 < ?n \<longleftrightarrow>
      (\<forall>k' r'. mget (s_records s) k' = Some r' \<and> \<not> r_Terminal r' \<and> r_Origin r' = r_Origin r \<and> r_ID r' = r_ID r \<longrightarrow> k' = k)"
    if k: "mget (s_records s) k = Some r" "\<not> r_Terminal r" for k
  proof
    have origin: "r_Origin r \<noteq> []" by (rule info_okD(3) [OF store_invD(2) [OF assms k(1)]])
    show "\<not> 1 < ?n \<Longrightarrow> \<forall>k' r'. mget (s_records s) k' = Some r' \<and> \<not> r_Terminal r' \<and>
        r_Origin r' = r_Origin r \<and> r_ID r' = r_ID r \<longrightarrow> k' = k"
      using liveByClientKey_two [OF wf k(1) _ _ k(2) _ origin] by blast
    assume only: "\<forall>k' r'. mget (s_records s) k' = Some r' \<and> \<not> r_Terminal r' \<and>
        r_Origin r' = r_Origin r \<and> r_ID r' = r_ID r \<longrightarrow> k' = k"
    show "\<not> 1 < ?n"
    proof (rule liveByClientKey_one [OF wf])
      fix k' r' assume "mget (s_records s) k' = Some r'" "\<not> r_Terminal r'" "r_Origin r' = r_Origin r" "r_ID r' = r_ID r"
      then show "k' = k" using only by blast
    qed
  qed
  have mem: "?l \<longleftrightarrow> r \<in> set (mvals (s_records s)) \<and> \<not> r_Terminal r \<and> r_Origin r \<noteq> [] \<and>
      r_Origin r \<noteq> self \<and> \<not> 1 < ?n \<and> staleAfter \<le> now - r_LastSeen r"
    by (auto simp: StaleForeign_def Let_def)
  have origin: "r_Origin r \<noteq> []" if "mget (s_records s) k = Some r" for k
    by (rule info_okD(3) [OF store_invD(2) [OF assms that]])
  show ?thesis
  proof
    assume l: ?l
    then obtain k where k: "mget (s_records s) k = Some r" using mem mvals_iff [OF wf] by blast
    have live: "\<not> r_Terminal r" using l mem by blast
    show ?r
      using l unfolding mem using k unique [OF k live] by blast
  next
    assume ?r
    then obtain k where k: "mget (s_records s) k = Some r" and live: "\<not> r_Terminal r"
      and rest: "r_Origin r \<noteq> self" "staleAfter \<le> now - r_LastSeen r"
        "\<forall>k' r'. mget (s_records s) k' = Some r' \<and> \<not> r_Terminal r' \<and> r_Origin r' = r_Origin r \<and> r_ID r' = r_ID r
          \<longrightarrow> k' = k" by blast
    have "r \<in> set (mvals (s_records s))" using mvals_iff [OF wf] k by blast
    then show ?l
      unfolding mem using origin [OF k] live rest(1,2) unique [OF k live] rest(3) by blast
  qed
qed

theorem StaleForeign_exact_witness:
  "written 20 (demo ''running'' ''b'') False None \<in>
     set (StaleForeign 400 ''self'' 300 (fst (Apply 20 (demo ''running'' ''b'') New)))"
proof -
  let ?s = "fst (Apply 20 (demo ''running'' ''b'') New)"
  have inv: "store_inv ?s"
    unfolding Apply_def apply_event_def by (rule applyLocked_inv [OF demo_parse New_inv])
  have get: "mget (s_records ?s) k =
      (if k = keyOf (demo '''' '''') then Some (written 20 (demo ''running'' ''b'') False None) else None)" for k
    by (simp add: Apply_get auth_step_def merge_cell_def demo_valid demo_key New_def)
  show ?thesis
    unfolding StaleForeign_exact [OF inv]
    by (rule exI [of _ "keyOf (demo '''' '''')"])
      (simp add: get isTerminal_def, simp add: demo_def written_def recordFrom_def)
qed

text \<open>
  A snapshot is a function of the store's contents: it does not show the order in which the
  map was visited, as long as no two records share creation time, origin and id, and it lists
  every workload oldest first.
\<close>

theorem Snapshot_deterministic:
  assumes "same_map (s_records s) (s_records t)"
    and "inj_on (\<lambda>r. (r_CreatedAt r, r_Origin r, r_ID r)) (set (mvals (s_records s)))"
  shows "Snapshot s = Snapshot t \<and> (\<exists>recs. mset recs = mset (mvals (s_records s)) \<and>
    Snapshot s = map r_Info recs \<and> sorted (map r_CreatedAt recs))"
proof
  let ?recs = "sort_by snapshot_less (mvals (s_records s))"
  show "Snapshot s = Snapshot t"
    using snapshot.sort_by_map_vals [OF assms] by (simp add: Snapshot_def snapshotRecords_def)
  have "sorted (map (\<lambda>r. (r_CreatedAt r, r_Origin r, r_ID r)) ?recs)"
    by (rule snapshot.sorted_sort_by)
  then have "sorted (map r_CreatedAt ?recs)"
    unfolding sorted_map by (rule sorted_wrt_mono_rel [rotated]) auto
  then show "\<exists>recs. mset recs = mset (mvals (s_records s)) \<and> Snapshot s = map r_Info recs \<and> sorted (map r_CreatedAt recs)"
    by (intro exI [of _ ?recs]) (simp add: Snapshot_def snapshotRecords_def)
qed

theorem Snapshot_deterministic_witness:
  "Snapshot (New\<lparr>s_records := [(keyOf (demo ''running'' ''b''), written 20 (demo ''running'' ''b'') False None),
       (keyOf (demo ''queued'' ''b'')\<lparr>k_ID := ''0''\<rparr>, (written 10 (demo ''queued'' ''b'') False None)\<lparr>r_ID := ''0''\<rparr>)]\<rparr>) =
   Snapshot (New\<lparr>s_records := [(keyOf (demo ''queued'' ''b'')\<lparr>k_ID := ''0''\<rparr>, (written 10 (demo ''queued'' ''b'') False None)\<lparr>r_ID := ''0''\<rparr>),
       (keyOf (demo ''running'' ''b''), written 20 (demo ''running'' ''b'') False None)]\<rparr>)"
  (is "Snapshot ?s = Snapshot ?t")
proof -
  have "same_map (s_records ?s) (s_records ?t)"
    by (auto simp: same_map_def wf_map_def mget_def fun_eq_iff demo_key)
  moreover have "inj_on (\<lambda>r. (r_CreatedAt r, r_Origin r, r_ID r)) (set (mvals (s_records ?s)))"
    by (auto simp: mvals_def demo_def)
  ultimately show ?thesis using Snapshot_deterministic by blast
qed

end
