(* ===== verification/WorkloadPersist.thy ===== *)
theory WorkloadPersist
  imports WorkloadStore
begin

section \<open>Persistence of the workload store\<close>

text \<open>
  \<open>nvpair-ui-broker/workloadstore/persistence.go\<close>: the terminal history on disk, its rotation
  and its bounds. The file system maps names to contents; a file either holds a JSON array of
  workload infos or is something \<open>json.Unmarshal\<close> rejects. The outcome of each system call that
  can fail is an argument.
\<close>

datatype fcontent = Infos "json list" | Corrupt

type_synonym fs = "string \<Rightarrow> fcontent option"

datatype read_error = NotExist | BadFile

definition DefaultHistoryCap :: int where "DefaultHistoryCap = 10000"
definition DefaultHistoryMaxAgeMs :: int where "DefaultHistoryMaxAgeMs = 7 * 24 * 3600 * 1000"
definition DefaultRotations :: int where "DefaultRotations = 3"

definition WithPersistence :: "string \<Rightarrow> Store \<Rightarrow> Store" where
  "WithPersistence path s = s\<lparr>s_path := path, s_rotations := DefaultRotations,
     s_historyCap := DefaultHistoryCap, s_maxAgeMs := DefaultHistoryMaxAgeMs\<rparr>"

subsection \<open>Files\<close>

definition numbered :: "string \<Rightarrow> int \<Rightarrow> string" where
  "numbered path i = path @ ''.'' @ Itoa i"

text \<open>A nil \<open>json.RawMessage\<close> marshals as \<open>null\<close>.\<close>

definition marshal_raw :: "raw \<Rightarrow> json" where
  "marshal_raw r = (case r of None \<Rightarrow> JNull | Some j \<Rightarrow> j)"

record io =
  write_ok :: bool
  rename_ok :: bool

definition writeSnapshotFile :: "io \<Rightarrow> string \<Rightarrow> raw list \<Rightarrow> fs \<Rightarrow> fs \<times> bool" where
  "writeSnapshotFile io path infos fs =
     (let data = Infos (map marshal_raw infos); tmp = path @ ''.tmp'' in
      if \<not> write_ok io then (fs(tmp \<mapsto> Corrupt), False)
      else if \<not> rename_ok io then (fs(tmp \<mapsto> data), False)
      else (fs(tmp := None, path \<mapsto> data), True))"

definition readSnapshotFile :: "string \<Rightarrow> fs \<Rightarrow> read_error + raw list" where
  "readSnapshotFile path fs =
     (case fs path of
        None \<Rightarrow> Inl NotExist
      | Some Corrupt \<Rightarrow> Inl BadFile
      | Some (Infos js) \<Rightarrow> Inr (map Some js))"

text \<open>The loop over the candidates; the flag says whether any file was there at all.\<close>

fun read_candidates :: "string list \<Rightarrow> fs \<Rightarrow> bool \<Rightarrow> raw list \<times> bool" where
  "read_candidates [] fs sawFile = ([], \<not> sawFile)"
| "read_candidates (c # cs) fs sawFile =
     (case readSnapshotFile c fs of
        Inr infos \<Rightarrow> (infos, True)
      | Inl NotExist \<Rightarrow> read_candidates cs fs sawFile
      | Inl BadFile \<Rightarrow> read_candidates cs fs True)"

definition readWithFallback :: "string \<Rightarrow> int \<Rightarrow> fs \<Rightarrow> raw list \<times> bool" where
  "readWithFallback path rotations fs =
     read_candidates (path # map (numbered path) [1..rotations]) fs False"

text \<open>A rename whose source is missing fails and the code ignores it.\<close>

definition rename_file :: "string \<Rightarrow> string \<Rightarrow> fs \<Rightarrow> fs" where
  "rename_file a b fs = (case fs a of None \<Rightarrow> fs | Some c \<Rightarrow> fs(a := None, b \<mapsto> c))"

definition rotate :: "string \<Rightarrow> int \<Rightarrow> fs \<Rightarrow> fs" where
  "rotate path keep fs =
     (if keep \<le> 0 then fs
      else let fs1 = fs(numbered path keep := None);
               fs2 = foldl (\<lambda>f i. rename_file (numbered path i) (numbered path (i + 1)) f) fs1
                       (rev [1..keep - 1])
           in rename_file path (numbered path 1) fs2)"

subsection \<open>History\<close>

definition persistable :: "Record \<Rightarrow> bool" where
  "persistable r \<longleftrightarrow> r_Terminal r \<and> \<not> r_Inferred r"

definition historyInfosLocked :: "Store \<Rightarrow> raw list" where
  "historyInfosLocked s =
     map r_Info (sort_by (\<lambda>a b. completionOrder a < completionOrder b)
                   (filter persistable (mvals (s_records s))))"

definition prune_age :: "int \<Rightarrow> Store \<Rightarrow> Store" where
  "prune_age now s =
     (if s_maxAgeMs s > 0
      then s\<lparr>s_records := mkeep (\<lambda>k r. \<not> (r_Terminal r \<and> now - completionOrder r > s_maxAgeMs s))
                           (s_records s)\<rparr>
      else s)"

definition prune_cap :: "Store \<Rightarrow> Store" where
  "prune_cap s =
     (if s_historyCap s \<le> 0 then s
      else let term = map (\<lambda>(k, r). (k, completionOrder r)) (filter (\<lambda>(k, r). r_Terminal r) (s_records s))
           in if int (length term) \<le> s_historyCap s then s
              else let oldest = sort_by (\<lambda>a b. snd a < snd b) term;
                       dropped = map fst (take (length term - nat (s_historyCap s)) oldest)
                   in s\<lparr>s_records := mkeep (\<lambda>k r. k \<notin> set dropped) (s_records s)\<rparr>)"

definition pruneLocked :: "int \<Rightarrow> Store \<Rightarrow> Store" where
  "pruneLocked now s = prune_cap (prune_age now s)"

subsection \<open>Load, Flush, Checkpoint\<close>

definition load_info :: "time \<Rightarrow> Store \<Rightarrow> raw \<Rightarrow> Store" where
  "load_info now s info =
     (case ParseIncoming info of
        None \<Rightarrow> s
      | Some i \<Rightarrow>
          (let rec = recordFrom i now in
           if \<not> r_Terminal rec then s
           else s\<lparr>s_records := mput (keyOf i) rec (s_records s)\<rparr>))"

definition Load :: "time \<Rightarrow> fs \<Rightarrow> Store \<Rightarrow> Store \<times> bool" where
  "Load now fs s =
     (if s_path s = [] then (s, True)
      else let (infos, ok) = readWithFallback (s_path s) (s_rotations s) fs;
               s1 = foldl (load_info now) s infos
           in ((pruneLocked (UnixMilli now) s1)\<lparr>s_dirty := False\<rparr>, ok))"

definition Flush :: "time \<Rightarrow> io \<Rightarrow> fs \<Rightarrow> Store \<Rightarrow> Store \<times> fs \<times> bool" where
  "Flush now io fs s =
     (if s_path s = [] then (s, fs, True)
      else if \<not> s_dirty s then (s, fs, True)
      else let s1 = pruneLocked (UnixMilli now) s;
               infos = historyInfosLocked s1;
               s2 = s1\<lparr>s_dirty := False\<rparr>;
               (fs', ok) = writeSnapshotFile io (s_path s) infos fs
           in if ok then (s2, fs', True) else (s2\<lparr>s_dirty := True\<rparr>, fs', False))"

definition Checkpoint :: "time \<Rightarrow> io \<Rightarrow> fs \<Rightarrow> Store \<Rightarrow> Store \<times> fs \<times> bool" where
  "Checkpoint now io fs s =
     (if s_path s = [] then (s, fs, True)
      else let s1 = pruneLocked (UnixMilli now) s;
               infos = historyInfosLocked s1;
               s2 = s1\<lparr>s_dirty := False\<rparr>;
               (fs', ok) = writeSnapshotFile io (s_path s) infos (rotate (s_path s) (s_rotations s) fs)
           in (s2, fs', ok))"

text \<open>The flusher loop: its three wake-ups, and the final flush when it is cancelled.\<close>

datatype wakeup = FlushTick | DumpTick | Cancelled

definition run_tick :: "wakeup \<Rightarrow> time \<Rightarrow> io \<Rightarrow> fs \<Rightarrow> Store \<Rightarrow> Store \<times> fs" where
  "run_tick w now io fs s =
     (let (s', fs', ok) =
        (case w of
           Cancelled \<Rightarrow> Flush now io fs s
         | FlushTick \<Rightarrow> Flush now io fs s
         | DumpTick \<Rightarrow> Checkpoint now io fs s)
      in (s', fs'))"

fun Run :: "(wakeup \<times> time \<times> io) list \<Rightarrow> fs \<Rightarrow> Store \<Rightarrow> Store \<times> fs" where
  "Run [] fs s = (s, fs)"
| "Run ((w, now, io) # ws) fs s =
     (if s_path s = [] then (s, fs)
      else let (s', fs') = run_tick w now io fs s
           in if w = Cancelled then (s', fs') else Run ws fs' s')"

subsection \<open>Pruning\<close>

abbreviation terminals :: "Store \<Rightarrow> (Key \<times> Record) list" where
  "terminals s \<equiv> filter (\<lambda>(k, r). r_Terminal r) (s_records s)"

lemma prune_age_get:
  assumes "wf_map (s_records s)"
  shows "mget (s_records (prune_age now s)) k =
    (case mget (s_records s) k of
       None \<Rightarrow> None
     | Some r \<Rightarrow> if s_maxAgeMs s > 0 \<and> r_Terminal r \<and> now - completionOrder r > s_maxAgeMs s
                 then None else Some r)"
  using assms by (auto simp: prune_age_def mget_mkeep split: option.splits)

lemma prune_age_frame [simp]:
  "s_path (prune_age now s) = s_path s" "s_historyCap (prune_age now s) = s_historyCap s"
  "s_maxAgeMs (prune_age now s) = s_maxAgeMs s" "s_rotations (prune_age now s) = s_rotations s"
  "s_dirty (prune_age now s) = s_dirty s"
  by (simp_all add: prune_age_def)

lemma prune_cap_frame [simp]:
  "s_path (prune_cap s) = s_path s" "s_historyCap (prune_cap s) = s_historyCap s"
  "s_maxAgeMs (prune_cap s) = s_maxAgeMs s" "s_rotations (prune_cap s) = s_rotations s"
  "s_dirty (prune_cap s) = s_dirty s"
  by (simp_all add: prune_cap_def Let_def)

lemma prune_inv: "store_inv s \<Longrightarrow> store_inv (pruneLocked now s)"
proof -
  assume "store_inv s"
  then have "store_inv (prune_age now s)"
    by (simp add: prune_age_def mkeep_inv)
  then show ?thesis
    by (simp add: pruneLocked_def prune_cap_def Let_def mkeep_inv)
qed

text \<open>The records the cap drops, oldest first.\<close>

definition cap_order :: "Store \<Rightarrow> (Key \<times> int) list" where
  "cap_order s = sort_by (\<lambda>a b. snd a < snd b) (map (\<lambda>(k, r). (k, completionOrder r)) (terminals s))"

definition cap_excess :: "Store \<Rightarrow> nat" where
  "cap_excess s = length (terminals s) - nat (s_historyCap s)"

interpretation by_snd: key_sort "\<lambda>a b. snd a < (snd b :: 'v::linorder)" snd
  by unfold_locales simp

lemma prune_cap_records:
  assumes "0 < s_historyCap s"
  shows "s_records (prune_cap s) =
    mkeep (\<lambda>k r. k \<notin> set (map fst (take (cap_excess s) (cap_order s)))) (s_records s)"
proof (cases "int (length (terminals s)) \<le> s_historyCap s")
  case True
  then have "cap_excess s = 0" by (simp add: cap_excess_def)
  then show ?thesis using True assms by (simp add: prune_cap_def mkeep_def)
next
  case False
  then show ?thesis using assms
    by (simp add: prune_cap_def Let_def cap_excess_def cap_order_def)
qed

lemma cap_order_keys: "mset (map fst (cap_order s)) = mset (map fst (terminals s))"
proof -
  have "mset (map fst (cap_order s)) = image_mset fst (mset (map (\<lambda>(k, r). (k, completionOrder r)) (terminals s)))"
    by (simp add: cap_order_def)
  also have "\<dots> = mset (map fst (terminals s))"
    by (simp add: image_mset.compositionality comp_def split_def)
  finally show ?thesis .
qed

lemma cap_order_entry:
  "(k, n) \<in> set (cap_order s) \<longleftrightarrow> (\<exists>r. (k, r) \<in> set (s_records s) \<and> r_Terminal r \<and> n = completionOrder r)"
  by (force simp: cap_order_def)

lemma cap_order_distinct: "wf_map (s_records s) \<Longrightarrow> distinct (map fst (cap_order s))"
  using wf_filter [of "s_records s"] cap_order_keys [of s]
  by (metis mset_eq_imp_distinct_iff wf_map_def)

lemma length_cap_order: "length (cap_order s) = length (terminals s)"
  by (metis cap_order_keys length_map size_mset)

lemma prune_cap_terminals:
  assumes "0 < s_historyCap s" and "wf_map (s_records s)"
  shows "length (terminals (prune_cap s)) = min (length (terminals s)) (nat (s_historyCap s))"
proof -
  let ?ks = "map fst (cap_order s)"
  let ?D = "set (take (cap_excess s) ?ks)"
  have "terminals (prune_cap s) = filter (\<lambda>(k, r). k \<notin> ?D) (terminals s)"
    by (simp add: prune_cap_records [OF assms(1)] mkeep_def take_map filter_filter split_def conj_commute cong: conj_cong)
  then have "length (terminals (prune_cap s)) = length (filter (\<lambda>k. k \<notin> ?D) (map fst (terminals s)))"
    by (simp add: filter_map comp_def split_def)
  also have "\<dots> = length (filter (\<lambda>k. k \<notin> ?D) ?ks)"
    using cap_order_keys [of s] by (metis mset_filter size_mset)
  also have "filter (\<lambda>k. k \<notin> ?D) ?ks = drop (cap_excess s) ?ks"
  proof -
    have "filter (\<lambda>k. k \<notin> ?D) (take (cap_excess s) ?ks @ drop (cap_excess s) ?ks) =
        drop (cap_excess s) ?ks"
      using cap_order_distinct [OF assms(2)] set_take_disj_set_drop_if_distinct [of ?ks]
      by (auto simp: filter_empty_conv filter_id_conv simp del: append_take_drop_id)
    then show ?thesis by simp
  qed
  also have "length (drop (cap_excess s) ?ks) = min (length (terminals s)) (nat (s_historyCap s))"
    by (simp add: length_cap_order cap_excess_def)
  finally show ?thesis .
qed

lemma prune_cap_get:
  assumes "0 < s_historyCap s" and "wf_map (s_records s)"
  shows "mget (s_records (prune_cap s)) k =
    (if k \<in> set (map fst (take (cap_excess s) (cap_order s))) then None else mget (s_records s) k)"
  using assms by (auto simp: prune_cap_records mget_mkeep split: option.splits)

lemma prune_cap_oldest:
  assumes cap: "0 < s_historyCap s" and wf: "wf_map (s_records s)"
    and gone: "mget (s_records s) k = Some r" "mget (s_records (prune_cap s)) k = None"
    and kept: "mget (s_records (prune_cap s)) k' = Some r'" "r_Terminal r'"
  shows "r_Terminal r \<and> completionOrder r \<le> completionOrder r'"
proof -
  let ?e = "cap_excess s"
  obtain n where kn: "(k, n) \<in> set (take ?e (cap_order s))"
    using gone by (force simp: prune_cap_get [OF cap wf] split: if_splits)
  then have "(k, n) \<in> set (cap_order s)" by (rule in_set_takeD)
  then have r: "r_Terminal r" "n = completionOrder r"
    using gone(1) wf by (auto simp: cap_order_entry mget_in_set [symmetric])
  have k': "mget (s_records s) k' = Some r'" "k' \<notin> set (map fst (take ?e (cap_order s)))"
    using kept(1) by (auto simp: prune_cap_get [OF cap wf] split: if_splits)
  then have "(k', completionOrder r') \<in> set (cap_order s)"
    using kept(2) wf by (auto simp: cap_order_entry mget_in_set)
  then have "(k', completionOrder r') \<in> set (drop ?e (cap_order s))"
    using k'(2) by (metis (no_types, lifting) Un_iff append_take_drop_id fst_conv imageI set_append set_map)
  then have "snd (k, n) \<le> snd (k', completionOrder r')"
    using kn unfolding cap_order_def
    by (intro sorted_take_drop [where f = snd, OF by_snd.sorted_sort_by])
  then show ?thesis using r by simp
qed

subsection \<open>Reading back what was written\<close>

text \<open>A record restored at \<open>now\<close>: its clock readings are fresh, the rest is what was stored.\<close>

definition reload :: "time \<Rightarrow> Record \<Rightarrow> Record" where
  "reload now r = r\<lparr>r_LastUpdated := UnixMilli now, r_LastSeen := now\<rparr>"

lemma reload_fields [simp]:
  "view_r (reload now r) = view_r r" "r_Terminal (reload now r) = r_Terminal r"
  "r_CompletedAt (reload now r) = r_CompletedAt r" "r_LastUpdated (reload now r) = UnixMilli now"
  by (simp_all add: reload_def view_r_def)

lemma load_info_persistable:
  assumes "info_ok k r" and "persistable r"
  shows "load_info now s (r_Info r) = s\<lparr>s_records := mput k (reload now r) (s_records s)\<rparr>"
proof -
  obtain i where i: "ParseIncoming (r_Info r) = Some i" "keyOf i = k" "view_i False i = view_r r"
    using assms by (auto simp: info_ok_def persistable_def split: option.splits)
  then have "recordFrom i now = reload now r"
    using assms(2)
    by (cases r) (auto simp: recordFrom_def reload_def view_i_def view_r_def persistable_def)
  moreover have "r_Terminal r" using assms(2) by (simp add: persistable_def)
  ultimately show ?thesis using i by (simp add: load_info_def)
qed

lemma load_infos_get:
  assumes "\<forall>(k, r) \<in> set L. info_ok k r \<and> persistable r" and "wf_map L"
  shows "mget (s_records (foldl (load_info now) s (map (r_Info \<circ> snd) L))) k =
    (case mget L k of None \<Rightarrow> mget (s_records s) k | Some r \<Rightarrow> Some (reload now r))"
  using assms
proof (induction L arbitrary: s)
  case Nil
  then show ?case by simp
next
  case (Cons kr L)
  obtain k' r' where kr: "kr = (k', r')" by (cases kr)
  have "load_info now s (r_Info r') = s\<lparr>s_records := mput k' (reload now r') (s_records s)\<rparr>"
    using Cons.prems kr by (intro load_info_persistable) auto
  moreover have "mget L k' = None" "wf_map L"
    using Cons.prems(2) kr by (auto simp: mget_None mkeys_def wf_map_def)
  ultimately show ?case
    using Cons.IH [of "s\<lparr>s_records := mput k' (reload now r') (s_records s)\<rparr>"] Cons.prems(1) kr
    by (auto simp: mget_mput mget_Cons split: option.splits)
qed

lemma load_infos_frame:
  "s_path (foldl (load_info now) s infos) = s_path s"
  "s_historyCap (foldl (load_info now) s infos) = s_historyCap s"
  "s_maxAgeMs (foldl (load_info now) s infos) = s_maxAgeMs s"
  by (induction infos arbitrary: s)
    (simp_all add: load_info_def Let_def split: option.splits)

lemma load_infos_wf:
  "wf_map (s_records s) \<Longrightarrow> wf_map (s_records (foldl (load_info now) s infos))"
  by (induction infos arbitrary: s) (simp_all add: load_info_def Let_def split: option.splits)

text \<open>The persistable part of a store, in the order it is written.\<close>

definition history :: "Store \<Rightarrow> (Key \<times> Record) list" where
  "history s = sort_by (\<lambda>a b. completionOrder (snd a) < completionOrder (snd b))
     (filter (\<lambda>(k, r). persistable r) (s_records s))"

lemma historyInfosLocked_history: "historyInfosLocked s = map (r_Info \<circ> snd) (history s)"
proof -
  have "map snd (history s) =
      sort_by (\<lambda>a b. completionOrder a < completionOrder b) (map snd (filter (\<lambda>(k, r). persistable r) (s_records s)))"
    unfolding history_def by (rule map_sort_by)
  also have "map snd (filter (\<lambda>(k, r). persistable r) (s_records s)) = filter persistable (mvals (s_records s))"
    by (simp add: mvals_def filter_map comp_def split_def)
  finally show ?thesis
    by (simp add: historyInfosLocked_def flip: map_map)
qed

lemma history_map:
  assumes "wf_map (s_records s)"
  shows "wf_map (history s)" and "mget (history s) k =
    (case mget (s_records s) k of None \<Rightarrow> None | Some r \<Rightarrow> if persistable r then Some r else None)"
proof -
  let ?F = "mkeep (\<lambda>k r. persistable r) (s_records s)"
  have same: "same_map ?F (history s)"
    using assms by (intro mset_same_map) (simp_all add: history_def mkeep_def wf_filter)
  then show "wf_map (history s)" by (simp add: same_map_def)
  have "mget (history s) k = mget ?F k" using same by (simp add: same_map_def)
  then show "mget (history s) k =
    (case mget (s_records s) k of None \<Rightarrow> None | Some r \<Rightarrow> if persistable r then Some r else None)"
    using assms by (simp add: mget_mkeep)
qed

lemma history_ok:
  assumes "store_inv s"
  shows "\<forall>(k, r) \<in> set (history s). info_ok k r \<and> persistable r"
  using assms by (auto simp: store_inv_def history_def list_all_iff)

lemma length_history: "length (history s) \<le> length (terminals s)"
proof -
  have "filter (\<lambda>(k, r). persistable r) (s_records s) =
      filter (\<lambda>(k, r). persistable r) (filter (\<lambda>(k, r). r_Terminal r) (s_records s))"
    by (auto simp: filter_filter persistable_def intro: filter_cong)
  then show ?thesis
    by (metis history_def length_filter_le length_sort_by)
qed

subsection \<open>File names\<close>

lemma numbered_eq [simp]: "0 \<le> i \<Longrightarrow> 0 \<le> j \<Longrightarrow> numbered path i = numbered path j \<longleftrightarrow> i = j"
  by (auto simp: numbered_def dest: Itoa_inj)

lemma numbered_not_path [simp]: "numbered path i \<noteq> path"
  by (simp add: numbered_def)

lemma path_not_numbered [simp]: "path \<noteq> numbered path i"
  by (simp add: numbered_def)

lemma numbered_not_tmp [simp]:
  assumes "0 \<le> i"
  shows "numbered path i \<noteq> path @ ''.tmp''"
proof
  assume "numbered path i = path @ ''.tmp''"
  then have "CHR ''t'' \<in> set (Itoa i)" by (simp add: numbered_def)
  then have "is_digit (CHR ''t'')" by (rule Itoa_digits [OF assms])
  then show False by (simp add: is_digit_def)
qed

lemma rename_file_get:
  "rename_file a b fs x =
     (if x = b \<and> fs a \<noteq> None then fs a else if x = a \<and> fs a \<noteq> None then None else fs x)"
  by (auto simp: rename_file_def split: option.splits)

text \<open>The shifting loop, from the highest number down.\<close>

definition shift_up :: "string \<Rightarrow> int \<Rightarrow> fs \<Rightarrow> fs" where
  "shift_up path n fs =
     foldl (\<lambda>f i. rename_file (numbered path i) (numbered path (i + 1)) f) fs (rev [1..n])"

lemma shift_up_rec:
  "1 \<le> n \<Longrightarrow> shift_up path n fs =
     shift_up path (n - 1) (rename_file (numbered path n) (numbered path (n + 1)) fs)"
  by (simp add: shift_up_def upto_rec2)

lemma shift_up_0: "n < 1 \<Longrightarrow> shift_up path n fs = fs"
  by (simp add: shift_up_def)

definition shifted :: "string \<Rightarrow> int \<Rightarrow> fs \<Rightarrow> fs \<Rightarrow> bool" where
  "shifted path n fs fs' \<longleftrightarrow>
     (\<forall>j. 1 \<le> j \<and> j \<le> n \<longrightarrow> fs' (numbered path (j + 1)) = fs (numbered path j)) \<and>
     fs' (numbered path 1) = None \<and>
     (\<forall>x. (\<forall>j. 1 \<le> j \<and> j \<le> n + 1 \<longrightarrow> x \<noteq> numbered path j) \<longrightarrow> fs' x = fs x)"

lemma shift_up_shifted:
  assumes "0 \<le> n" and "fs (numbered path (n + 1)) = None"
  shows "shifted path n fs (shift_up path n fs)"
  using assms
proof (induction "nat n" arbitrary: n fs)
  case 0
  then show ?case by (auto simp: shifted_def shift_up_0)
next
  case (Suc m)
  let ?f = "rename_file (numbered path n) (numbered path (n + 1)) fs"
  have n: "1 \<le> n" "m = nat (n - 1)" using Suc.hyps(2) by auto
  have "?f (numbered path n) = None"
    using n by (simp add: rename_file_get)
  then have IH: "shifted path (n - 1) ?f (shift_up path n fs)"
    using Suc.hyps(1) [of "n - 1" ?f] n by (simp add: shift_up_rec)
  have top: "shift_up path n fs (numbered path (n + 1)) = fs (numbered path n)"
    using IH n Suc.prems(2) by (simp add: shifted_def rename_file_get)
  have low: "shift_up path n fs (numbered path (j + 1)) = fs (numbered path j)" if "1 \<le> j" "j < n" for j
    using IH that by (simp add: shifted_def rename_file_get)
  have rest: "shift_up path n fs x = fs x" if "\<forall>j. 1 \<le> j \<and> j \<le> n + 1 \<longrightarrow> x \<noteq> numbered path j" for x
  proof -
    have "x \<noteq> numbered path n" "x \<noteq> numbered path (n + 1)" using that n by auto
    then show ?thesis using IH that by (simp add: shifted_def rename_file_get)
  qed
  have "shift_up path n fs (numbered path 1) = None"
    using IH by (simp add: shifted_def)
  then show ?case
    using top low rest unfolding shifted_def by (metis order.order_iff_strict)
qed

lemma rotate_shift:
  assumes "1 \<le> keep"
  shows "rotate path keep fs path = None"
    and "rotate path keep fs (numbered path 1) = fs path"
    and "1 \<le> j \<Longrightarrow> j < keep \<Longrightarrow> rotate path keep fs (numbered path (j + 1)) = fs (numbered path j)"
proof -
  let ?g = "fs(numbered path keep := None)"
  let ?h = "shift_up path (keep - 1) ?g"
  have rot: "rotate path keep fs = rename_file path (numbered path 1) ?h"
    using assms by (simp add: rotate_def shift_up_def Let_def)
  have sh: "shifted path (keep - 1) ?g ?h"
    using assms by (intro shift_up_shifted) auto
  have "\<forall>j. 1 \<le> j \<and> j \<le> keep - 1 + 1 \<longrightarrow> path \<noteq> numbered path j"
    by (metis numbered_not_path)
  then have path: "?h path = fs path"
    using sh unfolding shifted_def by (metis fun_upd_other numbered_not_path)
  have one: "?h (numbered path 1) = None"
    using sh by (simp add: shifted_def)
  show "rotate path keep fs path = None"
    using path by (auto simp: rot rename_file_get)
  show "rotate path keep fs (numbered path 1) = fs path"
    using path one by (auto simp: rot rename_file_get)
  show "rotate path keep fs (numbered path (j + 1)) = fs (numbered path j)" if "1 \<le> j" "j < keep"
    using sh that by (simp add: rot rename_file_get shifted_def)
qed

subsection \<open>Flush then Load\<close>

lemma readWithFallback_primary:
  "fs path = Some (Infos js) \<Longrightarrow> readWithFallback path rotations fs = (map Some js, True)"
  by (simp add: readWithFallback_def readSnapshotFile_def)

lemma prune_cap_noop:
  assumes "int (length (terminals s)) \<le> s_historyCap s"
  shows "prune_cap s = s"
  using assms by (simp add: prune_cap_def)

lemma terminals_bound:
  assumes "wf_map (s_records s)" and "finite A"
    and "\<And>k r. mget (s_records s) k = Some r \<Longrightarrow> r_Terminal r \<Longrightarrow> k \<in> A"
  shows "length (terminals s) \<le> card A"
proof -
  have "distinct (map fst (terminals s))"
    using wf_filter [OF assms(1)] by (simp add: wf_map_def)
  then have "length (terminals s) = card (set (map fst (terminals s)))"
    by (metis distinct_card length_map)
  also have "\<dots> \<le> card A"
    using assms by (intro card_mono) (auto simp: mget_in_set)
  finally show ?thesis .
qed

definition fresh_at :: "time \<Rightarrow> Record \<Rightarrow> bool" where
  "fresh_at now r \<longleftrightarrow> (r_CompletedAt r > 0 \<longrightarrow> UnixMilli now - r_CompletedAt r \<le> DefaultHistoryMaxAgeMs)"

lemma Load_history:
  assumes fs: "fs path = Some (Infos (map marshal_raw (historyInfosLocked s)))" and path: "path \<noteq> []"
    and inv: "store_inv s" and cap: "int (length (terminals s)) \<le> DefaultHistoryCap"
  shows "mget (s_records (fst (Load now fs (WithPersistence path New)))) k =
    (case mget (s_records s) k of
       None \<Rightarrow> None
     | Some r \<Rightarrow> if persistable r \<and> fresh_at now r then Some (reload now r) else None)"
proof -
  let ?s0 = "WithPersistence path New"
  let ?s1 = "foldl (load_info now) ?s0 (map (r_Info \<circ> snd) (history s))"
  have wf: "wf_map (s_records s)" using inv by (rule store_invD)
  have some: "marshal_raw (r_Info r) = j \<Longrightarrow> r_Info r = Some j" if "(k, r) \<in> set (history s)" for k r j
    using that history_ok [OF inv]
    by (auto simp: info_ok_def marshal_raw_def ParseIncoming_def split: option.splits)
  have infos: "map (Some \<circ> marshal_raw) (historyInfosLocked s) = map (r_Info \<circ> snd) (history s)"
    using some by (force simp: historyInfosLocked_history)
  have frame: "s_path ?s0 = path" "s_historyCap ?s0 = DefaultHistoryCap"
    "s_maxAgeMs ?s0 = DefaultHistoryMaxAgeMs" "s_records ?s0 = []"
    by (simp_all add: WithPersistence_def New_def)
  have load: "fst (Load now fs ?s0) = (pruneLocked (UnixMilli now) ?s1)\<lparr>s_dirty := False\<rparr>"
    using path fs infos by (simp add: Load_def frame readWithFallback_primary)
  have wf1: "wf_map (s_records ?s1)"
    by (rule load_infos_wf) (simp add: frame)
  have get1: "mget (s_records ?s1) k' =
      (case mget (s_records s) k' of None \<Rightarrow> None | Some r \<Rightarrow> if persistable r then Some (reload now r) else None)" for k'
    using load_infos_get [OF history_ok [OF inv] history_map(1) [OF wf], of now ?s0 k']
    by (simp add: frame history_map(2) [OF wf] split: option.splits)
  let ?s2 = "prune_age (UnixMilli now) ?s1"
  have wf2: "wf_map (s_records ?s2)"
    using wf1 by (simp add: prune_age_def)
  have get2: "mget (s_records ?s2) k' = (case mget (s_records s) k' of
       None \<Rightarrow> None
     | Some r \<Rightarrow> if persistable r \<and> fresh_at now r then Some (reload now r) else None)" for k'
    by (auto simp: prune_age_get [OF wf1] get1 load_infos_frame frame persistable_def fresh_at_def
        completionOrder_def DefaultHistoryMaxAgeMs_def split: option.splits)
  have "k' \<in> set (map fst (history s))" if "mget (s_records ?s2) k' = Some r'" for k' r'
  proof -
    have "mget (history s) k' \<noteq> None"
      using that by (auto simp: get2 history_map(2) [OF wf] split: option.splits if_splits)
    then show ?thesis by (simp add: mget_None mkeys_def)
  qed
  then have "length (terminals ?s2) \<le> card (set (map fst (history s)))"
    by (intro terminals_bound [OF wf2]) auto
  also have "\<dots> \<le> length (history s)" by (metis card_length length_map)
  also have "\<dots> \<le> length (terminals s)" by (rule length_history)
  finally have "prune_cap ?s2 = ?s2"
    using cap by (intro prune_cap_noop) (simp add: load_infos_frame frame)
  then show ?thesis by (simp add: load pruneLocked_def get2)
qed

subsection \<open>The dirty flag\<close>

text \<open>The operations the broker performs on the store, on the workload infos it receives.\<close>

datatype store_op =
  OpApply time raw
| OpApplyInferred time raw
| OpGuarded time raw time
| OpRemove string string

fun exec :: "Store \<Rightarrow> store_op \<Rightarrow> Store" where
  "exec s (OpApply now info) =
     (case ParseIncoming info of None \<Rightarrow> s | Some i \<Rightarrow> fst (Apply now i s))"
| "exec s (OpApplyInferred now info) =
     (case ParseIncoming info of None \<Rightarrow> s | Some i \<Rightarrow> fst (ApplyInferred now i s))"
| "exec s (OpGuarded now info seenAt) =
     (case ParseIncoming info of None \<Rightarrow> s | Some i \<Rightarrow> fst (ApplyInferredUnchangedSince now i seenAt s))"
| "exec s (OpRemove origin wid) = fst (Remove origin wid s)"

text \<open>The part of the store that belongs on disk.\<close>

definition durable :: "Store \<Rightarrow> Key \<Rightarrow> Record option" where
  "durable s k = (case mget (s_records s) k of None \<Rightarrow> None | Some r \<Rightarrow> if persistable r then Some r else None)"

abbreviation durable_view :: "Store \<Rightarrow> Key \<Rightarrow> (string \<times> string \<times> string \<times> int \<times> int \<times> string \<times> bool \<times> bool \<times> raw) option" where
  "durable_view s k \<equiv> map_option view_r (durable s k)"

lemma putLocked_dirty:
  "s_dirty (putLocked now key i inferred s) \<longleftrightarrow>
     s_dirty s \<or> (isTerminal (i_State i) \<and> \<not> inferred) \<or>
     (case mget (s_records s) key of None \<Rightarrow> False | Some p \<Rightarrow> persistable p)"
  by (auto simp: putLocked_def Let_def persistable_def recordFrom_def split: option.splits)

lemma putLocked_clean:
  assumes "\<not> s_dirty (putLocked now key i inferred s)"
  shows "\<not> s_dirty s" and "durable (putLocked now key i inferred s) = durable s"
  using assms
  by (auto simp: putLocked_dirty durable_def putLocked_get persistable_def fun_eq_iff split: option.splits)

lemma sighting_durable:
  assumes "mget (s_records s) key = Some cur"
  shows "durable_view (s\<lparr>s_records := mput key (cur\<lparr>r_LastSeen := t\<rparr>) (s_records s)\<rparr>) k = durable_view s k"
  using assms by (auto simp: durable_def mget_mput persistable_def split: option.splits)

lemma applyLocked_clean:
  assumes "\<not> s_dirty (fst (applyLocked now i inferred s))"
  shows "\<not> s_dirty s \<and> durable_view (fst (applyLocked now i inferred s)) = durable_view s"
proof (cases "\<not> valid_incoming i \<or> mget (s_records s) (keyOf i) = None")
  case True
  then show ?thesis using assms putLocked_clean [of now "keyOf i" i inferred s]
    by (auto simp: applyLocked_def valid_incoming_def Let_def)
next
  case False
  then obtain cur where cur: "mget (s_records s) (keyOf i) = Some cur" and valid: "\<not> (i_ID i = [] \<or> i_Origin i = [])"
    by (auto simp: valid_incoming_def)
  define s1 where "s1 = (if \<not> inferred \<and> i_CreatedAt i \<ge> r_CreatedAt cur
     then s\<lparr>s_records := mput (keyOf i) (cur\<lparr>r_LastSeen := now\<rparr>) (s_records s)\<rparr> else s)"
  have s1: "s_dirty s1 = s_dirty s" "durable_view s1 = durable_view s"
    using sighting_durable [OF cur] by (auto simp: s1_def)
  have "fst (applyLocked now i inferred s) = s1 \<or>
      fst (applyLocked now i inferred s) = putLocked now (keyOf i) i True s1 \<or>
      fst (applyLocked now i inferred s) = putLocked now (keyOf i) i False s1"
    using cur valid by (cases inferred) (simp_all add: applyLocked_def s1_def Let_def)
  then consider "fst (applyLocked now i inferred s) = s1"
    | b where "fst (applyLocked now i inferred s) = putLocked now (keyOf i) i b s1" by blast
  then show ?thesis
  proof cases
    case 1
    then show ?thesis using assms s1 by simp
  next
    case (2 b)
    then show ?thesis using assms s1 putLocked_clean [of now "keyOf i" i b s1] by simp
  qed
qed

lemma Remove_clean:
  assumes "wf_map (s_records s)" and "\<not> s_dirty (fst (Remove origin wid s))"
  shows "\<not> s_dirty s \<and> durable (fst (Remove origin wid s)) = durable s"
proof -
  have "\<not> persistable r" if "mget (s_records s) k = Some r" "matches_pair origin wid r" for k r
    using assms(2) that mvals_iff [OF assms(1), of r]
    by (auto simp: Remove_def Let_def list_ex_iff persistable_def)
  then have "durable (fst (Remove origin wid s)) = durable s"
    by (auto simp: durable_def Remove_get [OF assms(1)] fun_eq_iff split: option.splits)
  then show ?thesis
    using assms(2) by (simp add: Remove_def Let_def)
qed

lemma exec_cases:
  obtains "exec s op = s"
  | now info i inferred where "ParseIncoming info = Some i" "exec s op = fst (applyLocked now i inferred s)"
  | origin wid where "exec s op = fst (Remove origin wid s)"
proof (cases op)
  case (OpApply now info)
  show ?thesis
    by (cases "ParseIncoming info") (use OpApply that in \<open>simp_all add: Apply_def apply_event_def\<close>)
next
  case (OpApplyInferred now info)
  show ?thesis
    by (cases "ParseIncoming info") (use OpApplyInferred that in \<open>simp_all add: ApplyInferred_def apply_event_def\<close>)
next
  case (OpGuarded now info seenAt)
  show ?thesis
  proof (cases "ParseIncoming info")
    case (Some i)
    then show ?thesis
      using OpGuarded that(1) that(2) [OF Some, of now True] ApplyInferredUnchangedSince_cases [of now i seenAt s]
      by (cases "ApplyInferredUnchangedSince now i seenAt s = (s, False)") simp_all
  qed (use OpGuarded that(1) in simp)
next
  case (OpRemove origin wid)
  then show ?thesis using that(3) by simp
qed

lemma exec_inv: "store_inv s \<Longrightarrow> store_inv (exec s op)"
  by (cases rule: exec_cases [of s op]) (simp_all add: applyLocked_inv Remove_inv)

lemma exec_clean:
  assumes "store_inv s" and "\<not> s_dirty (exec s op)"
  shows "\<not> s_dirty s \<and> durable_view (exec s op) = durable_view s"
proof (cases rule: exec_cases [of s op])
  case 1
  then show ?thesis using assms(2) by simp
next
  case (2 now info i inferred)
  then show ?thesis using assms(2) applyLocked_clean by simp
next
  case (3 origin wid)
  then show ?thesis using assms Remove_clean [OF store_invD(1) [OF assms(1)]] by simp
qed

lemma execs_clean:
  assumes "store_inv s" and "\<not> s_dirty (foldl exec s ops)"
  shows "\<not> s_dirty s \<and> durable_view (foldl exec s ops) = durable_view s \<and> store_inv (foldl exec s ops)"
  using assms
proof (induction ops arbitrary: s)
  case (Cons op ops)
  have "\<not> s_dirty (foldl exec (exec s op) ops)" using Cons.prems(2) by simp
  from Cons.IH [OF exec_inv [OF Cons.prems(1)] this]
  have rest: "\<not> s_dirty (exec s op)" "durable_view (foldl exec (exec s op) ops) = durable_view (exec s op)"
    "store_inv (foldl exec (exec s op) ops)" by blast+
  show ?case
    using exec_clean [OF Cons.prems(1) rest(1)] rest(2,3) unfolding foldl.simps by presburger
qed simp

subsection \<open>Theorems\<close>

definition good_io :: io where
  "good_io = \<lparr>write_ok = True, rename_ok = True\<rparr>"

lemma Flush_ok:
  assumes "s_path s \<noteq> []" and "s_dirty s" and "write_ok io" and "rename_ok io"
  shows "Flush now io fs s = ((pruneLocked (UnixMilli now) s)\<lparr>s_dirty := False\<rparr>,
    fs(s_path s @ ''.tmp'' := None,
       s_path s \<mapsto> Infos (map marshal_raw (historyInfosLocked (pruneLocked (UnixMilli now) s)))), True)"
  using assms by (simp add: Flush_def writeSnapshotFile_def Let_def)

lemma prune_terminals_cap:
  assumes "0 < s_historyCap s" and "wf_map (s_records s)"
  shows "int (length (terminals (pruneLocked now s))) \<le> s_historyCap s"
proof -
  have "wf_map (s_records (prune_age now s))" using assms(2) by (simp add: prune_age_def)
  then show ?thesis
    using assms(1) prune_cap_terminals [of "prune_age now s"] by (simp add: pruneLocked_def)
qed

lemma prune_path [simp]: "s_path (pruneLocked now s) = s_path s"
  by (simp add: pruneLocked_def)

lemma clean_frame:
  "store_inv (s\<lparr>s_dirty := b\<rparr>) = store_inv s" "terminals (s\<lparr>s_dirty := b\<rparr>) = terminals s"
  "durable (s\<lparr>s_dirty := b\<rparr>) = durable s" "historyInfosLocked (s\<lparr>s_dirty := b\<rparr>) = historyInfosLocked s"
  by (simp_all add: store_inv_def durable_def [abs_def] historyInfosLocked_def)

lemma durable_restored:
  "(case mget (s_records s) k of None \<Rightarrow> None
    | Some r \<Rightarrow> if persistable r \<and> fresh_at now r then Some (view_r r) else None) =
   (case durable_view s k of None \<Rightarrow> None
    | Some v \<Rightarrow> if 0 < fst (snd (snd (snd (snd v)))) \<longrightarrow>
        UnixMilli now - fst (snd (snd (snd (snd v)))) \<le> DefaultHistoryMaxAgeMs then Some v else None)"
  by (cases "mget (s_records s) k") (simp_all add: durable_def fresh_at_def view_r_def)


definition demo_store :: Store where
  "demo_store = fst (Apply 20 (demo ''completed'' ''b'') (WithPersistence ''w'' New))"

lemma demo_store_eq:
  "demo_store = (WithPersistence ''w'' New)\<lparr>s_records :=
     [(keyOf (demo ''completed'' ''b''), written 20 (demo ''completed'' ''b'') False None)], s_dirty := True\<rparr>"
proof -
  have "demo_store = putLocked 20 (keyOf (demo ''completed'' ''b'')) (demo ''completed'' ''b'') False (WithPersistence ''w'' New)"
    by (simp add: demo_store_def Apply_def apply_event_def applyLocked_def WithPersistence_def New_def demo_def Let_def)
  then show ?thesis
    by (simp add: putLocked_def WithPersistence_def New_def Let_def recordFrom_def isTerminal_def
        written_def mput_def demo_def)
qed

lemma demo_store_facts:
  "store_inv demo_store" "s_path demo_store = ''w''" "s_historyCap demo_store = DefaultHistoryCap" "s_dirty demo_store"
  "s_maxAgeMs demo_store = DefaultHistoryMaxAgeMs" "s_rotations demo_store = DefaultRotations"
  "s_records demo_store = [(keyOf (demo ''completed'' ''b''), written 20 (demo ''completed'' ''b'') False None)]"
proof -
  show "store_inv demo_store"
    by (simp add: demo_store_eq store_inv_def WithPersistence_def info_ok_written [OF demo_parse] wf_map_def)
qed (simp_all add: demo_store_eq WithPersistence_def)

lemma demo_pruned: "pruneLocked 0 demo_store = demo_store"
proof -
  have "prune_age 0 demo_store = demo_store"
    by (simp add: prune_age_def demo_store_facts mkeep_def completionOrder_def UnixMilli_def DefaultHistoryMaxAgeMs_def
        demo_def)
  then show ?thesis
    by (simp add: pruneLocked_def prune_cap_noop demo_store_facts isTerminal_def DefaultHistoryCap_def)
qed

lemma demo_flush:
  "\<exists>fs'. Flush 30 good_io Map.empty demo_store = (demo_store\<lparr>s_dirty := False\<rparr>, fs', True)"
  by (simp add: Flush_ok demo_store_facts good_io_def UnixMilli_def demo_pruned)


text \<open>
  A flush that fails leaves the primary file and every rotation as they were, reports the
  error, and keeps the store dirty, so the next flush retries; one that succeeds leaves it clean.
\<close>

theorem Flush_failure_is_safe:
  assumes "s_path s \<noteq> []" and "s_dirty s" and "Flush now io fs s = (s', fs', ok)"
  shows "(ok \<longleftrightarrow> write_ok io \<and> rename_ok io) \<and> s_dirty s' = (\<not> ok) \<and>
    (\<not> ok \<longrightarrow> (\<forall>f. f \<noteq> s_path s @ ''.tmp'' \<longrightarrow> fs' f = fs f) \<and>
       fst (Load t fs' (WithPersistence (s_path s) New)) = fst (Load t fs (WithPersistence (s_path s) New)))"
proof -
  have frame: "\<forall>f. f \<noteq> s_path s @ ''.tmp'' \<longrightarrow> fs' f = fs f" if "\<not> (write_ok io \<and> rename_ok io)"
    using that assms by (auto simp: Flush_def Let_def writeSnapshotFile_def split: if_splits)
  have cand: "read_candidates cs fs' saw = read_candidates cs fs saw"
    if "s_path s @ ''.tmp'' \<notin> set cs" "\<not> (write_ok io \<and> rename_ok io)" for cs saw
    using that(1) frame [OF that(2)]
    by (induction cs arbitrary: saw) (auto simp: readSnapshotFile_def split: option.splits fcontent.splits)
  have names: "s_path s @ ''.tmp'' \<notin> set (s_path s # map (numbered (s_path s)) [1..n])" for n
    using numbered_not_tmp by (force dest: sym)
  have "fst (Load t fs' (WithPersistence (s_path s) New)) = fst (Load t fs (WithPersistence (s_path s) New))"
    if "\<not> (write_ok io \<and> rename_ok io)"
    using cand [OF names that] by (simp add: Load_def readWithFallback_def WithPersistence_def del: read_candidates.simps)
  then show ?thesis
    using assms frame by (auto simp: Flush_def Let_def writeSnapshotFile_def split: if_splits)
qed

theorem Flush_failure_is_safe_witness:
  "\<exists>s' fs'. Flush 30 \<lparr>write_ok = False, rename_ok = True\<rparr> Map.empty demo_store = (s', fs', False) \<and>
     s_dirty s' \<and> fs' ''w'' = None"
proof -
  obtain s' fs' ok where f: "Flush 30 \<lparr>write_ok = False, rename_ok = True\<rparr> Map.empty demo_store = (s', fs', ok)"
    using prod_cases3 by blast
  show ?thesis
    using Flush_failure_is_safe [OF _ demo_store_facts(4) f] f by (simp add: demo_store_facts)
qed

text \<open>
  Pruning keeps every live record and at most \<open>historyCap\<close> terminal ones; a terminal record
  it drops is past the age limit or finished no later than every terminal record it keeps.
\<close>

theorem pruneLocked_keeps_newest:
  assumes wf: "wf_map (s_records s)" and cap: "0 < s_historyCap s"
  shows "int (length (terminals (pruneLocked now s))) \<le> s_historyCap s \<and>
    (\<forall>k r. mget (s_records (pruneLocked now s)) k = Some r \<longrightarrow> mget (s_records s) k = Some r) \<and>
    (\<forall>k r. mget (s_records s) k = Some r \<and> mget (s_records (pruneLocked now s)) k = None \<longrightarrow>
       r_Terminal r \<and> (s_maxAgeMs s < now - completionOrder r \<or>
         (\<forall>k' r'. mget (s_records (pruneLocked now s)) k' = Some r' \<and> r_Terminal r' \<longrightarrow>
            completionOrder r \<le> completionOrder r')))"
proof -
  let ?a = "prune_age now s"
  have wfa: "wf_map (s_records ?a)" and capa: "0 < s_historyCap ?a"
    using wf cap by (simp_all add: prune_age_def)
  have sub: "mget (s_records s) k = Some r" if "mget (s_records (pruneLocked now s)) k = Some r" for k r
    using that by (auto simp: pruneLocked_def prune_cap_get [OF capa wfa] prune_age_get [OF wf] split: if_splits option.splits)
  have gone: "r_Terminal r \<and> (s_maxAgeMs s < now - completionOrder r \<or>
         (\<forall>k' r'. mget (s_records (pruneLocked now s)) k' = Some r' \<and> r_Terminal r' \<longrightarrow>
            completionOrder r \<le> completionOrder r'))"
    if k: "mget (s_records s) k = Some r" "mget (s_records (pruneLocked now s)) k = None" for k r
  proof (cases "mget (s_records ?a) k")
    case None
    then show ?thesis using k by (auto simp: prune_age_get [OF wf] split: if_splits)
  next
    case (Some r0)
    then have "r0 = r" using k(1) by (auto simp: prune_age_get [OF wf] split: if_splits)
    have dropped: "mget (s_records (prune_cap ?a)) k = None" using k(2) by (simp add: pruneLocked_def)
    have "k \<in> set (map fst (cap_order ?a))"
      using Some dropped set_take_subset [of _ "cap_order ?a"]
      by (auto simp: prune_cap_get [OF capa wfa] split: if_splits)
    then have "r_Terminal r"
      using Some \<open>r0 = r\<close> wfa by (auto simp: cap_order_entry mget_in_set [symmetric])
    then show ?thesis
      using prune_cap_oldest [OF capa wfa Some dropped] \<open>r0 = r\<close> unfolding pruneLocked_def by blast
  qed
  show ?thesis
    using prune_terminals_cap [OF cap wf] sub gone by blast
qed

theorem pruneLocked_keeps_newest_witness:
  "int (length (terminals (pruneLocked 0 demo_store))) \<le> 10000"
  using pruneLocked_keeps_newest [OF store_invD(1) [OF demo_store_facts(1)], of 0]
  by (simp add: demo_store_facts DefaultHistoryCap_def)

text \<open>
  A successful checkpoint writes the current history as the primary, moves the old primary to
  the first rotation and every rotation one further, and drops only what was beyond the last one.
\<close>

theorem Checkpoint_rotates:
  assumes path: "s_path s \<noteq> []" and rot: "1 \<le> s_rotations s" and io: "write_ok io" "rename_ok io"
    and run: "Checkpoint now io fs s = (s', fs', ok)"
  shows "ok \<and> \<not> s_dirty s' \<and> fs' (s_path s) = Some (Infos (map marshal_raw (historyInfosLocked s'))) \<and>
    fs' (numbered (s_path s) 1) = fs (s_path s) \<and>
    (\<forall>j. 1 \<le> j \<and> j < s_rotations s \<longrightarrow> fs' (numbered (s_path s) (j + 1)) = fs (numbered (s_path s) j))"
proof -
  let ?p = "s_path s"
  have s': "s' = (pruneLocked (UnixMilli now) s)\<lparr>s_dirty := False\<rparr>" and ok: "ok"
    and fs': "fs' = (rotate ?p (s_rotations s) fs)(?p @ ''.tmp'' := None,
      ?p \<mapsto> Infos (map marshal_raw (historyInfosLocked (pruneLocked (UnixMilli now) s))))"
    using run path io by (auto simp: Checkpoint_def writeSnapshotFile_def Let_def)
  have num: "fs' (numbered ?p j) = rotate ?p (s_rotations s) fs (numbered ?p j)" if "0 \<le> j" for j
    using numbered_not_tmp [OF that] by (simp add: fs')
  have "fs' (numbered ?p (j + 1)) = fs (numbered ?p j)" if "1 \<le> j \<and> j < s_rotations s" for j
    using num [of "j + 1"] rotate_shift(3) [OF rot, of j ?p fs] that by simp
  then show ?thesis
    using num [of 1] rotate_shift(2) [OF rot, of ?p fs] ok by (simp add: s' fs' clean_frame)
qed

theorem Checkpoint_rotates_witness:
  "\<exists>s' fs'. Checkpoint 30 good_io [''w'' \<mapsto> Infos []] demo_store = (s', fs', True) \<and>
     fs' (numbered ''w'' 1) = Some (Infos []) \<and> \<not> s_dirty s'"
proof -
  obtain s' fs' ok where f: "Checkpoint 30 good_io [''w'' \<mapsto> Infos []] demo_store = (s', fs', ok)"
    using prod_cases3 by blast
  show ?thesis
    using Checkpoint_rotates [OF _ _ _ _ f] f by (simp add: demo_store_facts good_io_def DefaultRotations_def)
qed

text \<open>
  A checkpoint whose write fails has already moved the primary away and cleared the dirty flag,
  and does not set it again: the directory has no primary, and a later flush, told that the store
  is clean, writes nothing, although the records are still waiting for the disk.
\<close>

theorem Checkpoint_failure_is_not_retried:
  assumes "s_path s \<noteq> []" and "1 \<le> s_rotations s" and "\<not> write_ok io"
    and run: "Checkpoint now io fs s = (s', fs', ok)"
  shows "\<not> ok \<and> fs' (s_path s) = None \<and> fs' (numbered (s_path s) 1) = fs (s_path s) \<and>
    Flush now' io' fs' s' = (s', fs', True)"
proof -
  let ?p = "s_path s"
  have s': "s' = (pruneLocked (UnixMilli now) s)\<lparr>s_dirty := False\<rparr>" and ok: "\<not> ok"
    and fs': "fs' = (rotate ?p (s_rotations s) fs)(?p @ ''.tmp'' \<mapsto> Corrupt)"
    using run assms by (auto simp: Checkpoint_def writeSnapshotFile_def Let_def)
  have "fs' ?p = None" using rotate_shift(1) [OF assms(2), of ?p fs] by (simp add: fs')
  moreover have "fs' (numbered ?p 1) = fs ?p"
    using rotate_shift(2) [OF assms(2), of ?p fs] numbered_not_tmp [of 1 ?p] by (simp add: fs')
  ultimately show ?thesis using ok by (simp add: s' Flush_def)
qed

theorem Checkpoint_failure_is_not_retried_witness:
  "\<exists>s' fs'. Checkpoint 30 \<lparr>write_ok = False, rename_ok = True\<rparr> [''w'' \<mapsto> Infos []] demo_store = (s', fs', False) \<and>
     Flush 40 good_io fs' s' = (s', fs', True) \<and> fs' ''w'' = None"
proof -
  obtain s' fs' ok where f:
    "Checkpoint 30 \<lparr>write_ok = False, rename_ok = True\<rparr> [''w'' \<mapsto> Infos []] demo_store = (s', fs', ok)"
    using prod_cases3 by blast
  show ?thesis
    using Checkpoint_failure_is_not_retried [OF _ _ _ f, of 40 good_io] f
    by (simp add: demo_store_facts DefaultRotations_def)
qed

subsection \<open>Every life of a store\<close>

text \<open>
  The states a persistent store and its files go through, across restarts: events, flushes and
  checkpoints with any outcome of the system calls, files that are lost or damaged, and a crash
  followed by a start from what the files hold.
\<close>

inductive life :: "string \<Rightarrow> Store \<times> fs \<Rightarrow> bool" for path where
  life_first: "life path (WithPersistence path New, Map.empty)"
| life_restart: "life path (s, fs) \<Longrightarrow> life path (fst (Load now fs (WithPersistence path New)), fs)"
| life_event: "life path (s, fs) \<Longrightarrow> life path (exec s op, fs)"
| life_tick: "life path (s, fs) \<Longrightarrow> life path (run_tick w now io fs s)"
| life_lost: "life path (s, fs) \<Longrightarrow> life path (s, fs(f := None))"
| life_damaged: "life path (s, fs) \<Longrightarrow> life path (s, fs(f \<mapsto> Corrupt))"

definition historic :: "json \<Rightarrow> bool" where
  "historic j \<longleftrightarrow> (case ParseIncoming (Some j) of None \<Rightarrow> False | Some i \<Rightarrow> isTerminal (i_State i))"

definition file_ok :: "fcontent \<Rightarrow> bool" where
  "file_ok c = (case c of Corrupt \<Rightarrow> True
     | Infos js \<Rightarrow> int (length js) \<le> DefaultHistoryCap \<and> list_all historic js)"

definition disk_ok :: "fs \<Rightarrow> bool" where
  "disk_ok fs \<longleftrightarrow> (\<forall>f c. fs f = Some c \<longrightarrow> file_ok c)"

lemma disk_ok_update [simp]:
  "disk_ok fs \<Longrightarrow> disk_ok (fs(f := None))"
  "disk_ok fs \<Longrightarrow> file_ok c \<Longrightarrow> disk_ok (fs(f \<mapsto> c))"
  by (auto simp: disk_ok_def)

lemma file_ok_Corrupt [simp]: "file_ok Corrupt"
  by (simp add: file_ok_def)

lemma rename_disk_ok: "disk_ok fs \<Longrightarrow> disk_ok (rename_file a b fs)"
  by (auto simp: disk_ok_def rename_file_get split: if_splits)

lemma rotate_disk_ok:
  assumes "disk_ok fs"
  shows "disk_ok (rotate path keep fs)"
proof -
  have "disk_ok (foldl (\<lambda>f i. rename_file (numbered path i) (numbered path (i + 1)) f) g ns)"
    if "disk_ok g" for g ns
    using that by (induction ns arbitrary: g) (simp_all add: rename_disk_ok)
  then show ?thesis
    using assms by (simp add: rotate_def Let_def rename_disk_ok)
qed

lemma historyInfos_ok:
  assumes inv: "store_inv s" and cap: "int (length (terminals s)) \<le> DefaultHistoryCap"
  shows "file_ok (Infos (map marshal_raw (historyInfosLocked s)))"
proof -
  have "historic (marshal_raw (r_Info r))" if kr: "(k, r) \<in> set (history s)" for k r
  proof -
    have "info_ok k r" and "persistable r" using history_ok [OF inv] kr by auto
    then obtain i where i: "ParseIncoming (r_Info r) = Some i" "view_i False i = view_r r" "r_Terminal r"
      by (auto simp: info_ok_def persistable_def split: option.splits)
    then have "isTerminal (i_State i)" by (auto simp: view_i_def view_r_def)
    then show ?thesis
      using i(1) by (auto simp: historic_def marshal_raw_def ParseIncoming_def split: option.splits)
  qed
  then have "list_all historic (map (marshal_raw \<circ> r_Info \<circ> snd) (history s))"
    by (force simp: list_all_iff)
  moreover have "int (length (history s)) \<le> DefaultHistoryCap"
    using length_history [of s] cap by simp
  ultimately show ?thesis
    by (simp add: file_ok_def historyInfosLocked_history comp_assoc)
qed

lemma writeSnapshot_disk_ok:
  assumes "disk_ok fs" and "file_ok (Infos (map marshal_raw infos))"
  shows "disk_ok (fst (writeSnapshotFile io path infos fs))"
  using assms by (simp add: writeSnapshotFile_def Let_def)

definition life_inv :: "string \<Rightarrow> Store \<times> fs \<Rightarrow> bool" where
  "life_inv path c \<longleftrightarrow> store_inv (fst c) \<and> disk_ok (snd c) \<and>
     s_path (fst c) = path \<and> s_historyCap (fst c) = DefaultHistoryCap"

lemma load_info_inv: "store_inv s \<Longrightarrow> store_inv (load_info now s info)"
proof (cases "ParseIncoming info")
  case (Some i)
  assume inv: "store_inv s"
  have "info_ok (keyOf i) (recordFrom i now)"
    using Some ParseIncoming_SomeD(1) [OF Some]
    by (simp add: info_ok_def recordFrom_def view_i_def view_r_def)
  then have "store_inv (s\<lparr>s_records := mput (keyOf i) (recordFrom i now) (s_records s)\<rparr>)"
    using inv by (auto simp: store_inv_iff mget_mput)
  then show ?thesis using inv Some by (simp add: load_info_def Let_def)
qed (simp add: load_info_def)

lemma load_infos_inv: "store_inv s \<Longrightarrow> store_inv (foldl (load_info now) s infos)"
  by (induction infos arbitrary: s) (simp_all add: load_info_inv)

lemma Load_inv:
  assumes "disk_ok fs"
  shows "life_inv path (fst (Load now fs (WithPersistence path New)), fs)"
proof -
  let ?s0 = "WithPersistence path New"
  have s0: "store_inv ?s0" "s_path ?s0 = path" "s_historyCap ?s0 = DefaultHistoryCap"
    using New_inv by (simp_all add: WithPersistence_def store_inv_def)
  let ?s1 = "foldl (load_info now) ?s0 (fst (readWithFallback path (s_rotations ?s0) fs))"
  have "store_inv (pruneLocked (UnixMilli now) ?s1)"
    using s0(1) by (intro prune_inv load_infos_inv)
  then show ?thesis
    using assms s0
    by (auto simp: life_inv_def Load_def Let_def split_def clean_frame load_infos_frame pruneLocked_def)
qed

lemma run_tick_inv:
  assumes "life_inv path (s, fs)"
  shows "life_inv path (run_tick w now io fs s)"
proof (cases "path = []")
  case True
  then show ?thesis using assms by (cases w) (simp_all add: life_inv_def run_tick_def Flush_def Checkpoint_def)
next
  case False
  let ?s = "pruneLocked (UnixMilli now) s"
  have s: "store_inv s" "disk_ok fs" "s_path s = path" "s_historyCap s = DefaultHistoryCap"
    using assms by (simp_all add: life_inv_def)
  have p: "store_inv ?s" "s_path ?s = path" "s_historyCap ?s = DefaultHistoryCap"
    using s prune_inv by (simp_all add: pruneLocked_def)
  have "int (length (terminals ?s)) \<le> DefaultHistoryCap"
    using prune_terminals_cap [OF _ store_invD(1) [OF s(1)], of "UnixMilli now"] s(4) by (simp add: DefaultHistoryCap_def)
  then have infos: "file_ok (Infos (map marshal_raw (historyInfosLocked ?s)))"
    using p(1) by (intro historyInfos_ok)
  note w = writeSnapshot_disk_ok [OF s(2) infos, of io path]
    writeSnapshot_disk_ok [OF rotate_disk_ok [OF s(2)] infos, of io path path "s_rotations s"]
  have "life_inv path (fst (Flush now io fs s), fst (snd (Flush now io fs s)))"
    using False s p w(1) by (simp add: life_inv_def Flush_def Let_def split_def clean_frame)
  moreover have "life_inv path (fst (Checkpoint now io fs s), fst (snd (Checkpoint now io fs s)))"
    using False s p w(2) by (simp add: life_inv_def Checkpoint_def Let_def split_def clean_frame)
  ultimately show ?thesis
    by (cases w) (simp_all add: run_tick_def Let_def split_def)
qed

lemma exec_frame: "s_path (exec s op) = s_path s \<and> s_historyCap (exec s op) = s_historyCap s"
  by (rule exec_cases [of s op]) (simp_all add: applyLocked_def putLocked_def Remove_def Let_def split: option.splits)

lemma life_life_inv: "life path c \<Longrightarrow> life_inv path c"
proof (induction rule: life.induct)
  case life_first
  then show ?case
    using New_inv by (simp add: life_inv_def WithPersistence_def store_inv_def disk_ok_def)
next
  case (life_restart s fs now)
  then show ?case by (intro Load_inv) (simp add: life_inv_def)
next
  case (life_event s fs op)
  then show ?case using exec_frame [of s op] by (simp add: life_inv_def exec_inv)
next
  case (life_tick s fs w now io)
  then show ?case by (intro run_tick_inv)
qed (simp_all add: life_inv_def)

text \<open>
  C17. Across restarts, failed and interrupted writes, lost and damaged files: every record of the
  store stays the projection of its own workload object under its own key, and no file ever holds
  anything but terminal workloads, at most \<open>historyCap\<close> of them, so a running workload of an
  earlier session is never restored.
\<close>

theorem life_safe:
  assumes "life path (s, fs)"
  shows "store_inv s \<and> (\<forall>f js. fs f = Some (Infos js) \<longrightarrow> int (length js) \<le> 10000 \<and> list_all historic js)"
proof (intro conjI allI impI)
  have inv: "life_inv path (s, fs)" by (rule life_life_inv [OF assms])
  then show "store_inv s" by (simp add: life_inv_def)
  fix f js assume "fs f = Some (Infos js)"
  then have "file_ok (Infos js)" using inv by (simp add: life_inv_def disk_ok_def)
  then show "int (length js) \<le> 10000" "list_all historic js"
    by (simp_all add: file_ok_def DefaultHistoryCap_def)
qed

theorem life_safe_witness:
  "\<exists>fs js. life ''w'' (demo_store\<lparr>s_dirty := False\<rparr>, fs) \<and> fs ''w'' = Some (Infos js) \<and> list_all historic js"
proof -
  have start: "life ''w'' (exec (WithPersistence ''w'' New) (OpApply 20 (i_Info (demo ''completed'' ''b''))), Map.empty)"
    by (intro life.intros)
  have "life ''w'' (demo_store, Map.empty)"
    using start by (simp add: demo_parse demo_store_def)
  then have "life ''w'' (run_tick FlushTick 30 good_io Map.empty demo_store)"
    by (rule life_tick)
  then have l: "life ''w'' (demo_store\<lparr>s_dirty := False\<rparr>, Map.empty(''w.tmp'' := None,
       ''w'' \<mapsto> Infos (map marshal_raw (historyInfosLocked demo_store))))"
    by (simp add: run_tick_def Flush_ok demo_store_facts good_io_def UnixMilli_def demo_pruned)
  have "list_all historic (map marshal_raw (historyInfosLocked demo_store))"
    using life_safe [OF l] by simp
  then show ?thesis
    using l by (intro exI [of _ "Map.empty(''w.tmp'' := None,
       ''w'' \<mapsto> Infos (map marshal_raw (historyInfosLocked demo_store)))"] exI conjI) simp_all
qed

end
