(* ===== verification/BrokerWorkloads.thy ===== *)
theory BrokerWorkloads
  imports WorkloadStore JsonRpc
begin

section \<open>The broker's workload pipeline\<close>

text \<open>
  \<open>nvpair-ui-broker/broker.go\<close>, the part that owns the workload store: local-origin events from
  the proxies, peer-origin events from the workload manager, the node-loss and staleness sweeps,
  the replay to restarted children and the client's workload requests. The mutex that serialises
  apply, fan-out and notification makes each event one step. Notifications are recorded in the
  order they are written; a failed write is only logged by the code and has no further effect,
  except where a replay loop stops, which the model takes as an argument.
\<close>

datatype broker_out =
    NotifyClient string raw
  | NotifyScheduler string raw
  | ForwardToManager string raw

text \<open>\<open>b_scheduler\<close> and \<open>b_workloadMgr\<close> tell whether the child is supervised at the moment.\<close>

record Broker =
  b_nodeID :: string
  b_workloads :: Store
  b_workloadsSubscribed :: bool
  b_scheduler :: bool
  b_workloadMgr :: bool

subsection \<open>Applying an event\<close>

definition env_fields :: "raw field list" where
  "env_fields = [fld ''workloadInfo'' dec_raw id (\<lambda>v r. v)]"

definition rm_fields :: "(string \<times> string) field list" where
  "rm_fields =
     [fld ''workloadId'' dec_string fst (\<lambda>v r. (v, snd r)),
      fld ''originatedFrom'' dec_string snd (\<lambda>v r. (fst r, v))]"

definition noSightingGuard :: time where "noSightingGuard = zero_time"

definition applyWorkloadEvent ::
    "time \<Rightarrow> string \<Rightarrow> raw \<Rightarrow> bool \<Rightarrow> time \<Rightarrow> Store \<Rightarrow> Store \<times> bool" where
  "applyWorkloadEvent now method params inferred unchangedSince s =
     (if method = ''workloads:upsert'' then
        (case Unmarshal (dec_struct env_fields) None params of
           None \<Rightarrow> (s, False)
         | Some info \<Rightarrow>
             if info = None then (s, False)
             else
               (case ParseIncoming info of
                  None \<Rightarrow> (s, False)
                | Some i \<Rightarrow>
                    if inferred then
                      (if \<not> IsZero unchangedSince then ApplyInferredUnchangedSince now i unchangedSince s
                       else ApplyInferred now i s)
                    else Apply now i s))
      else if method = ''workloads:remove'' then
        (case Unmarshal (dec_struct rm_fields) ([], []) params of
           None \<Rightarrow> (s, False)
         | Some (wid, origin) \<Rightarrow> if wid = [] then (s, False) else (fst (Remove origin wid s), True))
      else (s, False))"

definition fanWorkloadToScheduler :: "string \<Rightarrow> raw \<Rightarrow> Broker \<Rightarrow> broker_out list" where
  "fanWorkloadToScheduler method params b = (if \<not> b_scheduler b then [] else [NotifyScheduler method params])"

definition emitWorkloadEventProvenance ::
    "time \<Rightarrow> string \<Rightarrow> raw \<Rightarrow> bool \<Rightarrow> time \<Rightarrow> Broker \<Rightarrow> Broker \<times> broker_out list" where
  "emitWorkloadEventProvenance now method params inferred unchangedSince b =
     (let (s', changed) = applyWorkloadEvent now method params inferred unchangedSince (b_workloads b);
          b' = b\<lparr>b_workloads := s'\<rparr>
      in if \<not> changed then (b', [])
         else (b', fanWorkloadToScheduler method params b @
                   (if \<not> b_workloadsSubscribed b then [] else [NotifyClient method params])))"

definition emitWorkloadEvent :: "time \<Rightarrow> string \<Rightarrow> raw \<Rightarrow> Broker \<Rightarrow> Broker \<times> broker_out list" where
  "emitWorkloadEvent now method params b = emitWorkloadEventProvenance now method params False noSightingGuard b"

definition emitWorkloadEventInferred :: "time \<Rightarrow> string \<Rightarrow> raw \<Rightarrow> Broker \<Rightarrow> Broker \<times> broker_out list" where
  "emitWorkloadEventInferred now method params b = emitWorkloadEventProvenance now method params True noSightingGuard b"

definition emitWorkloadEventStale :: "time \<Rightarrow> string \<Rightarrow> raw \<Rightarrow> time \<Rightarrow> Broker \<Rightarrow> Broker \<times> broker_out list" where
  "emitWorkloadEventStale now method params seenAt b = emitWorkloadEventProvenance now method params True seenAt b"

definition forwardWorkloadManagerNotification :: "time \<Rightarrow> string \<Rightarrow> raw \<Rightarrow> Broker \<Rightarrow> Broker \<times> broker_out list" where
  "forwardWorkloadManagerNotification now method params b =
     (if method = ''workloads:upsert'' \<or> method = ''workloads:remove'' then emitWorkloadEvent now method params b
      else (b, []))"

subsection \<open>Local-origin events\<close>

text \<open>Storing into a \<open>nil\<close> map panics.\<close>

definition setNodeIDIfEmpty ::
    "(string, json) gomap option \<Rightarrow> string \<Rightarrow> string \<Rightarrow> ((string, json) gomap \<times> bool) go" where
  "setNodeIDIfEmpty m key nodeID =
     (case m of
        None \<Rightarrow> Panics
      | Some m \<Rightarrow>
          (case mget m key of
             Some cur \<Rightarrow>
               (case dec_string cur [] of
                  Some s \<Rightarrow> if s \<noteq> [] then Returns (m, False) else Returns (mput key (JStr nodeID) m, True)
                | None \<Rightarrow> Returns (mput key (JStr nodeID) m, True))
           | None \<Rightarrow> Returns (mput key (JStr nodeID) m, True)))"

definition stampNodeID :: "raw \<Rightarrow> string \<Rightarrow> raw go" where
  "stampNodeID params nodeID =
     (case decode_rawmap params of
        None \<Rightarrow> Returns params
      | Some envelope \<Rightarrow>
          (case (case envelope of None \<Rightarrow> None | Some e \<Rightarrow> mget e ''workloadInfo'') of
             Some wiRaw \<Rightarrow>
               (case decode_rawmap (Some wiRaw) of
                  None \<Rightarrow> Returns params
                | Some wi \<Rightarrow>
                    (case setNodeIDIfEmpty wi ''originatedFrom'' nodeID of
                       Panics \<Rightarrow> Panics
                     | Returns (wi', modified) \<Rightarrow>
                         if \<not> modified then Returns params
                         else Returns (Some (MarshalMap (mput ''workloadInfo'' (MarshalMap wi')
                                (case envelope of None \<Rightarrow> [] | Some e \<Rightarrow> e))))))
           | None \<Rightarrow>
               (case setNodeIDIfEmpty envelope ''originatedFrom'' nodeID of
                  Panics \<Rightarrow> Panics
                | Returns (e', modified) \<Rightarrow> if \<not> modified then Returns params else Returns (Some (MarshalMap e')))))"

definition proxyWorkloadMethods :: "string list" where
  "proxyWorkloadMethods =
     [''workload:submitted'', ''workload:started'', ''workload:completed'', ''workload:errored'', ''workloads:remove'']"

definition routeProxyWorkload :: "time \<Rightarrow> string \<Rightarrow> raw \<Rightarrow> Broker \<Rightarrow> (Broker \<times> broker_out list) go" where
  "routeProxyWorkload now method params b =
     (case stampNodeID params (b_nodeID b) of
        Panics \<Rightarrow> Panics
      | Returns stamped \<Rightarrow>
          let (b', out) =
                (if method = ''workloads:remove'' then emitWorkloadEvent now ''workloads:remove'' stamped b
                 else emitWorkloadEvent now ''workloads:upsert'' stamped b)
          in Returns (b', out @ (if b_workloadMgr b' then [ForwardToManager method stamped] else [])))"

subsection \<open>Sweeps\<close>

definition markWorkloadFailed :: "raw \<Rightarrow> time \<Rightarrow> string \<Rightarrow> raw go" where
  "markWorkloadFailed info completedAt errMsg =
     (case decode_rawmap info of
        None \<Rightarrow> Returns None
      | Some None \<Rightarrow> Panics
      | Some (Some wi) \<Rightarrow>
          let wi = mput ''state'' (JStr ''failed'') wi;
              wi = mput ''completedAt'' (JInt (UnixMilli completedAt)) wi;
              wi = mput ''error'' (JStr errMsg) wi
          in Returns (Some (MarshalMap [(''workloadInfo'', MarshalMap wi)])))"

fun mark_all :: "time \<Rightarrow> string \<Rightarrow> Record list \<Rightarrow> json list go" where
  "mark_all now errMsg [] = Returns []"
| "mark_all now errMsg (r # rs) =
     (case markWorkloadFailed (r_Info r) now errMsg of
        Panics \<Rightarrow> Panics
      | Returns p \<Rightarrow>
          (case mark_all now errMsg rs of
             Panics \<Rightarrow> Panics
           | Returns ps \<Rightarrow> Returns (case p of None \<Rightarrow> ps | Some j \<Rightarrow> j # ps)))"

fun emit_inferred :: "time \<Rightarrow> json list \<Rightarrow> Broker \<Rightarrow> Broker \<times> broker_out list" where
  "emit_inferred now [] b = (b, [])"
| "emit_inferred now (p # ps) b =
     (let (b', out) = emitWorkloadEventInferred now ''workloads:upsert'' (Some p) b;
          (b'', out') = emit_inferred now ps b'
      in (b'', out @ out'))"

definition failWorkloadsForNode :: "time \<Rightarrow> string \<Rightarrow> string \<Rightarrow> Broker \<Rightarrow> (Broker \<times> broker_out list) go" where
  "failWorkloadsForNode now nodeUUID nodeName b =
     (if nodeUUID = [] then Returns (b, [])
      else
        let display = (if nodeName = [] then nodeUUID else nodeName);
            errMsg = ''node '' @ display @ '' went offline''
        in (case mark_all now errMsg (ActiveForNode nodeUUID (b_workloads b)) of
              Panics \<Rightarrow> Panics
            | Returns failed \<Rightarrow> Returns (emit_inferred now failed b)))"

definition workloadOriginSilenceTimeout :: duration where "workloadOriginSilenceTimeout = 5 * 60 * Second"

text \<open>The directory snapshot as pairs of host UUID and name; \<open>None\<close> while there is no directory.\<close>

definition nodeDisplayNames :: "(string \<times> string) list option \<Rightarrow> (string, string) gomap" where
  "nodeDisplayNames store =
     (case store of
        None \<Rightarrow> []
      | Some nodes \<Rightarrow> foldl (\<lambda>names (uuid, name). if uuid \<noteq> [] \<and> name \<noteq> [] then mput uuid name names else names) [] nodes)"

fun fail_stale :: "time \<Rightarrow> (string, string) gomap \<Rightarrow> Record list \<Rightarrow> Broker \<Rightarrow> (Broker \<times> broker_out list) go" where
  "fail_stale now names [] b = Returns (b, [])"
| "fail_stale now names (wl # rest) b =
     (let display = (case mget names (r_Origin wl) of Some n \<Rightarrow> if n \<noteq> [] then n else r_Origin wl | None \<Rightarrow> r_Origin wl) in
      case markWorkloadFailed (r_Info wl) now (''node '' @ display @ '' stopped reporting this workload'') of
        Panics \<Rightarrow> Panics
      | Returns None \<Rightarrow> fail_stale now names rest b
      | Returns (Some p) \<Rightarrow>
          let (b', out) = emitWorkloadEventStale now ''workloads:upsert'' (Some p) (r_LastSeen wl) b in
          (case fail_stale now names rest b' of
             Panics \<Rightarrow> Panics
           | Returns (b'', out') \<Rightarrow> Returns (b'', out @ out')))"

definition failStaleForeignWorkloads ::
    "time \<Rightarrow> (string \<times> string) list option \<Rightarrow> duration \<Rightarrow> Broker \<Rightarrow> (Broker \<times> broker_out list) go" where
  "failStaleForeignWorkloads now store staleAfter b =
     (let stale = StaleForeign now (b_nodeID b) staleAfter (b_workloads b) in
      if stale = [] then Returns (b, []) else fail_stale now (nodeDisplayNames store) stale b)"

subsection \<open>Replay to restarted children\<close>

definition workloadTerminalReplayWindowMs :: int where "workloadTerminalReplayWindowMs = 60000"

definition stateReplayMethod :: "string \<Rightarrow> string" where
  "stateReplayMethod state =
     (if state = ''queued'' then ''workload:submitted''
      else if state = ''running'' then ''workload:started''
      else if state = ''completed'' then ''workload:completed''
      else if state = ''failed'' then ''workload:errored''
      else [])"

text \<open>A raw message held as nothing at all is written as \<open>null\<close>.\<close>

definition raw_json :: "raw \<Rightarrow> json" where
  "raw_json r = (case r of None \<Rightarrow> JNull | Some j \<Rightarrow> j)"

definition activeLocalReplayFrames :: "time \<Rightarrow> Broker \<Rightarrow> (string \<times> json) list" where
  "activeLocalReplayFrames now b =
     map (\<lambda>r. (stateReplayMethod (r_State r), MarshalMap [(''workloadInfo'', raw_json (r_Info r))]))
       (filter (\<lambda>r. stateReplayMethod (r_State r) \<noteq> [])
          (ReplayForNode now (b_nodeID b) workloadTerminalReplayWindowMs (b_workloads b)))"

text \<open>Both replay loops stop at the first write that fails; \<open>ok\<close> tells which writes succeed.\<close>

fun send_while :: "bool list \<Rightarrow> 'a list \<Rightarrow> 'a list" where
  "send_while (True # ok) (x # xs) = x # send_while ok xs"
| "send_while _ _ = []"

definition rehydrateWorkloadManager :: "time \<Rightarrow> bool list \<Rightarrow> Broker \<Rightarrow> broker_out list" where
  "rehydrateWorkloadManager now ok b =
     map (\<lambda>(m, p). ForwardToManager m (Some p)) (send_while ok (activeLocalReplayFrames now b))"

definition replayActiveWorkloadsToScheduler :: "bool list \<Rightarrow> Broker \<Rightarrow> broker_out list" where
  "replayActiveWorkloadsToScheduler ok b =
     map (\<lambda>info. NotifyScheduler ''workloads:upsert'' (Some (MarshalMap [(''workloadInfo'', raw_json info)])))
       (send_while ok (ActiveSnapshot (b_workloads b)))"

subsection \<open>Client requests\<close>

definition handle_workloads_request :: "Message \<Rightarrow> Broker \<Rightarrow> Broker \<times> answer list" where
  "handle_workloads_request msg b =
     (if msg_Method msg = ''workloads:subscribe''
      then (b\<lparr>b_workloadsSubscribed := True\<rparr>, [Respond (msg_ID msg) (JObj [(''subscribed'', JBool True)])])
      else if msg_Method msg = ''workloads:unsubscribe''
      then (b\<lparr>b_workloadsSubscribed := False\<rparr>, [Respond (msg_ID msg) (JObj [(''subscribed'', JBool False)])])
      else if msg_Method msg = ''workloads:get-initial''
      then (b, [Respond (msg_ID msg) (JObj [(''workloads'', JArr (map raw_json (Snapshot (b_workloads b))))])])
      else (b, []))"

subsection \<open>Rewriting a workload object\<close>

text \<open>The fields of the store's header are independent, so member order does not matter to it.\<close>

interpretation header_struct: struct_fields header_fields
proof (unfold_locales, goal_cases)
  case (1 m u n v i r j)
  show ?case using 1
    by (simp add: header_fields_def fld_def split: if_splits)
      (auto split: Option.bind_splits)
qed

lemma header_find [simp]:
  "find_field header_fields ''state'' = Some (\<lambda>j r. map_option (\<lambda>v. r\<lparr>h_State := v\<rparr>) (dec_string j (h_State r)))"
  "find_field header_fields ''completedAt'' =
     Some (\<lambda>j r. map_option (\<lambda>v. r\<lparr>h_CompletedAt := v\<rparr>) (dec_ptr dec_int64 0 j (h_CompletedAt r)))"
  "find_field header_fields ''error'' = None"
  by (simp add: header_fields_def json_simps, simp add: header_fields_def json_simps, code_simp)

lemma header_names: "''state'' \<in> set (map fst header_fields)" "''completedAt'' \<in> set (map fst header_fields)"
  by (simp_all add: header_fields_def fld_def)

text \<open>Members that only touch state and completion time.\<close>

lemma dec_terminal_members:
  assumes "list_all (\<lambda>(k, j). k \<in> {''state'', ''completedAt'', ''error''}) kvs"
    and "dec_members header_fields kvs h = Some h'"
  shows "h'\<lparr>h_State := a, h_CompletedAt := c\<rparr> = h\<lparr>h_State := a, h_CompletedAt := c\<rparr>"
  using assms
proof (induction kvs arbitrary: h)
  case (Cons kv kvs)
  obtain k j where kv: "kv = (k, j)" by (cases kv)
  consider "k = ''state''" | "k = ''completedAt''" | "k = ''error''" using Cons.prems(1) kv by auto
  then show ?case
  proof cases
    case 1
    then obtain v where "dec_members header_fields kvs (h\<lparr>h_State := v\<rparr>) = Some h'"
      using Cons.prems(2) kv by (auto split: option.splits)
    then show ?thesis using Cons.IH [of "h\<lparr>h_State := v\<rparr>"] Cons.prems(1) by simp
  next
    case 2
    then obtain v where "dec_members header_fields kvs (h\<lparr>h_CompletedAt := v\<rparr>) = Some h'"
      using Cons.prems(2) kv by (auto split: option.splits)
    then show ?thesis using Cons.IH [of "h\<lparr>h_CompletedAt := v\<rparr>"] Cons.prems(1) by simp
  next
    case 3
    then show ?thesis using Cons.IH [of h] Cons.prems kv by simp
  qed
qed simp

definition failed_members :: "time \<Rightarrow> string \<Rightarrow> (string \<times> json) list" where
  "failed_members now errMsg =
     [(''state'', JStr ''failed''), (''completedAt'', JInt (UnixMilli now)), (''error'', JStr errMsg)]"

definition set_failed :: "time \<Rightarrow> string \<Rightarrow> (string, json) gomap \<Rightarrow> (string, json) gomap" where
  "set_failed now errMsg wi =
     mput ''error'' (JStr errMsg) (mput ''completedAt'' (JInt (UnixMilli now)) (mput ''state'' (JStr ''failed'') wi))"

lemma markWorkloadFailed_obj:
  "markWorkloadFailed (Some (JObj kvs)) now errMsg =
     Returns (Some (JObj [(''workloadInfo'', MarshalMap (set_failed now errMsg (mputs kvs [])))]))"
  by (simp add: markWorkloadFailed_def set_failed_def Let_def MarshalMap_def sort_by_def)

text \<open>The rewritten members, up to order: all untouched ones, then the three that are set.\<close>

lemma set_failed_mset:
  assumes "wf_map kvs"
  shows "mset (set_failed now errMsg (mputs kvs [])) =
    mset (filter (\<lambda>(k, j). k \<notin> {''state'', ''completedAt'', ''error''}) kvs @ failed_members now errMsg)"
    (is "mset ?m = mset (?rest @ _)")
proof (rule same_map_mset)
  have rest: "wf_map ?rest" using assms by (rule wf_filter)
  have "wf_map ?m" by (simp add: set_failed_def wf_mputs)
  moreover have "wf_map (?rest @ failed_members now errMsg)"
    using rest by (auto simp: wf_map_def failed_members_def)
  moreover have "mget ?rest k = (if k \<in> {''state'', ''completedAt'', ''error''} then None else mget kvs k)" for k
    using mget_mkeep [OF assms, of "\<lambda>k _. k \<notin> {''state'', ''completedAt'', ''error''}" k]
    by (simp add: mkeep_def split: option.splits)
  then have "mget (?rest @ failed_members now errMsg) k = mget ?m k" for k
    using mget_mputs [OF assms, of "[]" k]
    by (auto simp: mget_def failed_members_def set_failed_def map_add_def update_conv' mput_def split: option.splits)
  ultimately show "same_map ?m (?rest @ failed_members now errMsg)"
    by (simp add: same_map_def fun_eq_iff)
qed

lemma dec_set_failed:
  assumes clean: "clean_for header_fields kvs" and dec: "dec_members header_fields kvs header0 = Some h"
    and t: "in_int64 (UnixMilli now)"
  shows "dec_struct header_fields (MarshalMap (set_failed now errMsg (mputs kvs []))) header0 =
    Some (h\<lparr>h_State := ''failed'', h_CompletedAt := Some (UnixMilli now)\<rparr>)"
proof -
  let ?special = "\<lambda>(k, j). k \<in> {''state'', ''completedAt'', ''error''}"
  let ?rest = "filter (\<lambda>(k, j). k \<notin> {''state'', ''completedAt'', ''error''}) kvs" and ?tail = "filter ?special kvs"
  let ?fm = "failed_members now errMsg" and ?m = "set_failed now errMsg (mputs kvs [])"
  have wf: "wf_map kvs" using clean by (simp add: clean_for_def)
  have "mset kvs = mset (?rest @ ?tail)"
    using multiset_partition [of "mset kvs" ?special] by (simp add: split_def ac_simps)
  then have "dec_members header_fields (?rest @ ?tail) header0 = Some h"
    using header_struct.dec_members_perm [OF clean] dec by metis
  then obtain h0 where h0: "dec_members header_fields ?rest header0 = Some h0"
    and tail: "dec_members header_fields ?tail h0 = Some h"
    by (auto simp: dec_members_append split: option.splits)
  have "wf_map (?rest @ ?fm)"
    using wf_filter [OF wf] by (auto simp: wf_map_def failed_members_def)
  moreover have "list_all (\<lambda>k. k \<in> set (map fst header_fields) \<or> find_field header_fields k = None) (mkeys (?rest @ ?fm))"
    using clean header_names by (auto simp: clean_for_def failed_members_def mkeys_def list_all_iff)
  ultimately have clean': "clean_for header_fields (?rest @ ?fm)" by (simp add: clean_for_def)
  have "dec_struct header_fields (MarshalMap ?m) header0 =
      dec_members header_fields (sort_by (\<lambda>a b. fst a < fst b) ?m) header0"
    by (simp add: MarshalMap_def)
  also have "\<dots> = dec_members header_fields (?rest @ ?fm) header0"
    by (rule header_struct.dec_members_perm [OF clean', symmetric]) (simp only: mset_sort_by set_failed_mset [OF wf])
  also have "\<dots> = dec_members header_fields ?fm h0" unfolding dec_members_append h0 by simp
  also have "\<dots> = Some (h0\<lparr>h_State := ''failed'', h_CompletedAt := Some (UnixMilli now)\<rparr>)"
    using t by (simp add: failed_members_def)
  also have "h0\<lparr>h_State := ''failed'', h_CompletedAt := Some (UnixMilli now)\<rparr> =
      h\<lparr>h_State := ''failed'', h_CompletedAt := Some (UnixMilli now)\<rparr>"
    using dec_terminal_members [OF _ tail] by (simp add: list_all_iff split_def)
  finally show ?thesis .
qed

text \<open>What a sweep writes about a workload: the same workload, failed at a time.\<close>

definition failed_info :: "time \<Rightarrow> string \<Rightarrow> raw \<Rightarrow> json" where
  "failed_info now errMsg info =
     (case info of Some (JObj kvs) \<Rightarrow> MarshalMap (set_failed now errMsg (mputs kvs [])) | _ \<Rightarrow> JNull)"

definition failed_incoming :: "time \<Rightarrow> string \<Rightarrow> Incoming \<Rightarrow> Incoming" where
  "failed_incoming now errMsg i =
     i\<lparr>i_State := ''failed'', i_CompletedAt := UnixMilli now, i_Info := Some (failed_info now errMsg (i_Info i))\<rparr>"

definition clean_info :: "raw \<Rightarrow> bool" where
  "clean_info info \<longleftrightarrow> (case info of Some (JObj kvs) \<Rightarrow> clean_for header_fields kvs | _ \<Rightarrow> False)"

lemma ParseIncoming_obj:
  assumes "ParseIncoming info = Some i"
  obtains kvs where "info = Some (JObj kvs)"
proof (cases info)
  case None
  then show ?thesis using assms by (simp add: ParseIncoming_def)
next
  case (Some j)
  then show ?thesis using assms that by (cases j) (auto simp: ParseIncoming_def header0_def)
qed

lemma markWorkloadFailed_total:
  assumes "ParseIncoming info = Some i"
  shows "markWorkloadFailed info now errMsg = Returns (Some (JObj [(''workloadInfo'', failed_info now errMsg info)]))"
proof -
  obtain kvs where "info = Some (JObj kvs)" by (rule ParseIncoming_obj [OF assms])
  then show ?thesis by (simp add: markWorkloadFailed_obj failed_info_def)
qed

lemma failed_info_parse:
  assumes "ParseIncoming info = Some i" and "clean_info info" and "in_int64 (UnixMilli now)"
  shows "ParseIncoming (Some (failed_info now errMsg info)) = Some (failed_incoming now errMsg i)"
proof -
  obtain kvs where kvs: "info = Some (JObj kvs)" by (rule ParseIncoming_obj [OF assms(1)])
  obtain h where h: "dec_members header_fields kvs header0 = Some h"
    using assms(1) by (auto simp: ParseIncoming_def kvs split: option.splits)
  have "clean_for header_fields kvs" using assms(2) by (simp add: clean_info_def kvs)
  note dec_set_failed [OF this h assms(3)]
  then show ?thesis
    using assms(1) h by (auto simp: ParseIncoming_def failed_info_def failed_incoming_def kvs split: if_splits)
qed

lemma env_find [simp]: "find_field env_fields ''workloadInfo'' = Some (\<lambda>j r. Some (Some j))"
  by (simp add: env_fields_def json_simps dec_raw_def)

lemma keyOf_failed [simp]: "keyOf (failed_incoming now errMsg i) = keyOf i"
  by (simp add: failed_incoming_def keyOf_def)

subsection \<open>What a sweep does to the store and its readers\<close>

definition failed_record :: "time \<Rightarrow> string \<Rightarrow> Record \<Rightarrow> Record" where
  "failed_record now errMsg r =
     r\<lparr>r_State := ''failed'', r_CompletedAt := UnixMilli now, r_Terminal := True, r_Inferred := True,
       r_Info := Some (failed_info now errMsg (r_Info r)), r_LastUpdated := UnixMilli now,
       r_LastSeen := (if IsZero (r_LastSeen r) then now else r_LastSeen r)\<rparr>"

definition failed_params :: "time \<Rightarrow> string \<Rightarrow> Record \<Rightarrow> json" where
  "failed_params now errMsg r = JObj [(''workloadInfo'', failed_info now errMsg (r_Info r))]"

text \<open>The readers of an accepted event, in the order they are told.\<close>

definition tells :: "Broker \<Rightarrow> string \<Rightarrow> raw \<Rightarrow> broker_out list" where
  "tells b method params =
     (if b_scheduler b then [NotifyScheduler method params] else []) @
     (if b_workloadsSubscribed b then [NotifyClient method params] else [])"

definition store_clean :: "Store \<Rightarrow> bool" where
  "store_clean s \<longleftrightarrow> list_all (\<lambda>(k, r). clean_info (r_Info r)) (s_records s)"

lemma emit_outcome:
  "emitWorkloadEventProvenance now method params inferred guard b =
     (let (s', changed) = applyWorkloadEvent now method params inferred guard (b_workloads b)
      in (b\<lparr>b_workloads := s'\<rparr>, if changed then tells b method params else []))"
  by (simp add: emitWorkloadEventProvenance_def fanWorkloadToScheduler_def tells_def Let_def split_beta)

lemma live_rank: "info_ok k r \<Longrightarrow> \<not> r_Terminal r \<Longrightarrow> rank (r_State r) < rank ''failed''"
  using info_okD(5) [of k r] by (auto simp: rank_def isTerminal_def split: if_splits)

lemma failed_merge:
  assumes "info_ok k r" and "\<not> r_Terminal r" and "ParseIncoming (r_Info r) = Some i"
  shows "accepts (failed_incoming now errMsg i) True r"
    and "merge_cell now (failed_incoming now errMsg i) True (Some r) = failed_record now errMsg r"
proof -
  have v: "view_i (r_Inferred r) i = view_r r" and info: "i_Info i = r_Info r"
    using assms(1,3) ParseIncoming_SomeD(1) [OF assms(3)] by (simp_all add: info_ok_def)
  show acc: "accepts (failed_incoming now errMsg i) True r"
    using v live_rank [OF assms(1,2)] assms(2) by (auto simp: accepts_def failed_incoming_def view_i_def view_r_def)
  show "merge_cell now (failed_incoming now errMsg i) True (Some r) = failed_record now errMsg r"
    using v acc by (intro Record.equality)
      (auto simp: merge_cell_def written_def recordFrom_def failed_record_def failed_incoming_def info
        view_i_def view_r_def isTerminal_def)
qed

lemma emit_failed:
  assumes "info_ok k r" and "\<not> r_Terminal r" and "clean_info (r_Info r)" and "in_int64 (UnixMilli now)"
    and "mget (s_records (b_workloads b)) k = Some r" and "guard = noSightingGuard \<or> guard = r_LastSeen r"
  shows "\<exists>s'. emitWorkloadEventProvenance now ''workloads:upsert'' (Some (failed_params now errMsg r)) True guard b =
      (b\<lparr>b_workloads := s'\<rparr>, tells b ''workloads:upsert'' (Some (failed_params now errMsg r))) \<and>
    mget (s_records s') = (mget (s_records (b_workloads b)))(k \<mapsto> failed_record now errMsg r)"
proof -
  obtain i where i: "ParseIncoming (r_Info r) = Some i" "keyOf i = k"
    using assms(1) by (auto simp: info_ok_def split: option.splits)
  let ?i = "failed_incoming now errMsg i" and ?s = "b_workloads b"
  have p: "ParseIncoming (Some (failed_info now errMsg (r_Info r))) = Some ?i"
    by (rule failed_info_parse [OF i(1) assms(3,4)])
  have valid: "valid_incoming ?i" by (rule ParseIncoming_SomeD(2) [OF p])
  have "applyWorkloadEvent now ''workloads:upsert'' (Some (failed_params now errMsg r)) True guard ?s = applyLocked now ?i True ?s"
    using assms(5,6) i(2)
    by (auto simp: applyWorkloadEvent_def failed_params_def p ApplyInferred_def apply_event_def
        ApplyInferredUnchangedSince_def noSightingGuard_def)
  moreover have "snd (applyLocked now ?i True ?s)"
    using failed_merge(1) [OF assms(1,2) i(1)] valid i(2) assms(5) by (simp add: applyLocked_result)
  moreover have "mget (s_records (fst (applyLocked now ?i True ?s))) = (mget (s_records ?s))(k \<mapsto> failed_record now errMsg r)"
    using failed_merge(2) [OF assms(1,2) i(1)] valid i(2) assms(5) by (simp add: applyLocked_get fun_eq_iff)
  ultimately show ?thesis by (auto simp: emit_outcome Let_def split_beta)
qed

text \<open>The records of a store that a sweep selected, with their keys, and the store afterwards.\<close>

definition sweepable :: "time \<Rightarrow> Store \<Rightarrow> (Key \<times> Record) list \<Rightarrow> bool" where
  "sweepable now s L \<longleftrightarrow> in_int64 (UnixMilli now) \<and> distinct (map fst L) \<and>
     (\<forall>(k, r) \<in> set L. mget (s_records s) k = Some r \<and> info_ok k r \<and> \<not> r_Terminal r \<and> clean_info (r_Info r))"

lemma sweepable_tail:
  assumes "sweepable now s ((k, r) # L)" and "mget (s_records s') = (mget (s_records s))(k \<mapsto> x)"
  shows "sweepable now s' L"
proof -
  have "k' \<noteq> k" if "(k', r') \<in> set L" for k' r' using that assms(1) by (force simp: sweepable_def)
  then show ?thesis using assms by (fastforce simp: sweepable_def)
qed

lemma emit_inferred_failed:
  assumes "sweepable now (b_workloads b) L"
  shows "\<exists>s'. emit_inferred now (map (\<lambda>(k, r). failed_params now errMsg r) L) b =
      (b\<lparr>b_workloads := s'\<rparr>, concat (map (\<lambda>(k, r). tells b ''workloads:upsert'' (Some (failed_params now errMsg r))) L)) \<and>
    mget (s_records s') = (\<lambda>k. case map_of L k of None \<Rightarrow> mget (s_records (b_workloads b)) k
                              | Some r \<Rightarrow> Some (failed_record now errMsg r))"
  using assms
proof (induction L arbitrary: b)
  case Nil
  show ?case by (intro exI [of _ "b_workloads b"]) simp
next
  case (Cons kr L)
  obtain k r where kr: "kr = (k, r)" by (cases kr)
  then have r: "mget (s_records (b_workloads b)) k = Some r" "info_ok k r" "\<not> r_Terminal r" "clean_info (r_Info r)"
    "in_int64 (UnixMilli now)" and fresh: "map_of L k = None"
    using Cons.prems by (auto simp: sweepable_def map_of_eq_None_iff)
  obtain s1 where s1: "emitWorkloadEventInferred now ''workloads:upsert'' (Some (failed_params now errMsg r)) b =
        (b\<lparr>b_workloads := s1\<rparr>, tells b ''workloads:upsert'' (Some (failed_params now errMsg r)))"
    "mget (s_records s1) = (mget (s_records (b_workloads b)))(k \<mapsto> failed_record now errMsg r)"
    using emit_failed [OF r(2,3,4,5,1), of noSightingGuard errMsg] by (auto simp: emitWorkloadEventInferred_def)
  have "sweepable now (b_workloads (b\<lparr>b_workloads := s1\<rparr>)) L"
    using sweepable_tail [OF Cons.prems [unfolded kr] s1(2)] by simp
  from Cons.IH [OF this] obtain s2 where s2:
    "emit_inferred now (map (\<lambda>(k, r). failed_params now errMsg r) L) (b\<lparr>b_workloads := s1\<rparr>) =
      (b\<lparr>b_workloads := s1\<rparr>\<lparr>b_workloads := s2\<rparr>, concat (map (\<lambda>(k, r). tells (b\<lparr>b_workloads := s1\<rparr>) ''workloads:upsert''
          (Some (failed_params now errMsg r))) L))"
    "mget (s_records s2) = (\<lambda>k. case map_of L k of None \<Rightarrow> mget (s_records (b_workloads (b\<lparr>b_workloads := s1\<rparr>))) k
                              | Some r \<Rightarrow> Some (failed_record now errMsg r))"
    by blast
  have same: "tells (b\<lparr>b_workloads := s1\<rparr>) = tells b" by (simp add: tells_def fun_eq_iff)
  show ?case
    using s2 fresh by (intro exI [of _ s2]) (auto simp: kr s1 same Let_def fun_eq_iff split: option.split)
qed

lemma mark_all_total:
  assumes "\<And>r. r \<in> set rs \<Longrightarrow> ParseIncoming (r_Info r) \<noteq> None"
  shows "mark_all now errMsg rs = Returns (map (failed_params now errMsg) rs)"
  using assms
proof (induction rs)
  case (Cons r rs)
  then obtain i where "ParseIncoming (r_Info r) = Some i" by fastforce
  then show ?case using Cons by (simp add: markWorkloadFailed_total failed_params_def)
qed simp

lemma info_ok_parses: "info_ok k r \<Longrightarrow> ParseIncoming (r_Info r) \<noteq> None"
  by (auto simp: info_ok_def split: option.splits)

lemma selected_sweepable:
  assumes "store_inv s" and "store_clean s" and "in_int64 (UnixMilli now)"
    and "\<And>r. p r \<Longrightarrow> \<not> r_Terminal r"
  shows "sweepable now s (filter (\<lambda>(k, r). p r) (s_records s))"
proof -
  have wf: "wf_map (s_records s)" by (rule store_invD(1) [OF assms(1)])
  then have "wf_map (filter (\<lambda>(k, r). p r) (s_records s))" by (rule wf_filter)
  then show ?thesis
    using assms store_invD(2) [OF assms(1)] mget_in_set [OF wf]
    by (auto simp: sweepable_def store_clean_def list_all_iff wf_map_def)
qed

lemma mvals_filter: "filter p (mvals m) = map snd (filter (\<lambda>(k, v). p v) m)"
  by (induction m) (auto simp: mvals_def)

lemma map_of_selected:
  assumes "wf_map m"
  shows "map_of (filter (\<lambda>(k, v). p v) m) k = (case mget m k of None \<Rightarrow> None | Some v \<Rightarrow> if p v then Some v else None)"
  using mget_mkeep [OF assms, of "\<lambda>k v. p v" k] by (simp add: mget_def mkeep_def)

definition pinned :: "string \<Rightarrow> Record \<Rightarrow> bool" where
  "pinned node r \<longleftrightarrow> \<not> r_Terminal r \<and> (r_Origin r = node \<or> r_ScheduledOn r = node)"

definition offline_msg :: "string \<Rightarrow> string \<Rightarrow> string" where
  "offline_msg node name = ''node '' @ (if name = [] then node else name) @ '' went offline''"


text \<open>
  The origin stamp. Params that are an object, with an object or nothing under
  \<open>workloadInfo\<close>, never make the broker panic; JSON \<open>null\<close> in either place does, because the
  code then stores into a nil map. An origin the producer set is forwarded unchanged.
\<close>

theorem stampNodeID_panics_iff:
  "(stampNodeID params nodeID = Panics \<longleftrightarrow>
     params = Some JNull \<or> (\<exists>kvs. params = Some (JObj kvs) \<and> mget (mputs kvs []) ''workloadInfo'' = Some JNull)) \<and>
   (\<forall>kvs wi s. params = Some (JObj kvs) \<and> mget (mputs kvs []) ''workloadInfo'' = Some (JObj wi) \<and>
      mget (mputs wi []) ''originatedFrom'' = Some (JStr s) \<and> s \<noteq> [] \<longrightarrow> stampNodeID params nodeID = Returns params)"
proof -
  have nil: "setNodeIDIfEmpty None k n = Panics" for k n by (simp add: setNodeIDIfEmpty_def)
  have ok: "\<exists>m' c. setNodeIDIfEmpty (Some m) k n = Returns (m', c)" for m k n
    by (auto simp: setNodeIDIfEmpty_def split: option.split)
  have "stampNodeID params nodeID = Panics \<longleftrightarrow>
      params = Some JNull \<or> (\<exists>kvs. params = Some (JObj kvs) \<and> mget (mputs kvs []) ''workloadInfo'' = Some JNull)"
  proof (cases params rule: decode_rawmap.cases)
    case (1 kvs)
    show ?thesis
    proof (cases "mget (mputs kvs []) ''workloadInfo''")
      case None
      then show ?thesis using ok [of "mputs kvs []" "''originatedFrom''" nodeID] 1 by (auto simp: stampNodeID_def split: if_splits)
    next
      case (Some wi)
      show ?thesis
      proof (cases wi)
        case (JObj kvs')
        obtain m' c where "setNodeIDIfEmpty (Some (mputs kvs' [])) ''originatedFrom'' nodeID = Returns (m', c)"
          using ok by blast
        then show ?thesis using 1 Some JObj by (simp add: stampNodeID_def)
      qed (use 1 Some in \<open>simp_all add: stampNodeID_def nil\<close>)
    qed
  qed (auto simp: stampNodeID_def setNodeIDIfEmpty_def)
  then show ?thesis by (auto simp: stampNodeID_def setNodeIDIfEmpty_def)
qed

theorem stampNodeID_panics_iff_witness:
  "stampNodeID (Some (JObj [(''workloadInfo'', JObj [(''originatedFrom'', JStr ''a'')])])) ''b'' =
     Returns (Some (JObj [(''workloadInfo'', JObj [(''originatedFrom'', JStr ''a'')])])) \<and>
   stampNodeID (Some (JObj [(''workloadInfo'', JNull)])) ''b'' = Panics"
proof -
  have "mget (mputs [(''workloadInfo'', JObj [(''originatedFrom'', JStr ''a'')])] []) ''workloadInfo'' =
      Some (JObj [(''originatedFrom'', JStr ''a'')])"
    "mget (mputs [(''originatedFrom'', JStr ''a'')] []) ''originatedFrom'' = Some (JStr ''a'')"
    "mget (mputs [(''workloadInfo'', JNull)] []) ''workloadInfo'' = Some JNull"
    by (simp_all add: mget_mput)
  then show ?thesis
    using stampNodeID_panics_iff [of "Some (JObj [(''workloadInfo'', JObj [(''originatedFrom'', JStr ''a'')])])" "''b''"]
      stampNodeID_panics_iff [of "Some (JObj [(''workloadInfo'', JNull)])" "''b''"]
    by auto
qed

text \<open>A broker that believes workload 1 of node a is running on node x.\<close>

definition demo_broker :: Broker where
  "demo_broker = \<lparr>b_nodeID = ''me'', b_workloads = fst (Apply 0 (demo ''running'' ''x'') New),
     b_workloadsSubscribed = True, b_scheduler = True, b_workloadMgr = True\<rparr>"

lemma demo_clean: "clean_info (i_Info (demo st target))"
proof -
  have "clean_for header_fields [(''id'', JStr ''1''), (''originatedFrom'', JStr ''a''), (''engine'', JStr ''ollama''),
       (''runId'', JStr ''r1''), (''state'', JStr st), (''scheduledOn'', JStr target), (''createdAt'', JInt 100)]"
    by (simp add: clean_for_def wf_map_def mkeys_def header_fields_def fld_def)
  then show ?thesis by (simp add: demo_def clean_info_def)
qed

lemma demo_broker_store:
  "store_inv (b_workloads demo_broker)" "store_clean (b_workloads demo_broker)"
  "s_records (b_workloads demo_broker) = [(keyOf (demo ''running'' ''x''), written 0 (demo ''running'' ''x'') False None)]"
proof -
  show records: "s_records (b_workloads demo_broker) =
      [(keyOf (demo ''running'' ''x''), written 0 (demo ''running'' ''x'') False None)]"
    using demo_valid [of "''running''" "''x''"]
    by (simp add: demo_broker_def Apply_def apply_event_def applyLocked_def valid_incoming_def New_def putLocked_def
        Let_def mput_def written_def recordFrom_def)
  show "store_clean (b_workloads demo_broker)"
    unfolding store_clean_def records by (simp add: demo_clean)
  show "store_inv (b_workloads demo_broker)"
    unfolding store_inv_def records
    by (simp add: wf_map_def info_ok_written [OF demo_parse])
qed


end
