(* ===== verification/Pipeline.thy ===== *)
theory Pipeline
  imports WorkloadPersist BrokerWorkloads Scheduler
begin

section \<open>From the store to the schedule\<close>

text \<open>
  The broker and the job scheduler as one system. The broker writes \<open>workloads:*\<close> notifications
  to the scheduler's standard input; the pipe keeps their order and the scheduler handles one
  after the other. The theory relates the store to the scheduler's catalog: what the scheduler
  counts as pending on a node is what the store holds as queued or running there.
\<close>

subsection \<open>The same object read by two services\<close>

definition wl_of_header :: "header \<Rightarrow> workload" where
  "wl_of_header h = \<lparr>sw_ID = h_ID h, sw_Engine = h_Engine h, sw_RunID = h_RunID h, sw_State = h_State h,
     sw_OriginatedFrom = h_OriginatedFrom h, sw_ScheduledOn = h_ScheduledOn h\<rparr>"

definition wl_of_incoming :: "Incoming \<Rightarrow> workload" where
  "wl_of_incoming i = \<lparr>sw_ID = i_ID i, sw_Engine = i_Engine i, sw_RunID = i_RunID i, sw_State = i_State i,
     sw_OriginatedFrom = i_Origin i, sw_ScheduledOn = i_ScheduledOn i\<rparr>"

lemma fold_names:
  "fold_name ''id'' = ''id''" "fold_name ''engine'' = ''engine''" "fold_name ''runId'' = ''runid''"
  "fold_name ''state'' = ''state''" "fold_name ''originatedFrom'' = ''originatedfrom''"
  "fold_name ''scheduledOn'' = ''scheduledon''" "fold_name ''createdAt'' = ''createdat''"
  "fold_name ''completedAt'' = ''completedat''"
  by code_simp+

text \<open>Every member the store's header stores, the scheduler stores alike or ignores.\<close>

lemma header_member:
  assumes "find_field header_fields k = Some u" and "u j h = Some h'"
  shows "case find_field sched_workload_fields k of
      None \<Rightarrow> wl_of_header h' = wl_of_header h | Some v \<Rightarrow> v j (wl_of_header h) = Some (wl_of_header h')"
  using assms
  by (simp add: find_field_def header_fields_def sched_workload_fields_def fld_def fold_names wl_of_header_def
      split: if_splits) auto

lemma header_no_member:
  assumes "find_field header_fields k = None"
  shows "find_field sched_workload_fields k = None"
  using assms
  by (simp add: find_field_def header_fields_def sched_workload_fields_def fld_def split: if_splits)

lemma dec_wl_of_header:
  assumes "dec_members header_fields kvs h = Some h'"
  shows "dec_members sched_workload_fields kvs (wl_of_header h) = Some (wl_of_header h')"
  using assms
proof (induction kvs arbitrary: h)
  case (Cons kv kvs)
  obtain k j where kv: "kv = (k, j)" by (cases kv)
  show ?case
  proof (cases "find_field header_fields k")
    case None
    then show ?thesis using Cons kv header_no_member [OF None] by simp
  next
    case (Some u)
    then obtain h1 where h1: "u j h = Some h1" "dec_members header_fields kvs h1 = Some h'"
      using Cons.prems kv by (auto split: option.splits)
    show ?thesis
      using header_member [OF Some h1(1)] Cons.IH [OF h1(2)] kv by (auto split: option.splits)
  qed
qed simp

lemma scheduler_reads_incoming:
  assumes "ParseIncoming (Some j) = Some i"
  shows "dec_struct sched_workload_fields j workload0 = Some (wl_of_incoming i)"
proof -
  obtain kvs where kvs: "j = JObj kvs" using ParseIncoming_obj [OF assms] by blast
  obtain h where h: "dec_members header_fields kvs header0 = Some h" and i: "wl_of_header h = wl_of_incoming i"
    using assms by (auto simp: ParseIncoming_def kvs wl_of_header_def wl_of_incoming_def split: option.splits if_splits)
  have "wl_of_header header0 = workload0" by (simp add: wl_of_header_def header0_def workload0_def)
  then show ?thesis using dec_wl_of_header [OF h] i by (simp add: kvs)
qed

text \<open>Params with at most one member that names the workload object, up to letter case.\<close>

definition single_info :: "raw \<Rightarrow> bool" where
  "single_info params \<longleftrightarrow>
     (case params of
        Some (JObj kvs) \<Rightarrow> length (filter (\<lambda>(k, j). find_field env_fields k \<noteq> None) kvs) \<le> 1
      | _ \<Rightarrow> True)"

lemma env_names:
  "find_field env_fields k = (if k = ''workloadInfo'' \<or> fold_name ''workloadInfo'' = fold_name k
     then Some (\<lambda>j r. Some (Some j)) else None)"
  "find_field workload_params_fields k = (if k = ''workloadInfo'' \<or> fold_name ''workloadInfo'' = fold_name k
     then Some (\<lambda>j r. dec_struct sched_workload_fields j r) else None)"
  by (auto simp: find_field_def env_fields_def workload_params_fields_def fld_def dec_raw_def fun_eq_iff option.map_ident)

lemma upsert_envelope:
  assumes "single_info params" and "Unmarshal (dec_struct env_fields) None params = Some (Some j)"
  shows "Unmarshal (dec_struct workload_params_fields) workload0 params = dec_struct sched_workload_fields j workload0"
proof -
  obtain kvs where kvs: "params = Some (JObj kvs)"
    using assms(2) by (cases params; cases "the params") (auto simp: env_fields_def)
  let ?named = "\<lambda>fs. filter (\<lambda>(k, j). find_field fs k \<noteq> None) kvs"
  have "find_field workload_params_fields k \<noteq> None \<longleftrightarrow> find_field env_fields k \<noteq> None" for k
    by (simp add: env_names)
  then have same: "?named workload_params_fields = ?named env_fields" by simp
  have dec: "dec_members env_fields (?named env_fields) None = Some (Some j)"
    using assms(2) dec_members_relevant [of env_fields kvs None] by (simp add: kvs)
  have "length (?named env_fields) \<le> 1" using assms(1) by (simp add: single_info_def kvs)
  moreover have "?named env_fields \<noteq> []" using dec by auto
  ultimately obtain k j' where one: "?named env_fields = [(k, j')]"
    by (cases "?named env_fields") auto
  have "(k, j') \<in> set (?named env_fields)" unfolding one by simp
  then have k: "find_field env_fields k \<noteq> None" by simp
  then have "j' = j" using dec one by (auto simp: env_names split: if_splits)
  moreover have "dec_members workload_params_fields (?named workload_params_fields) workload0 =
      dec_struct sched_workload_fields j' workload0"
    unfolding same one using k by (auto simp: env_names split: if_splits option.splits)
  ultimately show ?thesis
    using dec_members_relevant [of workload_params_fields kvs workload0] by (simp add: kvs)
qed

lemma rm_agree:
  "Unmarshal (dec_struct sched_remove_fields) \<lparr>rp_WorkloadID = [], rp_OriginatedFrom = []\<rparr> params =
     map_option (\<lambda>(wid, origin). \<lparr>rp_WorkloadID = wid, rp_OriginatedFrom = origin\<rparr>)
       (Unmarshal (dec_struct rm_fields) ([], []) params)"
proof -
  have upd: "r\<lparr>rp_WorkloadID := v\<rparr> = \<lparr>rp_WorkloadID = v, rp_OriginatedFrom = rp_OriginatedFrom r\<rparr>"
    "r\<lparr>rp_OriginatedFrom := v\<rparr> = \<lparr>rp_WorkloadID = rp_WorkloadID r, rp_OriginatedFrom = v\<rparr>" for r v
    by (auto intro: removeParams.equality)
  have step: "find_field sched_remove_fields k =
      map_option (\<lambda>u j r. map_option (\<lambda>(wid, origin). \<lparr>rp_WorkloadID = wid, rp_OriginatedFrom = origin\<rparr>)
        (u j (rp_WorkloadID r, rp_OriginatedFrom r))) (find_field rm_fields k)" for k
    by (auto simp: find_field_def sched_remove_fields_def rm_fields_def fld_def fun_eq_iff option.map_comp comp_def upd)
  have "dec_members sched_remove_fields kvs \<lparr>rp_WorkloadID = fst p, rp_OriginatedFrom = snd p\<rparr> =
      map_option (\<lambda>(wid, origin). \<lparr>rp_WorkloadID = wid, rp_OriginatedFrom = origin\<rparr>) (dec_members rm_fields kvs p)" for kvs p
  proof (induction kvs arbitrary: p)
    case (Cons kv kvs)
    obtain k j where kv: "kv = (k, j)" by (cases kv)
    show ?case
    proof (cases "find_field rm_fields k")
      case None
      then show ?thesis using Cons.IH [of p] by (simp add: kv step)
    next
      case (Some u)
      then show ?thesis
      proof (cases "u j p")
        case None
        then show ?thesis using Some by (simp add: kv step)
      next
        case (Some p')
        then show ?thesis using \<open>find_field rm_fields k = Some u\<close> Cons.IH [of p']
          by (simp add: kv step split_beta)
      qed
    qed
  qed (simp add: split_beta)
  from this [of _ "([], [])"] show ?thesis
    by (cases params; cases "the params") simp_all
qed

subsection \<open>The catalog mirrors the store\<close>

definition skey :: "Key \<Rightarrow> wlKey" where
  "skey k = \<lparr>k_origin = k_Origin k, k_engine = k_Engine k, k_runID = k_RunID k, k_id = k_ID k\<rparr>"

definition active :: "Record \<Rightarrow> bool" where
  "active r \<longleftrightarrow> r_State r = ''queued'' \<or> r_State r = ''running''"

definition wl_of :: "Key \<Rightarrow> Record \<Rightarrow> workload" where
  "wl_of k r = \<lparr>sw_ID = k_ID k, sw_Engine = k_Engine k, sw_RunID = k_RunID k, sw_State = r_State r,
     sw_OriginatedFrom = k_Origin k, sw_ScheduledOn = r_ScheduledOn r\<rparr>"

definition expected :: "Store \<Rightarrow> Key \<Rightarrow> workload option" where
  "expected s k = (case mget (s_records s) k of None \<Rightarrow> None | Some r \<Rightarrow> if active r then Some (wl_of k r) else None)"

definition mirrors :: "Store \<Rightarrow> Manager \<Rightarrow> bool" where
  "mirrors s m \<longleftrightarrow> wf_map (m_catalog m) \<and> (\<forall>k. mget (m_catalog m) (skey k) = expected s k)"

text \<open>The scheduler reads what the broker wrote to it.\<close>

definition notification :: "string \<Rightarrow> raw \<Rightarrow> Message" where
  "notification method params = Message0\<lparr>msg_Method := method, msg_Params := params\<rparr>"

fun feed :: "fusing \<Rightarrow> time \<Rightarrow> broker_out list \<Rightarrow> Manager \<Rightarrow> Manager" where
  "feed f now [] m = m"
| "feed f now (NotifyScheduler method params # out) m =
     feed f now out (fst (Scheduler.handleMessage f (notification method params) now m))"
| "feed f now (_ # out) m = feed f now out m"

lemma feed_append: "feed f now (xs @ ys) m = feed f now ys (feed f now xs m)"
  by (induction f now xs m rule: feed.induct) simp_all

lemma recomputeAll_catalog: "m_catalog (fst (recomputeAll force now m)) = m_catalog m"
  by (simp add: recomputeAll_def schedulerEngines_def split_beta emitIfChanged_def Let_def)

lemma notified_catalog:
  assumes "method = ''workloads:upsert'' \<or> method = ''workloads:remove''"
  shows "m_catalog (fst (Scheduler.handleMessage f (notification method params) now m)) =
    m_catalog (fst (if method = ''workloads:upsert'' then applyUpsert params m else applyRemove params m))"
  using assms
  by (auto simp: Scheduler.handleMessage_def notification_def Message0_def SetLevelMethod_def IsRequest_def IsNotification_def
      handle_notification_def MethodTelemetry_def split_beta recomputeAll_catalog Let_def)

lemma skey_inj [simp]: "skey k = skey k' \<longleftrightarrow> k = k'"
  by (auto simp: skey_def intro: Key.equality)

lemma wl_key_incoming: "wl_key (wl_of_incoming i) = skey (keyOf i)"
  by (simp add: wl_key_def wl_of_incoming_def skey_def keyOf_def)

lemma applyUpsert_catalog:
  assumes "Unmarshal (dec_struct workload_params_fields) workload0 params = Some (wl_of_incoming i)" and "valid_incoming i"
  shows "m_catalog (fst (applyUpsert params m)) =
    (if isPending (wl_of_incoming i) then mput (skey (keyOf i)) (wl_of_incoming i) (m_catalog m)
     else mdel (skey (keyOf i)) (m_catalog m))"
proof -
  have "sw_ID (wl_of_incoming i) \<noteq> []" using assms(2) by (simp add: wl_of_incoming_def valid_incoming_def)
  then show ?thesis using assms(1) by (simp add: applyUpsert_def Let_def wl_key_incoming)
qed

lemma applyRemove_catalog:
  assumes "Unmarshal (dec_struct rm_fields) ([], []) params = Some (wid, origin)" and "wf_map (m_catalog m)"
  shows "wf_map (m_catalog (fst (applyRemove params m)))"
    and "mget (m_catalog (fst (applyRemove params m))) (skey k) =
      (if k_Origin k = origin \<and> k_ID k = wid then None else mget (m_catalog m) (skey k))"
  using assms rm_agree [of params]
  by (auto simp: applyRemove_def mget_mkeep removes_def skey_def split: option.split)

subsection \<open>Every event keeps the mirror\<close>

lemma upsert_applies:
  "applyWorkloadEvent now ''workloads:upsert'' params inferred guard s = (s, False) \<or>
   (\<exists>j i. Unmarshal (dec_struct env_fields) None params = Some (Some j) \<and> ParseIncoming (Some j) = Some i \<and>
      applyWorkloadEvent now ''workloads:upsert'' params inferred guard s = applyLocked now i inferred s)"
proof (cases "Unmarshal (dec_struct env_fields) None params")
  case (Some info)
  show ?thesis
  proof (cases "ParseIncoming info")
    case None
    then show ?thesis using Some by (cases info) (simp_all add: applyWorkloadEvent_def)
  next
    case (Some i)
    then obtain j where j: "info = Some j" by (cases info) (simp_all add: ParseIncoming_def)
    have "applyWorkloadEvent now ''workloads:upsert'' params inferred guard s =
        (if \<not> inferred then applyLocked now i False s
         else if \<not> IsZero guard then ApplyInferredUnchangedSince now i guard s else applyLocked now i True s)"
      using \<open>Unmarshal _ _ params = Some info\<close> Some j
      by (simp add: applyWorkloadEvent_def Apply_def ApplyInferred_def apply_event_def)
    then show ?thesis
      using ApplyInferredUnchangedSince_cases [of now i guard s] \<open>Unmarshal _ _ params = Some info\<close> Some j by auto
  qed
qed (simp add: applyWorkloadEvent_def)

text \<open>An upsert either changes nothing the scheduler looks at, or replaces one record.\<close>

lemma upsert_cases:
  assumes "applyWorkloadEvent now ''workloads:upsert'' params inferred guard s = (s', changed)"
  obtains (quiet) "\<not> changed" and "expected s' = expected s"
  | (put) i j where "changed" and "Unmarshal (dec_struct env_fields) None params = Some (Some j)"
      and "ParseIncoming (Some j) = Some i" and "\<exists>c. mget (s_records s') = (mget (s_records s))(keyOf i \<mapsto> written now i inferred c)"
proof -
  consider "s' = s" "\<not> changed"
    | j i where "Unmarshal (dec_struct env_fields) None params = Some (Some j)" "ParseIncoming (Some j) = Some i"
        "applyLocked now i inferred s = (s', changed)"
    using assms upsert_applies [of now params inferred guard s] by auto
  then show ?thesis
  proof cases
    case 1
    then show ?thesis using quiet by simp
  next
    case (2 j i)
    have valid: "valid_incoming i" by (rule ParseIncoming_SomeD(2) [OF 2(2)])
    have get: "mget (s_records s') = (mget (s_records s))(keyOf i \<mapsto> merge_cell now i inferred (mget (s_records s) (keyOf i)))"
      using applyLocked_get [of now i inferred s] 2(3) valid by (simp add: fun_eq_iff)
    have ch: "changed \<longleftrightarrow> (case mget (s_records s) (keyOf i) of None \<Rightarrow> True | Some cur \<Rightarrow> accepts i inferred cur)"
      using applyLocked_result [of now i inferred s] 2(3) valid by simp
    show ?thesis
    proof (cases changed)
      case True
      then have "merge_cell now i inferred (mget (s_records s) (keyOf i)) = written now i inferred (mget (s_records s) (keyOf i))"
        using ch by (cases "mget (s_records s) (keyOf i)") (simp_all add: merge_cell_def)
      then show ?thesis using put [OF True 2(1,2)] get by auto
    next
      case False
      then obtain cur where cur: "mget (s_records s) (keyOf i) = Some cur" "\<not> accepts i inferred cur"
        using ch by (auto split: option.splits)
      have "active (merge_cell now i inferred (Some cur)) = active cur"
        "wl_of (keyOf i) (merge_cell now i inferred (Some cur)) = wl_of (keyOf i) cur"
        using cur(2) by (simp_all add: merge_cell_def active_def wl_of_def)
      then have "expected s' k = expected s k" for k
        using cur(1) by (simp add: expected_def get)
      then show ?thesis using quiet [OF False] by (simp add: fun_eq_iff)
    qed
  qed
qed

lemma upsert_mirrors:
  assumes "mirrors s m" and "single_info params"
    and "Unmarshal (dec_struct env_fields) None params = Some (Some j)" and "ParseIncoming (Some j) = Some i"
    and "mget (s_records s') = (mget (s_records s))(keyOf i \<mapsto> written now' i inferred c)"
  shows "mirrors s' (fst (Scheduler.handleMessage f (notification ''workloads:upsert'' params) now m))"
proof -
  have valid: "valid_incoming i" by (rule ParseIncoming_SomeD(2) [OF assms(4)])
  have "Unmarshal (dec_struct workload_params_fields) workload0 params = Some (wl_of_incoming i)"
    using upsert_envelope [OF assms(2,3)] scheduler_reads_incoming [OF assms(4)] by simp
  from applyUpsert_catalog [OF this valid, of m]
  have cat: "m_catalog (fst (Scheduler.handleMessage f (notification ''workloads:upsert'' params) now m)) =
      (if isPending (wl_of_incoming i) then mput (skey (keyOf i)) (wl_of_incoming i) (m_catalog m)
       else mdel (skey (keyOf i)) (m_catalog m))"
    by (simp add: notified_catalog)
  have "expected s' k = (if k = keyOf i then (if isPending (wl_of_incoming i) then Some (wl_of_incoming i) else None) else expected s k)" for k
    by (simp add: expected_def assms(5) active_def isPending_def wl_of_def wl_of_incoming_def keyOf_def)
  then show ?thesis using assms(1) by (simp add: mirrors_def cat mget_mput mget_mdel)
qed

lemma event_mirrors:
  assumes "mirrors (b_workloads b) m" and "store_inv (b_workloads b)" and "b_scheduler b"
    and "method = ''workloads:upsert'' \<Longrightarrow> single_info params"
    and "emitWorkloadEventProvenance now method params inferred guard b = (b', out)"
  shows "mirrors (b_workloads b') (feed f t out m)"
proof -
  let ?s = "b_workloads b"
  obtain s' changed where ap: "applyWorkloadEvent now method params inferred guard ?s = (s', changed)" by (meson surj_pair)
  have b': "b' = b\<lparr>b_workloads := s'\<rparr>" and out: "out = (if changed then tells b method params else [])"
    using assms(5) by (simp_all add: emit_outcome ap)
  have told: "feed f t (tells b method params) m = fst (Scheduler.handleMessage f (notification method params) t m)"
    using assms(3) by (simp add: tells_def)
  have frame: "mirrors s' m" if "expected s' = expected ?s" using that assms(1) by (simp add: mirrors_def)
  consider "method = ''workloads:upsert''" | "method = ''workloads:remove''"
    | "method \<noteq> ''workloads:upsert''" "method \<noteq> ''workloads:remove''" by blast
  then show ?thesis
  proof cases
    case 1
    from ap [unfolded 1] show ?thesis
    proof (cases rule: upsert_cases)
      case quiet
      then show ?thesis using frame by (simp add: b' out)
    next
      case (put i j)
      then show ?thesis using upsert_mirrors [OF assms(1) assms(4) [OF 1] put(2,3)] told 1 by (auto simp: b' out)
    qed
  next
    case 2
    show ?thesis
    proof (cases changed)
      case False
      then have "s' = ?s" using ap 2 by (auto simp: applyWorkloadEvent_def split: option.splits if_splits prod.splits)
      then show ?thesis using False assms(1) by (simp add: b' out)
    next
      case True
      then obtain wid origin where rm: "Unmarshal (dec_struct rm_fields) ([], []) params = Some (wid, origin)"
        and s': "s' = fst (Remove origin wid ?s)"
        using ap 2 by (auto simp: applyWorkloadEvent_def split: option.splits if_splits prod.splits)
      have "matches_pair origin wid r \<longleftrightarrow> k_Origin k = origin \<and> k_ID k = wid"
        if "mget (s_records ?s) k = Some r" for k r
        using info_okD(1,2) [OF store_invD(2) [OF assms(2) that]] by (auto simp: matches_pair_def)
      then have "expected s' k = (if k_Origin k = origin \<and> k_ID k = wid then None else expected ?s k)" for k
        using store_invD(1) [OF assms(2)] by (simp add: s' expected_def Remove_get split: option.split)
      then show ?thesis
        using applyRemove_catalog [OF rm, of m] assms(1) told True 2
        by (simp add: b' out mirrors_def notified_catalog)
    qed
  next
    case 3
    then have "\<not> changed" "s' = ?s" using ap by (auto simp: applyWorkloadEvent_def)
    then show ?thesis using assms(1) by (simp add: b' out)
  qed
qed

lemma event_keeps:
  assumes "emitWorkloadEventProvenance now method params inferred guard b = (b', out)" and "store_inv (b_workloads b)"
  shows "b_scheduler b' = b_scheduler b" and "store_inv (b_workloads b')"
proof -
  obtain s' changed where ap: "applyWorkloadEvent now method params inferred guard (b_workloads b) = (s', changed)"
    by (meson surj_pair)
  have "store_inv s'"
  proof (cases "method = ''workloads:upsert''")
    case True
    then show ?thesis
      using upsert_applies [of now params inferred guard "b_workloads b"] applyLocked_inv [OF _ assms(2)] ap assms(2)
      by (metis fst_conv)
  next
    case False
    then have "s' = b_workloads b \<or> (\<exists>origin wid. s' = fst (Remove origin wid (b_workloads b)))"
      using ap by (simp add: applyWorkloadEvent_def split: option.splits if_splits prod.splits) blast+
    then show ?thesis using Remove_inv assms(2) by auto
  qed
  then show "b_scheduler b' = b_scheduler b" "store_inv (b_workloads b')"
    using assms(1) by (auto simp: emit_outcome ap)
qed

subsection \<open>Sweeps, replay and retention\<close>

text \<open>Broker and scheduler agree, as far as there is a scheduler.\<close>

definition synced :: "Broker \<Rightarrow> Manager \<Rightarrow> bool" where
  "synced b m \<longleftrightarrow> store_inv (b_workloads b) \<and> (b_scheduler b \<longrightarrow> mirrors (b_workloads b) m \<and> sched_inv m)"

lemma feed_inv: "sched_inv m \<Longrightarrow> sched_inv (feed f now out m)"
  by (induction f now out m rule: feed.induct) (simp_all add: handleMessage_sched_inv)

lemma event_synced:
  assumes "synced b m" and "method = ''workloads:upsert'' \<Longrightarrow> single_info params"
    and "emitWorkloadEventProvenance now method params inferred guard b = (b', out)"
  shows "synced b' (feed f t out m)"
  using assms event_keeps [OF assms(3)] event_mirrors [OF _ _ _ assms(2,3)] feed_inv by (simp add: synced_def)

lemma markWorkloadFailed_single: "markWorkloadFailed info now errMsg = Returns (Some p) \<Longrightarrow> single_info (Some p)"
  by (auto simp: markWorkloadFailed_def single_info_def MarshalMap_def Let_def sort_by_def split: option.splits)

lemma mark_all_single: "mark_all now errMsg rs = Returns ps \<Longrightarrow> p \<in> set ps \<Longrightarrow> single_info (Some p)"
proof (induction rs arbitrary: ps)
  case (Cons r rs)
  then show ?case
    using markWorkloadFailed_single by (auto split: go.splits option.splits)
qed auto

lemma emit_inferred_synced:
  assumes "synced b m" and "\<And>p. p \<in> set ps \<Longrightarrow> single_info (Some p)" and "emit_inferred now ps b = (b', out)"
  shows "synced b' (feed f t out m)"
  using assms
proof (induction ps arbitrary: b m b' out)
  case (Cons p ps)
  obtain b1 out1 where e1: "emitWorkloadEventProvenance now ''workloads:upsert'' (Some p) True noSightingGuard b = (b1, out1)"
    by (meson surj_pair)
  obtain b2 out2 where e2: "emit_inferred now ps b1 = (b2, out2)" by (meson surj_pair)
  have "synced b1 (feed f t out1 m)" using event_synced [OF Cons.prems(1) _ e1] Cons.prems(2) by simp
  then have "synced b2 (feed f t out2 (feed f t out1 m))" using Cons.IH [OF _ _ e2] Cons.prems(2) by simp
  then show ?case using Cons.prems(3) e1 e2 by (auto simp: emitWorkloadEventInferred_def feed_append)
qed simp

lemma fail_stale_synced:
  assumes "synced b m" and "fail_stale now names rs b = Returns (b', out)"
  shows "synced b' (feed f t out m)"
  using assms
proof (induction rs arbitrary: b m b' out)
  case (Cons r rs)
  let ?display = "case mget names (r_Origin r) of Some n \<Rightarrow> if n \<noteq> [] then n else r_Origin r | None \<Rightarrow> r_Origin r"
  let ?mark = "markWorkloadFailed (r_Info r) now (''node '' @ ?display @ '' stopped reporting this workload'')"
  show ?case
  proof (cases ?mark)
    case Panics
    then show ?thesis using Cons.prems by (simp add: Let_def)
  next
    case (Returns q)
    show ?thesis
    proof (cases q)
      case None
      then have "fail_stale now names rs b = Returns (b', out)" using Returns Cons.prems(2) by (simp add: Let_def)
      then show ?thesis by (rule Cons.IH [OF Cons.prems(1)])
    next
      case (Some p)
      obtain b1 out1 where e1: "emitWorkloadEventProvenance now ''workloads:upsert'' (Some p) True (r_LastSeen r) b = (b1, out1)"
        by (meson surj_pair)
      obtain out2 where e2: "fail_stale now names rs b1 = Returns (b', out2)" and out: "out = out1 @ out2"
        using Cons.prems(2) Returns Some e1
        by (auto simp: emitWorkloadEventStale_def Let_def split: go.splits prod.splits)
      have "synced b1 (feed f t out1 m)"
        using event_synced [OF Cons.prems(1) _ e1] markWorkloadFailed_single Returns Some by simp
      then show ?thesis using Cons.IH [OF _ e2] by (simp add: out feed_append)
    qed
  qed
qed simp

text \<open>Replaying the live records to an empty scheduler.\<close>

definition kof :: "Record \<Rightarrow> Key" where
  "kof r = keyOf (the (ParseIncoming (r_Info r)))"

definition replay_msg :: "Record \<Rightarrow> broker_out" where
  "replay_msg r = NotifyScheduler ''workloads:upsert'' (Some (MarshalMap [(''workloadInfo'', raw_json (r_Info r))]))"

lemma send_all: "send_while (replicate (length xs) True) xs = xs"
  by (induction xs) simp_all

lemma replay_step:
  assumes "info_ok (kof r) r"
  shows "m_catalog (feed f now [replay_msg r] m) =
    (if active r then mput (skey (kof r)) (wl_of (kof r) r) (m_catalog m) else mdel (skey (kof r)) (m_catalog m))"
proof -
  obtain i where i: "ParseIncoming (r_Info r) = Some i" "keyOf i = kof r" "view_i (r_Inferred r) i = view_r r"
    using assms by (auto simp: info_ok_def kof_def split: option.splits)
  obtain kvs where kvs: "r_Info r = Some (JObj kvs)" by (rule ParseIncoming_obj [OF i(1)])
  let ?p = "Some (JObj [(''workloadInfo'', JObj kvs)])"
  have "single_info ?p" by (simp add: single_info_def)
  from upsert_envelope [OF this, of "JObj kvs"]
  have "Unmarshal (dec_struct workload_params_fields) workload0 ?p = Some (wl_of_incoming i)"
    using scheduler_reads_incoming [of "JObj kvs" i] i(1) kvs by simp
  note applyUpsert_catalog [OF this ParseIncoming_SomeD(2) [OF i(1)], of m]
  moreover have "isPending (wl_of_incoming i) = active r"
    using i(3) by (auto simp: isPending_def wl_of_incoming_def active_def view_i_def view_r_def)
  moreover have "wl_of_incoming i = wl_of (kof r) r"
    using i(2) [symmetric] i(3) by (simp add: wl_of_incoming_def wl_of_def keyOf_def view_i_def view_r_def)
  ultimately show ?thesis
    using i(2) by (simp add: replay_msg_def kvs raw_json_def MarshalMap_def sort_by_def notified_catalog)
qed

lemma feed_cons: "feed f now (x # out) m = feed f now out (feed f now [x] m)"
  by (cases x) simp_all

lemma replay_catalog:
  assumes "distinct (map kof rs)" and "\<And>r. r \<in> set rs \<Longrightarrow> info_ok (kof r) r" and "wf_map (m_catalog m)"
  shows "wf_map (m_catalog (feed f now (map replay_msg rs) m)) \<and>
    mget (m_catalog (feed f now (map replay_msg rs) m)) (skey k) =
      (case find (\<lambda>r. kof r = k) rs of
         None \<Rightarrow> mget (m_catalog m) (skey k) | Some r \<Rightarrow> if active r then Some (wl_of k r) else None)"
  using assms
proof (induction rs arbitrary: m)
  case (Cons r rs)
  let ?m = "feed f now [replay_msg r] m"
  have cat: "m_catalog ?m = (if active r then mput (skey (kof r)) (wl_of (kof r) r) (m_catalog m)
      else mdel (skey (kof r)) (m_catalog m))"
    by (rule replay_step) (simp add: Cons.prems(2))
  have wf: "wf_map (m_catalog ?m)" using Cons.prems(3) by (simp add: cat)
  have "find (\<lambda>r'. kof r' = kof r) rs = None" using Cons.prems(1) by (auto simp: find_None_iff) (metis imageI)
  moreover have "feed f now (map replay_msg (r # rs)) m = feed f now (map replay_msg rs) ?m"
    by (simp only: list.map) (rule feed_cons)
  ultimately show ?case
    using Cons.IH [OF _ _ wf] Cons.prems(1,2) by (auto simp: cat mget_mput mget_mdel simp del: feed.simps split: option.split)
qed simp

lemma replay_mirrors:
  assumes inv: "store_inv s"
  shows "mirrors s (feed f now (map replay_msg (sort_by snapshot_less (filter (\<lambda>r. \<not> r_Terminal r) (mvals (s_records s)))))
    (NewManager interval))"
proof -
  let ?live = "filter (\<lambda>r. \<not> r_Terminal r) (mvals (s_records s))"
  let ?L = "sort_by snapshot_less ?live"
  note wf = store_invD(1) [OF inv]
  have key: "kof r = k" "info_ok k r" if "mget (s_records s) k = Some r" for k r
    using store_invD(2) [OF inv that] by (auto simp: info_ok_def kof_def split: option.splits)
  have mem: "r \<in> set ?L \<longleftrightarrow> mget (s_records s) (kof r) = Some r \<and> \<not> r_Terminal r" for r
    using mvals_iff [OF wf, of r] key(1) by auto
  have "map kof (mvals (s_records s)) = map fst (s_records s)"
    using mget_in_set [OF wf] key(1) by (auto simp: mvals_def)
  then have "distinct (map kof (mvals (s_records s)))" using wf by (simp add: wf_map_def)
  then have "distinct (map kof ?live)" by (simp add: distinct_map_filter)
  moreover have "mset (map kof ?live) = mset (map kof ?L)" by simp
  ultimately have dist: "distinct (map kof ?L)" by (metis mset_eq_imp_distinct_iff)
  have found: "find (\<lambda>r. kof r = k) ?L = (case mget (s_records s) k of None \<Rightarrow> None | Some r \<Rightarrow> if r_Terminal r then None else Some r)" for k
  proof (cases "\<exists>r. mget (s_records s) k = Some r \<and> \<not> r_Terminal r")
    case True
    then obtain r where r: "mget (s_records s) k = Some r" "\<not> r_Terminal r" by blast
    have "r \<in> set ?L" unfolding mem using r key(1) [OF r(1)] by simp
    moreover have "x = r" if "x \<in> set ?L" "kof x = k" for x using that r unfolding mem by simp
    ultimately have "find (\<lambda>r. kof r = k) ?L = Some r" using key(1) [OF r(1)] by (intro find_only) blast+
    then show ?thesis using r by simp
  next
    case False
    then have "find (\<lambda>r. kof r = k) ?L = None" unfolding find_None_iff mem by blast
    then show ?thesis using False by (auto split: option.split)
  qed
  have dead: "\<not> active r" if "mget (s_records s) k = Some r" "r_Terminal r" for k r
    using info_okD(5) [OF key(2) [OF that(1)]] that(2) by (auto simp: active_def isTerminal_def)
  let ?m = "feed f now (map replay_msg ?L) (NewManager interval)"
  have empty: "m_catalog (NewManager interval) = []" by (simp add: NewManager_def)
  have "info_ok (kof r) r" if "r \<in> set ?L" for r using that mem key(2) by blast
  then have cat: "wf_map (m_catalog ?m) \<and> mget (m_catalog ?m) (skey k) =
      (case find (\<lambda>r. kof r = k) ?L of None \<Rightarrow> None | Some r \<Rightarrow> if active r then Some (wl_of k r) else None)" for k
    using replay_catalog [OF dist, of "NewManager interval" f now k, unfolded empty mget_Nil] wf_map_Nil by blast
  have "mget (m_catalog ?m) (skey k) = expected s k" for k
    using cat [of k] dead [of k] unfolding found by (cases "mget (s_records s) k") (simp_all add: expected_def)
  then show ?thesis using cat by (simp add: mirrors_def)
qed

lemma replay_is:
  "replayActiveWorkloadsToScheduler (replicate (length (ActiveSnapshot (b_workloads b))) True) b =
    map replay_msg (sort_by snapshot_less (filter (\<lambda>r. \<not> r_Terminal r) (mvals (s_records (b_workloads b)))))"
  by (simp add: replayActiveWorkloadsToScheduler_def send_all)
    (simp add: ActiveSnapshot_def snapshotRecords_def replay_msg_def)

text \<open>Retention only drops terminal records.\<close>

lemma prune_expected:
  assumes inv: "store_inv s"
  shows "expected (pruneLocked now s) = expected s"
proof -
  have dead: "\<not> active r" if "mget (s_records s) k = Some r" "r_Terminal r" for k r
    using info_okD(5) [OF store_invD(2) [OF inv that(1)]] that(2) by (auto simp: active_def isTerminal_def)
  have age: "expected (prune_age now s) k = expected s k" for k
    using dead by (auto simp: expected_def prune_age_get [OF store_invD(1) [OF inv]] split: option.split)
  let ?a = "prune_age now s"
  have inva: "store_inv ?a" using inv by (simp add: prune_age_def mkeep_inv)
  have "expected (prune_cap ?a) k = expected ?a k" for k
  proof (cases "s_historyCap ?a \<le> 0")
    case True
    then show ?thesis by (simp add: prune_cap_def)
  next
    case False
    have "r_Terminal r" if r: "mget (s_records ?a) k = Some r" and k: "k \<in> set (map fst (take (cap_excess ?a) (cap_order ?a)))" for k r
    proof -
      obtain n where "(k, n) \<in> set (cap_order ?a)" using k by (auto dest: in_set_takeD)
      then obtain r' where "(k, r') \<in> set (s_records ?a)" "r_Terminal r'" by (auto simp: cap_order_entry)
      then show ?thesis using r mget_in_set [OF store_invD(1) [OF inva], of k r'] by simp
    qed
    then have "\<not> active r" if "mget (s_records ?a) k = Some r" "k \<in> set (map fst (take (cap_excess ?a) (cap_order ?a)))" for k r
      using that info_okD(5) [OF store_invD(2) [OF inva that(1)]] by (fastforce simp: active_def isTerminal_def)
    then show ?thesis
      using False prune_cap_get [OF _ store_invD(1) [OF inva], of k] by (cases "mget (s_records ?a) k") (simp_all add: expected_def)
  qed
  then show ?thesis using age by (simp add: pruneLocked_def fun_eq_iff)
qed

lemma run_tick_expected:
  assumes "store_inv s"
  shows "expected (fst (run_tick w now io fs s)) = expected s" and "store_inv (fst (run_tick w now io fs s))"
proof -
  have d: "expected (s'\<lparr>s_dirty := d\<rparr>) = expected s'" "store_inv (s'\<lparr>s_dirty := d\<rparr>) = store_inv s'" for s' d
    by (simp_all add: expected_def fun_eq_iff store_inv_def)
  have "fst (run_tick w now io fs s) = s \<or> (\<exists>d. fst (run_tick w now io fs s) = (pruneLocked (UnixMilli now) s)\<lparr>s_dirty := d\<rparr>)"
    by (cases w) (auto simp: run_tick_def Flush_def Checkpoint_def Let_def split: prod.splits)
  then show "expected (fst (run_tick w now io fs s)) = expected s" "store_inv (fst (run_tick w now io fs s))"
    using prune_expected [OF assms] prune_inv [OF assms] assms d by auto
qed

subsection \<open>The joint system\<close>

text \<open>
  Steps of broker and scheduler: peer-origin and local-origin events, the two sweeps, the history
  flusher, client requests, a scheduler that starts, crashes, wakes up, or handles any other message.
\<close>

inductive pipeline :: "fusing \<Rightarrow> Broker \<Rightarrow> Manager \<Rightarrow> bool" for f where
  Start: "store_inv (b_workloads b) \<Longrightarrow> \<not> b_scheduler b \<Longrightarrow> pipeline f b m"
| Peer: "pipeline f b m \<Longrightarrow> single_info params \<Longrightarrow>
    forwardWorkloadManagerNotification now method params b = (b', out) \<Longrightarrow> pipeline f b' (feed f now out m)"
| Local: "pipeline f b m \<Longrightarrow> stampNodeID params (b_nodeID b) = Returns p \<Longrightarrow> single_info p \<Longrightarrow>
    routeProxyWorkload now method params b = Returns (b', out) \<Longrightarrow> pipeline f b' (feed f now out m)"
| NodeLoss: "pipeline f b m \<Longrightarrow> failWorkloadsForNode now node name b = Returns (b', out) \<Longrightarrow> pipeline f b' (feed f now out m)"
| Stale: "pipeline f b m \<Longrightarrow> failStaleForeignWorkloads now nodes age b = Returns (b', out) \<Longrightarrow> pipeline f b' (feed f now out m)"
| Flusher: "pipeline f b m \<Longrightarrow> pipeline f (b\<lparr>b_workloads := fst (run_tick w now io fs (b_workloads b))\<rparr>) m"
| Client: "pipeline f b m \<Longrightarrow> pipeline f (fst (handle_workloads_request msg b)) m"
| SchedulerUp: "pipeline f b m \<Longrightarrow> in_int64 interval \<Longrightarrow>
    out = replayActiveWorkloadsToScheduler (replicate (length (ActiveSnapshot (b_workloads b))) True) b \<Longrightarrow>
    pipeline f (b\<lparr>b_scheduler := True\<rparr>) (feed f now out (Scheduler.NewManager interval))"
| SchedulerDown: "pipeline f b m \<Longrightarrow> pipeline f (b\<lparr>b_scheduler := False\<rparr>) m'"
| OtherMessage: "pipeline f b m \<Longrightarrow> msg_Method msg \<noteq> ''workloads:upsert'' \<Longrightarrow> msg_Method msg \<noteq> ''workloads:remove'' \<Longrightarrow>
    pipeline f b (fst (Scheduler.handleMessage f msg now m))"
| Tick: "pipeline f b m \<Longrightarrow> pipeline f b (fst (loop_tick now m))"
| Timer: "pipeline f b m \<Longrightarrow> pipeline f b (fst (loop_timer now m))"

lemma other_message_catalog:
  assumes "msg_Method msg \<noteq> ''workloads:upsert''" and "msg_Method msg \<noteq> ''workloads:remove''"
  shows "m_catalog (fst (Scheduler.handleMessage f msg now m)) = m_catalog m"
proof -
  have "m_catalog (fst (handle_notification f msg now m)) = m_catalog m"
    using assms by (simp add: handle_notification_def applyNodesChanged_def applyTelemetry_def applyTelemetryAt_def Let_def
        split: option.split)
  moreover have "m_catalog (fst (handle_set_interval msg m)) = m_catalog m"
    by (simp add: handle_set_interval_def Let_def split: option.split)
  ultimately show ?thesis
    by (simp add: Scheduler.handleMessage_def split_beta Let_def recomputeAll_catalog handle_request_def)
qed

lemma mirrors_cong: "m_catalog m' = m_catalog m \<Longrightarrow> expected s' = expected s \<Longrightarrow> mirrors s' m' = mirrors s m"
  by (simp add: mirrors_def)

lemma synced_scheduler:
  assumes "synced b m" and "m_catalog m' = m_catalog m" and "sched_inv m \<Longrightarrow> sched_inv m'"
  shows "synced b m'"
  using assms by (simp add: synced_def mirrors_def)

lemma pipeline_synced: "pipeline f b m \<Longrightarrow> synced b m"
proof (induction rule: pipeline.induct)
  case (Start b m)
  then show ?case by (simp add: synced_def)
next
  case (Peer b m params now meth b' out)
  then show ?case
    using event_synced [OF Peer.IH]
    by (auto simp: forwardWorkloadManagerNotification_def emitWorkloadEvent_def split: if_splits)
next
  case (Local b m params p now meth b' out)
  let ?meth = "if meth = ''workloads:remove'' then ''workloads:remove'' else ''workloads:upsert''"
  obtain out1 where e: "emitWorkloadEventProvenance now ?meth p False noSightingGuard b = (b', out1)"
    and out: "\<exists>xs. out = out1 @ xs \<and> feed f now xs = (\<lambda>m. m)"
    using Local.hyps(2,4) by (auto simp: routeProxyWorkload_def emitWorkloadEvent_def Let_def fun_eq_iff
        split: if_splits prod.splits)
  have "synced b' (feed f now out1 m)" using event_synced [OF Local.IH _ e] Local.hyps(3) by blast
  then show ?case using out by (auto simp: feed_append)
next
  case (NodeLoss b m now node name b' out)
  consider "b' = b" "out = []"
    | errMsg ps where "mark_all now errMsg (ActiveForNode node (b_workloads b)) = Returns ps" "emit_inferred now ps b = (b', out)"
    using NodeLoss.hyps(2) unfolding failWorkloadsForNode_def Let_def by (auto split: if_split_asm go.split_asm)
  then show ?case
  proof cases
    case 2
    show ?thesis by (rule emit_inferred_synced [OF NodeLoss.IH mark_all_single [OF 2(1)] 2(2)])
  qed (simp add: NodeLoss.IH)
next
  case (Stale b m now nodes age b' out)
  then show ?case
    using fail_stale_synced [OF Stale.IH] by (auto simp: failStaleForeignWorkloads_def Let_def split: if_splits)
next
  case (Flusher b m w now io fs)
  then have inv: "store_inv (b_workloads b)" by (simp add: synced_def)
  show ?case
    using Flusher.IH mirrors_cong [OF refl run_tick_expected(1) [OF inv], where m = m] run_tick_expected(2) [OF inv]
    by (simp add: synced_def)
next
  case (Client b m msg)
  then show ?case by (simp add: handle_workloads_request_def synced_def)
next
  case (SchedulerUp b m interval out now)
  then show ?case
    using replay_mirrors [of "b_workloads b" f now interval] feed_inv [OF NewManager_sched_inv]
    by (simp add: synced_def replay_is)
next
  case (SchedulerDown b m m')
  then show ?case by (simp add: synced_def)
next
  case (OtherMessage b m msg now)
  show ?case
    by (rule synced_scheduler [OF OtherMessage.IH other_message_catalog [OF OtherMessage.hyps(2,3)] handleMessage_sched_inv])
next
  case (Tick b m now)
  show ?case
    by (rule synced_scheduler [OF Tick.IH]) (simp_all add: loop_tick_def recomputeAll_catalog recomputeAll_inv sched_frame_inv)
next
  case (Timer b m now)
  show ?case
    by (rule synced_scheduler [OF Timer.IH]) (simp_all add: loop_timer_def recomputeAll_catalog recomputeAll_inv)
qed

text \<open>
  C3. The pending counts the scheduler ranks by are those of the broker's store: whatever events,
  sweeps, prunings, restarts of the scheduler and other messages there were, each ranked node is
  counted with exactly the queued and running workloads the store holds as scheduled on it.
\<close>

theorem scheduler_counts_the_store:
  assumes "pipeline f b m" and "b_scheduler b" and "r \<in> set (snd (rankAt now m))"
  shows "nr_Pending r =
    int (card {k. \<exists>rec. mget (s_records (b_workloads b)) k = Some rec \<and> active rec \<and> r_ScheduledOn rec = nr_ID r})"
proof -
  have mir: "mirrors (b_workloads b) m" and inv: "sched_inv m"
    using pipeline_synced [OF assms(1)] assms(2) by (simp_all add: synced_def)
  obtain h i where h: "h \<in> set (mkeys (m_nodes m))" and r: "r = (rank_entry now m h)\<lparr>nr_Rank := i\<rparr>"
    using assms(3) number_ranks_member by (fastforce simp: rankAt_sorted [OF inv] Let_def)
  have "h \<noteq> []" using h sched_invD(4) [OF inv, of h] by (cases "mget (m_nodes m) h") (auto simp: mget_None)
  let ?K = "{k. \<exists>rec. mget (s_records (b_workloads b)) k = Some rec \<and> active rec \<and> r_ScheduledOn rec = h}"
  have "node_of (m_catalog m) (skey k) = h \<longleftrightarrow> k \<in> ?K" for k
    using mir \<open>h \<noteq> []\<close>
    by (auto simp: mirrors_def node_of_def expected_def pendingNode_def isPending_def wl_of_def active_def split: option.splits)
  moreover have "\<exists>k. skey k = k'" for k'
    by (rule exI [of _ "\<lparr>k_Origin = k_origin k', k_Engine = k_engine k', k_RunID = k_runID k', k_ID = k_id k'\<rparr>"])
      (simp add: skey_def)
  ultimately have "{k. node_of (m_catalog m) k = h} = skey ` ?K" by (auto simp: image_iff) metis+
  then have "card {k. node_of (m_catalog m) k = h} = card ?K" by (simp add: card_image inj_on_def)
  then show ?thesis by (simp add: r rank_entry_def)
qed

text \<open>A scheduler started beside a broker with one running workload, told that node x exists.\<close>

definition demo_x_msg :: Message where
  "demo_x_msg = notification ''discovery:nodes-changed'' (Some (JArr [JObj [(''hostUuid'', JStr ''x'')]]))"

definition demo_sched :: Manager where
  "demo_sched = fst (Scheduler.handleMessage NoFusing demo_x_msg 0
     (feed NoFusing 0 (replayActiveWorkloadsToScheduler (replicate (length (ActiveSnapshot (b_workloads demo_broker))) True) demo_broker)
        (Scheduler.NewManager 0)))"

theorem scheduler_counts_the_store_witness:
  "snd (rankAt 0 demo_sched) = [\<lparr>nr_ID = ''x'', nr_Pending = 1, nr_GPUPressure = 1, nr_Rank = 0\<rparr>] \<and>
   card {k. \<exists>rec. mget (s_records (b_workloads demo_broker)) k = Some rec \<and> active rec \<and> r_ScheduledOn rec = ''x''} = 1"
proof -
  let ?r = "\<lparr>nr_ID = ''x'', nr_Pending = 1, nr_GPUPressure = 1, nr_Rank = 0\<rparr>"
  let ?b = "demo_broker\<lparr>b_scheduler := False\<rparr>"
  let ?out = "replayActiveWorkloadsToScheduler (replicate (length (ActiveSnapshot (b_workloads demo_broker))) True) demo_broker"
  have start: "pipeline NoFusing ?b undefined"
    by (rule pipeline.Start) (simp_all add: demo_broker_store)
  have same: "replayActiveWorkloadsToScheduler (replicate (length (ActiveSnapshot (b_workloads ?b))) True) ?b = ?out"
    by (simp add: replayActiveWorkloadsToScheduler_def)
  have "pipeline NoFusing (?b\<lparr>b_scheduler := True\<rparr>) (feed NoFusing 0 ?out (Scheduler.NewManager 0))"
    by (rule pipeline.SchedulerUp [OF start _ same [symmetric]]) (simp add: in_int64_def)
  moreover have "?b\<lparr>b_scheduler := True\<rparr> = demo_broker" by (simp add: demo_broker_def)
  ultimately have up: "pipeline NoFusing demo_broker (feed NoFusing 0 ?out (Scheduler.NewManager 0))" by simp
  have "pipeline NoFusing demo_broker demo_sched"
    unfolding demo_sched_def
    by (rule pipeline.OtherMessage [OF up]) (simp_all add: demo_x_msg_def notification_def Message0_def)
  moreover have "b_scheduler demo_broker" by (simp add: demo_broker_def)
  moreover have rank: "snd (rankAt 0 demo_sched) = [?r]" by code_simp
  ultimately have "nr_Pending ?r = int (card {k. \<exists>rec. mget (s_records (b_workloads demo_broker)) k = Some rec \<and>
      active rec \<and> r_ScheduledOn rec = nr_ID ?r})"
    by (intro scheduler_counts_the_store [where m = demo_sched and now = 0 and f = NoFusing]) simp_all
  then show ?thesis using rank by simp
qed

end
