(* ===== verification/WorkloadManager.thy ===== *)
theory WorkloadManager
  imports ClusterTrust JsonRpc
begin

section \<open>The workload manager\<close>

text \<open>
  \<open>nvpair-workload-manager\<close>: the bounded duplicate index (\<open>dedup.go\<close>), the wire objects
  (\<open>workload.go\<close>), the inter-node endpoint (\<open>server.go\<close>), the broadcast target set
  (\<open>peers.go\<close>, \<open>relaysource.go\<close>), the delivery loop (\<open>broadcast.go\<close>) and the local interface
  with its anti-entropy set (\<open>manager.go\<close>). The outcomes of the mesh's pin check, of writes to the
  broker and of posts to a peer are arguments; handlers return what they emit.
\<close>

subsection \<open>The duplicate index\<close>

definition defaultDedupCapacity :: int where "defaultDedupCapacity = 10000"

record dedupIndex =
  dd_capacity :: int
  dd_ll :: "string list"
  dd_items :: "(string, string) gomap"

definition newDedupIndex :: "int \<Rightarrow> dedupIndex" where
  "newDedupIndex capacity =
     \<lparr>dd_capacity = (if capacity \<le> 0 then defaultDedupCapacity else capacity), dd_ll = [], dd_items = []\<rparr>"

text \<open>\<open>items\<close> maps a key to its element of the list, identified by the key it carries.\<close>

definition seenOrAdd :: "string \<Rightarrow> dedupIndex \<Rightarrow> dedupIndex \<times> bool" where
  "seenOrAdd key d =
     (case mget (dd_items d) key of
        Some el \<Rightarrow> (d\<lparr>dd_ll := el # remove1 el (dd_ll d)\<rparr>, True)
      | None \<Rightarrow>
          (let ll = key # dd_ll d; items = mput key key (dd_items d) in
           if int (length ll) > dd_capacity d
           then (d\<lparr>dd_ll := butlast ll, dd_items := mdel (last ll) items\<rparr>, False)
           else (d\<lparr>dd_ll := ll, dd_items := items\<rparr>, False)))"

subsection \<open>Wire objects\<close>

record Workload =
  w_ID :: string
  w_Model :: string
  w_Engine :: string
  w_RunID :: string
  w_State :: string
  w_OriginatedFrom :: string
  w_ScheduledOn :: string
  w_CreatedAt :: int
  w_StartedAt :: "int option"
  w_CompletedAt :: "int option"
  w_Error :: "string option"
  w_RequesterID :: "string option"

definition Workload0 :: Workload where
  "Workload0 = \<lparr>w_ID = [], w_Model = [], w_Engine = [], w_RunID = [], w_State = [], w_OriginatedFrom = [],
     w_ScheduledOn = [], w_CreatedAt = 0, w_StartedAt = None, w_CompletedAt = None, w_Error = None,
     w_RequesterID = None\<rparr>"

definition workload_fields :: "Workload field list" where
  "workload_fields =
     [fld ''id'' dec_string w_ID (\<lambda>v r. r\<lparr>w_ID := v\<rparr>),
      fld ''model'' dec_string w_Model (\<lambda>v r. r\<lparr>w_Model := v\<rparr>),
      fld ''engine'' dec_string w_Engine (\<lambda>v r. r\<lparr>w_Engine := v\<rparr>),
      fld ''runId'' dec_string w_RunID (\<lambda>v r. r\<lparr>w_RunID := v\<rparr>),
      fld ''state'' dec_string w_State (\<lambda>v r. r\<lparr>w_State := v\<rparr>),
      fld ''originatedFrom'' dec_string w_OriginatedFrom (\<lambda>v r. r\<lparr>w_OriginatedFrom := v\<rparr>),
      fld ''scheduledOn'' dec_string w_ScheduledOn (\<lambda>v r. r\<lparr>w_ScheduledOn := v\<rparr>),
      fld ''createdAt'' dec_int64 w_CreatedAt (\<lambda>v r. r\<lparr>w_CreatedAt := v\<rparr>),
      fld ''startedAt'' (dec_ptr dec_int64 0) w_StartedAt (\<lambda>v r. r\<lparr>w_StartedAt := v\<rparr>),
      fld ''completedAt'' (dec_ptr dec_int64 0) w_CompletedAt (\<lambda>v r. r\<lparr>w_CompletedAt := v\<rparr>),
      fld ''error'' (dec_ptr dec_string []) w_Error (\<lambda>v r. r\<lparr>w_Error := v\<rparr>),
      fld ''requesterId'' (dec_ptr dec_string []) w_RequesterID (\<lambda>v r. r\<lparr>w_RequesterID := v\<rparr>)]"

text \<open>\<open>json.Marshal\<close> of a workload; \<open>omitempty\<close> drops an empty string.\<close>

definition marshal_ptr :: "('a \<Rightarrow> json) \<Rightarrow> 'a option \<Rightarrow> json" where
  "marshal_ptr f v = (case v of None \<Rightarrow> JNull | Some x \<Rightarrow> f x)"

definition marshalWorkload :: "Workload \<Rightarrow> json" where
  "marshalWorkload w = JObj (
     [(''id'', JStr (w_ID w)), (''model'', JStr (w_Model w)), (''engine'', JStr (w_Engine w))] @
     (if w_RunID w = [] then [] else [(''runId'', JStr (w_RunID w))]) @
     [(''state'', JStr (w_State w)), (''originatedFrom'', JStr (w_OriginatedFrom w))] @
     (if w_ScheduledOn w = [] then [] else [(''scheduledOn'', JStr (w_ScheduledOn w))]) @
     [(''createdAt'', JInt (w_CreatedAt w)),
      (''startedAt'', marshal_ptr JInt (w_StartedAt w)),
      (''completedAt'', marshal_ptr JInt (w_CompletedAt w)),
      (''error'', marshal_ptr JStr (w_Error w)),
      (''requesterId'', marshal_ptr JStr (w_RequesterID w))])"

definition MethodSubmitted :: string where "MethodSubmitted = ''workload:submitted''"
definition MethodStarted :: string where "MethodStarted = ''workload:started''"
definition MethodCompleted :: string where "MethodCompleted = ''workload:completed''"
definition MethodErrored :: string where "MethodErrored = ''workload:errored''"
definition MethodRemove :: string where "MethodRemove = ''workloads:remove''"
definition MethodUpsert :: string where "MethodUpsert = ''workloads:upsert''"

lemmas method_defs = MethodSubmitted_def MethodStarted_def MethodCompleted_def MethodErrored_def
  MethodRemove_def MethodUpsert_def

definition lifecycleMethods :: "(string \<times> string) list" where
  "lifecycleMethods =
     [(MethodSubmitted, ''queued''), (MethodStarted, ''running''),
      (MethodCompleted, ''completed''), (MethodErrored, ''failed'')]"

definition isLifecycleMethod :: "string \<Rightarrow> bool" where
  "isLifecycleMethod m \<longleftrightarrow> mhas lifecycleMethods m"

datatype parse_error = InvalidParams | MissingInfo | RequiredField string | MissingWorkloadId

definition lifecycle_fields :: "Workload option field list" where
  "lifecycle_fields = [fld ''workloadInfo'' (dec_ptr (dec_struct workload_fields) Workload0) id (\<lambda>v r. v)]"

definition parseLifecycle :: "raw \<Rightarrow> parse_error + Workload" where
  "parseLifecycle params =
     (case Unmarshal (dec_struct lifecycle_fields) None params of
        None \<Rightarrow> Inl InvalidParams
      | Some None \<Rightarrow> Inl MissingInfo
      | Some (Some w) \<Rightarrow>
          if w_ID w = [] then Inl (RequiredField ''id'')
          else if w_Model w = [] then Inl (RequiredField ''model'')
          else if w_Engine w = [] then Inl (RequiredField ''engine'')
          else if w_State w = [] then Inl (RequiredField ''state'')
          else if w_OriginatedFrom w = [] then Inl (RequiredField ''originatedFrom'')
          else Inr w)"

definition remove_fields :: "(string \<times> string) field list" where
  "remove_fields =
     [fld ''workloadId'' dec_string fst (\<lambda>v r. (v, snd r)),
      fld ''originatedFrom'' dec_string snd (\<lambda>v r. (fst r, v))]"

definition parseRemove :: "raw \<Rightarrow> parse_error + (string \<times> string)" where
  "parseRemove params =
     (case Unmarshal (dec_struct remove_fields) ([], []) params of
        None \<Rightarrow> Inl InvalidParams
      | Some (wid, node) \<Rightarrow> if wid = [] then Inl MissingWorkloadId else Inr (wid, node))"

text \<open>The keys, with their parts joined by zero bytes.\<close>

definition NUL :: string where "NUL = [CHR 0x00]"

definition keyLifecycle :: "Workload \<Rightarrow> string" where
  "keyLifecycle w = ''wl'' @ NUL @ w_OriginatedFrom w @ NUL @ w_Engine w @ NUL @ w_RunID w @ NUL @
     w_ID w @ NUL @ w_State w"

definition keyRemove :: "string \<Rightarrow> string \<Rightarrow> string" where
  "keyRemove nodeID workloadID = ''rm'' @ NUL @ nodeID @ NUL @ workloadID"

subsection \<open>The inter-node endpoint\<close>

text \<open>What goes to the broker: \<open>workloads:upsert\<close> or \<open>workloads:remove\<close>.\<close>

datatype broker_msg = EmitUpsert Workload | EmitRemove string string

record response =
  status :: int
  emitted :: "broker_msg list"

definition reply :: "int \<Rightarrow> response" where
  "reply code = \<lparr>status = code, emitted = []\<rparr>"

definition resync_fields :: "bool field list" where
  "resync_fields = [fld ''resync'' dec_bool id (\<lambda>v r. v)]"

definition isResyncFrame :: "raw \<Rightarrow> bool" where
  "isResyncFrame params = (Unmarshal (dec_struct resync_fields) False params = Some True)"

definition handleLifecycle :: "bool \<Rightarrow> raw \<Rightarrow> dedupIndex \<Rightarrow> dedupIndex \<times> response" where
  "handleLifecycle emit_ok params d =
     (case parseLifecycle params of
        Inl _ \<Rightarrow> (d, reply 400)
      | Inr wl \<Rightarrow>
          (let (d', dup) = (if \<not> isResyncFrame params then seenOrAdd (keyLifecycle wl) d else (d, False)) in
           if dup then (d', reply 200)
           else if \<not> emit_ok then (d', reply 500)
           else (d', \<lparr>status = 200, emitted = [EmitUpsert wl]\<rparr>)))"

definition handleRemove :: "bool \<Rightarrow> raw \<Rightarrow> dedupIndex \<Rightarrow> dedupIndex \<times> response" where
  "handleRemove emit_ok params d =
     (case parseRemove params of
        Inl _ \<Rightarrow> (d, reply 400)
      | Inr (workloadID, nodeID) \<Rightarrow>
          (let (d', dup) = seenOrAdd (keyRemove nodeID workloadID) d in
           if dup then (d', reply 200)
           else if \<not> emit_ok then (d', reply 500)
           else (d', \<lparr>status = 200, emitted = [EmitRemove workloadID nodeID]\<rparr>)))"

record request =
  rq_pinned :: bool
  rq_Method :: string
  rq_Body :: raw

text \<open>
  \<open>rq_pinned\<close> is the answer of \<open>mesh.VerifyClientPin\<close> after the refresh; \<open>rq_Body\<close> is \<open>None\<close> when
  the body could not be read or is no JSON document.
\<close>

definition handleEvents :: "bool \<Rightarrow> request \<Rightarrow> dedupIndex \<Rightarrow> dedupIndex \<times> response" where
  "handleEvents emit_ok r d =
     (if \<not> rq_pinned r then (d, reply 403)
      else if rq_Method r \<noteq> ''POST'' then (d, reply 405)
      else case Unmarshal (dec_struct message_fields) Message0 (rq_Body r) of
        None \<Rightarrow> (d, reply 400)
      | Some msg \<Rightarrow>
          if msg_JSONRPC msg \<noteq> ''2.0'' then (d, reply 400)
          else if isLifecycleMethod (msg_Method msg) then handleLifecycle emit_ok (msg_Params msg) d
          else if msg_Method msg = MethodRemove then handleRemove emit_ok (msg_Params msg) d
          else (d, reply 400))"

subsection \<open>Broadcast targets\<close>

record PeerNode =
  pn_ID :: string
  pn_Host :: string
  pn_Addresses :: "string list"
  pn_Port :: int
  pn_TXT :: "string list"

definition pn_addresses :: "PeerNode \<Rightarrow> string list" where
  "pn_addresses n =
     (let hosts = Candidates (pn_TXT n) (pn_Addresses n) in
      if hosts \<noteq> [] then hosts else if pn_Host n \<noteq> [] then [pn_Host n] else [])"

record peerEntry =
  pe_candidates :: "string list"
  pe_uuid :: string

record peerSet =
  ps_defaultPort :: int
  ps_peers :: "(string, peerEntry) gomap"

definition peer_entry :: "int \<Rightarrow> PeerNode \<Rightarrow> (string \<times> peerEntry) list" where
  "peer_entry defaultPort n =
     (let as = pn_addresses n in
      if as = [] then []
      else let port = (if pn_Port n = 0 then defaultPort else pn_Port n);
               id = (if pn_ID n = [] then hd as else pn_ID n)
           in [(id, \<lparr>pe_candidates = map (\<lambda>a. JoinHostPort a (Itoa port)) as,
                     pe_uuid = ClusterUUIDFromTXT (pn_TXT n)\<rparr>)])"

definition Replace :: "PeerNode list \<Rightarrow> peerSet \<Rightarrow> peerSet \<times> string list \<times> string list" where
  "Replace nodes p =
     (let next = mputs (concat (map (peer_entry (ps_defaultPort p)) nodes)) [];
          added = filter (\<lambda>id. \<not> mhas (ps_peers p) id) (mkeys next);
          removed = filter (\<lambda>id. \<not> mhas next id) (mkeys (ps_peers p))
      in (p\<lparr>ps_peers := next\<rparr>, added, removed))"

record target =
  t_id :: string
  t_candidates :: "string list"
  t_uuid :: string

definition targets :: "peerSet \<Rightarrow> target list" where
  "targets p = map (\<lambda>(id, e). \<lparr>t_id = id, t_candidates = pe_candidates e, t_uuid = pe_uuid e\<rparr>) (ps_peers p)"

record relayPeerSource =
  rs_selfUUID :: string
  rs_peers :: "(string, PeerNode) gomap"

definition directoryToPeerNode :: "DirectoryNode \<Rightarrow> PeerNode option" where
  "directoryToPeerNode n =
     (case nget (d_Services n) ServiceWorkload of
        None \<Rightarrow> None
      | Some svc \<Rightarrow>
          if CandidateIPs n = [] then None
          else Some
            \<lparr>pn_ID = d_HostUUID n, pn_Host = d_Name n, pn_Addresses = CandidateIPs n, pn_Port = ss_Port svc,
             pn_TXT = AddressTXT n @
               (if d_ClusterUUID n \<noteq> [] then [kv ClusterUUIDTXTKey (d_ClusterUUID n)] else [])\<rparr>)"

definition isSelf :: "DirectoryNode \<Rightarrow> relayPeerSource \<Rightarrow> bool" where
  "isSelf n r \<longleftrightarrow> d_HostUUID n = rs_selfUUID r"

definition relay_entry :: "relayPeerSource \<Rightarrow> DirectoryNode \<Rightarrow> (string \<times> PeerNode) list" where
  "relay_entry r node =
     (if isSelf node r then []
      else case directoryToPeerNode node of
        None \<Rightarrow> []
      | Some pn \<Rightarrow> [(d_HostUUID node, pn)])"

definition relay_set :: "DirectoryNode list \<Rightarrow> relayPeerSource \<Rightarrow> relayPeerSource" where
  "relay_set nodes r = r\<lparr>rs_peers := mputs (concat (map (relay_entry r) nodes)) []\<rparr>"

definition Nodes :: "relayPeerSource \<Rightarrow> PeerNode list" where
  "Nodes r = mvals (rs_peers r)"

subsection \<open>Delivery\<close>

definition maxBroadcastAttempts :: nat where "maxBroadcastAttempts = 3"
definition retryBaseDelay :: duration where "retryBaseDelay = 200 * Millisecond"

datatype post_result = PostOK | PostStatus int | PostFailed

text \<open>
  What one attempt meets: whether the context was cancelled before it, whether the pool still
  holds a pinned client for the peer, the address chosen, the outcome of the post, and whether
  the context was cancelled during the back-off.
\<close>

record attempt =
  at_cancelled :: bool
  at_pinned :: bool
  at_hostport :: string
  at_post :: post_result
  at_wait_cancelled :: bool

datatype delivery = Post string | Forget | Backoff duration

fun deliver_from :: "nat \<Rightarrow> nat \<Rightarrow> duration \<Rightarrow> (nat \<Rightarrow> attempt) \<Rightarrow> delivery list" where
  "deliver_from 0 n delay env = []"
| "deliver_from (Suc left) n delay env =
     (let e = env n in
      if at_cancelled e then []
      else if \<not> at_pinned e then []
      else Post (at_hostport e) #
        (if at_post e = PostOK then []
         else (case at_post e of PostStatus _ \<Rightarrow> [] | _ \<Rightarrow> [Forget]) @
           (if left = 0 then []
            else Backoff delay #
              (if at_wait_cancelled e then [] else deliver_from left (n + 1) (delay * 2) env))))"

definition deliver :: "(nat \<Rightarrow> attempt) \<Rightarrow> delivery list" where
  "deliver env = deliver_from maxBroadcastAttempts 1 retryBaseDelay env"

text \<open>A round: nothing at all unless this node is clustered, otherwise every target.\<close>

definition Broadcast :: "bool \<Rightarrow> (target \<Rightarrow> nat \<Rightarrow> attempt) \<Rightarrow> peerSet \<Rightarrow> (target \<times> delivery list) list" where
  "Broadcast clustered env p = (if \<not> clustered then [] else map (\<lambda>t. (t, deliver (env t))) (targets p))"

subsection \<open>The local interface and the re-sync set\<close>

definition resyncInterval :: duration where "resyncInterval = 30 * Second"
definition terminalRetention :: duration where "terminalRetention = 2 * resyncInterval"

record workloadKey =
  wk_origin :: string
  wk_engine :: string
  wk_runID :: string
  wk_id :: string

record workloadEvent =
  we_method :: string
  we_params :: raw
  we_terminal :: bool
  we_expiresAt :: time

record Manager =
  m_dedup :: dedupIndex
  m_peers :: peerSet
  m_relay :: relayPeerSource
  m_activeLocal :: "(workloadKey, workloadEvent) gomap"
  m_level :: level
  m_cancelled :: bool

definition NewManager :: "int \<Rightarrow> string \<Rightarrow> Manager" where
  "NewManager port selfUUID =
     \<lparr>m_dedup = newDedupIndex defaultDedupCapacity, m_peers = \<lparr>ps_defaultPort = port, ps_peers = []\<rparr>,
      m_relay = \<lparr>rs_selfUUID = selfUUID, rs_peers = []\<rparr>, m_activeLocal = [], m_level = LevelInfo,
      m_cancelled = False\<rparr>"

text \<open>A frame handed to the broadcaster: method and params.\<close>

type_synonym frame = "string \<times> raw"

definition key_of :: "Workload \<Rightarrow> workloadKey" where
  "key_of w = \<lparr>wk_origin = w_OriginatedFrom w, wk_engine = w_Engine w, wk_runID = w_RunID w, wk_id = w_ID w\<rparr>"

definition trackActive :: "time \<Rightarrow> workloadKey \<Rightarrow> string \<Rightarrow> raw \<Rightarrow> string \<Rightarrow> Manager \<Rightarrow> Manager" where
  "trackActive now key meth params state m =
     (let terminal = (state = ''completed'' \<or> state = ''failed'') in
      case mget (m_activeLocal m) key of
        Some cur \<Rightarrow>
          if we_terminal cur \<and> \<not> terminal then m
          else m\<lparr>m_activeLocal := mput key
            (if terminal then \<lparr>we_method = meth, we_params = params, we_terminal = True, we_expiresAt = now + terminalRetention\<rparr>
             else \<lparr>we_method = meth, we_params = params, we_terminal = False, we_expiresAt = zero_time\<rparr>) (m_activeLocal m)\<rparr>
      | None \<Rightarrow>
          m\<lparr>m_activeLocal := mput key
            (if terminal then \<lparr>we_method = meth, we_params = params, we_terminal = True, we_expiresAt = now + terminalRetention\<rparr>
             else \<lparr>we_method = meth, we_params = params, we_terminal = False, we_expiresAt = zero_time\<rparr>) (m_activeLocal m)\<rparr>)"

definition untrackActive :: "string \<Rightarrow> string \<Rightarrow> Manager \<Rightarrow> Manager" where
  "untrackActive origin wid m =
     m\<lparr>m_activeLocal := mkeep (\<lambda>k ev. \<not> (wk_origin k = origin \<and> wk_id k = wid)) (m_activeLocal m)\<rparr>"

definition expired :: "time \<Rightarrow> workloadEvent \<Rightarrow> bool" where
  "expired now ev \<longleftrightarrow> we_terminal ev \<and> \<not> IsZero (we_expiresAt ev) \<and> now > we_expiresAt ev"

definition activeSnapshot :: "time \<Rightarrow> Manager \<Rightarrow> Manager \<times> workloadEvent list" where
  "activeSnapshot now m =
     (let live = mkeep (\<lambda>k ev. \<not> expired now ev) (m_activeLocal m)
      in (m\<lparr>m_activeLocal := live\<rparr>, mvals live))"

text \<open>The params of a re-assertion, tagged so that receivers let it through.\<close>

definition broadcastResync :: "string \<Rightarrow> raw \<Rightarrow> frame go" where
  "broadcastResync meth params =
     (case decode_rawmap params of
        None \<Rightarrow> Returns (meth, params)
      | Some None \<Rightarrow> Panics
      | Some (Some env) \<Rightarrow> Returns (meth, Some (MarshalMap (mput ''resync'' (JBool True) env))))"

definition broadcastSnapshot :: "time \<Rightarrow> Manager \<Rightarrow> Manager \<times> frame go list" where
  "broadcastSnapshot now m =
     (let (m', evs) = activeSnapshot now m
      in (m', map (\<lambda>ev. broadcastResync (we_method ev) (we_params ev)) evs))"

definition refreshPeers :: "time \<Rightarrow> Manager \<Rightarrow> Manager \<times> frame go list" where
  "refreshPeers now m =
     (let (ps, added, removed) = Replace (Nodes (m_relay m)) (m_peers m);
          m1 = m\<lparr>m_peers := ps\<rparr>
      in if added \<noteq> [] then broadcastSnapshot now m1 else (m1, []))"

definition handleLocalLifecycle :: "time \<Rightarrow> Message \<Rightarrow> Manager \<Rightarrow> Manager \<times> frame list" where
  "handleLocalLifecycle now msg m =
     (case parseLifecycle (msg_Params msg) of
        Inl _ \<Rightarrow> (m, [])
      | Inr wl \<Rightarrow>
          (trackActive now (key_of wl) (msg_Method msg) (msg_Params msg) (w_State wl) m,
           [(msg_Method msg, msg_Params msg)]))"

definition handleLocalRemove :: "Message \<Rightarrow> Manager \<Rightarrow> Manager \<times> frame list" where
  "handleLocalRemove msg m =
     (case parseRemove (msg_Params msg) of
        Inl _ \<Rightarrow> (m, [])
      | Inr (workloadID, nodeID) \<Rightarrow> (untrackActive nodeID workloadID m, [(msg_Method msg, msg_Params msg)]))"

definition applyDiscovery :: "Message \<Rightarrow> Manager \<Rightarrow> Manager" where
  "applyDiscovery msg m =
     (case decode_nodes (msg_Params msg) of
        None \<Rightarrow> m
      | Some nodes \<Rightarrow> m\<lparr>m_relay := relay_set nodes (m_relay m)\<rparr>)"

definition handleMessage :: "time \<Rightarrow> Message \<Rightarrow> Manager \<Rightarrow> Manager \<times> frame list \<times> answer list" where
  "handleMessage now msg m =
     (if IsResponse msg then (m, [], [])
      else if msg_Method msg = SetLevelMethod then
        (let (l, as) = handle_set_level msg (m_level m) in (m\<lparr>m_level := l\<rparr>, [], as))
      else if msg_Method msg = NotifyNodes then (applyDiscovery msg m, [], [])
      else if isLifecycleMethod (msg_Method msg) then
        (let (m', fs) = handleLocalLifecycle now msg m in (m', fs, []))
      else if msg_Method msg = MethodRemove then
        (let (m', fs) = handleLocalRemove msg m in (m', fs, []))
      else if msg_Method msg = ''shutdown'' then
        (m\<lparr>m_cancelled := True\<rparr>, [], if IsRequest msg then [Respond (msg_ID msg) JNull] else [])
      else (m, [], if IsRequest msg then [RespondError (msg_ID msg) (- 32601)] else []))"

subsection \<open>The index is a least-recently-used set\<close>

definition dedup_inv :: "dedupIndex \<Rightarrow> bool" where
  "dedup_inv d \<longleftrightarrow> 0 < dd_capacity d \<and> distinct (dd_ll d) \<and> int (length (dd_ll d)) \<le> dd_capacity d \<and>
     (\<forall>k. mget (dd_items d) k = (if k \<in> set (dd_ll d) then Some k else None))"

lemma newDedupIndex_inv: "dedup_inv (newDedupIndex c)"
  by (simp add: dedup_inv_def newDedupIndex_def defaultDedupCapacity_def)

lemma seenOrAdd_result: "dedup_inv d \<Longrightarrow> snd (seenOrAdd k d) \<longleftrightarrow> k \<in> set (dd_ll d)"
  by (simp add: seenOrAdd_def dedup_inv_def Let_def)

lemma seenOrAdd_list:
  assumes "dedup_inv d"
  shows "dd_ll (fst (seenOrAdd k d)) = take (nat (dd_capacity d)) (k # removeAll k (dd_ll d))"
proof (cases "k \<in> set (dd_ll d)")
  case True
  have "length (removeAll k (dd_ll d)) < length (dd_ll d)"
    using True by (rule length_removeAll_less)
  moreover have "int (length (dd_ll d)) \<le> dd_capacity d" using assms by (simp add: dedup_inv_def)
  ultimately have "length (k # removeAll k (dd_ll d)) \<le> nat (dd_capacity d)" by simp
  then have "take (nat (dd_capacity d)) (k # removeAll k (dd_ll d)) = k # removeAll k (dd_ll d)"
    by (rule take_all)
  then show ?thesis
    using assms True by (simp add: seenOrAdd_def dedup_inv_def distinct_remove1_removeAll)
next
  case False
  have "nat (dd_capacity d) \<noteq> 0" using assms by (simp add: dedup_inv_def)
  moreover have "butlast (k # dd_ll d) = take (length (dd_ll d)) (k # dd_ll d)"
    by (simp add: butlast_conv_take del: butlast.simps)
  ultimately show ?thesis
    using assms False by (auto simp: seenOrAdd_def dedup_inv_def Let_def nat_eq_iff2 intro!: arg_cong [where f = "\<lambda>n. take n _"])
qed

lemma seenOrAdd_inv:
  assumes "dedup_inv d"
  shows "dedup_inv (fst (seenOrAdd k d))"
proof (cases "k \<in> set (dd_ll d)")
  case True
  then show ?thesis
    using assms by (auto simp: seenOrAdd_def dedup_inv_def length_remove1 set_remove1_eq)
next
  case False
  show ?thesis
  proof (cases "int (length (k # dd_ll d)) > dd_capacity d")
    case True
    have "distinct (k # dd_ll d)" using assms False by (simp add: dedup_inv_def)
    then have "distinct (butlast (k # dd_ll d)) \<and> last (k # dd_ll d) \<notin> set (butlast (k # dd_ll d))"
      by (metis append_butlast_last_id distinct_butlast list.discI not_distinct_conv_prefix)
    moreover have "set (k # dd_ll d) = insert (last (k # dd_ll d)) (set (butlast (k # dd_ll d)))"
      by (metis append_butlast_last_id list.discI list.simps(15) rotate1.simps(2) set_rotate1)
    ultimately show ?thesis
      using assms False True
      by (auto simp: seenOrAdd_def dedup_inv_def Let_def mget_mdel mget_mput simp del: butlast.simps last.simps)
  next
    case fits: False
    then show ?thesis
      using assms False by (auto simp: seenOrAdd_def dedup_inv_def Let_def mget_mput)
  qed
qed

lemma seenOrAdd_capacity [simp]: "dd_capacity (fst (seenOrAdd k d)) = dd_capacity d"
  by (simp add: seenOrAdd_def Let_def split: option.splits)

definition see_all :: "string list \<Rightarrow> dedupIndex \<Rightarrow> dedupIndex" where
  "see_all ks d = foldl (\<lambda>d k. fst (seenOrAdd k d)) d ks"

text \<open>The distinct keys of a history, the most recent first.\<close>

definition recent :: "string list \<Rightarrow> string list" where
  "recent ks = rev (remdups ks)"

lemma recent_snoc: "recent (ks @ [k]) = k # removeAll k (recent ks)"
proof -
  have "remdups (ks @ [k]) = removeAll k (remdups ks) @ [k]"
    by (induction ks) auto
  then show ?thesis by (simp add: recent_def removeAll_filter_not_eq rev_filter)
qed

lemma take_removeAll:
  "distinct xs \<Longrightarrow> take n (k # removeAll k (take n xs)) = take n (k # removeAll k xs)"
proof (induction xs arbitrary: n)
  case (Cons x xs)
  show ?case
  proof (cases n)
    case (Suc m)
    show ?thesis
    proof (cases "x = k")
      case True
      then have "k \<notin> set xs" using Cons.prems by simp
      moreover then have "k \<notin> set (take m xs)" by (meson in_set_takeD)
      ultimately show ?thesis using Suc True by simp
    next
      case False
      then show ?thesis using Cons.IH [of m] Cons.prems Suc by (cases m) auto
    qed
  qed simp
qed simp

lemma see_all_lru:
  "dedup_inv (see_all ks (newDedupIndex c)) \<and>
   dd_capacity (see_all ks (newDedupIndex c)) = dd_capacity (newDedupIndex c) \<and>
   dd_ll (see_all ks (newDedupIndex c)) = take (nat (dd_capacity (newDedupIndex c))) (recent ks)"
proof (induction ks rule: rev_induct)
  case Nil
  then show ?case using newDedupIndex_inv by (simp add: see_all_def recent_def newDedupIndex_def)
next
  case (snoc k ks)
  let ?d = "see_all ks (newDedupIndex c)"
  have "distinct (recent ks)" by (simp add: recent_def)
  have "see_all (ks @ [k]) (newDedupIndex c) = fst (seenOrAdd k ?d)" by (simp add: see_all_def)
  then show ?case
    using snoc.IH seenOrAdd_inv [of ?d k] seenOrAdd_list [of ?d k] take_removeAll [OF \<open>distinct (recent ks)\<close>]
    by (simp add: recent_snoc)
qed

subsection \<open>Keys\<close>

lemma NUL_split:
  assumes "a @ NUL @ b = a' @ NUL @ b'" and "CHR 0x00 \<notin> set a" and "CHR 0x00 \<notin> set a'"
  shows "a = a' \<and> b = b'"
proof -
  have eq: "a @ CHR 0x00 # b = a' @ CHR 0x00 # b'" using assms(1) by (simp only: NUL_def append.simps)
  have "Cut (CHR 0x00) (a @ CHR 0x00 # b) = Some (a, b)"
    using assms(2) by (rule Cut_append)
  moreover have "Cut (CHR 0x00) (a @ CHR 0x00 # b) = Some (a', b')"
    unfolding eq using assms(3) by (rule Cut_append)
  ultimately show ?thesis by simp
qed

definition NUL_free :: "Workload \<Rightarrow> bool" where
  "NUL_free w \<longleftrightarrow> CHR 0x00 \<notin> set (w_OriginatedFrom w) \<union> set (w_Engine w) \<union> set (w_RunID w) \<union> set (w_ID w)"

subsection \<open>Decoding lifecycle params\<close>

lemma find_lifecycle:
  "find_field lifecycle_fields k \<noteq> None \<longleftrightarrow> fold_name k = fold_name ''workloadInfo''"
  by (auto simp: lifecycle_fields_def find_field_def fld_def)

lemma find_resync: "find_field resync_fields k \<noteq> None \<longleftrightarrow> fold_name k = fold_name ''resync''"
  by (auto simp: resync_fields_def find_field_def fld_def)

text \<open>An object whose member names are distinct and no case variants of the names read here.\<close>

definition clean_params :: "(string \<times> json) list \<Rightarrow> bool" where
  "clean_params kvs \<longleftrightarrow> wf_map kvs \<and>
     list_all (\<lambda>k. (fold_name k = fold_name ''workloadInfo'' \<longrightarrow> k = ''workloadInfo'') \<and>
                  (fold_name k = fold_name ''resync'' \<longrightarrow> k = ''resync'')) (mkeys kvs)"

lemma relevant_single:
  assumes "wf_map m" and "p n" and "\<And>k. k \<in> set (mkeys m) \<Longrightarrow> p k \<Longrightarrow> k = n"
  shows "filter (\<lambda>(k, j). p k) m = (case mget m n of None \<Rightarrow> [] | Some j \<Rightarrow> [(n, j)])"
proof -
  have "filter (\<lambda>(k, j). p k) m = filter (\<lambda>(k, j). k = n) m"
  proof (rule filter_cong [OF refl])
    fix x assume "x \<in> set m"
    then show "(case x of (k, j) \<Rightarrow> p k) = (case x of (k, j) \<Rightarrow> k = n)"
      using assms(2) assms(3) [of "fst x"] by (auto simp: mkeys_def split: prod.splits)
  qed
  also have "\<dots> = (case mget m n of None \<Rightarrow> [] | Some j \<Rightarrow> [(n, j)])"
    using assms(1)
  proof (induction m)
    case (Cons kj m)
    obtain k j where kj: "kj = (k, j)" by (cases kj)
    have wf: "wf_map m" and fresh: "k \<notin> set (mkeys m)"
      using Cons.prems kj by (auto simp: wf_map_def mkeys_def)
    then have "filter (\<lambda>(k', j). k' = k) m = []"
      by (auto simp: filter_empty_conv mkeys_def image_iff)
    then show ?case using Cons.IH [OF wf] kj by (auto simp: mget_Cons)
  qed simp
  finally show ?thesis .
qed

lemma dec_lifecycle:
  assumes "wf_map kvs" and "\<And>k. k \<in> set (mkeys kvs) \<Longrightarrow> fold_name k = fold_name ''workloadInfo'' \<Longrightarrow> k = ''workloadInfo''"
  shows "dec_struct lifecycle_fields (JObj kvs) None =
    (case mget kvs ''workloadInfo'' of None \<Rightarrow> Some None | Some j \<Rightarrow> dec_ptr (dec_struct workload_fields) Workload0 j None)"
proof -
  have "filter (\<lambda>(k, j). find_field lifecycle_fields k \<noteq> None) kvs =
      (case mget kvs ''workloadInfo'' of None \<Rightarrow> [] | Some j \<Rightarrow> [(''workloadInfo'', j)])"
    unfolding find_lifecycle
    by (rule relevant_single [where p = "\<lambda>k. fold_name k = fold_name ''workloadInfo''", OF assms(1) refl assms(2)])
  then show ?thesis
    using dec_members_relevant [of lifecycle_fields kvs None]
    by (auto simp: lifecycle_fields_def find_field_def fld_def split: option.splits)
qed

lemma dec_resync:
  assumes "wf_map kvs" and "\<And>k. k \<in> set (mkeys kvs) \<Longrightarrow> fold_name k = fold_name ''resync'' \<Longrightarrow> k = ''resync''"
    and "mget kvs ''resync'' = Some (JBool True)"
  shows "dec_struct resync_fields (JObj kvs) False = Some True"
proof -
  have "filter (\<lambda>(k, j). find_field resync_fields k \<noteq> None) kvs = [(''resync'', JBool True)]"
    unfolding find_resync
    using relevant_single [where p = "\<lambda>k. fold_name k = fold_name ''resync''", OF assms(1) refl assms(2)] assms(3) by simp
  then show ?thesis
    using dec_members_relevant [of resync_fields kvs False]
    by (simp add: resync_fields_def find_field_def fld_def)
qed

lemma resync_not_info: "fold_name ''resync'' \<noteq> fold_name ''workloadInfo''"
  by code_simp

text \<open>The members of a re-assertion.\<close>

definition tagged :: "(string \<times> json) list \<Rightarrow> (string \<times> json) list" where
  "tagged kvs = sort_by (\<lambda>a b. fst a < fst b) (mput ''resync'' (JBool True) (mputs kvs []))"

lemma tagged_map:
  assumes "clean_params kvs"
  shows "wf_map (tagged kvs)"
    and "mget (tagged kvs) k = (if k = ''resync'' then Some (JBool True) else mget kvs k)"
    and "k \<in> set (mkeys (tagged kvs)) \<Longrightarrow>
      (fold_name k = fold_name ''workloadInfo'' \<longrightarrow> k = ''workloadInfo'') \<and> (fold_name k = fold_name ''resync'' \<longrightarrow> k = ''resync'')"
proof -
  let ?m = "mput ''resync'' (JBool True) (mputs kvs [])"
  have wf: "wf_map kvs" using assms by (simp add: clean_params_def)
  have "same_map ?m (tagged kvs)"
    by (intro mset_same_map) (simp_all add: tagged_def wf_mputs)
  then have tagged: "wf_map (tagged kvs)" "mget (tagged kvs) x = mget ?m x" for x
    by (simp_all add: same_map_def)
  show "wf_map (tagged kvs)" by (rule tagged)
  show get: "mget (tagged kvs) k = (if k = ''resync'' then Some (JBool True) else mget kvs k)" for k
    by (simp add: tagged(2) mget_mput mget_mputs [OF wf] split: option.splits)
  assume "k \<in> set (mkeys (tagged kvs))"
  then have "k = ''resync'' \<or> k \<in> set (mkeys kvs)"
    using get [of k] mget_None [of "tagged kvs" k] mget_None [of kvs k] by (auto split: if_splits)
  then show "(fold_name k = fold_name ''workloadInfo'' \<longrightarrow> k = ''workloadInfo'') \<and> (fold_name k = fold_name ''resync'' \<longrightarrow> k = ''resync'')"
    using assms resync_not_info by (auto simp: clean_params_def list_all_iff)
qed

subsection \<open>Workloads on the wire\<close>

definition valid_workload :: "Workload \<Rightarrow> bool" where
  "valid_workload w \<longleftrightarrow> w_ID w \<noteq> [] \<and> w_Model w \<noteq> [] \<and> w_Engine w \<noteq> [] \<and> w_State w \<noteq> [] \<and> w_OriginatedFrom w \<noteq> [] \<and>
     in_int64 (w_CreatedAt w) \<and> (\<forall>t. w_StartedAt w = Some t \<longrightarrow> in_int64 t) \<and> (\<forall>t. w_CompletedAt w = Some t \<longrightarrow> in_int64 t)"

lemma dec_marshal_ptr:
  "(\<forall>t. v = Some t \<longrightarrow> in_int64 t) \<Longrightarrow> dec_ptr dec_int64 0 (marshal_ptr JInt v) None = Some v"
  "dec_ptr dec_string [] (marshal_ptr JStr u) None = Some u"
  by (cases v; simp add: marshal_ptr_def) (cases u; simp add: marshal_ptr_def)

lemma dec_marshalWorkload:
  assumes "valid_workload w"
  shows "dec_struct workload_fields (marshalWorkload w) Workload0 = Some w"
proof -
  have ptrs: "dec_ptr dec_int64 0 (marshal_ptr JInt (w_StartedAt w)) None = Some (w_StartedAt w)"
    "dec_ptr dec_int64 0 (marshal_ptr JInt (w_CompletedAt w)) None = Some (w_CompletedAt w)"
    "dec_ptr dec_string [] (marshal_ptr JStr (w_Error w)) None = Some (w_Error w)"
    "dec_ptr dec_string [] (marshal_ptr JStr (w_RequesterID w)) None = Some (w_RequesterID w)"
    using assms by (simp_all add: dec_marshal_ptr valid_workload_def)
  have "in_int64 (w_CreatedAt w)" using assms by (simp add: valid_workload_def)
  then show ?thesis
    by (cases w) (use ptrs in \<open>simp add: marshalWorkload_def workload_fields_def find_field_def fld_def Workload0_def\<close>)
qed

definition wl_params :: "Workload \<Rightarrow> json" where
  "wl_params w = JObj [(''workloadInfo'', marshalWorkload w)]"

lemma parse_wl_params: "valid_workload w \<Longrightarrow> parseLifecycle (Some (wl_params w)) = Inr w"
proof -
  assume v: "valid_workload w"
  have "dec_ptr (dec_struct workload_fields) Workload0 (marshalWorkload w) None = Some (Some w)"
    using dec_marshalWorkload [OF v] by (simp add: marshalWorkload_def)
  then show ?thesis using v
    by (simp add: wl_params_def parseLifecycle_def lifecycle_fields_def find_field_def fld_def valid_workload_def)
qed

lemma clean_wl_params: "clean_params [(''workloadInfo'', j)]"
  using resync_not_info by (simp add: clean_params_def wf_map_def mkeys_def)

subsection \<open>The re-sync set\<close>

definition terminal_state :: "string \<Rightarrow> bool" where
  "terminal_state st \<longleftrightarrow> st = ''completed'' \<or> st = ''failed''"

definition tracked :: "time \<Rightarrow> string \<Rightarrow> raw \<Rightarrow> string \<Rightarrow> workloadEvent" where
  "tracked now meth params st =
     (if terminal_state st then \<lparr>we_method = meth, we_params = params, we_terminal = True, we_expiresAt = now + terminalRetention\<rparr>
      else \<lparr>we_method = meth, we_params = params, we_terminal = False, we_expiresAt = zero_time\<rparr>)"

lemma trackActive_eq:
  "trackActive now key meth params st m =
     (case mget (m_activeLocal m) key of
        Some cur \<Rightarrow> if we_terminal cur \<and> \<not> terminal_state st then m
                    else m\<lparr>m_activeLocal := mput key (tracked now meth params st) (m_activeLocal m)\<rparr>
      | None \<Rightarrow> m\<lparr>m_activeLocal := mput key (tracked now meth params st) (m_activeLocal m)\<rparr>)"
  by (simp add: trackActive_def tracked_def terminal_state_def Let_def split: option.splits)

text \<open>Every event kept is a valid lifecycle notification of the workload it is filed under.\<close>

definition event_ok :: "workloadKey \<Rightarrow> workloadEvent \<Rightarrow> bool" where
  "event_ok k ev \<longleftrightarrow> isLifecycleMethod (we_method ev) \<and>
     (case parseLifecycle (we_params ev) of
        Inl _ \<Rightarrow> False
      | Inr w \<Rightarrow> key_of w = k \<and> we_terminal ev = terminal_state (w_State w))"

definition manager_inv :: "Manager \<Rightarrow> bool" where
  "manager_inv m \<longleftrightarrow> wf_map (m_activeLocal m) \<and> (\<forall>k ev. mget (m_activeLocal m) k = Some ev \<longrightarrow> event_ok k ev)"

lemma NewManager_inv: "manager_inv (NewManager port self)"
  by (simp add: manager_inv_def NewManager_def)

lemma trackActive_inv:
  assumes "manager_inv m" and "isLifecycleMethod meth" and "parseLifecycle params = Inr w"
  shows "manager_inv (trackActive now (key_of w) meth params (w_State w) m)"
proof -
  have "event_ok (key_of w) (tracked now meth params (w_State w))"
    using assms(2,3) by (simp add: event_ok_def tracked_def)
  then show ?thesis
    using assms(1) by (auto simp: trackActive_eq manager_inv_def mget_mput split: option.splits)
qed

lemma keep_inv:
  assumes "manager_inv m"
  shows "manager_inv (m\<lparr>m_activeLocal := mkeep p (m_activeLocal m)\<rparr>)"
  using assms by (auto simp: manager_inv_def mget_mkeep split: option.splits if_splits)

lemma frame_inv:
  "manager_inv (m\<lparr>m_level := l\<rparr>) = manager_inv m" "manager_inv (m\<lparr>m_relay := r\<rparr>) = manager_inv m"
  "manager_inv (m\<lparr>m_peers := p\<rparr>) = manager_inv m" "manager_inv (m\<lparr>m_cancelled := b\<rparr>) = manager_inv m"
  by (simp_all add: manager_inv_def)

lemma handlers_inv:
  assumes "manager_inv m"
  shows "isLifecycleMethod (msg_Method msg) \<Longrightarrow> manager_inv (fst (handleLocalLifecycle now msg m))"
    and "manager_inv (fst (handleLocalRemove msg m))" and "manager_inv (applyDiscovery msg m)"
  using assms trackActive_inv [OF assms, of "msg_Method msg" "msg_Params msg"] keep_inv [OF assms]
  by (auto simp: handleLocalLifecycle_def handleLocalRemove_def applyDiscovery_def untrackActive_def frame_inv
      split: sum.splits option.splits)

lemma handleMessage_inv:
  assumes "manager_inv m"
  shows "manager_inv (fst (handleMessage now msg m))"
  using assms handlers_inv [OF assms, of msg]
  by (simp add: handleMessage_def frame_inv split_def Let_def)

lemma broadcastSnapshot_inv: "manager_inv m \<Longrightarrow> manager_inv (fst (broadcastSnapshot now m))"
  by (simp add: broadcastSnapshot_def activeSnapshot_def Let_def keep_inv)

lemma refreshPeers_inv: "manager_inv m \<Longrightarrow> manager_inv (fst (refreshPeers now m))"
  using broadcastSnapshot_inv [of "m\<lparr>m_peers := _\<rparr>"]
  by (simp add: refreshPeers_def split_def Let_def frame_inv)

text \<open>What moves a manager: messages on its stdin, discovery ticks and heartbeats.\<close>

inductive manager_reachable :: "Manager \<Rightarrow> bool" where
  mr_new: "manager_reachable (NewManager port self)"
| mr_message: "manager_reachable m \<Longrightarrow> manager_reachable (fst (handleMessage now msg m))"
| mr_discovery: "manager_reachable m \<Longrightarrow> manager_reachable (fst (refreshPeers now m))"
| mr_heartbeat: "manager_reachable m \<Longrightarrow> manager_reachable (fst (broadcastSnapshot now m))"
| mr_endpoint: "manager_reachable m \<Longrightarrow> manager_reachable (m\<lparr>m_dedup := fst (handleEvents ok r (m_dedup m))\<rparr>)"

lemma manager_reachable_inv: "manager_reachable m \<Longrightarrow> manager_inv m"
proof (induction rule: manager_reachable.induct)
  case (mr_endpoint m ok r)
  then show ?case by (simp add: manager_inv_def)
qed (simp_all add: NewManager_inv handleMessage_inv refreshPeers_inv broadcastSnapshot_inv)

lemma parse_object:
  assumes "parseLifecycle params = Inr w"
  shows "\<exists>kvs. params = Some (JObj kvs)"
proof (cases params)
  case (Some j)
  then show ?thesis using assms by (cases j) (auto simp: parseLifecycle_def)
qed (use assms in \<open>simp add: parseLifecycle_def\<close>)

lemma broadcastResync_total:
  assumes "event_ok k ev"
  shows "\<exists>p. broadcastResync (we_method ev) (we_params ev) = Returns (we_method ev, Some p)"
proof -
  obtain w where "parseLifecycle (we_params ev) = Inr w"
    using assms by (auto simp: event_ok_def split: sum.splits)
  then show ?thesis using parse_object by (fastforce simp: broadcastResync_def)
qed

subsection \<open>Theorems\<close>

text \<open>
  C22. The duplicate index answers as an LRU set of its capacity: after any history of keys it holds
  exactly the most recently seen distinct ones, and reports a duplicate precisely for those.
\<close>

theorem dedup_refines_lru:
  assumes "0 < c"
  shows "dd_ll (see_all ks (newDedupIndex c)) = take (nat c) (recent ks) \<and>
    (snd (seenOrAdd k (see_all ks (newDedupIndex c))) \<longleftrightarrow> k \<in> set (take (nat c) (recent ks)))"
  using assms see_all_lru [of ks c] seenOrAdd_result [of "see_all ks (newDedupIndex c)" k]
  by (simp add: newDedupIndex_def)

theorem dedup_refines_lru_witness:
  "dd_ll (see_all [''a'', ''b'', ''a'', ''c''] (newDedupIndex 2)) = [''c'', ''a'']"
  using dedup_refines_lru [of 2 "[''a'', ''b'', ''a'', ''c'']"] by (simp add: recent_def)

text \<open>
  No two different lifecycle steps collide in the index, and none collides with a removal: as
  long as the identifiers hold no zero byte, equal keys mean the same origin, engine, run, id and
  state.
\<close>

theorem keyLifecycle_injective:
  assumes "NUL_free w" and "NUL_free v" and "keyLifecycle w = keyLifecycle v"
  shows "key_of w = key_of v \<and> w_State w = w_State v \<and> keyLifecycle w \<noteq> keyRemove node wid"
proof -
  let ?t = "\<lambda>w. w_ID w @ NUL @ w_State w"
  have 1: "w_OriginatedFrom w @ NUL @ w_Engine w @ NUL @ w_RunID w @ NUL @ ?t w =
      w_OriginatedFrom v @ NUL @ w_Engine v @ NUL @ w_RunID v @ NUL @ ?t v"
    using assms(3) by (simp add: keyLifecycle_def NUL_def)
  have f: "CHR 0x00 \<notin> set (w_OriginatedFrom x) \<and> CHR 0x00 \<notin> set (w_Engine x) \<and> CHR 0x00 \<notin> set (w_RunID x) \<and>
      CHR 0x00 \<notin> set (w_ID x)" if "NUL_free x" for x
    using that by (simp add: NUL_free_def)
  note fw = f [OF assms(1)] and fv = f [OF assms(2)]
  have 2: "w_OriginatedFrom w = w_OriginatedFrom v \<and> w_Engine w @ NUL @ w_RunID w @ NUL @ ?t w = w_Engine v @ NUL @ w_RunID v @ NUL @ ?t v"
    using fw fv by (intro NUL_split [OF 1]) blast+
  then have 3: "w_Engine w = w_Engine v \<and> w_RunID w @ NUL @ ?t w = w_RunID v @ NUL @ ?t v"
    using fw fv by (intro NUL_split) blast+
  then have 4: "w_RunID w = w_RunID v \<and> ?t w = ?t v"
    using fw fv by (intro NUL_split) blast+
  then have 5: "w_ID w = w_ID v \<and> w_State w = w_State v"
    using fw fv by (intro NUL_split) blast+
  show ?thesis using 2 3 4 5 by (simp add: key_of_def keyLifecycle_def keyRemove_def)
qed

definition demo_wl :: "string \<Rightarrow> Workload" where
  "demo_wl st = Workload0\<lparr>w_ID := ''1'', w_Model := ''m'', w_Engine := ''ollama'', w_RunID := ''r1'', w_State := st,
     w_OriginatedFrom := ''a'', w_CreatedAt := 100\<rparr>"

theorem keyLifecycle_injective_witness:
  "key_of (demo_wl ''running'') = key_of ((demo_wl ''running'')\<lparr>w_CreatedAt := 7\<rparr>)"
  using keyLifecycle_injective [of "demo_wl ''running''" "(demo_wl ''running'')\<lparr>w_CreatedAt := 7\<rparr>"]
  by (simp add: NUL_free_def demo_wl_def Workload0_def keyLifecycle_def)

lemma resync_frame:
  assumes "clean_params kvs" and "parseLifecycle (Some (JObj kvs)) = Inr w"
  shows "\<exists>p. broadcastResync meth (Some (JObj kvs)) = Returns (meth, Some p) \<and>
    parseLifecycle (Some p) = Inr w \<and>
    handleLifecycle True (Some p) d = (d, \<lparr>status = 200, emitted = [EmitUpsert w]\<rparr>)"
proof (intro exI conjI)
  let ?p = "JObj (tagged kvs)"
  note t = tagged_map [OF assms(1)]
  have k: "\<And>k. k \<in> set (mkeys kvs) \<Longrightarrow> fold_name k = fold_name ''workloadInfo'' \<Longrightarrow> k = ''workloadInfo''" "wf_map kvs"
    using assms(1) by (auto simp: clean_params_def list_all_iff)
  have "dec_struct lifecycle_fields ?p None = dec_struct lifecycle_fields (JObj kvs) None"
    using dec_lifecycle [OF k(2) k(1)] dec_lifecycle [OF t(1)] t(2,3) by simp
  then show parse: "parseLifecycle (Some ?p) = Inr w"
    using assms(2) by (simp add: parseLifecycle_def del: dec_struct.simps)
  have "dec_struct resync_fields ?p False = Some True"
    using t by (intro dec_resync) simp_all
  then have "isResyncFrame (Some ?p)" by (simp add: isResyncFrame_def del: dec_struct.simps)
  then show "handleLifecycle True (Some ?p) d = (d, \<lparr>status = 200, emitted = [EmitUpsert w]\<rparr>)"
    by (simp add: handleLifecycle_def parse)
  show "broadcastResync meth (Some (JObj kvs)) = Returns (meth, Some ?p)"
    by (simp add: broadcastResync_def MarshalMap_def tagged_def)
qed

text \<open>
  The heartbeat reaches the broker: the frame that re-asserts a valid lifecycle event is let
  through by every receiver, whatever its duplicate index holds, carries the same workload, and
  leaves the index as it was.
\<close>

theorem resync_bypasses_dedup:
  assumes "clean_params kvs" and "parseLifecycle (Some (JObj kvs)) = Inr w"
  shows "\<exists>p. broadcastResync meth (Some (JObj kvs)) = Returns (meth, Some p) \<and>
    parseLifecycle (Some p) = Inr w \<and>
    handleLifecycle True (Some p) d = (d, \<lparr>status = 200, emitted = [EmitUpsert w]\<rparr>)"
  using assms by (rule resync_frame)

lemma demo_wl_valid: "valid_workload (demo_wl st)" if "st \<noteq> []"
  using that by (simp add: valid_workload_def demo_wl_def Workload0_def in_int64_def)

theorem resync_bypasses_dedup_witness:
  "\<exists>p. broadcastResync ''workload:started'' (Some (wl_params (demo_wl ''running''))) = Returns (''workload:started'', Some p) \<and>
     snd (handleLifecycle True (Some p) (see_all [keyLifecycle (demo_wl ''running'')] (newDedupIndex 5))) =
       \<lparr>status = 200, emitted = [EmitUpsert (demo_wl ''running'')]\<rparr>"
proof -
  have "parseLifecycle (Some (JObj [(''workloadInfo'', marshalWorkload (demo_wl ''running''))])) = Inr (demo_wl ''running'')"
    using parse_wl_params [OF demo_wl_valid] by (simp add: wl_params_def)
  from resync_bypasses_dedup [OF clean_wl_params this, of "''workload:started''"
      "see_all [keyLifecycle (demo_wl ''running'')] (newDedupIndex 5)"]
  show ?thesis unfolding wl_params_def by (metis snd_conv)
qed


definition demo_msg :: "string \<Rightarrow> string \<Rightarrow> Message" where
  "demo_msg meth st = Message0\<lparr>msg_JSONRPC := ''2.0'', msg_Method := meth, msg_Params := Some (wl_params (demo_wl st))\<rparr>"




text \<open>
  C40. A delivery is lost when the broker's pipe fails once: the endpoint records the key before it
  emits, answers 500 so that the peer retries, and then takes the retry for a duplicate: it
  answers 200 and emits nothing.
\<close>

theorem failed_emit_swallows_retry:
  assumes "dedup_inv d" and "parseLifecycle params = Inr w" and "\<not> isResyncFrame params"
    and "keyLifecycle w \<notin> set (dd_ll d)"
  shows "snd (handleLifecycle False params d) = reply 500 \<and>
    snd (handleLifecycle True params (fst (handleLifecycle False params d))) = reply 200"
proof -
  let ?d = "fst (seenOrAdd (keyLifecycle w) d)"
  have first: "handleLifecycle False params d = (?d, reply 500)"
    using assms seenOrAdd_result [OF assms(1), of "keyLifecycle w"]
    by (simp add: handleLifecycle_def split_def)
  have "0 < nat (dd_capacity d)" using assms(1) by (simp add: dedup_inv_def)
  then have "keyLifecycle w \<in> set (dd_ll ?d)"
    by (simp add: seenOrAdd_list [OF assms(1)] take_Cons')
  then have "snd (seenOrAdd (keyLifecycle w) ?d)"
    using seenOrAdd_result [OF seenOrAdd_inv [OF assms(1)]] by blast
  then show ?thesis
    using assms(2,3) by (simp add: first) (simp add: handleLifecycle_def split_def)
qed

theorem failed_emit_swallows_retry_witness:
  "snd (handleLifecycle True (Some (wl_params (demo_wl ''completed'')))
     (fst (handleLifecycle False (Some (wl_params (demo_wl ''completed''))) (newDedupIndex 5)))) = reply 200"
proof -
  have "\<not> isResyncFrame (Some (wl_params (demo_wl ''completed'')))"
    using find_resync [of "''workloadInfo''"] resync_not_info
    by (simp add: isResyncFrame_def wl_params_def split: option.splits)
  moreover have "keyLifecycle (demo_wl ''completed'') \<notin> set (dd_ll (newDedupIndex 5))"
    by (simp add: newDedupIndex_def)
  ultimately show ?thesis
    using failed_emit_swallows_retry [OF newDedupIndex_inv parse_wl_params [OF demo_wl_valid]] by simp
qed

definition complete :: "broker_msg \<Rightarrow> bool" where
  "complete b =
     (case b of
        EmitUpsert w \<Rightarrow> w_ID w \<noteq> [] \<and> w_Model w \<noteq> [] \<and> w_Engine w \<noteq> [] \<and> w_State w \<noteq> [] \<and> w_OriginatedFrom w \<noteq> []
      | EmitRemove wid node \<Rightarrow> wid \<noteq> [])"

lemma parseLifecycle_complete: "parseLifecycle p = Inr w \<Longrightarrow> complete (EmitUpsert w)"
  by (auto simp: parseLifecycle_def complete_def split: option.splits if_splits)

lemma parseRemove_complete: "parseRemove p = Inr (wid, node) \<Longrightarrow> complete (EmitRemove wid node)"
  by (auto simp: parseRemove_def complete_def split: option.splits if_splits)

lemma handleLifecycle_outcome:
  assumes "handleLifecycle ok p d = (d', r)"
  shows "(emitted r = [] \<or> (\<exists>b. emitted r = [b] \<and> complete b \<and> status r = 200)) \<and> (status r = 400 \<longrightarrow> d' = d)"
  using assms parseLifecycle_complete [of p]
  by (auto simp: handleLifecycle_def reply_def split_def Let_def split: sum.splits if_splits)

lemma handleRemove_outcome:
  assumes "handleRemove ok p d = (d', r)"
  shows "(emitted r = [] \<or> (\<exists>b. emitted r = [b] \<and> complete b \<and> status r = 200)) \<and> (status r = 400 \<longrightarrow> d' = d)"
  using assms parseRemove_complete [of p]
  by (auto simp: handleRemove_def reply_def split_def Let_def split: sum.splits if_splits)

text \<open>
  C37. Nothing reaches the broker except through the gate: whatever is posted, at most one message is
  emitted, only for a pinned peer's POST, only with every required field present, and a request
  that is refused leaves the duplicate index untouched.
\<close>

theorem handleEvents_gate:
  assumes "handleEvents ok q d = (d', r)"
  shows "(emitted r = [] \<or> (\<exists>b. emitted r = [b] \<and> complete b \<and> status r = 200 \<and> rq_pinned q \<and> rq_Method q = ''POST'')) \<and>
    (status r \<in> {400, 403, 405} \<longrightarrow> d' = d)"
proof (cases "rq_pinned q \<and> rq_Method q = ''POST''")
  case False
  then show ?thesis using assms by (auto simp: handleEvents_def reply_def split: if_splits)
next
  case True
  have "status (snd (handleLifecycle ok p d)) \<noteq> 403 \<and> status (snd (handleLifecycle ok p d)) \<noteq> 405 \<and>
      status (snd (handleRemove ok p d)) \<noteq> 403 \<and> status (snd (handleRemove ok p d)) \<noteq> 405" for p
    by (simp add: handleLifecycle_def handleRemove_def reply_def split_def Let_def split: sum.splits)
  then show ?thesis
    using assms True handleLifecycle_outcome handleRemove_outcome
    by (auto simp: handleEvents_def reply_def split: if_splits option.splits) (metis snd_conv)+
qed

theorem handleEvents_gate_witness:
  "fst (handleEvents True \<lparr>rq_pinned = False, rq_Method = ''POST'', rq_Body = None\<rparr> (newDedupIndex 5)) = newDedupIndex 5"
  using handleEvents_gate [of True "\<lparr>rq_pinned = False, rq_Method = ''POST'', rq_Body = None\<rparr>" "newDedupIndex 5"]
  by (simp add: handleEvents_def reply_def)

fun posts :: "delivery list \<Rightarrow> string list" where
  "posts [] = []"
| "posts (Post hp # ds) = hp # posts ds"
| "posts (_ # ds) = posts ds"

lemma posts_append: "posts (xs @ ys) = posts xs @ posts ys"
  by (induction xs rule: posts.induct) simp_all

lemma deliver_from_length: "length (posts (deliver_from left n delay env)) \<le> left"
  by (induction left arbitrary: n delay) (simp_all add: Let_def posts_append split: post_result.splits)

lemma deliver_from_pinned:
  assumes "hp \<in> set (posts (deliver_from left n delay env))"
  shows "\<exists>i. n \<le> i \<and> i < n + left \<and> hp = at_hostport (env i) \<and> at_pinned (env i) \<and> \<not> at_cancelled (env i)"
  using assms
proof (induction left arbitrary: n delay)
  case (Suc left)
  have go: "\<not> at_cancelled (env n)" "at_pinned (env n)"
    using Suc.prems by (auto simp: Let_def split: if_splits)
  have "posts (deliver_from (Suc left) n delay env) = at_hostport (env n) # posts (deliver_from left (n + 1) (delay * 2) env) \<or>
      posts (deliver_from (Suc left) n delay env) = [at_hostport (env n)]"
    using go by (simp add: Let_def posts_append split: post_result.splits)
  then consider "hp = at_hostport (env n)" | "hp \<in> set (posts (deliver_from left (n + 1) (delay * 2) env))"
    using Suc.prems by (metis empty_iff empty_set set_ConsD)
  then show ?case
  proof cases
    case 1
    then show ?thesis using go by (intro exI [of _ n]) simp
  next
    case 2
    from Suc.IH [OF this] obtain i where "n + 1 \<le> i" "i < n + 1 + left" "hp = at_hostport (env i)" "at_pinned (env i)"
      "\<not> at_cancelled (env i)" by blast
    then show ?thesis by (intro exI [of _ i]) simp
  qed
qed simp

text \<open>
  Delivery to one peer is bounded and never leaves the cluster: at most three posts, each to
  the address chosen for an attempt at which the peer was still pinned and the round not
  cancelled; a peer that loses its pin between attempts gets nothing more.
\<close>

theorem deliver_bounded:
  "length (posts (deliver env)) \<le> 3 \<and>
   (\<forall>hp \<in> set (posts (deliver env)).
      \<exists>i \<in> {1, 2, 3}. hp = at_hostport (env i) \<and> at_pinned (env i) \<and> \<not> at_cancelled (env i))"
proof (intro conjI ballI)
  show "length (posts (deliver env)) \<le> 3"
    unfolding deliver_def maxBroadcastAttempts_def by (rule deliver_from_length)
  fix hp assume "hp \<in> set (posts (deliver env))"
  then obtain i where "1 \<le> i" "i < 1 + 3" "hp = at_hostport (env i)" "at_pinned (env i)" "\<not> at_cancelled (env i)"
    unfolding deliver_def maxBroadcastAttempts_def using deliver_from_pinned by blast
  moreover from this have "i \<in> {1, 2, 3}" by auto
  ultimately show "\<exists>i \<in> {1, 2, 3}. hp = at_hostport (env i) \<and> at_pinned (env i) \<and> \<not> at_cancelled (env i)"
    by blast
qed

definition demo_attempt :: attempt where
  "demo_attempt = \<lparr>at_cancelled = False, at_pinned = True, at_hostport = ''10.0.0.2:14320'', at_post = PostFailed,
     at_wait_cancelled = False\<rparr>"

theorem deliver_bounded_witness:
  "length (posts (deliver (\<lambda>_. demo_attempt))) \<le> 3"
  using deliver_bounded [of "\<lambda>_. demo_attempt"] by blast

subsection \<open>Targets\<close>

text \<open>A directory entry whose addresses are distinct valid literals.\<close>

definition good_entry :: "DirectoryNode \<Rightarrow> bool" where
  "good_entry n \<longleftrightarrow> d_HostUUID n \<noteq> [] \<and> distinct (CandidateIPs n) \<and> (\<forall>x \<in> set (CandidateIPs n). ParseIP x \<noteq> None)"

definition entry_for :: "int \<Rightarrow> DirectoryNode \<Rightarrow> ServiceStatus \<Rightarrow> peerEntry" where
  "entry_for defaultPort n svc =
     \<lparr>pe_candidates = map (\<lambda>a. JoinHostPort a (Itoa (if ss_Port svc = 0 then defaultPort else ss_Port svc))) (take 4 (CandidateIPs n)),
      pe_uuid = (if d_ClusterUUID n = [] then [] else TrimSpace (d_ClusterUUID n))\<rparr>"

lemma peer_entry_projected:
  assumes "good_entry n" and "directoryToPeerNode n = Some pn"
  shows "\<exists>svc. nget (d_Services n) ServiceWorkload = Some svc \<and>
    peer_entry defaultPort pn = [(d_HostUUID n, entry_for defaultPort n svc)]"
proof -
  obtain svc where svc: "nget (d_Services n) ServiceWorkload = Some svc" and ips: "CandidateIPs n \<noteq> []"
    and pn: "pn = \<lparr>pn_ID = d_HostUUID n, pn_Host = d_Name n, pn_Addresses = CandidateIPs n, pn_Port = ss_Port svc,
             pn_TXT = AddressTXT n @ (if d_ClusterUUID n \<noteq> [] then [kv ClusterUUIDTXTKey (d_ClusterUUID n)] else [])\<rparr>"
    using assms(2) by (auto simp: directoryToPeerNode_def split: option.splits if_splits)
  have "Candidates (pn_TXT pn) (pn_Addresses pn) = take 4 (CandidateIPs n)"
    unfolding pn using assms(1) by (simp add: Candidates_AddressTXT no_addr_cluster good_entry_def del: if_not_P)
  then have "pn_addresses pn = take 4 (CandidateIPs n)" "take 4 (CandidateIPs n) \<noteq> []"
    using ips by (simp_all add: pn_addresses_def Let_def)
  then show ?thesis
    using svc assms(1) ClusterUUID_projected [of n]
    by (simp add: peer_entry_def Let_def entry_for_def pn good_entry_def)
qed

lemma relay_entry_cases:
  "relay_entry r n = [] \<or> (\<exists>pn. relay_entry r n = [(d_HostUUID n, pn)] \<and> directoryToPeerNode n = Some pn \<and> d_HostUUID n \<noteq> rs_selfUUID r)"
  by (auto simp: relay_entry_def isSelf_def split: option.splits)

lemma relay_entries_keys:
  "map fst (concat (map (relay_entry r) nodes)) = map d_HostUUID (filter (\<lambda>n. relay_entry r n \<noteq> []) nodes)"
proof (induction nodes)
  case (Cons n nodes)
  then show ?case using relay_entry_cases [of r n] by auto
qed simp

lemma relay_entries_iff:
  "(u, pn) \<in> set (concat (map (relay_entry r) nodes)) \<longleftrightarrow>
     (\<exists>n \<in> set nodes. d_HostUUID n = u \<and> u \<noteq> rs_selfUUID r \<and> directoryToPeerNode n = Some pn)"
proof -
  have "(u, pn) \<in> set (relay_entry r n) \<longleftrightarrow> d_HostUUID n = u \<and> u \<noteq> rs_selfUUID r \<and> directoryToPeerNode n = Some pn" for n
    by (auto simp: relay_entry_def isSelf_def split: option.splits)
  then show ?thesis by simp
qed

lemma singleton_entries:
  assumes "\<And>k v. (k, v) \<in> set m \<Longrightarrow> f v = [(k, g v)]"
  shows "concat (map f (mvals m)) = map (\<lambda>(k, v). (k, g v)) m"
  using assms
proof (induction m)
  case (Cons kv m)
  obtain k v where "kv = (k, v)" by (cases kv)
  then show ?case using Cons.IH Cons.prems by (simp add: mvals_def)
qed (simp add: mvals_def)

lemma directoryToPeerNode_None:
  "directoryToPeerNode n = None \<longleftrightarrow> nget (d_Services n) ServiceWorkload = None \<or> CandidateIPs n = []"
  by (auto simp: directoryToPeerNode_def split: option.splits)

text \<open>
  Who is addressed: after a directory snapshot and a refresh, the targets are exactly the other
  nodes that advertise a workload manager and an address, one target per node identity even when
  names collide, never this node itself, each with its own published addresses in its own order,
  its advertised port and its cluster identity.
\<close>

theorem targets_exact:
  assumes nodes: "distinct (map d_HostUUID nodes)" and good: "\<forall>n \<in> set nodes. good_entry n"
    and p': "p' = fst (Replace (Nodes (relay_set nodes r)) p)"
  shows "mget (ps_peers p') u = Some e \<longleftrightarrow>
    (\<exists>n svc. n \<in> set nodes \<and> d_HostUUID n = u \<and> u \<noteq> rs_selfUUID r \<and> CandidateIPs n \<noteq> [] \<and>
       nget (d_Services n) ServiceWorkload = Some svc \<and> e = entry_for (ps_defaultPort p) n svc)"
proof -
  let ?R = "concat (map (relay_entry r) nodes)"
  let ?M = "mputs ?R []"
  let ?dp = "ps_defaultPort p"
  have wfR: "wf_map ?R"
    unfolding wf_map_def relay_entries_keys using nodes by (rule distinct_map_filter)
  have M: "wf_map ?M" "set ?M = set ?R"
  proof -
    show "wf_map ?M" by (simp add: wf_mputs)
    then have "same_map ?M ?R"
      using wfR by (auto simp: same_map_def mget_mputs [OF wfR] fun_eq_iff split: option.splits)
    then show "set ?M = set ?R" by (rule same_map_set)
  qed
  have ent: "peer_entry ?dp pn = [(k, snd (hd (peer_entry ?dp pn)))]" if kp: "(k, pn) \<in> set ?M" for k pn
  proof -
    obtain n where n: "n \<in> set nodes" "d_HostUUID n = k" "directoryToPeerNode n = Some pn"
      using kp unfolding M(2) relay_entries_iff by blast
    then show ?thesis using peer_entry_projected [of n pn ?dp] good by auto
  qed
  let ?E = "map (\<lambda>(k, pn). (k, snd (hd (peer_entry ?dp pn)))) ?M"
  have E: "concat (map (peer_entry ?dp) (mvals ?M)) = ?E" by (rule singleton_entries [OF ent])
  have wfE: "wf_map ?E" using M(1) by (simp add: wf_map_def comp_def split_def)
  have "mget (ps_peers p') u = mget ?E u"
    by (simp add: p' Replace_def Nodes_def relay_set_def Let_def E mget_mputs [OF wfE] split: option.splits)
  then have "mget (ps_peers p') u = Some e \<longleftrightarrow> (u, e) \<in> set ?E"
    using mget_in_set [OF wfE] by simp
  also have "\<dots> \<longleftrightarrow> (\<exists>pn n. n \<in> set nodes \<and> d_HostUUID n = u \<and> u \<noteq> rs_selfUUID r \<and> directoryToPeerNode n = Some pn \<and>
      e = snd (hd (peer_entry ?dp pn)))"
  proof -
    have "(u, e) \<in> set ?E \<longleftrightarrow> (\<exists>pn. (u, pn) \<in> set ?R \<and> e = snd (hd (peer_entry ?dp pn)))"
      unfolding M(2) [symmetric] by (force simp: image_iff)
    then show ?thesis unfolding relay_entries_iff by blast
  qed
  also have "\<dots> \<longleftrightarrow> (\<exists>n svc. n \<in> set nodes \<and> d_HostUUID n = u \<and> u \<noteq> rs_selfUUID r \<and> CandidateIPs n \<noteq> [] \<and>
       nget (d_Services n) ServiceWorkload = Some svc \<and> e = entry_for ?dp n svc)" (is "?a \<longleftrightarrow> ?b")
  proof
    assume ?a
    then obtain pn n where n: "n \<in> set nodes" "d_HostUUID n = u" "u \<noteq> rs_selfUUID r" "directoryToPeerNode n = Some pn"
      "e = snd (hd (peer_entry ?dp pn))" by blast
    have "CandidateIPs n \<noteq> []" using n(4) directoryToPeerNode_None [of n] by simp
    moreover obtain svc where "nget (d_Services n) ServiceWorkload = Some svc" "peer_entry ?dp pn = [(d_HostUUID n, entry_for ?dp n svc)]"
      using peer_entry_projected [OF _ n(4), of ?dp] good n(1) by blast
    ultimately show ?b using n by auto
  next
    assume ?b
    then obtain n svc where n: "n \<in> set nodes" "d_HostUUID n = u" "u \<noteq> rs_selfUUID r" "CandidateIPs n \<noteq> []"
      "nget (d_Services n) ServiceWorkload = Some svc" "e = entry_for ?dp n svc" by blast
    then obtain pn where pn: "directoryToPeerNode n = Some pn" using directoryToPeerNode_None [of n] by auto
    then have "e = snd (hd (peer_entry ?dp pn))" using peer_entry_projected [OF _ pn, of ?dp] good n by auto
    then show ?a using n pn by blast
  qed
  finally show ?thesis .
qed

definition demo_peer :: DirectoryNode where
  "demo_peer = DirectoryNode0\<lparr>d_HostUUID := ''p'', d_IP := ''10.0.0.2'', d_Services := Some [(''wl'', \<lparr>ss_Port = 14320, ss_Probe = []\<rparr>)]\<rparr>"

theorem targets_exact_witness:
  "mget (ps_peers (fst (Replace (Nodes (relay_set [demo_peer] \<lparr>rs_selfUUID = ''self'', rs_peers = []\<rparr>)) \<lparr>ps_defaultPort = 1, ps_peers = []\<rparr>))) ''p'' =
     Some (entry_for 1 demo_peer \<lparr>ss_Port = 14320, ss_Probe = []\<rparr>)"
proof -
  have ips: "CandidateIPs demo_peer = [''10.0.0.2'']"
    by (simp add: demo_peer_def CandidateIPs_def DirectoryNode0_def)
  have "ParseIP ''10.0.0.2'' \<noteq> None" by code_simp
  then have "\<forall>n \<in> set [demo_peer]. good_entry n"
    using ips by (simp add: good_entry_def) (simp add: demo_peer_def)
  moreover have "distinct (map d_HostUUID [demo_peer])" by simp
  ultimately show ?thesis
    using targets_exact [of "[demo_peer]" _ "\<lparr>rs_selfUUID = ''self'', rs_peers = []\<rparr>" "\<lparr>ps_defaultPort = 1, ps_peers = []\<rparr>"] ips
    by (simp add: nget_def ServiceWorkload_def) (simp add: demo_peer_def mget_def)
qed

end
