(* ===== verification/Spec2Isabelle.thy ===== *)
theory Spec2Isabelle
  imports ClusterRemoval ErrorsStore BrokerDirectory Pipeline WorkloadManager
begin

text \<open>
  \<^bold>\<open>A verification development for yardmaster\<close>

  Yardmaster joins the machines of a local network into one pool for inference. Every machine runs a
  broker (\<open>nvpair-ui-broker\<close>) that supervises a set of worker processes and talks JSON-RPC to them over
  pipes: the node scanner, the workload manager, the job scheduler, the error registry, the cluster manager,
  the manual-nodes worker and the inference proxies. Machines talk to each other over HTTPS with pinned
  certificates. All paths below are under \<open>src/services/\<close>.

  \<^bold>\<open>Parts and interactions.\<close> A proxy reports what it runs as workload events to its broker. The broker
  merges them into its workload store, passes them to the job scheduler, which ranks the nodes, and to the
  workload manager, which broadcasts them to the peers and re-asserts them on a heartbeat. The peers' workload
  managers check the sender's pin, drop duplicates and hand the events to their own brokers. The scanner and the
  manual-nodes worker feed the broker's node directory, which is relayed to the workers and turned into
  priorities for the proxies. The error registry replicates each machine's errors to the others. The cluster
  manager decides which peers are pinned; it writes the files that \<open>shared/clustertrust\<close> reads in every
  other worker.

  \<^bold>\<open>Library.\<close>
  \<^item> \<open>Prelude\<close>: Go maps (\<open>gomap\<close>, an association list whose order stands for the iteration order),
    \<open>sort.Slice\<close>, 64-bit wrap-around, times and durations. \<open>GoStrings\<close>, \<open>GoNet\<close>, \<open>GoJson\<close>: the parts of
    \<open>strings\<close>, \<open>strconv\<close>, \<open>net\<close> and \<open>encoding/json\<close> the code uses. \<open>Float64\<close>: rounding of binary64 sums and
    products.
  \<^item> \<open>Registers\<close>: a locale for stores whose entries are merged one by one; convergence of such merges under
    reordering is proved once there and interpreted on the workload store and on the error registry.
  \<^item> \<open>Deliveries\<close>: a locale for values handed over by goroutines that run after a lock is released; it is
    interpreted on the directory relay and on the priority delivery of the broker.

  \<^bold>\<open>Components\<close>, with the code they model.
  \<^item> \<open>JsonRpc\<close>: \<open>shared/jsonrpc/jsonrpc.go\<close>, frames and the log level. \<open>NodeRec\<close>: \<open>shared/noderec\<close>, the
    advertised record and the directory node; what is advertised is read back. \<open>NetPick\<close>: \<open>shared/netpick\<close>, the
    addresses to dial and to publish.
  \<^item> \<open>WorkloadStore\<close>, \<open>WorkloadPersist\<close>: \<open>nvpair-ui-broker/workloadstore\<close>. The merge of an event follows an
    abstract rule on ranks, authoritative events converge in any order, a terminal record is never
    resurrected, guesses are reconciled; a clean store is on disk, and a store loaded after any failures is
    well formed and bounded.
  \<^item> \<open>Scheduler\<close>: \<open>nvpair-job-scheduler\<close>. Nodes, catalog, GPU pressure with its decay in binary64, ranking and
    emission; the ranking is exact and every notification leaves the emitted schedules current.
  \<^item> \<open>BrokerWorkloads\<close>: the workload half of \<open>nvpair-ui-broker/broker.go\<close>. \<open>Pipeline\<close>: broker and scheduler
    as one system; the scheduler counts what the store holds.
  \<^item> \<open>WorkloadManager\<close>: \<open>nvpair-workload-manager\<close>. The duplicate index refines a least-recently-used
    list, frames of the heartbeat bypass it, the endpoint only lets pinned peers in.
  \<^item> \<open>ClusterTrust\<close>: \<open>shared/clustertrust\<close>. An accepted peer is pinned on disk, a teardown closes every
    gate, a pooled client presents and checks current certificates.
  \<^item> \<open>Reach\<close>: \<open>shared/reach\<close>, \<open>shared/nodeactivity\<close>. Probes of addresses and their cache under
    interleaving.
  \<^item> \<open>ErrorsStore\<close>: \<open>nvpair-errors\<close>. Store, handler and replication to the peers.
  \<^item> \<open>BrokerDirectory\<close>: \<open>discovery.go\<close>, \<open>manualnodes.go\<close>, \<open>telemetry.go\<close>, \<open>relay/relay.go\<close> and the
    priority delivery of \<open>nvpair-ui-broker\<close>. The manual claims are exact, subscribers end with the current
    set, a ready proxy ends with the latest priority, a node is lost exactly when no source claims it.
  \<^item> \<open>ClusterRoster\<close>: \<open>nvpair-cluster-manager\<close>: \<open>endorsement.go\<close>, \<open>truststore.go\<close>, \<open>tombstone_store.go\<close>,
    \<open>removal_proof_store.go\<close>, \<open>admission_store.go\<close>, \<open>membership.go\<close>, \<open>roster.go\<close>. Merging rosters ends,
    every pin is vouched for by a chain of signatures, and a removal is never undone.
  \<^item> \<open>ClusterRemoval\<close>: \<open>remove.go\<close>, \<open>leave.go\<close>, \<open>teardown_store.go\<close>, \<open>mtls.go\<close>, \<open>membership_store.go\<close> and the
    start-up of \<open>manager.go\<close>, with the verdict of \<open>roster_http.go\<close>. An interrupted teardown is completed, a
    removed peer stays out, a start lists only pinned peers, admission epochs are never reused.
  \<^item> This theory: a heartbeat frame from one machine to another, from the sender's marshalling to the
    receiver's store.

  \<^bold>\<open>How code becomes definitions.\<close> A struct is a record whose fields carry a prefix, a handler is a
  function from the state (and the inputs it reads) to the new state and its outputs, an error is \<open>None\<close>, a
  constructor or a flag. A critical section is one step: where a handler releases its lock, the model has
  one definition per section and the theorems let other steps come between. The clock is an argument. Words
  are used where overflow matters (admission epochs, generations); \<open>int64\<close> values are integers with the
  wrap-around written out. File writes are atomic, as \<open>atomicWrite\<close> makes them; each write or deletion may
  fail, and a crash is a run of failures up to the end.

  \<^bold>\<open>Parameters.\<close> The X.509 and PEM parsers, Ed25519, SHA-256 and Base64 (\<open>x509\<close>, \<open>crypto\<close>), dialling and
  HTTP answers (\<open>dialer\<close>, \<open>net\<close>), the network interfaces, and whether a compiler fuses a multiplication with an
  addition. Theorems hold for every choice of them unless a hypothesis says otherwise.

  \<^bold>\<open>Bounds.\<close> Generations of the relay and of the priorities are 64-bit counters and taken not to wrap;
  time differences are below 292 years, the range of \<open>time.Duration\<close>. The one loop without a static bound
  (\<open>applyMembers\<close>) is a \<open>partial_function\<close> that is proved to return.

  \<^bold>\<open>Not modelled.\<close> Process supervision, pipes and restarts in the broker, and the forwarding of client
  requests, which are I/O; port allocation, which depends on the operating system; the pairing protocol and
  invites (\<open>eap-noob\<close>, \<open>pairing.go\<close>, \<open>respond.go\<close>), which are key exchange over HTTP; mDNS and probing in
  the scanner; the engine manager, which drives external programs; the bodies of proxied inference requests;
  the terminal UI; the certificate and key handling of TLS itself.
\<close>

section \<open>Across components\<close>

subsection \<open>A heartbeat from one node to another\<close>

text \<open>
  The body of a peer request, as \<open>Manager.broadcastFrame\<close> marshals it, and what the workload
  manager tells its broker (\<open>emitUpsert\<close>, \<open>emitRemove\<close>).
\<close>

definition frame_body :: "string \<Rightarrow> raw \<Rightarrow> json" where
  "frame_body meth params =
     JObj ([(''jsonrpc'', JStr ''2.0''), (''method'', JStr meth)] @
           (case params of None \<Rightarrow> [] | Some p \<Rightarrow> [(''params'', p)]))"

definition notify_broker :: "broker_msg \<Rightarrow> string \<times> raw" where
  "notify_broker msg =
     (case msg of
        EmitUpsert w \<Rightarrow> (MethodUpsert, Some (JObj [(''workloadInfo'', marshalWorkload w)]))
      | EmitRemove wid origin \<Rightarrow>
          (MethodRemove, Some (JObj [(''workloadId'', JStr wid), (''originatedFrom'', JStr origin)])))"

text \<open>A workload as the receiving store reads it.\<close>

definition incoming_of :: "Workload \<Rightarrow> Incoming" where
  "incoming_of w = \<lparr>i_Origin = w_OriginatedFrom w, i_Engine = w_Engine w, i_RunID = w_RunID w, i_ID = w_ID w,
     i_State = w_State w, i_CreatedAt = w_CreatedAt w,
     i_CompletedAt = (case w_CompletedAt w of None \<Rightarrow> 0 | Some c \<Rightarrow> c), i_ScheduledOn = w_ScheduledOn w,
     i_Info = Some (marshalWorkload w)\<rparr>"

lemma fold_names_other:
  "find_field header_fields ''model'' = None" "find_field header_fields ''startedAt'' = None"
  "find_field header_fields ''requesterId'' = None"
  by code_simp+

lemma header_finds:
  "find_field header_fields ''id'' = Some (\<lambda>j r. map_option (\<lambda>v. r\<lparr>h_ID := v\<rparr>) (dec_string j (h_ID r)))"
  "find_field header_fields ''engine'' = Some (\<lambda>j r. map_option (\<lambda>v. r\<lparr>h_Engine := v\<rparr>) (dec_string j (h_Engine r)))"
  "find_field header_fields ''runId'' = Some (\<lambda>j r. map_option (\<lambda>v. r\<lparr>h_RunID := v\<rparr>) (dec_string j (h_RunID r)))"
  "find_field header_fields ''originatedFrom'' =
     Some (\<lambda>j r. map_option (\<lambda>v. r\<lparr>h_OriginatedFrom := v\<rparr>) (dec_string j (h_OriginatedFrom r)))"
  "find_field header_fields ''scheduledOn'' =
     Some (\<lambda>j r. map_option (\<lambda>v. r\<lparr>h_ScheduledOn := v\<rparr>) (dec_string j (h_ScheduledOn r)))"
  "find_field header_fields ''createdAt'' =
     Some (\<lambda>j r. map_option (\<lambda>v. r\<lparr>h_CreatedAt := v\<rparr>) (dec_int64 j (h_CreatedAt r)))"
  by (simp_all add: header_fields_def json_simps)

lemma ParseIncoming_marshalWorkload:
  assumes "valid_workload w"
  shows "ParseIncoming (Some (marshalWorkload w)) = Some (incoming_of w)"
proof -
  have c: "dec_ptr dec_int64 0 (marshal_ptr JInt (w_CompletedAt w)) None = Some (w_CompletedAt w)"
    using assms by (intro dec_marshal_ptr) (simp add: valid_workload_def)
  have "dec_struct header_fields (marshalWorkload w) header0 =
      Some \<lparr>h_ID = w_ID w, h_Engine = w_Engine w, h_RunID = w_RunID w, h_State = w_State w,
        h_OriginatedFrom = w_OriginatedFrom w, h_ScheduledOn = w_ScheduledOn w, h_CreatedAt = w_CreatedAt w,
        h_CompletedAt = w_CompletedAt w\<rparr>"
    using assms c
    by (simp add: marshalWorkload_def header0_def fold_names_other header_finds dec_members_append valid_workload_def)
  then show ?thesis
    using assms by (simp add: ParseIncoming_def incoming_of_def valid_workload_def del: dec_struct.simps)
qed

lemma frame_decodes:
  "Unmarshal (dec_struct message_fields) Message0 (Some (frame_body meth (Some p))) =
     Some (Message0\<lparr>msg_JSONRPC := ''2.0'', msg_Method := meth, msg_Params := Some p\<rparr>)"
  by (simp add: frame_body_def message_fields_def json_simps dec_raw_def)

text \<open>
  C2. A wrong guess heals. As long as the origin tracks a workload, every heartbeat sends a frame for
  it; a peer that has the sender pinned accepts that frame whatever its duplicate index holds, and
  tells its broker; and a store that holds nothing authoritative against it, in particular
  one that had guessed the workload failed, then shows exactly the origin's workload object.
\<close>

theorem heartbeat_heals_guess:
  assumes "manager_inv m" and "mget (m_activeLocal m) k = Some ev" and "\<not> expired now ev"
    and "we_params ev = Some (JObj kvs)" and "clean_params kvs" and "parseLifecycle (we_params ev) = Inr w"
    and "valid_workload w"
    and "open_to (incoming_of w) (mget (s_records (b_workloads b)) (keyOf (incoming_of w)))"
  shows "\<exists>p. Returns (we_method ev, Some p) \<in> set (snd (broadcastSnapshot now m)) \<and>
    handleEvents True \<lparr>rq_pinned = True, rq_Method = ''POST'', rq_Body = Some (frame_body (we_method ev) (Some p))\<rparr> d =
      (d, \<lparr>status = 200, emitted = [EmitUpsert w]\<rparr>) \<and>
    map_option view_r (mget (s_records (b_workloads (fst (forwardWorkloadManagerNotification t
        (fst (notify_broker (EmitUpsert w))) (snd (notify_broker (EmitUpsert w))) b)))) (keyOf (incoming_of w))) =
      Some (view_i False (incoming_of w))"
proof -
  obtain p where p: "broadcastResync (we_method ev) (we_params ev) = Returns (we_method ev, Some p)"
    "handleLifecycle True (Some p) d = (d, \<lparr>status = 200, emitted = [EmitUpsert w]\<rparr>)"
    using resync_frame [OF assms(5), of w "we_method ev" d] assms(4,6) by auto
  have wf: "wf_map (m_activeLocal m)" using assms(1) by (simp add: manager_inv_def)
  have "mget (mkeep (\<lambda>k ev. \<not> expired now ev) (m_activeLocal m)) k = Some ev"
    using assms(2,3) by (simp add: mget_mkeep [OF wf])
  then have "ev \<in> set (mvals (mkeep (\<lambda>k ev. \<not> expired now ev) (m_activeLocal m)))"
    using mvals_iff [OF wf_mkeep [OF wf]] by blast
  then have sent: "Returns (we_method ev, Some p) \<in> set (snd (broadcastSnapshot now m))"
    by (simp add: broadcastSnapshot_def activeSnapshot_def Let_def) (rule rev_image_eqI, assumption, simp add: p(1))
  have "isLifecycleMethod (we_method ev)"
    using assms(1,2) by (auto simp: manager_inv_def event_ok_def)
  then have accepted: "handleEvents True \<lparr>rq_pinned = True, rq_Method = ''POST'', rq_Body = Some (frame_body (we_method ev) (Some p))\<rparr> d =
      (d, \<lparr>status = 200, emitted = [EmitUpsert w]\<rparr>)"
    using frame_decodes [of "we_method ev" p] p(2) by (simp add: handleEvents_def)
  have parse: "ParseIncoming (Some (marshalWorkload w)) = Some (incoming_of w)"
    by (rule ParseIncoming_marshalWorkload [OF assms(7)])
  have "fst (forwardWorkloadManagerNotification t (fst (notify_broker (EmitUpsert w))) (snd (notify_broker (EmitUpsert w))) b) =
      b\<lparr>b_workloads := fst (Apply t (incoming_of w) (b_workloads b))\<rparr>"
    by (simp add: notify_broker_def MethodUpsert_def forwardWorkloadManagerNotification_def emitWorkloadEvent_def
        emit_outcome applyWorkloadEvent_def parse split_beta)
  then have "map_option view_r (mget (s_records (b_workloads (fst (forwardWorkloadManagerNotification t
        (fst (notify_broker (EmitUpsert w))) (snd (notify_broker (EmitUpsert w))) b)))) (keyOf (incoming_of w))) =
      Some (view_i False (incoming_of w))"
    using ParseIncoming_SomeD(2) [OF parse] open_to_accept [OF assms(8)] by (simp add: Apply_get auth_step_def)
  then show ?thesis using sent accepted by blast
qed

text \<open>The peer's store held the running workload and had guessed that it failed.\<close>

definition guessing_broker :: Broker where
  "guessing_broker = demo_broker\<lparr>b_workloads :=
     fst (ApplyInferred 9 (demo ''failed'' ''x'') (fst (Apply 0 (demo ''running'' ''x'') New)))\<rparr>"

definition origin_wl :: Workload where
  "origin_wl = (demo_wl ''running'')\<lparr>w_ScheduledOn := ''x''\<rparr>"

definition origin_manager :: WorkloadManager.Manager where
  "origin_manager = (WorkloadManager.NewManager 14320 ''a'')\<lparr>m_activeLocal :=
     [(key_of origin_wl, \<lparr>we_method = MethodStarted, we_params = Some (wl_params origin_wl), we_terminal = False,
        we_expiresAt = zero_time\<rparr>)]\<rparr>"

theorem heartbeat_heals_guess_witness:
  "map_option r_State (mget (s_records (b_workloads guessing_broker)) (keyOf (incoming_of origin_wl))) = Some ''failed'' \<and>
   map_option view_r (mget (s_records (b_workloads (fst (forwardWorkloadManagerNotification 20
        (fst (notify_broker (EmitUpsert origin_wl))) (snd (notify_broker (EmitUpsert origin_wl))) guessing_broker))))
      (keyOf (incoming_of origin_wl))) = Some (view_i False (incoming_of origin_wl))"
proof -
  have v: "valid_workload origin_wl"
    by (simp add: origin_wl_def valid_workload_def demo_wl_def Workload0_def in_int64_def)
  have p: "parseLifecycle (Some (wl_params origin_wl)) = Inr origin_wl" by (rule parse_wl_params [OF v])
  let ?ev = "\<lparr>we_method = MethodStarted, we_params = Some (wl_params origin_wl), we_terminal = False, we_expiresAt = zero_time\<rparr>"
  have lm: "isLifecycleMethod MethodStarted" "\<not> terminal_state (w_State origin_wl)"
    by (simp_all add: isLifecycleMethod_def lifecycleMethods_def mhas_def mget_def method_defs origin_wl_def demo_wl_def
        Workload0_def terminal_state_def)
  have get: "mget (m_activeLocal origin_manager) (key_of origin_wl) = Some ?ev"
    by (simp add: origin_manager_def mget_Cons)
  have inv: "manager_inv origin_manager"
    using p lm by (auto simp: manager_inv_def origin_manager_def wf_map_def mget_Cons event_ok_def split: if_splits)
  have rec: "mget (s_records (b_workloads guessing_broker)) (keyOf (incoming_of origin_wl)) =
      Some (written 9 (demo ''failed'' ''x'') True (Some (written 0 (demo ''running'' ''x'') False None)))"
    by code_simp
  have op: "open_to (incoming_of origin_wl) (mget (s_records (b_workloads guessing_broker)) (keyOf (incoming_of origin_wl)))"
    unfolding rec open_to_def by (simp add: incoming_of_def origin_wl_def demo_wl_def Workload0_def demo_def)
  have e: "\<not> expired 5 ?ev" "we_params ?ev = Some (JObj [(''workloadInfo'', marshalWorkload origin_wl)])"
    "parseLifecycle (we_params ?ev) = Inr origin_wl"
    using p by (simp_all add: expired_def wl_params_def)
  have "map_option r_State (mget (s_records (b_workloads guessing_broker)) (keyOf (incoming_of origin_wl))) = Some ''failed''"
    unfolding rec by (simp add: demo_def)
  then show ?thesis
    using heartbeat_heals_guess [OF inv get e(1,2) clean_wl_params e(3) v op, of "newDedupIndex 5" 20] by blast
qed

end
